(* ===== verification/Prelude.thy ===== *)
theory Prelude
  imports Main "HOL-Library.Word"
begin

unbundle bit_operations_syntax

text \<open>
  Shared vocabulary of the development: bytes, the faults a C function can run into (a failed
  \<^verbatim>\<open>ASSERT\<close>, a write outside an allocated block, a null dereference, a loop bound of the model
  used up), the sequencing of fallible steps, and writes into a block of memory.
\<close>

section \<open>Bytes and C integers\<close>

type_synonym byte = "8 word"

text \<open>A C \<^verbatim>\<open>int\<close> is a HOL \<^typ>\<open>int\<close>; where the code's arithmetic can leave the 32-bit range the
  wrap-around is written out with \<open>wrap32\<close>.\<close>

definition wrap32 :: "int \<Rightarrow> int" where
  "wrap32 x = sint (word_of_int x :: 32 word)"

lemma wrap32_id [simp]: "- (2 ^ 31) \<le> x \<Longrightarrow> x < 2 ^ 31 \<Longrightarrow> wrap32 x = x"
  by (simp add: wrap32_def signed_of_int signed_take_bit_int_eq_self)

lemma wrap32_mod: "wrap32 x = (x + 2 ^ 31) mod 2 ^ 32 - 2 ^ 31"
  by (simp add: wrap32_def signed_of_int signed_take_bit_eq_take_bit_shift take_bit_eq_mod)

lemma wrap32_overflow:
  assumes "2 ^ 31 \<le> x" "x < 2 ^ 32 + 2 ^ 31"
  shows "wrap32 x = x - 2 ^ 32"
proof -
  have "(x + 2 ^ 31) mod 2 ^ 32 = (x + 2 ^ 31 - 2 ^ 32) mod (2 ^ 32 :: int)"
    by (rule minus_mod_self2 [symmetric])
  also have "\<dots> = x + 2 ^ 31 - 2 ^ 32"
    using assms by (intro mod_pos_pos_trivial) simp_all
  finally show ?thesis by (simp add: wrap32_mod)
qed

text \<open>An \<^verbatim>\<open>int\<close> stored into a \<^verbatim>\<open>short\<close>.\<close>

definition wrap16 :: "int \<Rightarrow> int" where
  "wrap16 n = (n + 2 ^ 15) mod 2 ^ 16 - 2 ^ 15"

lemma wrap32_range: "- (2 ^ 31) \<le> wrap32 x" "wrap32 x < 2 ^ 31"
  using pos_mod_bound [of "2 ^ 32" "x + 2 ^ 31"] pos_mod_sign [of "2 ^ 32" "x + 2 ^ 31"] by (simp_all add: wrap32_mod)

lemma wrap16_range: "- (2 ^ 15) \<le> wrap16 x" "wrap16 x < 2 ^ 15"
  using pos_mod_bound [of "2 ^ 16" "x + 2 ^ 15"] pos_mod_sign [of "2 ^ 16" "x + 2 ^ 15"] by (simp_all add: wrap16_def)

section \<open>Faults and sequencing\<close>

text \<open>
  What the model reports instead of undefined behaviour: \<open>AssertFailed\<close> is an \<^verbatim>\<open>ASSERT\<close> of the
  code (an abort), \<open>BufferOverrun\<close> an access outside a block, \<open>NullDeref\<close> a dereference of
  \<^verbatim>\<open>NULL\<close> or of an object that was freed, \<open>OutOfFuel\<close> a loop that ran longer than the bound the model gives it, \<open>Blocked\<close> a call
  that waits for an event that never comes, \<open>WrongArgument\<close> a \<^verbatim>\<open>va_arg\<close> of a type or number the
  caller did not pass.
\<close>

datatype fault = AssertFailed | BufferOverrun | NullDeref | OutOfFuel | Blocked | WrongArgument

definition rbind :: "fault + 'a \<Rightarrow> ('a \<Rightarrow> fault + 'b) \<Rightarrow> fault + 'b" where
  "rbind m f = (case m of Inl e \<Rightarrow> Inl e | Inr x \<Rightarrow> f x)"

lemma rbind_simps [simp]:
  "rbind (Inl e) f = Inl e"
  "rbind (Inr x) f = f x"
  by (simp_all add: rbind_def)

lemma rbind_Inr_iff: "rbind m f = Inr y \<longleftrightarrow> (\<exists>x. m = Inr x \<and> f x = Inr y)"
  by (cases m) auto

lemma rbind_InrE:
  assumes "rbind m f = Inr y"
  obtains x where "m = Inr x" "f x = Inr y"
  using assms by (auto simp: rbind_Inr_iff)

lemma rbind_cong [fundef_cong]:
  "m = m' \<Longrightarrow> (\<And>x. m' = Inr x \<Longrightarrow> f x = f' x) \<Longrightarrow> rbind m f = rbind m' f'"
  by (cases m') auto

text \<open>An \<^verbatim>\<open>ASSERT\<close> of the code (asserts are compiled in).\<close>

definition c_assert :: "bool \<Rightarrow> fault + unit" where
  "c_assert b = (if b then Inr () else Inl AssertFailed)"

lemma c_assert_simps [simp]:
  "c_assert True = Inr ()"
  "c_assert False = Inl AssertFailed"
  "(c_assert b = Inr u) = b"
  by (simp_all add: c_assert_def)

section \<open>Blocks of memory\<close>

text \<open>\<open>poke mem off bs\<close> is the block after \<open>bs\<close> was stored at offset \<open>off\<close>; \<open>memcpy_to\<close> does it
  where the bytes fit into the block and faults otherwise.\<close>

definition poke :: "'a list \<Rightarrow> nat \<Rightarrow> 'a list \<Rightarrow> 'a list" where
  "poke mem off bs = take off mem @ bs @ drop (off + length bs) mem"

definition memcpy_to :: "'a list \<Rightarrow> nat \<Rightarrow> 'a list \<Rightarrow> fault + 'a list" where
  "memcpy_to mem off bs =
     (if off + length bs \<le> length mem then Inr (poke mem off bs) else Inl BufferOverrun)"

lemma memcpy_to_Inr [simp]:
  "off + length bs \<le> length mem \<Longrightarrow> memcpy_to mem off bs = Inr (poke mem off bs)"
  by (simp add: memcpy_to_def)

lemma length_poke [simp]: "off + length bs \<le> length mem \<Longrightarrow> length (poke mem off bs) = length mem"
  by (simp add: poke_def)

lemma take_poke [simp]: "n \<le> off \<Longrightarrow> off \<le> length mem \<Longrightarrow> take n (poke mem off bs) = take n mem"
  by (simp add: poke_def)

lemma take_poke_end [simp]:
  "off \<le> length mem \<Longrightarrow> n = off + length bs \<Longrightarrow> take n (poke mem off bs) = take off mem @ bs"
  by (simp add: poke_def)

lemma drop_poke_end [simp]:
  "off \<le> length mem \<Longrightarrow> off + length bs \<le> n \<Longrightarrow> drop n (poke mem off bs) = drop n mem"
  by (simp add: poke_def min_def)

lemma poke_0: "poke mem 0 bs = bs @ drop (length bs) mem"
  by (simp add: poke_def)

text \<open>\<^verbatim>\<open>Malloc\<close> with its C \<^verbatim>\<open>int\<close> argument: a negative one becomes a \<^verbatim>\<open>size_t\<close> near \<open>2 ^ 64\<close>, for
  which the allocation fails and the assertion in \<^verbatim>\<open>Malloc\<close> aborts; other requests succeed. The
  contents are unspecified in C and written before they are read; zeros stand for them.\<close>

definition Malloc :: "int \<Rightarrow> fault + byte list" where
  "Malloc n = (if n < 0 then Inl AssertFailed else Inr (replicate (nat n) 0))"

text \<open>Reading one cell of a block.\<close>

definition load :: "'a list \<Rightarrow> nat \<Rightarrow> fault + 'a" where
  "load mem i = (if i < length mem then Inr (mem ! i) else Inl BufferOverrun)"

lemma load_Inr [simp]: "i < length mem \<Longrightarrow> load mem i = Inr (mem ! i)"
  by (simp add: load_def)

text \<open>A C string is a block read up to its first NUL; \<open>chars\<close> are the bytes of a literal.\<close>

definition cstr :: "byte list \<Rightarrow> byte list" where
  "cstr = takeWhile (\<lambda>b. b \<noteq> 0)"

definition chars :: "string \<Rightarrow> byte list" where
  "chars s = List.map of_char s"

lemma cstr_block: "0 \<notin> set bs \<Longrightarrow> cstr (bs @ 0 # rest) = bs"
  by (simp add: cstr_def takeWhile_append)

lemma cstr_id: "0 \<notin> set bs \<Longrightarrow> cstr bs = bs"
  by (auto simp: cstr_def takeWhile_eq_all_conv)

text \<open>The bytes of a block from offset \<open>i\<close> up to (not including) \<open>j\<close>.\<close>

definition slice :: "nat \<Rightarrow> nat \<Rightarrow> 'a list \<Rightarrow> 'a list" where
  "slice i j xs = take (j - i) (drop i xs)"

lemma length_slice [simp]: "j \<le> length xs \<Longrightarrow> length (slice i j xs) = j - i"
  by (simp add: slice_def)

lemma slice_empty [simp]: "j \<le> i \<Longrightarrow> slice i j xs = []"
  by (simp add: slice_def)

lemma slice_append: "i \<le> j \<Longrightarrow> j \<le> k \<Longrightarrow> slice i j xs @ slice j k xs = slice i k xs"
proof -
  assume a: "i \<le> j" "j \<le> k"
  have "slice i k xs = take ((j - i) + (k - j)) (drop i xs)"
    using a by (simp add: slice_def)
  also have "\<dots> = take (j - i) (drop i xs) @ take (k - j) (drop (j - i) (drop i xs))"
    by (rule take_add)
  also have "drop (j - i) (drop i xs) = drop j xs"
    using a by simp
  finally show ?thesis by (simp add: slice_def)
qed

lemma slice_Cons: "i < j \<Longrightarrow> j \<le> length xs \<Longrightarrow> slice i j xs = xs ! i # slice (Suc i) j xs"
  by (simp add: slice_def Cons_nth_drop_Suc [symmetric] take_Cons' )

lemma take_slice [simp]: "take n (slice i j xs) = slice i (min (i + n) j) xs"
proof -
  have "min n (j - i) = min (i + n) j - i" by arith
  then show ?thesis by (simp add: slice_def)
qed

lemma drop_slice [simp]: "drop n (slice i j xs) = slice (i + n) j xs"
  by (simp add: slice_def drop_take add.commute)

lemma take_slice_append: "i \<le> j \<Longrightarrow> take i xs @ slice i j xs = take j xs"
  by (simp add: slice_def take_add [symmetric])

lemma slice_poke_right:
  "off + length bs \<le> length mem \<Longrightarrow> i \<le> off \<Longrightarrow>
    slice i (off + length bs) (poke mem off bs) = slice i off mem @ bs"
  by (simp add: slice_def poke_def drop_take)

end
