(* ===== verification/Protocol.thy ===== *)
theory Protocol
  imports Prelude
begin

text \<open>
  The FastCGI wire format: the structs and constants of \<^verbatim>\<open>include/fastcgi.h\<close> and the functions of
  \<^verbatim>\<open>libfcgi/fcgiapp.c\<close> that build them (\<^verbatim>\<open>MakeHeader\<close>, \<^verbatim>\<open>MakeEndRequestBody\<close>,
  \<^verbatim>\<open>MakeUnknownTypeBody\<close>) or compute alignments (\<^verbatim>\<open>AlignInt8\<close>, \<^verbatim>\<open>AlignPtr8\<close>). The structs hold
  only \<^verbatim>\<open>unsigned char\<close> fields, so their memory image is the list of the fields in order.
\<close>

section \<open>Constants\<close>

abbreviation (input) "FCGI_HEADER_LEN \<equiv> 8 :: nat"
abbreviation (input) "FCGI_MAX_LENGTH \<equiv> 0xffff :: int"
abbreviation (input) "FCGI_VERSION_1 \<equiv> 1 :: int"

abbreviation (input) "FCGI_BEGIN_REQUEST \<equiv> 1 :: int"
abbreviation (input) "FCGI_ABORT_REQUEST \<equiv> 2 :: int"
abbreviation (input) "FCGI_END_REQUEST \<equiv> 3 :: int"
abbreviation (input) "FCGI_PARAMS \<equiv> 4 :: int"
abbreviation (input) "FCGI_STDIN \<equiv> 5 :: int"
abbreviation (input) "FCGI_STDOUT \<equiv> 6 :: int"
abbreviation (input) "FCGI_STDERR \<equiv> 7 :: int"
abbreviation (input) "FCGI_DATA \<equiv> 8 :: int"
abbreviation (input) "FCGI_GET_VALUES \<equiv> 9 :: int"
abbreviation (input) "FCGI_GET_VALUES_RESULT \<equiv> 10 :: int"
abbreviation (input) "FCGI_UNKNOWN_TYPE \<equiv> 11 :: int"
abbreviation (input) "FCGI_NULL_REQUEST_ID \<equiv> 0 :: int"

abbreviation (input) "FCGI_KEEP_CONN \<equiv> 1 :: int"
abbreviation (input) "FCGI_RESPONDER \<equiv> 1 :: int"
abbreviation (input) "FCGI_AUTHORIZER \<equiv> 2 :: int"
abbreviation (input) "FCGI_FILTER \<equiv> 3 :: int"

abbreviation (input) "FCGI_REQUEST_COMPLETE \<equiv> 0 :: int"
abbreviation (input) "FCGI_CANT_MPX_CONN \<equiv> 1 :: int"

abbreviation (input) "FCGX_UNSUPPORTED_VERSION \<equiv> - 2 :: int"
abbreviation (input) "FCGX_PROTOCOL_ERROR \<equiv> - 3 :: int"
abbreviation (input) "FCGX_PARAMS_ERROR \<equiv> - 4 :: int"
abbreviation (input) "FCGX_CALL_SEQ_ERROR \<equiv> - 5 :: int"

section \<open>Structs\<close>

record FCGI_Header =
  version :: byte
  htype :: byte
  requestIdB1 :: byte
  requestIdB0 :: byte
  contentLengthB1 :: byte
  contentLengthB0 :: byte
  paddingLength :: byte
  hreserved :: byte

record FCGI_BeginRequestBody =
  roleB1 :: byte
  roleB0 :: byte
  bflags :: byte
  breserved :: "byte list"

record FCGI_EndRequestBody =
  appStatusB3 :: byte
  appStatusB2 :: byte
  appStatusB1 :: byte
  appStatusB0 :: byte
  protocolStatus :: byte
  ereserved :: "byte list"

record FCGI_UnknownTypeBody =
  utype :: byte
  ureserved :: "byte list"

text \<open>The memory images of the structs, and reading a header or a begin-request body back from one.\<close>

definition header_bytes :: "FCGI_Header \<Rightarrow> byte list" where
  "header_bytes h = [version h, htype h, requestIdB1 h, requestIdB0 h,
     contentLengthB1 h, contentLengthB0 h, paddingLength h, hreserved h]"

definition header_of_bytes :: "byte list \<Rightarrow> FCGI_Header" where
  "header_of_bytes bs = \<lparr> version = bs ! 0, htype = bs ! 1, requestIdB1 = bs ! 2,
     requestIdB0 = bs ! 3, contentLengthB1 = bs ! 4, contentLengthB0 = bs ! 5,
     paddingLength = bs ! 6, hreserved = bs ! 7 \<rparr>"

definition begin_body_of_bytes :: "byte list \<Rightarrow> FCGI_BeginRequestBody" where
  "begin_body_of_bytes bs = \<lparr> roleB1 = bs ! 0, roleB0 = bs ! 1, bflags = bs ! 2,
     breserved = drop 3 bs \<rparr>"

definition end_body_bytes :: "FCGI_EndRequestBody \<Rightarrow> byte list" where
  "end_body_bytes b = [appStatusB3 b, appStatusB2 b, appStatusB1 b, appStatusB0 b,
     protocolStatus b] @ ereserved b"

definition unknown_body_bytes :: "FCGI_UnknownTypeBody \<Rightarrow> byte list" where
  "unknown_body_bytes b = utype b # ureserved b"

section \<open>Constructors of fcgiapp.c\<close>

text \<open>\<open>(unsigned char) ((x >> k) & 0xff)\<close> on a C \<^verbatim>\<open>int\<close>.\<close>

definition byte_at :: "nat \<Rightarrow> int \<Rightarrow> byte" where
  "byte_at k x = word_of_int (drop_bit k x AND 0xff)"

definition MakeHeader :: "int \<Rightarrow> int \<Rightarrow> int \<Rightarrow> int \<Rightarrow> fault + FCGI_Header" where
  "MakeHeader type requestId contentLength padLength =
     rbind (c_assert (contentLength \<ge> 0 \<and> contentLength \<le> FCGI_MAX_LENGTH)) (\<lambda>_.
     rbind (c_assert (padLength \<ge> 0 \<and> padLength \<le> 0xff)) (\<lambda>_.
     Inr \<lparr> version = word_of_int FCGI_VERSION_1,
           htype = word_of_int type,
           requestIdB1 = byte_at 8 requestId,
           requestIdB0 = byte_at 0 requestId,
           contentLengthB1 = byte_at 8 contentLength,
           contentLengthB0 = byte_at 0 contentLength,
           paddingLength = word_of_int padLength,
           hreserved = 0 \<rparr>))"

definition MakeEndRequestBody :: "int \<Rightarrow> int \<Rightarrow> FCGI_EndRequestBody" where
  "MakeEndRequestBody status protStatus =
     \<lparr> appStatusB3 = byte_at 24 status,
       appStatusB2 = byte_at 16 status,
       appStatusB1 = byte_at 8 status,
       appStatusB0 = byte_at 0 status,
       protocolStatus = word_of_int protStatus,
       ereserved = replicate 3 0 \<rparr>"

definition MakeUnknownTypeBody :: "int \<Rightarrow> FCGI_UnknownTypeBody" where
  "MakeUnknownTypeBody type = \<lparr> utype = word_of_int type, ureserved = replicate 7 0 \<rparr>"

definition AlignInt8 :: "32 word \<Rightarrow> int" where
  "AlignInt8 n = sint ((n + 7) AND (- 1 - 7))"

definition AlignPtr8 :: "64 word \<Rightarrow> 64 word" where
  "AlignPtr8 p = (let u = ((p + 7) AND (- 1 - 7)) - p in p + u)"

section \<open>Alignment and byte arithmetic\<close>

lemma align_word: "(w AND (- 1 - 7)) = 8 * drop_bit 3 w" for w :: "'a::len word"
proof -
  have "(- 1 - 7 :: 'a word) = NOT (mask 3)"
    by (simp add: not_eq_complement mask_eq_exp_minus_1)
  moreover have "w AND NOT (mask 3) = push_bit 3 (drop_bit 3 w)"
    by (rule bit_word_eqI) (auto simp: bit_simps)
  ultimately show ?thesis by (simp add: push_bit_eq_mult)
qed
lemma uint_align8_32:
  fixes w :: "32 word"
  assumes "uint w + 7 < 2 ^ 32"
  shows "uint (w + 7 AND (- 1 - 7)) = 8 * ((uint w + 7) div 8)"
proof -
  have w: "uint (w + 7) = uint w + 7"
    using assms by (simp add: uint_word_ariths)
  have d: "uint (drop_bit 3 (w + 7)) = (uint w + 7) div 8"
    by (simp only: unsigned_drop_bit_eq w) (use assms in \<open>simp add: drop_bit_eq_div take_bit_int_eq_self\<close>)
  have "uint (8 * drop_bit 3 (w + 7)) = 8 * ((uint w + 7) div 8) mod 2 ^ 32"
    by (simp only: uint_word_ariths d) simp
  also have "\<dots> = 8 * ((uint w + 7) div 8)"
    using assms by (intro mod_pos_pos_trivial) (auto simp: pos_imp_zdiv_nonneg_iff)
  finally show ?thesis by (simp only: align_word)
qed
lemma uint_align8_64:
  fixes w :: "64 word"
  assumes "uint w + 7 < 2 ^ 64"
  shows "uint (w + 7 AND (- 1 - 7)) = 8 * ((uint w + 7) div 8)"
proof -
  have w: "uint (w + 7) = uint w + 7"
    using assms by (simp add: uint_word_ariths)
  have d: "uint (drop_bit 3 (w + 7)) = (uint w + 7) div 8"
    by (simp only: unsigned_drop_bit_eq w) (use assms in \<open>simp add: drop_bit_eq_div take_bit_int_eq_self\<close>)
  have "uint (8 * drop_bit 3 (w + 7)) = 8 * ((uint w + 7) div 8) mod 2 ^ 64"
    by (simp only: uint_word_ariths d) simp
  also have "\<dots> = 8 * ((uint w + 7) div 8)"
    using assms by (intro mod_pos_pos_trivial) (auto simp: pos_imp_zdiv_nonneg_iff)
  finally show ?thesis by (simp only: align_word)
qed
lemma AlignInt8_eq:
  assumes "0 \<le> n" "n < 2 ^ 31 - 8"
  shows "AlignInt8 (word_of_int n) = 8 * ((n + 7) div 8)"
proof -
  have u: "uint (word_of_int n :: 32 word) = n"
    using assms by (simp add: uint_word_of_int)
  then have "uint (word_of_int n + 7 AND (- 1 - 7) :: 32 word) = 8 * ((n + 7) div 8)"
    using assms uint_align8_32 [of "word_of_int n"] by simp
  then show ?thesis
    using assms by (simp add: AlignInt8_def sint_uint signed_take_bit_int_eq_self)
qed
lemma uint_AlignPtr8:
  assumes "uint p + 7 < 2 ^ 64"
  shows "uint (AlignPtr8 p) = 8 * ((uint p + 7) div 8)"
  using uint_align8_64 [OF assms] by (simp add: AlignPtr8_def Let_def)

lemma and_255: "x AND 255 = x mod 256" for x :: int
proof -
  have "(255 :: int) = mask 8" by (simp add: mask_eq_exp_minus_1)
  then have "x AND 255 = take_bit 8 x" by (simp only: take_bit_eq_mask)
  then show ?thesis by (simp add: take_bit_eq_mod)
qed
lemma byte_at_eq: "byte_at k x = word_of_int (x div 2 ^ k)"
  by (rule word_uint_eqI)
    (simp add: byte_at_def uint_word_of_int drop_bit_eq_div and_255)
lemma uint_byte_at: "uint (byte_at k x) = x div 2 ^ k mod 256"
  by (simp add: byte_at_eq uint_word_of_int)

lemma two_bytes:
  assumes "0 \<le> x" "x < 2 ^ 16"
  shows "push_bit 8 (uint (byte_at 8 x)) + uint (byte_at 0 x) = x"
proof -
  have "x div 256 < 256" using assms by simp
  then have "x div 256 mod 256 = x div 256" using assms by simp
  then show ?thesis by (simp add: uint_byte_at push_bit_eq_mult)
qed

text \<open>The request id and the content length a header announces, as \<^verbatim>\<open>ProcessHeader\<close> reads them.\<close>

definition header_requestId :: "FCGI_Header \<Rightarrow> int" where
  "header_requestId h = push_bit 8 (uint (requestIdB1 h)) + uint (requestIdB0 h)"

definition header_contentLength :: "FCGI_Header \<Rightarrow> int" where
  "header_contentLength h = push_bit 8 (uint (contentLengthB1 h)) + uint (contentLengthB0 h)"

section \<open>Records on the wire\<close>

definition mk_header :: "int \<Rightarrow> int \<Rightarrow> int \<Rightarrow> int \<Rightarrow> FCGI_Header" where
  "mk_header type requestId contentLength padLength =
     \<lparr> version = 1, htype = word_of_int type,
       requestIdB1 = byte_at 8 requestId, requestIdB0 = byte_at 0 requestId,
       contentLengthB1 = byte_at 8 contentLength, contentLengthB0 = byte_at 0 contentLength,
       paddingLength = word_of_int padLength, hreserved = 0 \<rparr>"

lemma MakeHeader_ok:
  "0 \<le> len \<Longrightarrow> len \<le> 0xffff \<Longrightarrow> 0 \<le> pad \<Longrightarrow> pad \<le> 0xff \<Longrightarrow>
    MakeHeader t i len pad = Inr (mk_header t i len pad)"
  by (simp add: MakeHeader_def mk_header_def)

lemma MakeHeader_asserts:
  "\<not> (0 \<le> len \<and> len \<le> 0xffff \<and> 0 \<le> pad \<and> pad \<le> 0xff) \<Longrightarrow>
    MakeHeader t i len pad = Inl AssertFailed"
  by (auto simp: MakeHeader_def c_assert_def)

lemma length_header_bytes [simp]: "length (header_bytes h) = 8"
  by (simp add: header_bytes_def)

lemma header_of_header_bytes [simp]: "header_of_bytes (header_bytes h) = h"
  by (simp add: header_of_bytes_def header_bytes_def)

lemma header_of_bytes_append [simp]: "header_of_bytes (header_bytes h @ bs) = h"
  by (simp add: header_of_bytes_def header_bytes_def)

lemma header_bytes_of_bytes: "length bs = 8 \<Longrightarrow> header_bytes (header_of_bytes bs) = bs"
  by (auto simp: header_bytes_def header_of_bytes_def length_Suc_conv numeral_eq_Suc)

lemma mk_header_fields [simp]:
  "version (mk_header t i len pad) = 1"
  "htype (mk_header t i len pad) = word_of_int t"
  "paddingLength (mk_header t i len pad) = word_of_int pad"
  by (simp_all add: mk_header_def)

lemma mk_header_requestId [simp]:
  "0 \<le> i \<Longrightarrow> i < 2 ^ 16 \<Longrightarrow> header_requestId (mk_header t i len pad) = i"
  by (simp add: header_requestId_def mk_header_def two_bytes)

lemma mk_header_contentLength [simp]:
  "0 \<le> len \<Longrightarrow> len < 2 ^ 16 \<Longrightarrow> header_contentLength (mk_header t i len pad) = len"
  by (simp add: header_contentLength_def mk_header_def two_bytes)

lemma header_contentLength_range: "0 \<le> header_contentLength h \<and> header_contentLength h \<le> 0xffff"
proof -
  have "uint (contentLengthB1 h) < 256" "uint (contentLengthB0 h) < 256"
    using uint_lt2p [of "contentLengthB1 h"] uint_lt2p [of "contentLengthB0 h"] by simp_all
  then show ?thesis by (simp add: header_contentLength_def push_bit_eq_mult)
qed
lemma header_requestId_range: "0 \<le> header_requestId h \<and> header_requestId h \<le> 0xffff"
proof -
  have "uint (requestIdB1 h) < 256" "uint (requestIdB0 h) < 256"
    using uint_lt2p [of "requestIdB1 h"] uint_lt2p [of "requestIdB0 h"] by simp_all
  then show ?thesis by (simp add: header_requestId_def push_bit_eq_mult)
qed

text \<open>One record on the wire.\<close>

definition wire_record :: "int \<Rightarrow> int \<Rightarrow> byte list \<Rightarrow> byte list \<Rightarrow> byte list" where
  "wire_record t i content pad =
     header_bytes (mk_header t i (int (length content)) (int (length pad))) @ content @ pad"

lemma length_wire_record [simp]: "length (wire_record t i c p) = 8 + length c + length p"
  by (simp add: wire_record_def)

text \<open>A peer's view of a byte stream: split off one record, or all of them.\<close>

definition parse_record :: "byte list \<Rightarrow> ((FCGI_Header \<times> byte list) \<times> byte list) option" where
  "parse_record bs =
     (let h = header_of_bytes bs;
          c = nat (header_contentLength h);
          p = unat (paddingLength h)
      in if length bs < 8 \<or> length bs < 8 + c + p then None
         else Some ((h, take c (drop 8 bs)), drop (8 + c + p) bs))"

function parse_records :: "byte list \<Rightarrow> (FCGI_Header \<times> byte list) list option" where
  "parse_records bs =
     (if bs = [] then Some []
      else case parse_record bs of
             None \<Rightarrow> None
           | Some (r, rest) \<Rightarrow> map_option ((#) r) (parse_records rest))"
  by pat_completeness auto
termination
  by (relation "measure length")
     (auto simp: parse_record_def Let_def split: if_splits)

declare parse_records.simps [simp del]

lemma parse_wire_record:
  assumes "length c \<le> 0xffff" "length p \<le> 0xff"
  shows "parse_record (wire_record t i c p @ rest) =
    Some ((mk_header t i (int (length c)) (int (length p)), c), rest)"
proof -
  let ?h = "mk_header t i (int (length c)) (int (length p))"
  have c: "nat (header_contentLength ?h) = length c"
    using assms by simp
  have p: "unat (word_of_nat (length p) :: byte) = length p"
    using assms by (simp add: unsigned_of_nat take_bit_nat_eq_self)
  show ?thesis
    by (simp add: parse_record_def wire_record_def Let_def c p)
qed

lemma parse_records_wire:
  assumes "length c \<le> 0xffff" "length p \<le> 0xff"
  shows "parse_records (wire_record t i c p @ rest) =
    map_option ((#) (mk_header t i (int (length c)) (int (length p)), c)) (parse_records rest)"
proof -
  have "wire_record t i c p \<noteq> []" by (simp add: wire_record_def header_bytes_def)
  then show ?thesis
    by (subst parse_records.simps) (simp add: parse_wire_record assms)
qed

section \<open>Properties\<close>

text \<open>The header \<^verbatim>\<open>MakeHeader\<close> builds survives the trip through its eight bytes and announces
  exactly the type, request id, content length and padding it was given.\<close>

theorem MakeHeader_roundtrip:
  assumes "0 \<le> type" "type < 256" "0 \<le> i" "i < 2 ^ 16" "0 \<le> len" "len \<le> 0xffff" "0 \<le> pad" "pad \<le> 0xff"
  shows "\<exists>h. MakeHeader type i len pad = Inr h \<and> length (header_bytes h) = 8 \<and>
    header_of_bytes (header_bytes h) = h \<and> version h = 1 \<and> uint (htype h) = type \<and>
    header_requestId h = i \<and> header_contentLength h = len \<and> uint (paddingLength h) = pad"
  using assms by (intro exI [of _ "mk_header type i len pad"]) (simp add: MakeHeader_ok uint_word_of_int)

lemma MakeHeader_roundtrip_witness:
  "\<exists>h. MakeHeader 6 258 1000 7 = Inr h \<and> header_requestId h = 258 \<and> header_contentLength h = 1000"
  using MakeHeader_roundtrip [of 6 258 1000 7] by auto

text \<open>The assertions of \<^verbatim>\<open>MakeHeader\<close> abort exactly on a content length or padding that does not
  fit its field.\<close>

theorem MakeHeader_assertions:
  "(MakeHeader type i len pad = Inl AssertFailed) =
     (len < 0 \<or> 0xffff < len \<or> pad < 0 \<or> 0xff < pad)"
  using MakeHeader_asserts [of len pad type i] MakeHeader_ok [of len pad type i] by fastforce

text \<open>\<^verbatim>\<open>AlignInt8\<close> on the lengths the code passes returns the smallest multiple of 8 that is not
  below its argument.\<close>

theorem AlignInt8_least:
  assumes "0 \<le> n" "n < 2 ^ 31 - 8"
  shows "is_arg_min (\<lambda>m. m) (\<lambda>m. n \<le> m \<and> 8 dvd m) (AlignInt8 (word_of_int n))"
proof -
  have a: "AlignInt8 (word_of_int n) = 8 * ((n + 7) div 8)" by (rule AlignInt8_eq [OF assms])
  have "n \<le> 8 * ((n + 7) div 8)" by simp
  moreover have "n \<le> m \<Longrightarrow> 8 dvd m \<Longrightarrow> 8 * ((n + 7) div 8) \<le> m" for m
    by (elim dvdE) simp
  ultimately show ?thesis by (auto simp: a is_arg_min_linorder)
qed

lemma AlignInt8_least_witness:
  "is_arg_min (\<lambda>m. m) (\<lambda>m. 1001 \<le> m \<and> 8 dvd m) (AlignInt8 (word_of_int 1001))"
  by (rule AlignInt8_least) simp_all

end
