(* ===== verification/OS.thy ===== *)
theory OS
  imports Prelude
begin

text \<open>
  The process's side of the connection: a state that stands for the kernel and the C library's
  \<^verbatim>\<open>errno\<close>, the calls \<^verbatim>\<open>read\<close> and \<^verbatim>\<open>write\<close> on it, and the wrappers \<^verbatim>\<open>OS_Read\<close> and \<^verbatim>\<open>OS_Write\<close> of
  \<^verbatim>\<open>libfcgi/os_unix.c\<close> with \<^verbatim>\<open>write_it_all\<close> of \<^verbatim>\<open>libfcgi/fcgiapp.c\<close>.

  What the peer and the kernel do is a script per file descriptor: \<open>inbox\<close> says what the successive
  reads find (bytes that arrived, or a failure such as the receive timeout), \<open>outcomes\<close> says how
  many bytes the successive writes take, or how they fail. With the \<open>inbox\<close> used up the peer has
  closed its side, so reads return 0; with the \<open>outcomes\<close> used up every write is taken whole.
  \<open>sent\<close> collects the bytes the kernel took.
\<close>

datatype read_event = Arrives "byte list" | ReadFails int
datatype write_event = Accepts nat | WriteFails int

record conn =
  inbox :: "read_event list"
  outcomes :: "write_event list"
  sent :: "byte list"

record os_state =
  conns :: "int \<Rightarrow> conn"
  c_errno :: int
  shutdownNow :: bool

definition set_conn :: "int \<Rightarrow> conn \<Rightarrow> os_state \<Rightarrow> os_state" where
  "set_conn fd c os = os\<lparr>conns := (conns os)(fd := c)\<rparr>"

lemma set_conn_simps [simp]:
  "conns (set_conn fd c os) fd = c"
  "fd' \<noteq> fd \<Longrightarrow> conns (set_conn fd c os) fd' = conns os fd'"
  "c_errno (set_conn fd c os) = c_errno os"
  "shutdownNow (set_conn fd c os) = shutdownNow os"
  "set_conn fd c (set_conn fd c' os) = set_conn fd c os"
  by (simp_all add: set_conn_def)

section \<open>The system calls\<close>

text \<open>\<open>read(fd, buf, len)\<close>: the count, the bytes stored at \<open>buf\<close>, the new state.\<close>

definition sys_read :: "int \<Rightarrow> nat \<Rightarrow> os_state \<Rightarrow> int \<times> byte list \<times> os_state" where
  "sys_read fd len os =
     (let c = conns os fd in
      case inbox c of
        [] \<Rightarrow> (0, [], os)
      | Arrives bs # es \<Rightarrow>
          if length bs \<le> len
          then (int (length bs), bs, set_conn fd (c\<lparr>inbox := es\<rparr>) os)
          else (int len, take len bs, set_conn fd (c\<lparr>inbox := Arrives (drop len bs) # es\<rparr>) os)
      | ReadFails e # es \<Rightarrow> (- 1, [], (set_conn fd (c\<lparr>inbox := es\<rparr>) os)\<lparr>c_errno := e\<rparr>))"

definition sys_write :: "int \<Rightarrow> byte list \<Rightarrow> os_state \<Rightarrow> int \<times> os_state" where
  "sys_write fd bs os =
     (let c = conns os fd in
      case outcomes c of
        [] \<Rightarrow> (int (length bs), set_conn fd (c\<lparr>sent := sent c @ bs\<rparr>) os)
      | Accepts k # es \<Rightarrow>
          (int (min k (length bs)),
           set_conn fd (c\<lparr>sent := sent c @ take k bs, outcomes := es\<rparr>) os)
      | WriteFails e # es \<Rightarrow> (- 1, (set_conn fd (c\<lparr>outcomes := es\<rparr>) os)\<lparr>c_errno := e\<rparr>))"

section \<open>OS_Read, OS_Write, write_it_all\<close>

text \<open>\<^verbatim>\<open>OS_Read\<close> reports the end of file (0) as -1 and leaves \<^verbatim>\<open>errno\<close> as it was.\<close>

definition OS_Read :: "int \<Rightarrow> nat \<Rightarrow> os_state \<Rightarrow> int \<times> byte list \<times> os_state" where
  "OS_Read fd len os =
     (if shutdownNow os then (- 1, [], os)
      else let (n, bs, os') = sys_read fd len os
           in if n > 0 then (n, bs, os') else (- 1, [], os'))"

definition OS_Write :: "int \<Rightarrow> byte list \<Rightarrow> os_state \<Rightarrow> int \<times> os_state" where
  "OS_Write fd buf os = (if shutdownNow os then (- 1, os) else sys_write fd buf os)"

lemma OS_Write_measure:
  assumes "OS_Write fd buf os = (wrote, os')" "0 \<le> wrote" "buf \<noteq> []"
  shows "length (outcomes (conns os' fd)) + length (drop (nat wrote) buf)
    < length (outcomes (conns os fd)) + length buf"
  using assms
  by (auto simp: OS_Write_def sys_write_def Let_def split: if_splits list.splits write_event.splits)

function write_it_all :: "int \<Rightarrow> byte list \<Rightarrow> os_state \<Rightarrow> int \<times> os_state" where
  "write_it_all fd buf os =
     (if buf = [] then (0, os)
      else case OS_Write fd buf os of
             (wrote, os') \<Rightarrow>
               if wrote < 0 then (wrote, os') else write_it_all fd (drop (nat wrote) buf) os')"
  by pat_completeness auto
termination
  by (relation "measure (\<lambda>(fd, buf, os). length (outcomes (conns os fd)) + length buf)")
     (auto dest!: OS_Write_measure [OF sym])

declare write_it_all.simps [simp del]

section \<open>What write_it_all sends\<close>

text \<open>Writes on a descriptor cannot fail: not shut down, and no failure in the script.\<close>

definition writes_ok :: "int \<Rightarrow> os_state \<Rightarrow> bool" where
  "writes_ok fd os \<longleftrightarrow>
     \<not> shutdownNow os \<and> (\<forall>e. WriteFails e \<notin> set (outcomes (conns os fd)))"

text \<open>Every failure the script holds leaves a nonzero \<^verbatim>\<open>errno\<close> (which a shutdown does not).\<close>

definition real_errors :: "int \<Rightarrow> os_state \<Rightarrow> bool" where
  "real_errors fd os \<longleftrightarrow> \<not> shutdownNow os \<and> WriteFails 0 \<notin> set (outcomes (conns os fd))"

lemma writes_ok_real_errors: "writes_ok fd os \<Longrightarrow> real_errors fd os"
  by (simp add: writes_ok_def real_errors_def)

text \<open>What a call may do to the rest of the state: only the sent bytes and the script of \<open>fd\<close>
  change, and \<open>errno\<close>.\<close>

definition sends :: "int \<Rightarrow> byte list \<Rightarrow> os_state \<Rightarrow> os_state \<Rightarrow> bool" where
  "sends fd bs os os' \<longleftrightarrow>
     (\<exists>n. conns os' fd = (conns os fd)\<lparr>sent := sent (conns os fd) @ bs,
                                     outcomes := drop n (outcomes (conns os fd))\<rparr>) \<and>
     (\<forall>fd'. fd' \<noteq> fd \<longrightarrow> conns os' fd' = conns os fd') \<and>
     shutdownNow os' = shutdownNow os"

lemma sends_refl [simp]: "sends fd [] os os"
  by (auto simp: sends_def intro!: exI [of _ 0])

lemma sends_trans:
  assumes "sends fd bs os os'" "sends fd cs os' os''"
  shows "sends fd (bs @ cs) os os''"
proof -
  obtain n where n: "conns os' fd = (conns os fd)\<lparr>sent := sent (conns os fd) @ bs,
      outcomes := drop n (outcomes (conns os fd))\<rparr>"
    using assms(1) by (auto simp: sends_def)
  obtain m where m: "conns os'' fd = (conns os' fd)\<lparr>sent := sent (conns os' fd) @ cs,
      outcomes := drop m (outcomes (conns os' fd))\<rparr>"
    using assms(2) by (auto simp: sends_def)
  have "conns os'' fd = (conns os fd)\<lparr>sent := sent (conns os fd) @ bs @ cs,
      outcomes := drop (n + m) (outcomes (conns os fd))\<rparr>"
    by (simp add: m n add.commute)
  then show ?thesis
    using assms by (auto simp: sends_def)
qed

lemma sends_sent: "sends fd bs os os' \<Longrightarrow> sent (conns os' fd) = sent (conns os fd) @ bs"
  by (auto simp: sends_def)

lemma sends_inbox: "sends fd bs os os' \<Longrightarrow> inbox (conns os' fd') = inbox (conns os fd')"
  by (cases "fd' = fd") (auto simp: sends_def)

lemma sends_other: "sends fd bs os os' \<Longrightarrow> fd' \<noteq> fd \<Longrightarrow> conns os' fd' = conns os fd'"
  by (auto simp: sends_def)

lemma sends_writes_ok: "sends fd bs os os' \<Longrightarrow> writes_ok fd os \<Longrightarrow> writes_ok fd os'"
  unfolding sends_def writes_ok_def by (metis in_set_dropD conn.select_convs(2) conn.surjective conn.update_convs(2,3))

lemma sends_real_errors: "sends fd bs os os' \<Longrightarrow> real_errors fd os \<Longrightarrow> real_errors fd os'"
  unfolding sends_def real_errors_def by (metis in_set_dropD conn.select_convs(2) conn.surjective conn.update_convs(2,3))

lemma sends_shutdown: "sends fd bs os os' \<Longrightarrow> shutdownNow os' = shutdownNow os"
  by (auto simp: sends_def)

lemma OS_Write_sends:
  assumes "OS_Write fd buf os = (wrote, os')"
  shows "(0 \<le> wrote \<and> wrote \<le> int (length buf) \<and> sends fd (take (nat wrote) buf) os os' \<and>
            c_errno os' = c_errno os) \<or>
         (wrote = - 1 \<and> sends fd [] os os' \<and> \<not> writes_ok fd os \<and> (real_errors fd os \<longrightarrow> c_errno os' \<noteq> 0))"
proof (cases "shutdownNow os")
  case True
  then show ?thesis using assms by (auto simp: OS_Write_def writes_ok_def real_errors_def)
next
  case False
  then have eq: "sys_write fd buf os = (wrote, os')" using assms by (simp add: OS_Write_def)
  show ?thesis
  proof (cases "outcomes (conns os fd)")
    case Nil
    then show ?thesis using eq
      by (auto simp: sys_write_def sends_def Let_def)
  next
    case (Cons ev es)
    then show ?thesis using eq
      by (cases ev)
        (auto simp: sys_write_def sends_def writes_ok_def real_errors_def Let_def min_def intro!: exI [of _ "1 :: nat"])
  qed
qed

text \<open>
  \<^verbatim>\<open>write_it_all\<close> returns 0 exactly when the kernel took every byte, in order; on a failure it
  returns -1 and a prefix was taken. Partial writes are resumed where they stopped.
\<close>

lemma write_it_all_sends:
  "write_it_all fd buf os = (r, os') \<Longrightarrow>
    (r = 0 \<and> sends fd buf os os' \<and> c_errno os' = c_errno os) \<or>
    (r = - 1 \<and> \<not> writes_ok fd os \<and> (real_errors fd os \<longrightarrow> c_errno os' \<noteq> 0) \<and> (\<exists>k < length buf. sends fd (take k buf) os os'))"
proof (induction fd buf os arbitrary: r os' rule: write_it_all.induct)
  case (1 fd buf os)
  show ?case
  proof (cases "buf = []")
    case True
    then show ?thesis using "1.prems" by (auto simp: write_it_all.simps)
  next
    case False
    obtain w os1 where w: "OS_Write fd buf os = (w, os1)" by fastforce
    show ?thesis
    proof (cases "w < 0")
      case True
      then have "w = - 1" "sends fd [] os os1" "\<not> writes_ok fd os"
        "real_errors fd os \<longrightarrow> c_errno os1 \<noteq> 0"
        using OS_Write_sends [OF w] by auto
      moreover have "r = w" "os' = os1"
        using "1.prems" False w True by (simp_all add: write_it_all.simps)
      ultimately show ?thesis
        using False by (auto intro!: exI [of _ 0])
    next
      case w0: False
      then have s: "sends fd (take (nat w) buf) os os1" and le: "nat w \<le> length buf"
        and e: "c_errno os1 = c_errno os"
        using OS_Write_sends [OF w] by auto
      have "write_it_all fd (drop (nat w) buf) os1 = (r, os')"
        using "1.prems" False w w0 by (simp add: write_it_all.simps [of fd buf os])
      from "1.IH" [OF False w [symmetric] w0 this]
      show ?thesis
      proof (elim disjE conjE exE)
        assume "r = 0" "sends fd (drop (nat w) buf) os1 os'" "c_errno os' = c_errno os1"
        then show ?thesis using sends_trans [OF s, of "drop (nat w) buf" os'] e by simp
      next
        fix k assume *: "r = - 1" "\<not> writes_ok fd os1" "real_errors fd os1 \<longrightarrow> c_errno os' \<noteq> 0" "k < length (drop (nat w) buf)"
          "sends fd (take k (drop (nat w) buf)) os1 os'"
        have "sends fd (take (nat w + k) buf) os os'"
          using sends_trans [OF s *(5)] by (simp add: take_add)
        moreover have "nat w + k < length buf" using * by simp
        ultimately show ?thesis
          using * s by (auto dest: sends_writes_ok sends_real_errors)
      qed
    qed
  qed
qed

lemma write_it_all_ok:
  assumes "writes_ok fd os"
  obtains os' where "write_it_all fd buf os = (0, os')" "sends fd buf os os'"
    "c_errno os' = c_errno os"
  using write_it_all_sends [of fd buf os] assms
  by (cases "write_it_all fd buf os") auto

lemma write_it_all_failed:
  "write_it_all fd buf os = (r, os') \<Longrightarrow> r \<noteq> 0 \<Longrightarrow>
    r = - 1 \<and> \<not> writes_ok fd os \<and> (real_errors fd os \<longrightarrow> c_errno os' \<noteq> 0) \<and> (\<exists>k < length buf. sends fd (take k buf) os os')"
  by (auto dest: write_it_all_sends)

text \<open>C31: for any script of partial and failing writes \<^verbatim>\<open>write_it_all\<close> ends, with a prefix of the buffer
  sent, in order and nothing else touched, and returns 0 exactly when that prefix is the whole buffer.\<close>

theorem write_it_all_correct:
  "case write_it_all fd buf os of (res, os') \<Rightarrow>
     \<exists>k \<le> length buf. sends fd (take k buf) os os' \<and> res = (if k = length buf then 0 else - 1)"
proof (cases "write_it_all fd buf os")
  case (Pair res os')
  from write_it_all_sends [OF this] show ?thesis
  proof (elim disjE conjE exE)
    assume "res = 0" "sends fd buf os os'"
    then show ?thesis by (auto simp: Pair intro!: exI [of _ "length buf"])
  next
    fix k assume "res = - 1" "k < length buf" "sends fd (take k buf) os os'"
    then show ?thesis by (auto simp: Pair intro!: exI [of _ k])
  qed
qed

end
