(* ===== verification/StreamState.thy ===== *)
theory StreamState
  imports Protocol OS
begin

text \<open>
  The stream object of \<^verbatim>\<open>libfcgi/fcgiapp.c\<close>: \<^verbatim>\<open>FCGX_Stream\<close> of \<^verbatim>\<open>include/fcgiapp.h\<close> with the
  \<^verbatim>\<open>FCGX_Stream_Data\<close> its \<^verbatim>\<open>data\<close> pointer owns (one for one, so one record extends the other), the
  scalar fields of \<^verbatim>\<open>FCGX_Request\<close> that streams reach through \<^verbatim>\<open>reqDataPtr\<close>, the error state, and the
  creation and re-typing of streams.

  Pointers into the buffer (\<^verbatim>\<open>rdNext\<close>, \<^verbatim>\<open>wrNext\<close>, \<^verbatim>\<open>stop\<close>, \<^verbatim>\<open>stopUnget\<close>, \<^verbatim>\<open>buffStop\<close>) are offsets from
  \<^verbatim>\<open>data->buff\<close>; \<open>buff\<close> is the memory from there to the end of the allocated block. The pointers
  \<^verbatim>\<open>fillBuffProc\<close> and \<^verbatim>\<open>emptyBuffProc\<close> are arguments of the operations that call through them.
\<close>

section \<open>State\<close>

record FCGX_Stream =
  rdNext :: nat
  wrNext :: nat
  stop :: nat
  stopUnget :: "nat option"
  isReader :: bool
  isClosed :: bool
  wasFCloseCalled :: bool
  FCGI_errno :: int

record FCGX_Stream_Data = FCGX_Stream +
  buff :: "byte list"
  bufflen :: nat
  buffStop :: nat
  stype :: int
  eorStop :: bool
  skip :: bool
  contentLen :: nat
  paddingLen :: nat
  isAnythingWritten :: bool
  rawWrite :: bool

type_synonym strm = FCGX_Stream_Data

text \<open>The scalar part of \<^verbatim>\<open>FCGX_Request\<close>; the whole struct extends it in theory \<open>Request\<close>, so every
  stream operation works on the whole struct too.\<close>

record reqdata =
  requestId :: int
  role :: int
  ipcFd :: int
  isBeginProcessed :: bool
  keepConnection :: int
  appStatus :: int
  nWriters :: int
  flags :: int
  listen_sock :: int

text \<open>A procedure a stream calls to fill or empty its buffer.\<close>

type_synonym 'z proc =
  "strm \<Rightarrow> 'z reqdata_scheme \<Rightarrow> os_state \<Rightarrow> fault + strm \<times> 'z reqdata_scheme \<times> os_state"

abbreviation (input) "EOF \<equiv> - 1 :: int"

section \<open>Error state\<close>

definition SetError :: "int \<Rightarrow> strm \<Rightarrow> strm" where
  "SetError e s =
     (let s1 = (if FCGI_errno s = 0 then s\<lparr>FCGI_errno := e\<rparr> else s)
      in s1\<lparr>isClosed := True\<rparr>)"

definition FCGX_GetError :: "strm \<Rightarrow> int" where
  "FCGX_GetError s = FCGI_errno s"

definition FCGX_ClearError :: "strm \<Rightarrow> strm" where
  "FCGX_ClearError s = s\<lparr>FCGI_errno := 0\<rparr>"

definition FCGX_HasSeenEOF :: "strm \<Rightarrow> int" where
  "FCGX_HasSeenEOF s = (if isClosed s then EOF else 0)"

lemma SetError_simps [simp]:
  "isClosed (SetError e s)"
  "FCGI_errno (SetError e s) = (if FCGI_errno s = 0 then e else FCGI_errno s)"
  "rdNext (SetError e s) = rdNext s" "wrNext (SetError e s) = wrNext s"
  "stop (SetError e s) = stop s" "stopUnget (SetError e s) = stopUnget s"
  "isReader (SetError e s) = isReader s" "wasFCloseCalled (SetError e s) = wasFCloseCalled s"
  "buff (SetError e s) = buff s" "bufflen (SetError e s) = bufflen s"
  "buffStop (SetError e s) = buffStop s" "stype (SetError e s) = stype s"
  "eorStop (SetError e s) = eorStop s" "skip (SetError e s) = skip s"
  "contentLen (SetError e s) = contentLen s" "paddingLen (SetError e s) = paddingLen s"
  "isAnythingWritten (SetError e s) = isAnythingWritten s" "rawWrite (SetError e s) = rawWrite s"
  by (simp_all add: SetError_def Let_def)

section \<open>Creating streams\<close>

text \<open>\<open>mBuff\<close> is the address \<^verbatim>\<open>Malloc\<close> returned for the buffer; what the block holds is never read
  before it is written, so zeros stand for it.\<close>

definition NewStream :: "64 word \<Rightarrow> int \<Rightarrow> bool \<Rightarrow> int \<Rightarrow> strm" where
  "NewStream mBuff len reader streamType =
     (let blen = AlignInt8 (word_of_int (min (max len 32) (FCGI_MAX_LENGTH + 1)));
          start = AlignPtr8 mBuff;
          usable = (if start \<noteq> mBuff then blen - 8 else blen);
          bstop = (if reader then 0 else nat usable)
      in \<lparr> rdNext = (if reader then 0 else bstop),
           wrNext = (if reader then 0 else FCGI_HEADER_LEN),
           stop = (if reader then 0 else bstop),
           stopUnget = (if reader then Some 0 else None),
           isReader = reader,
           isClosed = False,
           wasFCloseCalled = False,
           FCGI_errno = 0,
           buff = replicate (nat blen - unat (start - mBuff)) 0,
           bufflen = nat usable,
           buffStop = bstop,
           stype = streamType,
           eorStop = False,
           skip = False,
           contentLen = 0,
           paddingLen = 0,
           isAnythingWritten = False,
           rawWrite = False \<rparr>)"

definition NewReader :: "64 word \<Rightarrow> int \<Rightarrow> int \<Rightarrow> strm" where
  "NewReader mBuff len streamType = NewStream mBuff len True streamType"

definition NewWriter :: "64 word \<Rightarrow> int \<Rightarrow> int \<Rightarrow> strm" where
  "NewWriter mBuff len streamType = NewStream mBuff len False streamType"

text \<open>\<^verbatim>\<open>SetReaderType\<close> forgets whatever is left of the current record, padding included.\<close>

definition SetReaderType :: "int \<Rightarrow> strm \<Rightarrow> fault + strm" where
  "SetReaderType streamType s =
     rbind (c_assert (isReader s)) (\<lambda>_.
     Inr (s\<lparr>stype := streamType, eorStop := False, skip := False, contentLen := 0,
            paddingLen := 0, stop := rdNext s, wrNext := rdNext s, isClosed := False\<rparr>))"

section \<open>Buffers lie inside their blocks\<close>

text \<open>The shape of every stream buffer: at most \<open>2 ^ 16\<close> bytes, a multiple of 8, at least 24, and
  all of it inside the block \<^verbatim>\<open>Malloc\<close> returned.\<close>

definition buf_ok :: "strm \<Rightarrow> bool" where
  "buf_ok s \<longleftrightarrow> bufflen s \<le> length (buff s) \<and> 8 dvd bufflen s \<and> 24 \<le> bufflen s \<and> bufflen s \<le> 2 ^ 16"

lemma buf_ok_cong [simp]:
  "buf_ok (s\<lparr>rdNext := x\<rparr>) = buf_ok s"
  "buf_ok (s\<lparr>wrNext := x\<rparr>) = buf_ok s"
  "buf_ok (s\<lparr>stop := x\<rparr>) = buf_ok s"
  "buf_ok (s\<lparr>isClosed := b\<rparr>) = buf_ok s"
  "buf_ok (s\<lparr>FCGI_errno := e\<rparr>) = buf_ok s"
  "buf_ok (s\<lparr>rawWrite := b\<rparr>) = buf_ok s"
  "buf_ok (s\<lparr>isAnythingWritten := b\<rparr>) = buf_ok s"
  by (simp_all add: buf_ok_def)

lemma AlignPtr8_offset:
  "unat (AlignPtr8 p - p) < 8" "AlignPtr8 p = p \<longleftrightarrow> unat (AlignPtr8 p - p) = 0"
proof -
  have "AlignPtr8 p = p + 7 AND (- 1 - 7)"
    by (simp add: AlignPtr8_def Let_def)
  also have "\<dots> = 8 * drop_bit 3 (p + 7)"
    by (rule align_word)
  also have "\<dots> = p + 7 - take_bit 3 (p + 7)"
    using bits_ident [of 3 "p + 7"] by (simp add: push_bit_eq_mult algebra_simps)
  finally have eq: "AlignPtr8 p - p = 7 - take_bit 3 (p + 7)"
    by simp
  have u: "unat (take_bit 3 (p + 7)) \<le> 7"
    by (simp add: take_bit_eq_mod unat_mod_distrib)
  then have "take_bit 3 (p + 7) \<le> 7"
    by (simp add: word_le_nat_alt)
  then have "unat (7 - take_bit 3 (p + 7)) = 7 - unat (take_bit 3 (p + 7))"
    by (subst unat_sub) simp_all
  then show "unat (AlignPtr8 p - p) < 8"
    by (simp add: eq)
  show "AlignPtr8 p = p \<longleftrightarrow> unat (AlignPtr8 p - p) = 0"
    by (simp add: unat_eq_zero)
qed

lemma NewStream_buf_ok: "buf_ok (NewStream mBuff len rd t)"
proof -
  define k where "k = nat ((min (max len 32) 0x10000 + 7) div 8)"
  define off where "off = unat (AlignPtr8 mBuff - mBuff)"
  have k: "4 \<le> k" "k \<le> 8192" by (auto simp: k_def)
  have a: "AlignInt8 (word_of_int (min (max len 32) (0xffff + 1))) = 8 * int k"
    by (subst AlignInt8_eq) (auto simp: k_def)
  have o: "off < 8" "AlignPtr8 mBuff \<noteq> mBuff \<longleftrightarrow> off \<noteq> 0"
    using AlignPtr8_offset [of mBuff] by (simp_all add: off_def)
  have blen: "nat (8 * int k - 8) = 8 * (k - 1)" using k by auto
  show ?thesis
    using k o unfolding buf_ok_def NewStream_def a
    by (auto simp: Let_def blen off_def [symmetric] nat_mult_distrib)
qed

section \<open>A request and a connection to evaluate with\<close>

definition sample_request :: reqdata where
  "sample_request = \<lparr> requestId = 1, role = FCGI_RESPONDER, ipcFd = 5, isBeginProcessed = True,
     keepConnection = 0, appStatus = 0, nWriters = 2, flags = 0, listen_sock = 0 \<rparr>"

definition sample_os :: "read_event list \<Rightarrow> write_event list \<Rightarrow> os_state" where
  "sample_os ins outs = \<lparr> conns = (\<lambda>_. \<lparr> inbox = ins, outcomes = outs, sent = [] \<rparr>),
     c_errno = 0, shutdownNow = False \<rparr>"

lemma sample_simps [simp]:
  "requestId sample_request = 1" "ipcFd sample_request = 5" "nWriters sample_request = 2"
  "appStatus sample_request = 0" "role sample_request = 1" "keepConnection sample_request = 0"
  "isBeginProcessed sample_request = True"
  "conns (sample_os ins outs) fd = \<lparr> inbox = ins, outcomes = outs, sent = [] \<rparr>"
  "c_errno (sample_os ins outs) = 0" "\<not> shutdownNow (sample_os ins outs)"
  by (simp_all add: sample_request_def sample_os_def)

end
