(* ===== verification/Writer.thy ===== *)
theory Writer
  imports StreamState
begin

text \<open>
  The output side of \<^verbatim>\<open>libfcgi/fcgiapp.c\<close>: \<^verbatim>\<open>FCGX_PutChar\<close>, \<^verbatim>\<open>FCGX_PutStr\<close>, \<^verbatim>\<open>FCGX_FFlush\<close> and
  \<^verbatim>\<open>FCGX_FClose\<close>, which call through the stream's \<^verbatim>\<open>emptyBuffProc\<close> pointer (the argument \<open>empt\<close>),
  and that procedure: \<^verbatim>\<open>EmptyBuffProc\<close> with \<^verbatim>\<open>WriteCloseRecords\<close>.

  The bytes an application hands over are a list; the C argument \<open>n\<close> is its length.
\<close>

section \<open>Operations on a writer\<close>

definition FCGX_PutChar ::
  "(bool \<Rightarrow> 'z proc) \<Rightarrow> int \<Rightarrow> strm \<Rightarrow> 'z reqdata_scheme \<Rightarrow> os_state \<Rightarrow>
    fault + int \<times> strm \<times> 'z reqdata_scheme \<times> os_state" where
  "FCGX_PutChar empt c s r os =
     (let store = (\<lambda>s r os.
        rbind (memcpy_to (buff s) (wrNext s) [word_of_int c]) (\<lambda>b.
        Inr (uint (word_of_int c :: byte), s\<lparr>buff := b, wrNext := wrNext s + 1\<rparr>, r, os)))
      in if wrNext s \<noteq> stop s then store s r os
         else if isClosed s \<or> isReader s then Inr (EOF, s, r, os)
         else rbind (empt False s r os) (\<lambda>(s, r, os).
           if wrNext s \<noteq> stop s then store s r os
           else rbind (c_assert (isClosed s)) (\<lambda>_. Inr (EOF, s, r, os))))"

text \<open>
  The copy step of \<^verbatim>\<open>FCGX_PutStr\<close>: as many bytes as fit are copied; the rest is returned. A \<open>stop\<close>
  below \<open>wrNext\<close> would make the count of the \<^verbatim>\<open>memcpy\<close> negative.
\<close>

definition put_some :: "byte list \<Rightarrow> strm \<Rightarrow> fault + byte list \<times> strm" where
  "put_some str s =
     (if wrNext s = stop s then Inr (str, s)
      else if stop s < wrNext s then Inl BufferOverrun
      else let m = min (length str) (stop s - wrNext s) in
        rbind (memcpy_to (buff s) (wrNext s) (take m str)) (\<lambda>b.
        Inr (drop m str, s\<lparr>buff := b, wrNext := wrNext s + m\<rparr>)))"

fun put_loop ::
  "(bool \<Rightarrow> 'z proc) \<Rightarrow> nat \<Rightarrow> int \<Rightarrow> byte list \<Rightarrow> strm \<Rightarrow> 'z reqdata_scheme \<Rightarrow> os_state \<Rightarrow>
    fault + int \<times> strm \<times> 'z reqdata_scheme \<times> os_state" where
  "put_loop empt 0 n str s r os = Inl OutOfFuel"
| "put_loop empt (Suc fuel) n str s r os =
     rbind (put_some str s) (\<lambda>(rest, s).
       if rest = [] then Inr (n, s, r, os)
       else if isClosed s \<or> isReader s then Inr (- 1, s, r, os)
       else rbind (empt False s r os) (\<lambda>(s, r, os). put_loop empt fuel n rest s r os))"

definition FCGX_PutStr ::
  "(bool \<Rightarrow> 'z proc) \<Rightarrow> byte list \<Rightarrow> strm \<Rightarrow> 'z reqdata_scheme \<Rightarrow> os_state \<Rightarrow>
    fault + int \<times> strm \<times> 'z reqdata_scheme \<times> os_state" where
  "FCGX_PutStr empt str s r os =
     (if int (length str) \<le> int (stop s) - int (wrNext s)
      then rbind (memcpy_to (buff s) (wrNext s) str) (\<lambda>b.
           Inr (int (length str), s\<lparr>buff := b, wrNext := wrNext s + length str\<rparr>, r, os))
      else put_loop empt (length str + 2) (int (length str)) str s r os)"

text \<open>\<open>strlen\<close> on the bytes of a C string: up to the first NUL.\<close>

definition FCGX_PutS ::
  "(bool \<Rightarrow> 'z proc) \<Rightarrow> byte list \<Rightarrow> strm \<Rightarrow> 'z reqdata_scheme \<Rightarrow> os_state \<Rightarrow>
    fault + int \<times> strm \<times> 'z reqdata_scheme \<times> os_state" where
  "FCGX_PutS empt str s r os = FCGX_PutStr empt (takeWhile (\<lambda>b. b \<noteq> 0) str) s r os"

definition FCGX_FFlush ::
  "(bool \<Rightarrow> 'z proc) \<Rightarrow> strm \<Rightarrow> 'z reqdata_scheme \<Rightarrow> os_state \<Rightarrow>
    fault + int \<times> strm \<times> 'z reqdata_scheme \<times> os_state" where
  "FCGX_FFlush empt s r os =
     (if isClosed s \<or> isReader s then Inr (0, s, r, os)
      else rbind (empt False s r os) (\<lambda>(s, r, os).
           Inr (if isClosed s then - 1 else 0, s, r, os)))"

definition FCGX_FClose ::
  "(bool \<Rightarrow> 'z proc) \<Rightarrow> strm option \<Rightarrow> 'z reqdata_scheme \<Rightarrow> os_state \<Rightarrow>
    fault + int \<times> strm option \<times> 'z reqdata_scheme \<times> os_state" where
  "FCGX_FClose empt so r os =
     (case so of
        None \<Rightarrow> Inr (0, None, r, os)
      | Some s \<Rightarrow>
          rbind
            (if \<not> wasFCloseCalled s then
               rbind (if \<not> isReader s then empt True s r os else Inr (s, r, os)) (\<lambda>(s, r, os).
               let s1 = s\<lparr>wasFCloseCalled := True, isClosed := True\<rparr>;
                   s2 = (if isReader s1
                         then s1\<lparr>stop := rdNext s1, wrNext := rdNext s1\<rparr>
                         else s1\<lparr>stop := wrNext s1, rdNext := wrNext s1\<rparr>)
               in Inr (s2, r, os))
             else Inr (s, r, os))
            (\<lambda>(s, r, os). Inr (if FCGI_errno s = 0 then 0 else EOF, Some s, r, os)))"

section \<open>EmptyBuffProc\<close>

text \<open>The first block of \<^verbatim>\<open>EmptyBuffProc\<close>: pad the buffered content and write its record header into
  the eight bytes reserved at the start, or reclaim them when there is no content.\<close>

definition encapsulate :: "strm \<Rightarrow> 'z reqdata_scheme \<Rightarrow> fault + strm" where
  "encapsulate s r =
     (if rawWrite s then Inr s
      else let cLen = int (wrNext s) - int FCGI_HEADER_LEN in
        if cLen > 0 then
          let eLen = AlignInt8 (word_of_int cLen) in
          rbind (memcpy_to (buff s) (wrNext s) (replicate (nat (eLen - cLen)) 0)) (\<lambda>b1.
          rbind (MakeHeader (stype s) (requestId r) cLen (eLen - cLen)) (\<lambda>h.
          rbind (memcpy_to b1 0 (header_bytes h)) (\<lambda>b2.
          Inr (s\<lparr>buff := b2, wrNext := wrNext s + nat (eLen - cLen)\<rparr>))))
        else Inr (s\<lparr>wrNext := 0\<rparr>))"

text \<open>Its last block: write the buffer out and start an empty one.\<close>

definition flush_buffer :: "'z proc" where
  "flush_buffer s r os =
     (let reserve = (\<lambda>s. if \<not> rawWrite s then s\<lparr>wrNext := wrNext s + FCGI_HEADER_LEN\<rparr> else s)
      in if wrNext s \<noteq> 0 then
           let s1 = s\<lparr>isAnythingWritten := True\<rparr>;
               (res, os1) = write_it_all (ipcFd r) (take (wrNext s1) (buff s1)) os
           in if res < 0 then Inr (SetError (c_errno os1) s1, r, os1)
              else Inr (reserve (s1\<lparr>wrNext := 0\<rparr>), r, os1)
         else Inr (reserve s, r, os))"

text \<open>\<^verbatim>\<open>EmptyBuffProc\<close> with \<^verbatim>\<open>doClose\<close> false, the form \<^verbatim>\<open>FCGX_PutStr\<close> calls, also from within
  \<^verbatim>\<open>WriteCloseRecords\<close>; \<open>EmptyBuffProc_False\<close> below shows it is that instance.\<close>

definition EmptyBuffProc_noclose :: "'z proc" where
  "EmptyBuffProc_noclose s r os = rbind (encapsulate s r) (\<lambda>s. flush_buffer s r os)"

definition WriteCloseRecords :: "'z proc" where
  "WriteCloseRecords s r os =
     (let s = s\<lparr>rawWrite := True\<rparr> in
      rbind
        (if \<not> (stype s = FCGI_STDERR \<and> wrNext s = 0 \<and> \<not> isAnythingWritten s)
         then rbind (MakeHeader (stype s) (requestId r) 0 0) (\<lambda>h.
              rbind (FCGX_PutStr (\<lambda>_. EmptyBuffProc_noclose) (header_bytes h) s r os) (\<lambda>(_, s, r, os).
              Inr (s, r, os)))
         else Inr (s, r, os)) (\<lambda>(s, r, os).
      rbind
        (if nWriters r = 1
         then rbind (MakeHeader FCGI_END_REQUEST (requestId r) 8 0) (\<lambda>h.
              rbind (FCGX_PutStr (\<lambda>_. EmptyBuffProc_noclose)
                       (header_bytes h @
                        end_body_bytes (MakeEndRequestBody (appStatus r) FCGI_REQUEST_COMPLETE))
                       s r os) (\<lambda>(_, s, r, os).
              Inr (s, r, os)))
         else Inr (s, r, os)) (\<lambda>(s, r, os).
      Inr (s, r\<lparr>nWriters := nWriters r - 1\<rparr>, os))))"

definition EmptyBuffProc :: "bool \<Rightarrow> 'z proc" where
  "EmptyBuffProc doClose s r os =
     rbind (encapsulate s r) (\<lambda>s.
     rbind (if doClose then WriteCloseRecords s r os else Inr (s, r, os)) (\<lambda>(s, r, os).
     flush_buffer s r os))"

lemma EmptyBuffProc_False: "EmptyBuffProc False = EmptyBuffProc_noclose"
  by (intro ext) (simp add: EmptyBuffProc_def EmptyBuffProc_noclose_def)

section \<open>The record a full buffer becomes\<close>

definition pad8 :: "nat \<Rightarrow> nat" where
  "pad8 n = 8 * ((n + 7) div 8) - n"

lemma pad8_add: "n + pad8 n = 8 * ((n + 7) div 8)"
proof -
  have "n \<le> 8 * ((n + 7) div 8)" by arith
  then show ?thesis by (simp add: pad8_def)
qed

lemma pad8_lt: "pad8 n < 8"
proof -
  have "8 * ((n + 7) div 8) \<le> n + 7" by (rule times_div_less_eq_dividend)
  then show ?thesis by (simp add: pad8_def)
qed

lemma pad8_dvd: "8 dvd n + pad8 n"
  by (simp add: pad8_add)

lemma pad8_le: "8 dvd m \<Longrightarrow> n \<le> m \<Longrightarrow> n + pad8 n \<le> m"
proof -
  assume "8 dvd m" "n \<le> m"
  then obtain k where "m = 8 * k" by (elim dvdE)
  with \<open>n \<le> m\<close> have "(n + 7) div 8 \<le> k" by simp
  with \<open>m = 8 * k\<close> show ?thesis by (simp add: pad8_add)
qed

lemma align8_pad8:
  assumes "n < 2 ^ 31 - 8"
  shows "AlignInt8 (word_of_int (int n)) - int n = int (pad8 n)"
proof -
  have "AlignInt8 (word_of_int (int n)) = 8 * ((int n + 7) div 8)"
    using assms by (intro AlignInt8_eq) auto
  also have "\<dots> = int (n + pad8 n)"
    by (simp add: pad8_add zdiv_int)
  finally show ?thesis by simp
qed

definition frame :: "int \<Rightarrow> int \<Rightarrow> byte list \<Rightarrow> byte list" where
  "frame t i c = wire_record t i c (replicate (pad8 (length c)) 0)"

lemma length_frame [simp]: "length (frame t i c) = 8 + length c + pad8 (length c)"
  by (simp add: frame_def)

text \<open>The state of an open writer's buffer, and the content it holds.\<close>

definition wbuf_ok :: "strm \<Rightarrow> bool" where
  "wbuf_ok s \<longleftrightarrow> buf_ok s \<and> \<not> isReader s \<and> stop s = bufflen s \<and> wrNext s \<le> stop s \<and>
     (\<not> rawWrite s \<longrightarrow> 8 \<le> wrNext s)"

definition pending :: "strm \<Rightarrow> byte list" where
  "pending s = slice (if rawWrite s then 0 else 8) (wrNext s) (buff s)"

lemma length_pending:
  "wbuf_ok s \<Longrightarrow> length (pending s) = wrNext s - (if rawWrite s then 0 else 8)"
  by (auto simp: pending_def wbuf_ok_def buf_ok_def)

lemma encapsulate_raw: "rawWrite s \<Longrightarrow> encapsulate s r = Inr s"
  by (simp add: encapsulate_def)

lemma encapsulate_empty:
  "wbuf_ok s \<Longrightarrow> \<not> rawWrite s \<Longrightarrow> pending s = [] \<Longrightarrow> encapsulate s r = Inr (s\<lparr>wrNext := 0\<rparr>)"
  using length_pending [of s] by (simp add: encapsulate_def)

lemma encapsulate_frame:
  assumes ok: "wbuf_ok s" and raw: "\<not> rawWrite s" and ne: "pending s \<noteq> []"
  obtains b where
    "encapsulate s r = Inr (s\<lparr>buff := b, wrNext := wrNext s + pad8 (length (pending s))\<rparr>)"
    "length b = length (buff s)"
    "take (wrNext s + pad8 (length (pending s))) b = frame (stype s) (requestId r) (pending s)"
    "wrNext s + pad8 (length (pending s)) \<le> stop s"
proof -
  define n where "n = length (pending s)"
  have n0: "0 < n" using ne by (simp add: n_def)
  have n1: "n = wrNext s - 8"
    using length_pending [OF ok] raw by (simp add: n_def)
  note n = n1 n0
  have n8: "wrNext s = n + 8" using n by simp
  have sz: "stop s \<le> length (buff s)" "wrNext s \<le> stop s" "stop s \<le> 2 ^ 16" "8 dvd stop s"
    using ok by (auto simp: wbuf_ok_def buf_ok_def)
  have fits: "wrNext s + pad8 n \<le> stop s"
  proof -
    have "8 dvd stop s - 8" using sz by simp
    moreover have "n \<le> stop s - 8" using n sz by simp
    ultimately have "n + pad8 n \<le> stop s - 8" by (rule pad8_le)
    then show ?thesis using n by simp
  qed
  define b1 where "b1 = poke (buff s) (wrNext s) (replicate (pad8 n) 0)"
  define h where "h = mk_header (stype s) (requestId r) (int n) (int (pad8 n))"
  define b2 where "b2 = poke b1 0 (header_bytes h)"
  have l1: "length b1 = length (buff s)"
    using fits sz by (simp add: b1_def)
  have cl: "int (wrNext s) - 8 = int n" using n8 by simp
  have al: "AlignInt8 (word_of_int (int n)) - int n = int (pad8 n)"
    using n8 sz by (intro align8_pad8) simp
  have mk: "MakeHeader (stype s) (requestId r) (int n) (int (pad8 n)) = Inr h"
    using n8 sz pad8_lt [of n] by (simp add: h_def MakeHeader_ok)
  have m1: "memcpy_to (buff s) (wrNext s) (replicate (pad8 n) 0) = Inr b1"
    using fits sz by (simp add: b1_def)
  have m2: "memcpy_to b1 0 (header_bytes h) = Inr b2"
    using n8 sz by (simp add: b2_def l1)
  have "encapsulate s r = Inr (s\<lparr>buff := b2, wrNext := wrNext s + pad8 n\<rparr>)"
    using n0 raw by (simp add: encapsulate_def Let_def cl al [simplified] mk m1 m2)
  moreover have "length b2 = length (buff s)"
    using n8 sz by (simp add: b2_def l1)
  moreover have "take (wrNext s + pad8 n) b2 = frame (stype s) (requestId r) (pending s)"
  proof -
    have "b2 = header_bytes h @ drop 8 b1"
      by (simp add: b2_def poke_0)
    then have "take (wrNext s + pad8 n) b2 = header_bytes h @ slice 8 (wrNext s + pad8 n) b1"
      using n8 by (simp add: slice_def)
    also have "slice 8 (wrNext s + pad8 n) b1 = pending s @ replicate (pad8 n) 0"
      using slice_poke_right [of "wrNext s" "replicate (pad8 n) 0" "buff s" 8] fits sz n8 raw
      by (simp add: b1_def pending_def)
    finally show ?thesis
      by (simp add: frame_def wire_record_def h_def n_def)
  qed
  ultimately show ?thesis
    using that fits by (simp add: n_def)
qed

lemma flush_buffer_cases:
  obtains
    (ok) os' where
      "flush_buffer s r os = Inr (s\<lparr>isAnythingWritten := (wrNext s \<noteq> 0 \<or> isAnythingWritten s),
         wrNext := (if rawWrite s then 0 else 8)\<rparr>, r, os')"
      "sends (ipcFd r) (take (wrNext s) (buff s)) os os'" "c_errno os' = c_errno os"
  | (failed) os' k where
      "flush_buffer s r os = Inr (SetError (c_errno os') (s\<lparr>isAnythingWritten := True\<rparr>), r, os')"
      "\<not> writes_ok (ipcFd r) os" "real_errors (ipcFd r) os \<longrightarrow> c_errno os' \<noteq> 0" "wrNext s \<noteq> 0"
      "sends (ipcFd r) (take k (take (wrNext s) (buff s))) os os'"
proof (cases "wrNext s = 0")
  case True
  have "flush_buffer s r os = Inr (s\<lparr>isAnythingWritten := (wrNext s \<noteq> 0 \<or> isAnythingWritten s),
         wrNext := (if rawWrite s then 0 else 8)\<rparr>, r, os)"
    using True by (cases s) (simp add: flush_buffer_def Let_def)
  then show ?thesis using True ok [of os] by simp
next
  case False
  obtain res os1 where w: "write_it_all (ipcFd r) (take (wrNext s) (buff s)) os = (res, os1)"
    by fastforce
  from write_it_all_sends [OF w] show ?thesis
  proof (elim disjE conjE exE)
    assume "res = 0" "sends (ipcFd r) (take (wrNext s) (buff s)) os os1" "c_errno os1 = c_errno os"
    then show ?thesis using False w
      by (intro ok [of os1]) (simp_all add: flush_buffer_def Let_def)
  next
    fix k assume "res = - 1" "\<not> writes_ok (ipcFd r) os" "real_errors (ipcFd r) os \<longrightarrow> c_errno os1 \<noteq> 0"
      "sends (ipcFd r) (take k (take (wrNext s) (buff s))) os os1"
    then show ?thesis using False w
      by (intro failed [of os1 k]) (simp_all add: flush_buffer_def Let_def)
  qed
qed


section \<open>The interface of emptyBuffProc\<close>

text \<open>What no operation of an open writer changes.\<close>

definition same_writer :: "strm \<Rightarrow> strm \<Rightarrow> bool" where
  "same_writer s s' \<longleftrightarrow> bufflen s' = bufflen s \<and> length (buff s') = length (buff s) \<and>
     stype s' = stype s \<and> rawWrite s' = rawWrite s \<and> isReader s' = isReader s \<and>
     wasFCloseCalled s' = wasFCloseCalled s \<and> stop s' = stop s \<and> buffStop s' = buffStop s"

lemma same_writer_refl [simp]: "same_writer s s"
  by (simp add: same_writer_def)

lemma same_writer_trans: "same_writer s s' \<Longrightarrow> same_writer s' s'' \<Longrightarrow> same_writer s s''"
  by (simp add: same_writer_def)

text \<open>
  A sink's \<open>emits t r bs os os'\<close> says that, in going from \<open>os\<close> to \<open>os'\<close>, the content \<open>bs\<close> left the
  process in the sink's encoding. Three outcomes of an operation that is given the bytes \<open>str\<close>: all
  bytes are now emitted or pending, in order (\<open>emitted\<close>); a write failed, which closes the stream
  and records the first error (\<open>write_failed\<close>); the stream was closed before and nothing is sent
  (\<open>rejected\<close>).
\<close>

definition emitted ::
  "(int \<Rightarrow> 'z reqdata_scheme \<Rightarrow> byte list \<Rightarrow> os_state \<Rightarrow> os_state \<Rightarrow> bool) \<Rightarrow> byte list \<Rightarrow>
    strm \<Rightarrow> 'z reqdata_scheme \<Rightarrow> os_state \<Rightarrow> strm \<Rightarrow> os_state \<Rightarrow> bool" where
  "emitted emits str s r os s' os' \<longleftrightarrow>
     wbuf_ok s' \<and> same_writer s s' \<and> isClosed s' = isClosed s \<and> FCGI_errno s' = FCGI_errno s \<and>
     (\<exists>e. emits (stype s) r e os os' \<and> pending s @ str = e @ pending s' \<and>
          isAnythingWritten s' = (isAnythingWritten s \<or> e \<noteq> []))"

definition first_error :: "strm \<Rightarrow> os_state \<Rightarrow> int" where
  "first_error s os = (if FCGI_errno s = 0 then c_errno os else FCGI_errno s)"

definition write_failed :: "strm \<Rightarrow> 'z reqdata_scheme \<Rightarrow> os_state \<Rightarrow> strm \<Rightarrow> os_state \<Rightarrow> bool" where
  "write_failed s r os s' os' \<longleftrightarrow>
     wbuf_ok s' \<and> same_writer s s' \<and> isClosed s' \<and> \<not> writes_ok (ipcFd r) os \<and>
     (real_errors (ipcFd r) os \<longrightarrow> c_errno os' \<noteq> 0) \<and> FCGI_errno s' = first_error s os'"

definition rejected :: "strm \<Rightarrow> os_state \<Rightarrow> strm \<Rightarrow> os_state \<Rightarrow> bool" where
  "rejected s os s' os' \<longleftrightarrow>
     wbuf_ok s' \<and> same_writer s s' \<and> isClosed s \<and> isClosed s' \<and> FCGI_errno s' = FCGI_errno s \<and> os' = os"

lemmas outcome_defs = emitted_def write_failed_def rejected_def

lemma emittedI:
  "wbuf_ok s' \<Longrightarrow> same_writer s s' \<Longrightarrow> isClosed s' = isClosed s \<Longrightarrow> FCGI_errno s' = FCGI_errno s \<Longrightarrow>
   emits (stype s) r e os os' \<Longrightarrow> pending s @ str = e @ pending s' \<Longrightarrow>
   isAnythingWritten s' = (isAnythingWritten s \<or> e \<noteq> []) \<Longrightarrow> emitted emits str s r os s' os'"
  by (auto simp: emitted_def)

lemma outcome_wbuf_ok:
  "emitted emits str s r os s' os' \<Longrightarrow> wbuf_ok s'"
  "write_failed s r os s' os' \<Longrightarrow> wbuf_ok s'"
  "rejected s os s' os' \<Longrightarrow> wbuf_ok s'"
  by (simp_all add: outcome_defs)

lemma outcome_same_writer:
  "emitted emits str s r os s' os' \<Longrightarrow> same_writer s s'"
  "write_failed s r os s' os' \<Longrightarrow> same_writer s s'"
  "rejected s os s' os' \<Longrightarrow> same_writer s s'"
  by (simp_all add: outcome_defs)

text \<open>
  The contract of a stream's \<^verbatim>\<open>emptyBuffProc\<close> (with \<^verbatim>\<open>doClose\<close> false): on an open buffer it either
  emits all the pending content and leaves an empty buffer, or a write failed.
\<close>

locale byte_sink =
  fixes empt :: "bool \<Rightarrow> 'z proc"
    and raw :: bool
    and emits :: "int \<Rightarrow> 'z reqdata_scheme \<Rightarrow> byte list \<Rightarrow> os_state \<Rightarrow> os_state \<Rightarrow> bool"
  assumes emits_refl: "emits t r [] os os"
    and emits_trans: "emits t r bs os os1 \<Longrightarrow> emits t r cs os1 os2 \<Longrightarrow> emits t r (bs @ cs) os os2"
    and emits_writes_ok: "emits t r bs os os1 \<Longrightarrow> writes_ok (ipcFd r) os \<Longrightarrow> writes_ok (ipcFd r) os1"
    and emits_real_errors:
      "emits t r bs os os1 \<Longrightarrow> real_errors (ipcFd r) os \<Longrightarrow> real_errors (ipcFd r) os1"
    and empt: "wbuf_ok s \<Longrightarrow> rawWrite s = raw \<Longrightarrow>
      \<exists>s' os'. empt False s r os = Inr (s', r, os') \<and>
        ((emitted emits [] s r os s' os' \<and> pending s' = []) \<or>
         (write_failed s r os s' os' \<and> wrNext s \<le> wrNext s'))"
begin

lemma emitted_refl: "wbuf_ok s \<Longrightarrow> emitted emits [] s r os s os"
  by (rule emittedI [where e = "[]"]) (simp_all add: emits_refl)

lemma emitted_trans:
  assumes "emitted emits str s r os s1 os1" "emitted emits str' s1 r os1 s2 os2"
  shows "emitted emits (str @ str') s r os s2 os2"
proof -
  obtain e where e: "emits (stype s) r e os os1" "pending s @ str = e @ pending s1"
    "isAnythingWritten s1 = (isAnythingWritten s \<or> e \<noteq> [])"
    using assms(1) by (auto simp: emitted_def)
  obtain f where f: "emits (stype s) r f os1 os2" "pending s1 @ str' = f @ pending s2"
    "isAnythingWritten s2 = (isAnythingWritten s1 \<or> f \<noteq> [])"
    using assms by (auto simp: emitted_def same_writer_def)
  have app: "pending s @ str @ str' = (e @ f) @ pending s2"
    using e(2) f(2) by (metis append.assoc)
  have "same_writer s s2"
    using assms by (auto simp: emitted_def intro: same_writer_trans)
  moreover have "wbuf_ok s2" "isClosed s2 = isClosed s" "FCGI_errno s2 = FCGI_errno s"
    using assms by (simp_all add: emitted_def)
  moreover have "isAnythingWritten s2 = (isAnythingWritten s \<or> e @ f \<noteq> [])"
    using e(3) f(3) by simp
  ultimately show ?thesis
    using emits_trans [OF e(1) f(1)] app by (blast intro: emittedI)
qed

lemma emitted_then_failed:
  assumes "emitted emits str s r os s1 os1" "write_failed s1 r os1 s2 os2"
  shows "write_failed s r os s2 os2"
  using assms
  by (auto simp: outcome_defs first_error_def intro: same_writer_trans dest: emits_writes_ok emits_real_errors)

lemma room_after_empty:
  assumes "wbuf_ok s" "pending s = []"
  shows "wrNext s < stop s" "wrNext s \<noteq> stop s"
  using length_pending [OF assms(1)] assms by (auto simp: wbuf_ok_def buf_ok_def split: if_splits)

text \<open>Storing bytes for which there is room.\<close>

lemma store_some:
  assumes ok: "wbuf_ok s" and m: "wrNext s + length bs \<le> stop s"
  defines "s' \<equiv> s\<lparr>buff := poke (buff s) (wrNext s) bs, wrNext := wrNext s + length bs\<rparr>"
  shows "memcpy_to (buff s) (wrNext s) bs = Inr (poke (buff s) (wrNext s) bs)"
    "emitted emits bs s r os s' os" "wrNext s' = wrNext s + length bs"
proof -
  have fits: "wrNext s + length bs \<le> length (buff s)"
    using ok m by (auto simp: wbuf_ok_def buf_ok_def)
  then show "memcpy_to (buff s) (wrNext s) bs = Inr (poke (buff s) (wrNext s) bs)"
    by simp
  have "pending s' = pending s @ bs"
    using ok fits by (auto simp: s'_def pending_def wbuf_ok_def slice_poke_right)
  then show "emitted emits bs s r os s' os"
    using ok m fits
    by (intro emittedI [where e = "[]"])
      (auto simp: s'_def emits_refl wbuf_ok_def buf_ok_def same_writer_def)
  show "wrNext s' = wrNext s + length bs" by (simp add: s'_def)
qed

lemma put_some_spec:
  fixes s :: strm and str :: "byte list"
  assumes ok: "wbuf_ok s"
  defines "m \<equiv> min (length str) (stop s - wrNext s)"
  obtains s1 where "put_some str s = Inr (drop m str, s1)"
    "emitted emits (take m str) s r os s1 os" "wrNext s1 = wrNext s + m"
proof (cases "wrNext s = stop s")
  case True
  then show ?thesis using that [of s] emitted_refl [OF ok] by (simp add: put_some_def m_def)
next
  case False
  have le: "wrNext s \<le> stop s" using ok by (simp add: wbuf_ok_def)
  have len: "length (take m str) = m" by (simp add: m_def)
  have fits: "wrNext s + length (take m str) \<le> stop s"
    using le by (simp add: m_def)
  show ?thesis
    using False le store_some(1,3) [OF ok fits] store_some(2) [OF ok fits, of r os] len
    by (intro that [of "s\<lparr>buff := poke (buff s) (wrNext s) (take m str), wrNext := wrNext s + m\<rparr>"])
      (simp_all add: put_some_def m_def [symmetric])
qed

text \<open>
  The copying loop of \<^verbatim>\<open>FCGX_PutStr\<close>: the bound on its iterations is never reached, and it either
  returns \<open>n\<close> with every byte emitted or pending, in order, or returns -1 on a closed stream.
\<close>

lemma put_loop_spec:
  assumes "wbuf_ok s" "rawWrite s = raw" "str \<noteq> []"
    and "length str + (if wrNext s = stop s then 2 else 1) \<le> fuel"
  shows "\<exists>n' s' os'. put_loop empt fuel n str s r os = Inr (n', s', r, os') \<and>
    ((n' = n \<and> emitted emits str s r os s' os') \<or>
     (n' = - 1 \<and> (write_failed s r os s' os' \<or> rejected s os s' os')))"
  using assms
proof (induction fuel arbitrary: s str os)
  case 0
  then show ?case by simp
next
  case (Suc fuel)
  define m where "m = min (length str) (stop s - wrNext s)"
  obtain s1 where s1: "put_some str s = Inr (drop m str, s1)"
    "emitted emits (take m str) s r os s1 os" "wrNext s1 = wrNext s + m"
    using put_some_spec [OF Suc.prems(1), of str r os] unfolding m_def by metis
  have s1': "wbuf_ok s1" "rawWrite s1 = raw" "stop s1 = stop s" "\<not> isReader s1"
    using s1(2) Suc.prems(2) by (auto simp: emitted_def same_writer_def wbuf_ok_def)
  show ?case
  proof (cases "drop m str = []")
    case True
    then show ?thesis using s1 by auto
  next
    case False
    then have m: "m = stop s - wrNext s" "m < length str" by (auto simp: m_def)
    have full: "wrNext s1 = stop s1"
      using m s1 s1' Suc.prems(1) by (simp add: wbuf_ok_def)
    have shorter: "length (drop m str) + 1 \<le> fuel"
      using Suc.prems(1,4) m by (auto simp: wbuf_ok_def split: if_splits)
    show ?thesis
    proof (cases "isClosed s1")
      case True
      then have "rejected s os s1 os" using s1(2) by (auto simp: outcome_defs)
      then show ?thesis using False True s1 by auto
    next
      case open1: False
      obtain s2 os2 where s2: "empt False s1 r os = Inr (s2, r, os2)"
        and alt: "(emitted emits [] s1 r os s2 os2 \<and> pending s2 = []) \<or>
          (write_failed s1 r os s2 os2 \<and> wrNext s1 \<le> wrNext s2)"
        using empt [OF s1'(1,2), of r os] by auto
      have step: "put_loop empt (Suc fuel) n str s r os = put_loop empt fuel n (drop m str) s2 r os2"
        using False open1 s1 s1' s2 by simp
      from alt show ?thesis
      proof
        assume a: "emitted emits [] s1 r os s2 os2 \<and> pending s2 = []"
        then have s2': "wbuf_ok s2" "rawWrite s2 = raw" "\<not> isClosed s2"
          using s1'(2) open1 by (auto simp: emitted_def same_writer_def)
        have e2: "emitted emits (take m str) s r os s2 os2"
          using emitted_trans [OF s1(2), of "[]" s2 os2] a by simp
        have "length (drop m str) + (if wrNext s2 = stop s2 then 2 else 1) \<le> fuel"
          using room_after_empty [OF s2'(1)] a shorter by simp
        from Suc.IH [OF s2'(1,2) False this, of os2]
        show ?thesis
          unfolding step using s2'(3) emitted_trans [OF e2, of "drop m str"] emitted_then_failed [OF e2]
          by (auto simp: rejected_def) 
      next
        assume a: "write_failed s1 r os s2 os2 \<and> wrNext s1 \<le> wrNext s2"
        then have c: "wrNext s2 = stop s2" "isClosed s2"
          using full by (auto simp: write_failed_def same_writer_def wbuf_ok_def)
        then have "put_loop empt fuel n (drop m str) s2 r os2 = Inr (- 1, s2, r, os2)"
          using False shorter by (cases fuel) (simp_all add: put_some_def)
        then show ?thesis
          using step emitted_then_failed [OF s1(2)] a by auto
      qed
    qed
  qed
qed

lemma PutStr_spec:
  assumes "wbuf_ok s" "rawWrite s = raw"
  shows "\<exists>n' s' os'. FCGX_PutStr empt str s r os = Inr (n', s', r, os') \<and>
    ((n' = int (length str) \<and> emitted emits str s r os s' os') \<or>
     (n' = - 1 \<and> (write_failed s r os s' os' \<or> rejected s os s' os')))"
proof (cases "int (length str) \<le> int (stop s) - int (wrNext s)")
  case True
  then have fits: "wrNext s + length str \<le> stop s" by simp
  then show ?thesis
    using True store_some(1,3) [OF assms(1) fits] store_some(2) [OF assms(1) fits, of r os] by (auto simp: FCGX_PutStr_def)
next
  case False
  then have "str \<noteq> []" using assms(1) by (auto simp: wbuf_ok_def)
  from put_loop_spec [OF assms this, of "length str + 2" "int (length str)" r os]
  show ?thesis using False by (simp add: FCGX_PutStr_def)
qed

lemma PutChar_spec:
  assumes ok: "wbuf_ok s" and raw: "rawWrite s = raw"
  shows "\<exists>n' s' os'. FCGX_PutChar empt c s r os = Inr (n', s', r, os') \<and>
    ((n' = uint (word_of_int c :: byte) \<and> emitted emits [word_of_int c] s r os s' os') \<or>
     (n' = EOF \<and> (write_failed s r os s' os' \<or> rejected s os s' os')))"
proof (cases "wrNext s = stop s")
  case False
  then have fits: "wrNext s + length [word_of_int c :: byte] \<le> stop s"
    using ok by (simp add: wbuf_ok_def)
  show ?thesis
    using False store_some(1,3) [OF ok fits] store_some(2) [OF ok fits, of r os] by (auto simp: FCGX_PutChar_def Let_def)
next
  case full: True
  have rd: "\<not> isReader s" using ok by (simp add: wbuf_ok_def)
  show ?thesis
  proof (cases "isClosed s")
    case True
    then show ?thesis using full ok by (simp add: FCGX_PutChar_def rejected_def)
  next
    case False
    obtain s2 os2 where s2: "empt False s r os = Inr (s2, r, os2)"
      and alt: "(emitted emits [] s r os s2 os2 \<and> pending s2 = []) \<or>
        (write_failed s r os s2 os2 \<and> wrNext s \<le> wrNext s2)"
      using empt [OF ok raw, of r os] by auto
    from alt show ?thesis
    proof
      assume a: "emitted emits [] s r os s2 os2 \<and> pending s2 = []"
      then have ok2: "wbuf_ok s2" by (simp add: emitted_def)
      have room: "wrNext s2 \<noteq> stop s2" "wrNext s2 + length [word_of_int c :: byte] \<le> stop s2"
        using room_after_empty [OF ok2] a by simp_all
      show ?thesis
        using full False rd s2 room store_some(1,3) [OF ok2 room(2)] store_some(2) [OF ok2 room(2), of r os2] a
          emitted_trans [of "[]" s r os s2 os2 "[word_of_int c]"]
        by (auto simp: FCGX_PutChar_def Let_def)
    next
      assume a: "write_failed s r os s2 os2 \<and> wrNext s \<le> wrNext s2"
      then have "wrNext s2 = stop s2" "isClosed s2"
        using full by (auto simp: write_failed_def same_writer_def wbuf_ok_def)
      then show ?thesis
        using full False rd s2 a by (simp add: FCGX_PutChar_def Let_def)
    qed
  qed
qed

lemma FFlush_spec:
  assumes ok: "wbuf_ok s" and raw: "rawWrite s = raw"
  shows "\<exists>n' s' os'. FCGX_FFlush empt s r os = Inr (n', s', r, os') \<and>
    ((n' = 0 \<and> \<not> isClosed s \<and> emitted emits [] s r os s' os' \<and> pending s' = []) \<or>
     (n' = - 1 \<and> \<not> isClosed s \<and> write_failed s r os s' os') \<or>
     (n' = 0 \<and> isClosed s \<and> s' = s \<and> os' = os))"
  using empt [OF ok raw, of r os] ok
  by (auto simp: FCGX_FFlush_def wbuf_ok_def emitted_def write_failed_def)

end


section \<open>EmptyBuffProc provides the interface\<close>

text \<open>In raw mode (while the closing records are written) bytes leave as they are; otherwise each
  flush sends one record of at most 65528 bytes of content.\<close>

definition emits_raw :: "int \<Rightarrow> 'z reqdata_scheme \<Rightarrow> byte list \<Rightarrow> os_state \<Rightarrow> os_state \<Rightarrow> bool" where
  "emits_raw t r bs os os' = sends (ipcFd r) bs os os'"

definition chunk_ok :: "byte list \<Rightarrow> bool" where
  "chunk_ok c \<longleftrightarrow> c \<noteq> [] \<and> length c \<le> 65528"

definition frames :: "int \<Rightarrow> int \<Rightarrow> byte list list \<Rightarrow> byte list" where
  "frames t i cs = concat (map (frame t i) cs)"

lemma frames_simps [simp]:
  "frames t i [] = []"
  "frames t i (c # cs) = frame t i c @ frames t i cs"
  "frames t i (cs @ ds) = frames t i cs @ frames t i ds"
  by (simp_all add: frames_def)

definition emits_framed :: "int \<Rightarrow> 'z reqdata_scheme \<Rightarrow> byte list \<Rightarrow> os_state \<Rightarrow> os_state \<Rightarrow> bool" where
  "emits_framed t r bs os os' \<longleftrightarrow>
     (\<exists>cs. concat cs = bs \<and> (\<forall>c \<in> set cs. chunk_ok c) \<and>
        sends (ipcFd r) (frames t (requestId r) cs) os os')"

lemma emits_framed_refl: "emits_framed t r [] os os"
  unfolding emits_framed_def by (rule exI [of _ "[]"]) simp

lemma emits_framed_trans:
  assumes "emits_framed t r bs os os1" "emits_framed t r cs os1 os2"
  shows "emits_framed t r (bs @ cs) os os2"
proof -
  obtain xs where xs: "concat xs = bs" "\<forall>c\<in>set xs. chunk_ok c"
    "sends (ipcFd r) (frames t (requestId r) xs) os os1"
    using assms(1) by (auto simp: emits_framed_def)
  obtain ys where ys: "concat ys = cs" "\<forall>c\<in>set ys. chunk_ok c"
    "sends (ipcFd r) (frames t (requestId r) ys) os1 os2"
    using assms(2) by (auto simp: emits_framed_def)
  show ?thesis
    unfolding emits_framed_def
    using xs ys sends_trans [OF xs(3) ys(3)] by (intro exI [of _ "xs @ ys"]) auto
qed

lemma emits_framed_single:
  "chunk_ok c \<Longrightarrow> sends (ipcFd r) (frame t (requestId r) c) os os' \<Longrightarrow> emits_framed t r c os os'"
  unfolding emits_framed_def by (rule exI [of _ "[c]"]) simp

lemma chunk_ok_pending:
  "wbuf_ok s \<Longrightarrow> \<not> rawWrite s \<Longrightarrow> pending s \<noteq> [] \<Longrightarrow> chunk_ok (pending s)"
  using length_pending [of s] by (auto simp: chunk_ok_def wbuf_ok_def buf_ok_def)

text \<open>One flush of a raw buffer, and of a framed one.\<close>

lemma flush_raw:
  fixes r :: "'z reqdata_scheme"
  assumes ok: "wbuf_ok s" and raw: "rawWrite s"
  shows "\<exists>s' os'. flush_buffer s r os = Inr (s', r, os') \<and>
     ((emitted emits_raw [] s r os s' os' \<and> pending s' = []) \<or>
      (write_failed s r os s' os' \<and> wrNext s \<le> wrNext s'))"
proof -
  have pend: "pending s = take (wrNext s) (buff s)" "(pending s = []) = (wrNext s = 0)"
    using length_pending [OF ok] raw by (auto simp: pending_def slice_def)
  show ?thesis
  proof (cases rule: flush_buffer_cases [of s r os])
    case (ok os')
    then show ?thesis
      using assms pend
      by (auto simp: emitted_def emits_raw_def wbuf_ok_def buf_ok_def same_writer_def pending_def)
  next
    case (failed os' k)
    then show ?thesis
      using assms by (auto simp: write_failed_def first_error_def wbuf_ok_def buf_ok_def same_writer_def)
  qed
qed

lemma flush_framed_empty:
  assumes ok: "wbuf_ok s" and raw: "\<not> rawWrite s" and e: "pending s = []"
  shows "\<exists>s' os'. EmptyBuffProc False s r os = Inr (s', r, os') \<and>
     emitted emits_framed [] s r os s' os' \<and> pending s' = []"
proof -
  have "wrNext s = 8" using length_pending [OF ok] ok raw e by (simp add: wbuf_ok_def)
  then have "EmptyBuffProc False s r os = Inr (s\<lparr>wrNext := 8\<rparr>, r, os)"
    using encapsulate_empty [OF assms, of r] raw by (simp add: EmptyBuffProc_def flush_buffer_def)
  moreover have "emitted emits_framed [] s r os (s\<lparr>wrNext := 8\<rparr>) os"
    using assms
    by (intro emittedI [where e = "[]"])
      (auto simp: wbuf_ok_def buf_ok_def same_writer_def pending_def emits_framed_refl)
  ultimately show ?thesis by (auto simp: pending_def raw)
qed

lemma flush_framed:
  assumes ok: "wbuf_ok s" and raw: "\<not> rawWrite s" and ne: "pending s \<noteq> []"
  shows "\<exists>s' os'. EmptyBuffProc False s r os = Inr (s', r, os') \<and>
     ((emitted emits_framed [] s r os s' os' \<and> pending s' = []) \<or>
      (write_failed s r os s' os' \<and> wrNext s \<le> wrNext s'))"
proof -
  let ?w = "wrNext s + pad8 (length (pending s))"
  obtain b where b: "encapsulate s r = Inr (s\<lparr>buff := b, wrNext := ?w\<rparr>)"
    "length b = length (buff s)" "take ?w b = frame (stype s) (requestId r) (pending s)"
    "?w \<le> stop s"
    using encapsulate_frame [OF ok raw ne] by blast
  define s1 where "s1 = s\<lparr>buff := b, wrNext := ?w\<rparr>"
  have buf: "take (wrNext s1) (buff s1) = frame (stype s) (requestId r) (pending s)" "wrNext s1 \<noteq> 0"
    using b ok raw by (auto simp: s1_def wbuf_ok_def)
  have run: "EmptyBuffProc False s r os = flush_buffer s1 r os"
    using b(1) by (simp add: EmptyBuffProc_def s1_def)
  show ?thesis
  proof (cases rule: flush_buffer_cases [of s1 r os])
    case (ok os')
    define s2 where "s2 = s1\<lparr>isAnythingWritten := True, wrNext := 8\<rparr>"
    have e: "emits_framed (stype s) r (pending s) os os'"
      using ok(2) buf chunk_ok_pending [OF assms] by (intro emits_framed_single) simp_all
    have "emitted emits_framed [] s r os s2 os'"
      by (rule emittedI [where e = "pending s"])
        (use assms b e in \<open>auto simp: s2_def s1_def wbuf_ok_def buf_ok_def same_writer_def pending_def\<close>)
    moreover have "EmptyBuffProc False s r os = Inr (s2, r, os')"
    proof -
      have "(wrNext s1 \<noteq> 0 \<or> isAnythingWritten s1) = True" "rawWrite s1 = False"
        using buf(2) raw by (simp_all add: s1_def)
      then show ?thesis using ok(1) by (simp only: run s2_def if_False)
    qed
    moreover have "pending s2 = []" using raw by (simp add: s2_def s1_def pending_def)
    ultimately show ?thesis by blast
  next
    case (failed os' k)
    then show ?thesis
      using assms b
      by (auto simp: run s1_def write_failed_def first_error_def wbuf_ok_def buf_ok_def same_writer_def)
  qed
qed

interpretation raw_sink: byte_sink "\<lambda>_. EmptyBuffProc_noclose" True emits_raw
  by unfold_locales
    (auto simp: emits_raw_def sends_trans sends_writes_ok sends_real_errors EmptyBuffProc_noclose_def encapsulate_raw
       dest: flush_raw)

interpretation framed: byte_sink EmptyBuffProc False emits_framed
proof unfold_locales
  fix t and r :: "'a reqdata_scheme" and os os1 os2 bs cs
  show "emits_framed t r [] os os" by (rule emits_framed_refl)
  show "emits_framed t r bs os os1 \<Longrightarrow> emits_framed t r cs os1 os2 \<Longrightarrow> emits_framed t r (bs @ cs) os os2"
    by (rule emits_framed_trans)
  show "emits_framed t r bs os os1 \<Longrightarrow> writes_ok (ipcFd r) os \<Longrightarrow> writes_ok (ipcFd r) os1"
    by (auto simp: emits_framed_def intro: sends_writes_ok)
  show "emits_framed t r bs os os1 \<Longrightarrow> real_errors (ipcFd r) os \<Longrightarrow> real_errors (ipcFd r) os1"
    by (auto simp: emits_framed_def intro: sends_real_errors)
next
  fix s and r :: "'a reqdata_scheme" and os
  assume "wbuf_ok s" "rawWrite s = False"
  then show "\<exists>s' os'. EmptyBuffProc False s r os = Inr (s', r, os') \<and>
        ((emitted emits_framed [] s r os s' os' \<and> pending s' = []) \<or>
         (write_failed s r os s' os' \<and> wrNext s \<le> wrNext s'))"
    using flush_framed_empty [of s r os] flush_framed [of s r os] by auto
qed




section \<open>Closing a writer\<close>

text \<open>The records that end a stream, and the request.\<close>

definition eof_record :: "strm \<Rightarrow> 'z reqdata_scheme \<Rightarrow> byte list" where
  "eof_record s r =
     (if stype s = FCGI_STDERR \<and> pending s = [] \<and> \<not> isAnythingWritten s then []
      else wire_record (stype s) (requestId r) [] [])"

definition end_record :: "int \<Rightarrow> int \<Rightarrow> int \<Rightarrow> byte list" where
  "end_record i status prot =
     wire_record FCGI_END_REQUEST i (end_body_bytes (MakeEndRequestBody status prot)) []"

lemma length_end_body [simp]: "length (end_body_bytes (MakeEndRequestBody status p)) = 8"
  by (simp add: end_body_bytes_def MakeEndRequestBody_def)

lemma end_record_bytes:
  "header_bytes (mk_header FCGI_END_REQUEST i 8 0) @ end_body_bytes (MakeEndRequestBody st p) =
    end_record i st p"
  by (simp add: end_record_def wire_record_def)

text \<open>A write of closing bytes in raw mode: accepted, or the stream is closed by a failure; an error
  recorded before stays.\<close>

definition close_failed :: "strm \<Rightarrow> 'z reqdata_scheme \<Rightarrow> os_state \<Rightarrow> strm \<Rightarrow> bool" where
  "close_failed s r os s' \<longleftrightarrow> wbuf_ok s' \<and> same_writer s s' \<and> isClosed s' \<and>
     (isClosed s \<or> \<not> writes_ok (ipcFd r) os) \<and> (FCGI_errno s \<noteq> 0 \<longrightarrow> FCGI_errno s' = FCGI_errno s) \<and>
     (real_errors (ipcFd r) os \<longrightarrow> isClosed s \<or> FCGI_errno s' \<noteq> 0)"

definition raw_put :: "byte list \<Rightarrow> strm \<Rightarrow> 'z reqdata_scheme \<Rightarrow> os_state \<Rightarrow> strm \<Rightarrow> os_state \<Rightarrow> bool" where
  "raw_put bs s r os s' os' \<longleftrightarrow> emitted emits_raw bs s r os s' os' \<or> close_failed s r os s'"

lemma raw_put_ok:
  assumes "raw_put bs s r os s' os'"
  shows "wbuf_ok s'" "same_writer s s'"
  using assms by (auto simp: raw_put_def close_failed_def emitted_def)

lemma raw_put_PutStr:
  fixes s :: strm and r :: "'z reqdata_scheme"
  assumes "wbuf_ok s" "rawWrite s"
  obtains n s' os' where
    "FCGX_PutStr (\<lambda>_. EmptyBuffProc_noclose) bs s r os = Inr (n, s', r, os')"
    "raw_put bs s r os s' os'"
proof -
  have "rawWrite s = True" using assms(2) by simp
  from raw_sink.PutStr_spec [OF assms(1) this, of bs r os]
  obtain n s' os' where "FCGX_PutStr (\<lambda>_. EmptyBuffProc_noclose) bs s r os = Inr (n, s', r, os')"
    "raw_put bs s r os s' os'"
    unfolding raw_put_def close_failed_def write_failed_def rejected_def first_error_def by fastforce
  then show ?thesis by (rule that)
qed

lemma raw_put_nil: "wbuf_ok s \<Longrightarrow> raw_put [] s r os s os"
  by (simp add: raw_put_def raw_sink.emitted_refl)

lemma raw_put_trans:
  assumes 1: "raw_put bs s r os s1 os1" and 2: "raw_put cs s1 r os1 s2 os2"
  shows "raw_put (bs @ cs) s r os s2 os2"
proof (cases "emitted emits_raw bs s r os s1 os1")
  case True
  show ?thesis
  proof (cases "emitted emits_raw cs s1 r os1 s2 os2")
    case e2: True
    show ?thesis unfolding raw_put_def using raw_sink.emitted_trans [OF True e2] ..
  next
    case False
    then have "close_failed s1 r os1 s2" using 2 by (simp add: raw_put_def)
    then show ?thesis
      using True unfolding raw_put_def close_failed_def emitted_def emits_raw_def
      by (auto intro: same_writer_trans dest: sends_writes_ok sends_real_errors)
  qed
next
  case False
  then have "close_failed s r os s1" using 1 by (simp add: raw_put_def)
  then show ?thesis
    using 2 unfolding raw_put_def close_failed_def emitted_def
    by (auto intro: same_writer_trans)
qed

lemma WriteCloseRecords_spec:
  assumes ok: "wbuf_ok (s\<lparr>rawWrite := True\<rparr>)"
  obtains s' os' where
    "WriteCloseRecords s r os = Inr (s', r\<lparr>nWriters := nWriters r - 1\<rparr>, os')"
    "raw_put (eof_record (s\<lparr>rawWrite := True\<rparr>) r @
        (if nWriters r = 1 then end_record (requestId r) (appStatus r) 0 else []))
       (s\<lparr>rawWrite := True\<rparr>) r os s' os'"
proof -
  define s0 where "s0 = s\<lparr>rawWrite := True\<rparr>"
  have s0: "wbuf_ok s0" "rawWrite s0" using ok by (simp_all add: s0_def)
  have empty: "wrNext s = 0 \<longleftrightarrow> pending s0 = []"
    using length_pending [OF s0(1)] s0(2) by (auto simp: s0_def)
  have mk: "MakeHeader t i 0 0 = Inr (mk_header t i 0 0)"
    "MakeHeader t i 8 0 = Inr (mk_header t i 8 0)" for t i
    by (simp_all add: MakeHeader_ok)
  let ?skip = "stype s = FCGI_STDERR \<and> wrNext s = 0 \<and> \<not> isAnythingWritten s"
  obtain s1 os1 where 1: "raw_put (eof_record s0 r) s0 r os s1 os1"
    and c1: "(if \<not> ?skip
         then rbind (MakeHeader (stype s0) (requestId r) 0 0) (\<lambda>h.
              rbind (FCGX_PutStr (\<lambda>_. EmptyBuffProc_noclose) (header_bytes h) s0 r os) (\<lambda>(_, s, r, os).
              Inr (s, r, os)))
         else Inr (s0, r, os)) = Inr (s1, r, os1)"
  proof (cases ?skip)
    case True
    then show ?thesis using that [of s0 os] raw_put_nil [OF s0(1), of r os] empty
      by (simp add: eof_record_def s0_def)
  next
    case False
    obtain n s1 os1 where
      "FCGX_PutStr (\<lambda>_. EmptyBuffProc_noclose) (header_bytes (mk_header (stype s0) (requestId r) 0 0)) s0 r os
         = Inr (n, s1, r, os1)"
      "raw_put (header_bytes (mk_header (stype s0) (requestId r) 0 0)) s0 r os s1 os1"
      by (rule raw_put_PutStr [OF s0])
    moreover have "eof_record s0 r = header_bytes (mk_header (stype s0) (requestId r) 0 0)"
      using False empty by (auto simp: eof_record_def wire_record_def s0_def)
    ultimately show ?thesis using that [of s1 os1] False mk by (simp add: s0_def)
  qed
  have s1: "wbuf_ok s1" "rawWrite s1" using raw_put_ok [OF 1] s0 by (auto simp: same_writer_def)
  let ?fin = "if nWriters r = 1 then end_record (requestId r) (appStatus r) 0 else []"
  obtain s2 os2 where 2: "raw_put ?fin s1 r os1 s2 os2"
    and c2: "(if nWriters r = 1
         then rbind (MakeHeader FCGI_END_REQUEST (requestId r) 8 0) (\<lambda>h.
              rbind (FCGX_PutStr (\<lambda>_. EmptyBuffProc_noclose)
                       (header_bytes h @
                        end_body_bytes (MakeEndRequestBody (appStatus r) FCGI_REQUEST_COMPLETE))
                       s1 r os1) (\<lambda>(_, s, r, os).
              Inr (s, r, os)))
         else Inr (s1, r, os1)) = Inr (s2, r, os2)"
  proof (cases "nWriters r = 1")
    case True
    obtain n s2 os2 where
      "FCGX_PutStr (\<lambda>_. EmptyBuffProc_noclose) (end_record (requestId r) (appStatus r) 0) s1 r os1
         = Inr (n, s2, r, os2)"
      "raw_put (end_record (requestId r) (appStatus r) 0) s1 r os1 s2 os2"
      by (rule raw_put_PutStr [OF s1])
    then show ?thesis using that [of s2 os2] True by (simp add: mk end_record_bytes)
  next
    case False
    then show ?thesis using that [of s1 os1] raw_put_nil [OF s1(1), of r os1] by simp
  qed
  have "WriteCloseRecords s r os = Inr (s2, r\<lparr>nWriters := nWriters r - 1\<rparr>, os2)"
    unfolding WriteCloseRecords_def Let_def s0_def [symmetric]
    using c1 c2 by (simp add: s0_def del: not_False_eq_True)
  then show ?thesis
    using that raw_put_trans [OF 1 2] by (simp add: s0_def)
qed

text \<open>What is left to send when a writer closes: its content as a last record, then the closing
  records.\<close>

definition last_frame :: "strm \<Rightarrow> 'z reqdata_scheme \<Rightarrow> byte list" where
  "last_frame s r = (if pending s = [] then [] else frame (stype s) (requestId r) (pending s))"

definition closing_bytes :: "strm \<Rightarrow> 'z reqdata_scheme \<Rightarrow> byte list" where
  "closing_bytes s r = last_frame s r @ eof_record s r @
     (if nWriters r = 1 then end_record (requestId r) (appStatus r) FCGI_REQUEST_COMPLETE else [])"

lemma encapsulate_raw_pending:
  assumes ok: "wbuf_ok s" and raw: "\<not> rawWrite s"
  obtains s1 where "encapsulate s r = Inr s1" "wbuf_ok (s1\<lparr>rawWrite := True\<rparr>)"
    "same_writer s s1" "pending (s1\<lparr>rawWrite := True\<rparr>) = last_frame s r"
    "isClosed s1 = isClosed s" "FCGI_errno s1 = FCGI_errno s"
    "isAnythingWritten s1 = isAnythingWritten s"
proof (cases "pending s = []")
  case True
  show ?thesis
    using assms True encapsulate_empty [OF assms True, of r]
    by (intro that [of "s\<lparr>wrNext := 0\<rparr>"])
      (auto simp: wbuf_ok_def same_writer_def pending_def last_frame_def buf_ok_def)
next
  case False
  obtain b where b:
    "encapsulate s r = Inr (s\<lparr>buff := b, wrNext := wrNext s + pad8 (length (pending s))\<rparr>)"
    "length b = length (buff s)"
    "take (wrNext s + pad8 (length (pending s))) b = frame (stype s) (requestId r) (pending s)"
    "wrNext s + pad8 (length (pending s)) \<le> stop s"
    using encapsulate_frame [OF ok raw False] by blast
  define s1 where "s1 = s\<lparr>buff := b, wrNext := wrNext s + pad8 (length (pending s))\<rparr>"
  have "pending (s1\<lparr>rawWrite := True\<rparr>) = last_frame s r"
    using False b(3) by (simp add: s1_def pending_def slice_def last_frame_def)
  then show ?thesis
    using ok b by (intro that [of s1]) (auto simp: s1_def wbuf_ok_def buf_ok_def same_writer_def)
qed

lemma EmptyBuffProc_close:
  fixes r :: "'z reqdata_scheme"
  assumes ok: "wbuf_ok s" and raw: "\<not> rawWrite s"
  obtains s' os' where
    "EmptyBuffProc True s r os = Inr (s', r\<lparr>nWriters := nWriters r - 1\<rparr>, os')"
    "wbuf_ok s'" "same_writer (s\<lparr>rawWrite := True\<rparr>) s'"
    "(isClosed s' = isClosed s \<and> FCGI_errno s' = FCGI_errno s \<and>
        sends (ipcFd r) (closing_bytes s r) os os') \<or>
     close_failed (s\<lparr>rawWrite := True\<rparr>) r os s'"
proof -
  let ?r = "r\<lparr>nWriters := nWriters r - 1\<rparr>"
  let ?fin = "if nWriters r = 1 then end_record (requestId r) (appStatus r) FCGI_REQUEST_COMPLETE else []"
  obtain s1 where s1: "encapsulate s r = Inr s1" "wbuf_ok (s1\<lparr>rawWrite := True\<rparr>)"
    "same_writer s s1" "pending (s1\<lparr>rawWrite := True\<rparr>) = last_frame s r"
    "isClosed s1 = isClosed s" "FCGI_errno s1 = FCGI_errno s"
    "isAnythingWritten s1 = isAnythingWritten s"
    by (rule encapsulate_raw_pending [OF assms])
  let ?s1 = "s1\<lparr>rawWrite := True\<rparr>"
  obtain s2 os2 where s2: "WriteCloseRecords s1 r os = Inr (s2, ?r, os2)"
    "raw_put (eof_record ?s1 r @ ?fin) ?s1 r os s2 os2"
    by (rule WriteCloseRecords_spec [OF s1(2)])
  have eof: "eof_record ?s1 r = eof_record s r"
    using s1 by (simp add: eof_record_def same_writer_def last_frame_def frame_def wire_record_def
        header_bytes_def)
  have sw2: "wbuf_ok s2" "rawWrite s2" "same_writer (s\<lparr>rawWrite := True\<rparr>) s2"
    using s1 raw_put_ok [OF s2(2)] by (auto simp: same_writer_def)
  have run: "EmptyBuffProc True s r os = flush_buffer s2 ?r os2"
    by (simp add: EmptyBuffProc_def s1 s2)
  have put: "(isClosed s2 = isClosed s \<and> FCGI_errno s2 = FCGI_errno s \<and>
        (\<exists>e. sends (ipcFd r) e os os2 \<and> closing_bytes s r = e @ pending s2)) \<or>
      close_failed (s\<lparr>rawWrite := True\<rparr>) r os s2"
    using s2(2) s1 eof
    by (auto simp: raw_put_def closing_bytes_def emitted_def emits_raw_def close_failed_def same_writer_def)
  have pend: "pending s2 = take (wrNext s2) (buff s2)"
    using sw2 by (simp add: pending_def slice_def)
  show ?thesis
  proof (cases rule: flush_buffer_cases [of s2 ?r os2])
    case (ok os3)
    have "(isClosed s2 = isClosed s \<and> FCGI_errno s2 = FCGI_errno s \<and>
        sends (ipcFd r) (closing_bytes s r) os os3) \<or>
      close_failed (s\<lparr>rawWrite := True\<rparr>) r os s2"
      using put ok(2) pend by (auto intro: sends_trans)
    moreover define s3 where "s3 = s2\<lparr>isAnythingWritten := (wrNext s2 \<noteq> 0 \<or> isAnythingWritten s2),
         wrNext := (if rawWrite s2 then 0 else 8)\<rparr>"
    moreover have "EmptyBuffProc True s r os = Inr (s3, ?r, os3)"
      using ok(1) run by (simp add: s3_def)
    ultimately show ?thesis
      using sw2 that [of s3 os3] by (auto simp: wbuf_ok_def buf_ok_def same_writer_def close_failed_def)
  next
    case (failed os3 k)
    have "isClosed s \<or> \<not> writes_ok (ipcFd r) os" "FCGI_errno s \<noteq> 0 \<longrightarrow> FCGI_errno s2 = FCGI_errno s"
      "real_errors (ipcFd r) os \<longrightarrow> isClosed s \<or> FCGI_errno s2 \<noteq> 0 \<or> c_errno os3 \<noteq> 0"
      using put failed(2,3) by (auto simp: close_failed_def dest: sends_writes_ok sends_real_errors)
    moreover define s3 where "s3 = SetError (c_errno os3) (s2\<lparr>isAnythingWritten := True\<rparr>)"
    moreover have "EmptyBuffProc True s r os = Inr (s3, ?r, os3)"
      using failed(1) run by (simp add: s3_def)
    ultimately show ?thesis
      using sw2 that [of s3 os3] by (auto simp: wbuf_ok_def buf_ok_def same_writer_def close_failed_def)
  qed
qed

text \<open>The state of a writer between two calls of the application.\<close>

definition writer_ok :: "strm \<Rightarrow> bool" where
  "writer_ok s \<longleftrightarrow>
     (if wasFCloseCalled s
      then isClosed s \<and> \<not> isReader s \<and> buf_ok s \<and> wrNext s = stop s \<and> stop s \<le> bufflen s
      else wbuf_ok s \<and> \<not> rawWrite s)"

lemma NewWriter_ok: "writer_ok (NewWriter mBuff len t)"
proof -
  have b: "buf_ok (NewWriter mBuff len t)"
    by (simp add: NewWriter_def NewStream_buf_ok)
  moreover have "stop (NewWriter mBuff len t) = bufflen (NewWriter mBuff len t)"
    "wrNext (NewWriter mBuff len t) = 8" "\<not> rawWrite (NewWriter mBuff len t)"
    "\<not> isReader (NewWriter mBuff len t)" "\<not> wasFCloseCalled (NewWriter mBuff len t)"
    by (simp_all add: NewWriter_def NewStream_def Let_def)
  ultimately show ?thesis by (simp add: writer_ok_def wbuf_ok_def buf_ok_def)
qed

lemma NewWriter_simps [simp]:
  "stype (NewWriter mBuff len t) = t"
  "isClosed (NewWriter mBuff len t) = False"
  "FCGI_errno (NewWriter mBuff len t) = 0"
  "wasFCloseCalled (NewWriter mBuff len t) = False"
  "isAnythingWritten (NewWriter mBuff len t) = False"
  "pending (NewWriter mBuff len t) = []"
  by (simp_all add: NewWriter_def NewStream_def Let_def pending_def)

lemma FClose_spec:
  fixes r :: "'z reqdata_scheme"
  assumes ok: "writer_ok s" and nc: "\<not> wasFCloseCalled s"
  obtains s' os' where
    "FCGX_FClose EmptyBuffProc (Some s) r os =
       Inr (if FCGI_errno s' = 0 then 0 else EOF, Some s', r\<lparr>nWriters := nWriters r - 1\<rparr>, os')"
    "writer_ok s'" "wasFCloseCalled s'" "stype s' = stype s"
    "(FCGI_errno s' = FCGI_errno s \<and> sends (ipcFd r) (closing_bytes s r) os os') \<or>
     ((isClosed s \<or> \<not> writes_ok (ipcFd r) os) \<and> (FCGI_errno s \<noteq> 0 \<longrightarrow> FCGI_errno s' = FCGI_errno s) \<and>
      (real_errors (ipcFd r) os \<longrightarrow> isClosed s \<or> FCGI_errno s' \<noteq> 0))"
proof -
  have s: "wbuf_ok s" "\<not> rawWrite s" "\<not> isReader s"
    using ok nc by (auto simp: writer_ok_def wbuf_ok_def)
  obtain s1 os1 where s1:
    "EmptyBuffProc True s r os = Inr (s1, r\<lparr>nWriters := nWriters r - 1\<rparr>, os1)"
    "wbuf_ok s1" "same_writer (s\<lparr>rawWrite := True\<rparr>) s1"
    "(isClosed s1 = isClosed s \<and> FCGI_errno s1 = FCGI_errno s \<and>
        sends (ipcFd r) (closing_bytes s r) os os1) \<or>
     close_failed (s\<lparr>rawWrite := True\<rparr>) r os s1"
    by (rule EmptyBuffProc_close [OF s(1,2)])
  define s2 where "s2 = s1\<lparr>wasFCloseCalled := True, isClosed := True, stop := wrNext s1, rdNext := wrNext s1\<rparr>"
  have "\<not> isReader s1" using s1(2) by (simp add: wbuf_ok_def)
  then have "FCGX_FClose EmptyBuffProc (Some s) r os =
      Inr (if FCGI_errno s2 = 0 then 0 else EOF, Some s2, r\<lparr>nWriters := nWriters r - 1\<rparr>, os1)"
    using nc s s1(1) by (simp add: FCGX_FClose_def s2_def Let_def)
  moreover have "writer_ok s2" "wasFCloseCalled s2" "stype s2 = stype s" "FCGI_errno s2 = FCGI_errno s1"
    using s1 by (auto simp: s2_def writer_ok_def wbuf_ok_def buf_ok_def same_writer_def)
  ultimately show ?thesis
    using s1(4) that [of s2 os1] by (auto simp: close_failed_def)
qed


end
