(* ===== verification/WriterSession.thy ===== *)
theory WriterSession
  imports Writer
begin

text \<open>
  Sequences of calls on the writers of a request: what the application may do with
  \<^verbatim>\<open>FCGX_PutChar\<close>, \<^verbatim>\<open>FCGX_PutStr\<close>, \<^verbatim>\<open>FCGX_PutS\<close>, \<^verbatim>\<open>FCGX_FFlush\<close> and \<^verbatim>\<open>FCGX_FClose\<close> on one stream, or on
  the output and the error stream of one connection, and what the peer then receives.
\<close>

section \<open>Operations of a session\<close>

text \<open>The calls an application makes on a writer.\<close>

datatype writer_op = PutChar int | PutStr "byte list" | PutS "byte list" | Flush | Close

fun writer_step ::
  "writer_op \<Rightarrow> strm \<Rightarrow> 'z reqdata_scheme \<Rightarrow> os_state \<Rightarrow>
    fault + int \<times> strm \<times> 'z reqdata_scheme \<times> os_state" where
  "writer_step (PutChar c) s r os = FCGX_PutChar EmptyBuffProc c s r os"
| "writer_step (PutStr bs) s r os = FCGX_PutStr EmptyBuffProc bs s r os"
| "writer_step (PutS bs) s r os = FCGX_PutS EmptyBuffProc bs s r os"
| "writer_step Flush s r os = FCGX_FFlush EmptyBuffProc s r os"
| "writer_step Close s r os =
     rbind (FCGX_FClose EmptyBuffProc (Some s) r os) (\<lambda>(n, so, r, os). Inr (n, the so, r, os))"

fun writer_run ::
  "writer_op list \<Rightarrow> strm \<Rightarrow> 'z reqdata_scheme \<Rightarrow> os_state \<Rightarrow>
    fault + int list \<times> strm \<times> 'z reqdata_scheme \<times> os_state" where
  "writer_run [] s r os = Inr ([], s, r, os)"
| "writer_run (x # xs) s r os =
     rbind (writer_step x s r os) (\<lambda>(n, s, r, os).
     rbind (writer_run xs s r os) (\<lambda>(ns, s, r, os). Inr (n # ns, s, r, os)))"

text \<open>The bytes an operation hands over, and what it returns when nothing fails.\<close>

fun op_data :: "writer_op \<Rightarrow> byte list" where
  "op_data (PutChar c) = [word_of_int c]"
| "op_data (PutStr bs) = bs"
| "op_data (PutS bs) = takeWhile (\<lambda>b. b \<noteq> 0) bs"
| "op_data Flush = []"
| "op_data Close = []"

fun op_result :: "writer_op \<Rightarrow> int" where
  "op_result (PutChar c) = uint (word_of_int c :: byte)"
| "op_result (PutStr bs) = int (length bs)"
| "op_result (PutS bs) = int (length (takeWhile (\<lambda>b. b \<noteq> 0) bs))"
| "op_result Flush = 0"
| "op_result Close = 0"

abbreviation (input) "is_close op \<equiv> op = Close"

section \<open>One operation\<close>

lemma writer_step_open:
  assumes "wbuf_ok s" "\<not> rawWrite s" "op \<noteq> Close"
  shows "\<exists>n s' os'. writer_step op s r os = Inr (n, s', r, os') \<and>
    ((n = op_result op \<and> emitted emits_framed (op_data op) s r os s' os') \<or>
     (n = - 1 \<and> write_failed s r os s' os') \<or>
     (isClosed s \<and> (n = - 1 \<or> n = 0) \<and> rejected s os s' os'))"
proof -
  have raw: "rawWrite s = False" using assms by simp
  show ?thesis
  proof (cases op)
    case (PutChar c)
    then show ?thesis using framed.PutChar_spec [OF assms(1) raw, of c r os]
      by (fastforce simp: rejected_def)
  next
    case (PutStr bs)
    then show ?thesis using framed.PutStr_spec [OF assms(1) raw, of bs r os]
      by (fastforce simp: rejected_def)
  next
    case (PutS bs)
    then show ?thesis
      using framed.PutStr_spec [OF assms(1) raw, of "takeWhile (\<lambda>b. b \<noteq> 0) bs" r os]
      by (fastforce simp: rejected_def FCGX_PutS_def)
  next
    case Flush
    then show ?thesis using framed.FFlush_spec [OF assms(1) raw, of r os] assms(1)
      by (fastforce simp: rejected_def)
  next
    case Close
    then show ?thesis using assms by simp
  qed
qed

lemma writer_step_closed:
  assumes "writer_ok s" "wasFCloseCalled s" 
  shows "\<exists>n. writer_step op s r os = Inr (n, s, r, os) \<and>
    (op_data op \<noteq> [] \<longrightarrow> n = - 1)"
proof -
  have s: "isClosed s" "\<not> isReader s" "wrNext s = stop s" "wrNext s \<le> length (buff s)"
    using assms by (auto simp: writer_ok_def buf_ok_def)
  have put: "bs \<noteq> [] \<Longrightarrow> FCGX_PutStr EmptyBuffProc bs s r os = Inr (- 1, s, r, os)" for bs
    using s by (simp add: FCGX_PutStr_def put_some_def)
  have put0: "FCGX_PutStr EmptyBuffProc [] s r os = Inr (0, s, r, os)"
    using s by (simp add: FCGX_PutStr_def poke_def)
  show ?thesis
  proof (cases op)
    case (PutChar c)
    then show ?thesis using s by (simp add: FCGX_PutChar_def)
  next
    case (PutStr bs)
    then show ?thesis using put put0 by (cases "bs = []") simp_all
  next
    case (PutS bs)
    then show ?thesis using put put0 by (cases "op_data op = []") (auto simp: FCGX_PutS_def)
  next
    case Flush
    then show ?thesis using s by (simp add: FCGX_FFlush_def)
  next
    case Close
    then show ?thesis using assms by (simp add: FCGX_FClose_def)
  qed
qed

lemma writer_step_ok:
  assumes "writer_ok s"
  shows "\<exists>n s' r' os'. writer_step op s r os = Inr (n, s', r', os') \<and> writer_ok s' \<and>
    stype s' = stype s \<and> (FCGI_errno s \<noteq> 0 \<longrightarrow> FCGI_errno s' = FCGI_errno s) \<and>
    r' = (if op = Close \<and> \<not> wasFCloseCalled s then r\<lparr>nWriters := nWriters r - 1\<rparr> else r) \<and>
    (isClosed s \<longrightarrow> isClosed s') \<and> wasFCloseCalled s' = (wasFCloseCalled s \<or> op = Close)"
proof (cases "wasFCloseCalled s")
  case True
  then show ?thesis using writer_step_closed [OF assms True, of op r os] assms by auto
next
  case nc: False
  then have s: "wbuf_ok s" "\<not> rawWrite s" using assms by (auto simp: writer_ok_def)
  show ?thesis
  proof (cases "op = Close")
    case True
    obtain s' os' where
      "FCGX_FClose EmptyBuffProc (Some s) r os =
         Inr (if FCGI_errno s' = 0 then 0 else EOF, Some s', r\<lparr>nWriters := nWriters r - 1\<rparr>, os')"
      "writer_ok s'" "wasFCloseCalled s'" "stype s' = stype s"
      "(FCGI_errno s' = FCGI_errno s \<and> sends (ipcFd r) (closing_bytes s r) os os') \<or>
       ((isClosed s \<or> \<not> writes_ok (ipcFd r) os) \<and> (FCGI_errno s \<noteq> 0 \<longrightarrow> FCGI_errno s' = FCGI_errno s) \<and>
        (real_errors (ipcFd r) os \<longrightarrow> isClosed s \<or> FCGI_errno s' \<noteq> 0))"
      by (rule FClose_spec [OF assms nc])
    then show ?thesis using True nc by (auto simp: writer_ok_def)
  next
    case False
    then show ?thesis
      using writer_step_open [OF s False, of r os] nc s
      by (fastforce simp: writer_ok_def outcome_defs same_writer_def first_error_def)
  qed
qed


section \<open>Two streams on one connection\<close>

text \<open>A list of typed contents and its encoding: one padded record each.\<close>

definition wire_of :: "int \<Rightarrow> (int \<times> byte list) list \<Rightarrow> byte list" where
  "wire_of i rs = concat (map (\<lambda>(t, c). frame t i c) rs)"

definition payload :: "int \<Rightarrow> (int \<times> byte list) list \<Rightarrow> byte list" where
  "payload t rs = concat (map snd (filter (\<lambda>(t', _). t' = t) rs))"

lemma wire_of_simps [simp]:
  "wire_of i [] = []"
  "wire_of i (rs @ rs') = wire_of i rs @ wire_of i rs'"
  "wire_of i ((t, c) # rs) = frame t i c @ wire_of i rs"
  "wire_of i (map (Pair t) cs) = frames t i cs"
  by (simp_all add: wire_of_def frames_def comp_def)

lemma payload_simps [simp]:
  "payload t [] = []"
  "payload t (rs @ rs') = payload t rs @ payload t rs'"
  "payload t ((t', c) # rs) = (if t' = t then c @ payload t rs else payload t rs)"
  "payload t (map (Pair t') cs) = (if t' = t then concat cs else [])"
  by (simp_all add: payload_def filter_map comp_def)

definition parsed_as :: "int \<Rightarrow> int \<times> byte list \<Rightarrow> FCGI_Header \<times> byte list" where
  "parsed_as i = (\<lambda>(t, c). (mk_header t i (int (length c)) (int (pad8 (length c))), c))"

lemma parse_wire_of:
  "\<forall>(t, c) \<in> set rs. length c \<le> 65535 \<Longrightarrow>
    parse_records (wire_of i rs) = Some (map (parsed_as i) rs)"
proof (induction rs)
  case Nil
  then show ?case by (simp add: parse_records.simps)
next
  case (Cons tc rs)
  obtain t c where tc: "tc = (t, c)" by (cases tc)
  have "length c \<le> 65535" "length (replicate (pad8 (length c)) (0 :: byte)) \<le> 0xff"
    using Cons.prems tc pad8_lt [of "length c"] by auto
  then show ?case
    using Cons by (simp add: tc frame_def parse_records_wire parsed_as_def)
qed

text \<open>The contents of the records a peer sees for one stream of one request.\<close>

definition contents_of :: "int \<Rightarrow> int \<Rightarrow> (FCGI_Header \<times> byte list) list \<Rightarrow> byte list list" where
  "contents_of t i rs =
     map snd (filter (\<lambda>(h, _). htype h = word_of_int t \<and> header_requestId h = i) rs)"

lemma contents_of_parsed:
  assumes "0 \<le> i" "i < 2 ^ 16" "0 \<le> t" "t < 256" "\<forall>(t', c) \<in> set rs. 0 \<le> t' \<and> t' < 256"
  shows "contents_of t i (map (parsed_as i) rs) = map snd (filter (\<lambda>(t', _). t' = t) rs)"
proof -
  have w: "(word_of_int t' :: byte) = word_of_int t \<longleftrightarrow> t' = t" if "0 \<le> t'" "t' < 256" for t'
  proof -
    have "uint (word_of_int t' :: byte) = t'" "uint (word_of_int t :: byte) = t"
      using that assms by (simp_all add: uint_word_of_int)
    then show ?thesis by metis
  qed
  show ?thesis
    using assms(5) unfolding contents_of_def
    by (induction rs) (use assms(1,2) in \<open>auto simp: parsed_as_def w split: prod.splits\<close>)
qed

definition open_writer :: "int \<Rightarrow> strm \<Rightarrow> bool" where
  "open_writer t s \<longleftrightarrow> wbuf_ok s \<and> \<not> rawWrite s \<and> \<not> isClosed s \<and> \<not> wasFCloseCalled s \<and>
     FCGI_errno s = 0 \<and> stype s = t"

lemma NewWriter_open: "open_writer t (NewWriter mBuff len t)"
  using NewWriter_ok [of mBuff len t] by (simp add: open_writer_def writer_ok_def)

text \<open>A step on an open writer whose writes do not fail, and the records that an operation emits.\<close>

lemma writer_step_emits:
  assumes s: "open_writer t s" and op: "op \<noteq> Close" and ok: "writes_ok (ipcFd r) os"
  obtains s' os' where "writer_step op s r os = Inr (op_result op, s', r, os')" "emitted emits_framed (op_data op) s r os s' os'"
proof -
  have "wbuf_ok s" "\<not> rawWrite s" "\<not> isClosed s" using s by (simp_all add: open_writer_def)
  then show ?thesis using that writer_step_open [OF _ _ op, of s r os] ok by (auto simp: write_failed_def)
qed

lemma emitted_open: "emitted emits_framed bs s r os s' os' \<Longrightarrow> open_writer t s \<Longrightarrow> open_writer t s'"
  by (auto simp: open_writer_def emitted_def same_writer_def)

lemma emitted_records:
  assumes "open_writer t s" "emitted emits_framed bs s r os s' os'"
  obtains cs where "\<forall>c \<in> set cs. chunk_ok c" "sends (ipcFd r) (wire_of (requestId r) (map (Pair t) cs)) os os'"
    "pending s @ bs = concat cs @ pending s'" "isAnythingWritten s' = (isAnythingWritten s \<or> concat cs \<noteq> [])"
proof -
  obtain e where e: "emits_framed t r e os os'" "pending s @ bs = e @ pending s'"
    "isAnythingWritten s' = (isAnythingWritten s \<or> e \<noteq> [])"
    using assms by (auto simp: emitted_def open_writer_def)
  obtain cs where "concat cs = e" "\<forall>c \<in> set cs. chunk_ok c" "sends (ipcFd r) (frames t (requestId r) cs) os os'"
    using e(1) by (auto simp: emits_framed_def)
  then show ?thesis using that [of cs] e by simp
qed

definition closing_records :: "strm \<Rightarrow> 'z reqdata_scheme \<Rightarrow> (int \<times> byte list) list" where
  "closing_records s r =
     (if pending s = [] then [] else [(stype s, pending s)]) @
     (if stype s = FCGI_STDERR \<and> pending s = [] \<and> \<not> isAnythingWritten s then [] else [(stype s, [])]) @
     (if nWriters r = 1
      then [(FCGI_END_REQUEST, end_body_bytes (MakeEndRequestBody (appStatus r) FCGI_REQUEST_COMPLETE))]
      else [])"

lemma pad8_0 [simp]: "pad8 0 = 0" "pad8 8 = 0"
  by (simp_all add: pad8_def)

lemma closing_bytes_records: "closing_bytes s r = wire_of (requestId r) (closing_records s r)"
  by (simp add: closing_bytes_def closing_records_def last_frame_def eof_record_def end_record_def
      frame_def)

lemma FClose_open:
  assumes s: "open_writer t s" and ok: "writes_ok (ipcFd r) os"
  obtains s' os' where
    "FCGX_FClose EmptyBuffProc (Some s) r os = Inr (0, Some s', r\<lparr>nWriters := nWriters r - 1\<rparr>, os')"
    "writer_ok s'" "wasFCloseCalled s'"
    "sends (ipcFd r) (wire_of (requestId r) (closing_records s r)) os os'"
proof -
  have s': "writer_ok s" "\<not> wasFCloseCalled s" "\<not> isClosed s" "FCGI_errno s = 0"
    using s by (auto simp: open_writer_def writer_ok_def)
  obtain s1 os1 where
    "FCGX_FClose EmptyBuffProc (Some s) r os =
       Inr (if FCGI_errno s1 = 0 then 0 else EOF, Some s1, r\<lparr>nWriters := nWriters r - 1\<rparr>, os1)"
    "writer_ok s1" "wasFCloseCalled s1"
    "(FCGI_errno s1 = FCGI_errno s \<and> sends (ipcFd r) (closing_bytes s r) os os1) \<or>
     ((isClosed s \<or> \<not> writes_ok (ipcFd r) os) \<and> (FCGI_errno s \<noteq> 0 \<longrightarrow> FCGI_errno s1 = FCGI_errno s) \<and>
      (real_errors (ipcFd r) os \<longrightarrow> isClosed s \<or> FCGI_errno s1 \<noteq> 0))"
    by (rule FClose_spec [OF s'(1,2)])
  then show ?thesis
    using that [of s1 os1] s'(3,4) ok by (simp add: closing_bytes_records)
qed


text \<open>The calls of one request on its two writers.\<close>

datatype app_op = Out writer_op | Err writer_op

fun app_run ::
  "app_op list \<Rightarrow> strm \<Rightarrow> strm \<Rightarrow> 'z reqdata_scheme \<Rightarrow> os_state \<Rightarrow>
    fault + int list \<times> strm \<times> strm \<times> 'z reqdata_scheme \<times> os_state" where
  "app_run [] out err r os = Inr ([], out, err, r, os)"
| "app_run (Out x # xs) out err r os =
     rbind (writer_step x out r os) (\<lambda>(n, out, r, os).
     rbind (app_run xs out err r os) (\<lambda>(ns, out, err, r, os). Inr (n # ns, out, err, r, os)))"
| "app_run (Err x # xs) out err r os =
     rbind (writer_step x err r os) (\<lambda>(n, err, r, os).
     rbind (app_run xs out err r os) (\<lambda>(ns, out, err, r, os). Inr (n # ns, out, err, r, os)))"

fun app_result :: "app_op \<Rightarrow> int" where
  "app_result (Out x) = op_result x"
| "app_result (Err x) = op_result x"

fun app_closes :: "app_op \<Rightarrow> bool" where
  "app_closes (Out x) = (x = Close)"
| "app_closes (Err x) = (x = Close)"

fun out_data :: "app_op \<Rightarrow> byte list" where
  "out_data (Out x) = op_data x"
| "out_data (Err x) = []"

fun err_data :: "app_op \<Rightarrow> byte list" where
  "err_data (Out x) = []"
| "err_data (Err x) = op_data x"

text \<open>What holds between the calls: \<open>rs\<close> are the records sent so far, and each stream's data is what
  its records carried followed by what its buffer holds.\<close>

definition session ::
  "'z reqdata_scheme \<Rightarrow> os_state \<Rightarrow> strm \<Rightarrow> strm \<Rightarrow> os_state \<Rightarrow> (int \<times> byte list) list \<Rightarrow>
    byte list \<Rightarrow> byte list \<Rightarrow> bool" where
  "session r os0 out err os rs d1 d2 \<longleftrightarrow>
     open_writer FCGI_STDOUT out \<and> open_writer FCGI_STDERR err \<and>
     sends (ipcFd r) (wire_of (requestId r) rs) os0 os \<and>
     (\<forall>(t, c) \<in> set rs. (t = FCGI_STDOUT \<or> t = FCGI_STDERR) \<and> chunk_ok c) \<and>
     payload FCGI_STDOUT rs @ pending out = d1 \<and> payload FCGI_STDERR rs @ pending err = d2 \<and>
     isAnythingWritten out = (payload FCGI_STDOUT rs \<noteq> []) \<and>
     isAnythingWritten err = (payload FCGI_STDERR rs \<noteq> [])"

lemma session_start:
  "session r os (NewWriter m1 l1 FCGI_STDOUT) (NewWriter m2 l2 FCGI_STDERR) os [] [] []"
  by (simp add: session_def NewWriter_open)

text \<open>Whatever emits data on one of the two streams extends the session by it.\<close>

lemma session_emit_out:
  assumes "session r os0 out err os rs d1 d2" "emitted emits_framed bs out r os out' os'" "writes_ok (ipcFd r) os"
  obtains rs' where "session r os0 out' err os' rs' (d1 @ bs) d2" "writes_ok (ipcFd r) os'"
proof -
  have o: "open_writer FCGI_STDOUT out" using assms(1) by (simp add: session_def)
  obtain cs where 1: "\<forall>c \<in> set cs. chunk_ok c" "sends (ipcFd r) (wire_of (requestId r) (map (Pair FCGI_STDOUT) cs)) os os'"
    "pending out @ bs = concat cs @ pending out'" "isAnythingWritten out' = (isAnythingWritten out \<or> concat cs \<noteq> [])"
    by (rule emitted_records [OF o assms(2)])
  have "sends (ipcFd r) (wire_of (requestId r) rs @ wire_of (requestId r) (map (Pair FCGI_STDOUT) cs)) os0 os'"
    using sends_trans [OF _ 1(2)] assms(1) by (simp only: session_def)
  then have "session r os0 out' err os' (rs @ map (Pair FCGI_STDOUT) cs) (d1 @ bs) d2"
    using 1 assms(1) emitted_open [OF assms(2) o] unfolding session_def by auto
  then show ?thesis using that sends_writes_ok [OF 1(2) assms(3)] by blast
qed

lemma session_emit_err:
  assumes "session r os0 out err os rs d1 d2" "emitted emits_framed bs err r os err' os'" "writes_ok (ipcFd r) os"
  obtains rs' where "session r os0 out err' os' rs' d1 (d2 @ bs)" "writes_ok (ipcFd r) os'"
proof -
  have o: "open_writer FCGI_STDERR err" using assms(1) by (simp add: session_def)
  obtain cs where 1: "\<forall>c \<in> set cs. chunk_ok c" "sends (ipcFd r) (wire_of (requestId r) (map (Pair FCGI_STDERR) cs)) os os'"
    "pending err @ bs = concat cs @ pending err'" "isAnythingWritten err' = (isAnythingWritten err \<or> concat cs \<noteq> [])"
    by (rule emitted_records [OF o assms(2)])
  have "sends (ipcFd r) (wire_of (requestId r) rs @ wire_of (requestId r) (map (Pair FCGI_STDERR) cs)) os0 os'"
    using sends_trans [OF _ 1(2)] assms(1) by (simp only: session_def)
  then have "session r os0 out err' os' (rs @ map (Pair FCGI_STDERR) cs) d1 (d2 @ bs)"
    using 1 assms(1) emitted_open [OF assms(2) o] unfolding session_def by auto
  then show ?thesis using that sends_writes_ok [OF 1(2) assms(3)] by blast
qed

lemma session_out:
  assumes "session r os0 out err os rs d1 d2" "op \<noteq> Close" "writes_ok (ipcFd r) os"
  obtains out' os' rs' where
    "writer_step op out r os = Inr (op_result op, out', r, os')" "writes_ok (ipcFd r) os'"
    "session r os0 out' err os' rs' (d1 @ op_data op) d2"
proof -
  have o: "open_writer FCGI_STDOUT out" using assms(1) by (simp add: session_def)
  obtain s' os' where "writer_step op out r os = Inr (op_result op, s', r, os')" "emitted emits_framed (op_data op) out r os s' os'"
    by (rule writer_step_emits [OF o assms(2,3)])
  then show ?thesis using that session_emit_out [OF assms(1) _ assms(3)] by metis
qed

lemma session_err:
  assumes "session r os0 out err os rs d1 d2" "op \<noteq> Close" "writes_ok (ipcFd r) os"
  obtains err' os' rs' where
    "writer_step op err r os = Inr (op_result op, err', r, os')" "writes_ok (ipcFd r) os'"
    "session r os0 out err' os' rs' d1 (d2 @ op_data op)"
proof -
  have o: "open_writer FCGI_STDERR err" using assms(1) by (simp add: session_def)
  obtain s' os' where "writer_step op err r os = Inr (op_result op, s', r, os')" "emitted emits_framed (op_data op) err r os s' os'"
    by (rule writer_step_emits [OF o assms(2,3)])
  then show ?thesis using that session_emit_err [OF assms(1) _ assms(3)] by metis
qed

lemma session_run:
  assumes "session r os0 out err os rs d1 d2" "\<forall>x \<in> set ops. \<not> app_closes x" "writes_ok (ipcFd r) os"
  shows "\<exists>out' err' os' rs'. app_run ops out err r os = Inr (map app_result ops, out', err', r, os') \<and>
     writes_ok (ipcFd r) os' \<and>
     session r os0 out' err' os' rs' (d1 @ concat (map out_data ops)) (d2 @ concat (map err_data ops))"
  using assms
proof (induction ops arbitrary: out err os rs d1 d2)
  case Nil
  then show ?case by auto
next
  case (Cons x ops)
  show ?case
  proof (cases x)
    case (Out op)
    then have "op \<noteq> Close" using Cons.prems by simp
    from Cons.prems(1) this Cons.prems(3) obtain out1 os1 rs1 where 1:
      "writer_step op out r os = Inr (op_result op, out1, r, os1)" "writes_ok (ipcFd r) os1"
      "session r os0 out1 err os1 rs1 (d1 @ op_data op) d2"
      by (rule session_out)
    show ?thesis using Cons.IH [OF 1(3) _ 1(2)] Cons.prems(2) 1(1) Out by auto
  next
    case (Err op)
    then have "op \<noteq> Close" using Cons.prems by simp
    from Cons.prems(1) this Cons.prems(3) obtain err1 os1 rs1 where 1:
      "writer_step op err r os = Inr (op_result op, err1, r, os1)" "writes_ok (ipcFd r) os1"
      "session r os0 out err1 os1 rs1 d1 (d2 @ op_data op)"
      by (rule session_err)
    show ?thesis using Cons.IH [OF 1(3) _ 1(2)] Cons.prems(2) 1(1) Err by auto
  qed
qed

text \<open>The end of a request: the error stream closes first, then the output stream, as
  \<^verbatim>\<open>FCGX_Finish_r\<close> does.\<close>

definition close_both ::
  "strm \<Rightarrow> strm \<Rightarrow> 'z reqdata_scheme \<Rightarrow> os_state \<Rightarrow>
    fault + int \<times> int \<times> 'z reqdata_scheme \<times> os_state" where
  "close_both out err r os =
     rbind (FCGX_FClose EmptyBuffProc (Some err) r os) (\<lambda>(n2, _, r, os).
     rbind (FCGX_FClose EmptyBuffProc (Some out) r os) (\<lambda>(n1, _, r, os).
     Inr (n1, n2, r, os)))"

definition final_records :: "strm \<Rightarrow> strm \<Rightarrow> 'z reqdata_scheme \<Rightarrow> (int \<times> byte list) list" where
  "final_records out err r = closing_records err (r\<lparr>nWriters := 2\<rparr>) @ closing_records out (r\<lparr>nWriters := 1\<rparr>)"

lemma session_close:
  assumes s: "session r os0 out err os rs d1 d2" and ok: "writes_ok (ipcFd r) os" and n: "nWriters r = 2"
  obtains os' where
    "close_both out err r os = Inr (0, 0, r\<lparr>nWriters := 0\<rparr>, os')"
    "sends (ipcFd r) (wire_of (requestId r) (rs @ final_records out err r)) os0 os'"
proof -
  have o: "open_writer FCGI_STDOUT out" "open_writer FCGI_STDERR err"
    "sends (ipcFd r) (wire_of (requestId r) rs) os0 os"
    using s by (simp_all add: session_def)
  let ?r = "r\<lparr>nWriters := nWriters r - 1\<rparr>"
  obtain s1 os1 where 1:
    "FCGX_FClose EmptyBuffProc (Some err) r os = Inr (0, Some s1, ?r, os1)"
    "sends (ipcFd r) (wire_of (requestId r) (closing_records err r)) os os1"
    using FClose_open [OF o(2) ok] by metis
  have "writes_ok (ipcFd ?r) os1" using sends_writes_ok [OF 1(2) ok] by simp
  from FClose_open [OF o(1) this] obtain s2 os2 where 2:
    "FCGX_FClose EmptyBuffProc (Some out) ?r os1 = Inr (0, Some s2, ?r\<lparr>nWriters := nWriters ?r - 1\<rparr>, os2)"
    "sends (ipcFd ?r) (wire_of (requestId ?r) (closing_records out ?r)) os1 os2"
    by metis
  have fr: "final_records out err r = closing_records err r @ closing_records out ?r"
    using n by (simp add: final_records_def closing_records_def)
  have "close_both out err r os = Inr (0, 0, r\<lparr>nWriters := 0\<rparr>, os2)"
    using 1 2 n by (simp add: close_both_def)
  moreover have "sends (ipcFd r) (wire_of (requestId r) (rs @ final_records out err r)) os0 os2"
    using sends_trans [OF o(3) sends_trans [OF 1(2) 2(2) [simplified]]] by (simp add: fr)
  ultimately show ?thesis by (rule that)
qed

lemma final_records_contents:
  assumes "session r os0 out err os rs d1 d2"
  defines "all \<equiv> rs @ final_records out err r"
  shows "\<forall>(t, c) \<in> set all. 0 \<le> t \<and> t < 256 \<and> length c \<le> 65535"
    "\<exists>cs. map snd (filter (\<lambda>(t, _). t = FCGI_STDOUT) all) = cs @ [[]] \<and> concat cs = d1 \<and> [] \<notin> set cs"
    "\<exists>cs. map snd (filter (\<lambda>(t, _). t = FCGI_STDERR) all) = cs @ (if d2 = [] then [] else [[]]) \<and>
       concat cs = d2 \<and> [] \<notin> set cs"
    "last all = (FCGI_END_REQUEST, end_body_bytes (MakeEndRequestBody (appStatus r) 0))"
proof -
  have s: "stype out = 6" "stype err = 7" "payload 6 rs @ pending out = d1" "payload 7 rs @ pending err = d2"
    "isAnythingWritten out = (payload 6 rs \<noteq> [])" "isAnythingWritten err = (payload 7 rs \<noteq> [])"
    "\<forall>(t, c) \<in> set rs. (t = 6 \<or> t = 7) \<and> chunk_ok c"
    and w: "wbuf_ok out" "\<not> rawWrite out" "wbuf_ok err" "\<not> rawWrite err"
    using assms(1) by (simp_all add: session_def open_writer_def)
  have p: "pending out \<noteq> [] \<Longrightarrow> chunk_ok (pending out)" "pending err \<noteq> [] \<Longrightarrow> chunk_ok (pending err)"
    using chunk_ok_pending w by blast+
  have ne: "[] \<notin> set (map snd (filter (\<lambda>(t, _). t = k) rs))" for k
    using s(7) by (auto simp: chunk_ok_def)
  note defs = all_def final_records_def closing_records_def
  show "\<forall>(t, c) \<in> set all. 0 \<le> t \<and> t < 256 \<and> length c \<le> 65535"
    using s p by (force simp: defs chunk_ok_def split: if_splits)
  show "\<exists>cs. map snd (filter (\<lambda>(t, _). t = FCGI_STDOUT) all) = cs @ [[]] \<and> concat cs = d1 \<and> [] \<notin> set cs"
    using s(1-3) ne [of 6]
    by (intro exI [of _ "map snd (filter (\<lambda>(t, _). t = 6) rs) @ (if pending out = [] then [] else [pending out])"])
      (auto simp: defs payload_def)
  show "\<exists>cs. map snd (filter (\<lambda>(t, _). t = FCGI_STDERR) all) = cs @ (if d2 = [] then [] else [[]]) \<and>
       concat cs = d2 \<and> [] \<notin> set cs"
    using s(1,2,4,6) ne [of 7]
    by (intro exI [of _ "map snd (filter (\<lambda>(t, _). t = 7) rs) @ (if pending err = [] then [] else [pending err])"])
      (auto simp: defs payload_def)
  show "last all = (FCGI_END_REQUEST, end_body_bytes (MakeEndRequestBody (appStatus r) 0))"
    by (simp add: defs)
qed


text \<open>What a peer finds in the records of a whole session.\<close>

definition peer_finds ::
  "'z reqdata_scheme \<Rightarrow> byte list \<Rightarrow> byte list \<Rightarrow> (FCGI_Header \<times> byte list) list \<Rightarrow> bool" where
  "peer_finds r d1 d2 recs \<longleftrightarrow>
     (\<exists>cs ds. contents_of FCGI_STDOUT (requestId r) recs = cs @ [[]] \<and> concat cs = d1 \<and> [] \<notin> set cs \<and>
       contents_of FCGI_STDERR (requestId r) recs = ds @ (if d2 = [] then [] else [[]]) \<and> concat ds = d2 \<and> [] \<notin> set ds) \<and>
     last recs = (mk_header FCGI_END_REQUEST (requestId r) 8 0,
       end_body_bytes (MakeEndRequestBody (appStatus r) FCGI_REQUEST_COMPLETE))"

lemma session_parsed:
  assumes s: "session r os out err os1 rs d1 d2" and i: "0 \<le> requestId r" "requestId r < 2 ^ 16"
  obtains recs where "parse_records (wire_of (requestId r) (rs @ final_records out err r)) = Some recs"
    "peer_finds r d1 d2 recs"
proof -
  let ?all = "rs @ final_records out err r"
  let ?recs = "map (parsed_as (requestId r)) ?all"
  note fin = final_records_contents [OF s]
  have parse: "parse_records (wire_of (requestId r) ?all) = Some ?recs"
    using fin(1) by (intro parse_wire_of) blast
  have con: "contents_of t (requestId r) ?recs = map snd (filter (\<lambda>(t', _). t' = t) ?all)" if "0 \<le> t" "t < 256" for t
    using fin(1) by (intro contents_of_parsed i that) blast
  have "?all \<noteq> []" by (simp add: final_records_def closing_records_def)
  then have "last ?recs = parsed_as (requestId r) (last ?all)" by (rule last_map)
  then have lst: "last ?recs = (mk_header FCGI_END_REQUEST (requestId r) 8 0,
      end_body_bytes (MakeEndRequestBody (appStatus r) FCGI_REQUEST_COMPLETE))"
    by (simp only: fin(4)) (simp add: parsed_as_def)
  have "peer_finds r d1 d2 ?recs"
    using fin(2,3) con [of 6] con [of 7] lst unfolding peer_finds_def by simp
  then show ?thesis by (rule that [OF parse])
qed

text \<open>The whole of it: the calls, then the two closes.\<close>

definition app_session ::
  "app_op list \<Rightarrow> strm \<Rightarrow> strm \<Rightarrow> 'z reqdata_scheme \<Rightarrow> os_state \<Rightarrow>
    fault + int list \<times> int \<times> int \<times> 'z reqdata_scheme \<times> os_state" where
  "app_session ops out err r os =
     rbind (app_run ops out err r os) (\<lambda>(ns, out, err, r, os).
     rbind (close_both out err r os) (\<lambda>(n1, n2, r, os). Inr (ns, n1, n2, r, os)))"

text \<open>C4: whatever an application writes to the output and the error stream of a request, in any
  interleaving, through any partial writes of the kernel: every call returns what it should, both
  closes return 0, and a peer that splits the sent bytes into records finds exactly the output data in
  the output records, the error data in the error records, one empty record ending the output
  stream and one ending the error stream when anything was written to it, and the end-request record
  with the exit status last.\<close>

theorem session_roundtrip:
  fixes r :: "'z reqdata_scheme"
  assumes "writes_ok (ipcFd r) os" "nWriters r = 2" "0 \<le> requestId r" "requestId r < 2 ^ 16"
    and "\<forall>x \<in> set ops. \<not> app_closes x"
  shows "\<exists>os' wire recs cs ds.
    app_session ops (NewWriter m1 l1 FCGI_STDOUT) (NewWriter m2 l2 FCGI_STDERR) r os =
      Inr (map app_result ops, 0, 0, r\<lparr>nWriters := 0\<rparr>, os') \<and>
    sent (conns os' (ipcFd r)) = sent (conns os (ipcFd r)) @ wire \<and>
    parse_records wire = Some recs \<and>
    contents_of FCGI_STDOUT (requestId r) recs = cs @ [[]] \<and>
    concat cs = concat (map out_data ops) \<and> [] \<notin> set cs \<and>
    contents_of FCGI_STDERR (requestId r) recs = ds @ (if concat (map err_data ops) = [] then [] else [[]]) \<and>
    concat ds = concat (map err_data ops) \<and> [] \<notin> set ds \<and>
    last recs = (mk_header FCGI_END_REQUEST (requestId r) 8 0,
                 end_body_bytes (MakeEndRequestBody (appStatus r) FCGI_REQUEST_COMPLETE))"
proof -
  obtain out err os1 rs where run:
    "app_run ops (NewWriter m1 l1 FCGI_STDOUT) (NewWriter m2 l2 FCGI_STDERR) r os =
       Inr (map app_result ops, out, err, r, os1)"
    "writes_ok (ipcFd r) os1"
    "session r os out err os1 rs (concat (map out_data ops)) (concat (map err_data ops))"
    using session_run [OF session_start [of r os m1 l1 m2 l2] assms(5,1)] by auto
  obtain os2 where cl: "close_both out err r os1 = Inr (0, 0, r\<lparr>nWriters := 0\<rparr>, os2)"
    "sends (ipcFd r) (wire_of (requestId r) (rs @ final_records out err r)) os os2"
    by (rule session_close [OF run(3,2) assms(2)])
  obtain recs where recs: "parse_records (wire_of (requestId r) (rs @ final_records out err r)) = Some recs"
    "peer_finds r (concat (map out_data ops)) (concat (map err_data ops)) recs"
    by (rule session_parsed [OF run(3) assms(3,4)])
  have go: "app_session ops (NewWriter m1 l1 FCGI_STDOUT) (NewWriter m2 l2 FCGI_STDERR) r os =
      Inr (map app_result ops, 0, 0, r\<lparr>nWriters := 0\<rparr>, os2)"
    using run(1) cl(1) by (simp add: app_session_def)
  show ?thesis
    using go sends_sent [OF cl(2)] recs unfolding peer_finds_def
    by (intro exI [of _ os2] exI [of _ "wire_of (requestId r) (rs @ final_records out err r)"] exI [of _ recs]) simp
qed

lemma session_roundtrip_witness:
  "\<exists>os' recs.
    app_session [Out (PutStr [1, 2]), Err (PutChar 3)] (NewWriter 0 64 FCGI_STDOUT) (NewWriter 0 64 FCGI_STDERR)
      sample_request (sample_os [] [Accepts 3]) = Inr ([2, 3], 0, 0, sample_request\<lparr>nWriters := 0\<rparr>, os') \<and>
    parse_records (sent (conns os' 5)) = Some recs \<and>
    concat (contents_of FCGI_STDOUT 1 recs) = [1, 2] \<and> concat (contents_of FCGI_STDERR 1 recs) = [3]"
proof -
  have "writes_ok (ipcFd sample_request) (sample_os [] [Accepts 3])"
    by (simp add: writes_ok_def)
  from session_roundtrip [OF this, of "[Out (PutStr [1, 2]), Err (PutChar 3)]" 0 64 0 64]
  show ?thesis by fastforce
qed

section \<open>One writer, with failing writes\<close>

text \<open>The records of a stream that carried \<open>cs\<close> and was closed.\<close>

definition stream_records :: "int \<Rightarrow> 'z reqdata_scheme \<Rightarrow> byte list list \<Rightarrow> (int \<times> byte list) list" where
  "stream_records t r cs = map (Pair t) cs @
     (if t = FCGI_STDERR \<and> cs = [] then [] else [(t, [])]) @
     (if nWriters r = 1
      then [(FCGI_END_REQUEST, end_body_bytes (MakeEndRequestBody (appStatus r) FCGI_REQUEST_COMPLETE))]
      else [])"

text \<open>Either all data so far is in records or in the buffer, or the stream is closed with an error.\<close>

definition progress ::
  "int \<Rightarrow> 'z reqdata_scheme \<Rightarrow> os_state \<Rightarrow> strm \<Rightarrow> os_state \<Rightarrow> byte list \<Rightarrow> bool" where
  "progress t r os0 s os d \<longleftrightarrow>
     (open_writer t s \<and> real_errors (ipcFd r) os \<and>
       (\<exists>cs. (\<forall>c \<in> set cs. chunk_ok c) \<and> concat cs @ pending s = d \<and>
          isAnythingWritten s = (concat cs \<noteq> []) \<and>
          sends (ipcFd r) (wire_of (requestId r) (map (Pair t) cs)) os0 os)) \<or>
     (writer_ok s \<and> stype s = t \<and> \<not> wasFCloseCalled s \<and> isClosed s \<and> FCGI_errno s \<noteq> 0)"

lemma progress_start:
  "real_errors (ipcFd r) os \<Longrightarrow> progress t r os (NewWriter mBuff len t) os []"
  by (auto simp: progress_def NewWriter_open intro!: exI [of _ "[]"])

lemma progress_step:
  assumes p: "progress t r os0 s os d" and op: "op \<noteq> Close"
  shows "\<exists>n s' os'. writer_step op s r os = Inr (n, s', r, os') \<and> progress t r os0 s' os' (d @ op_data op)"
proof (cases "open_writer t s")
  case False
  then have s: "writer_ok s" "stype s = t" "\<not> wasFCloseCalled s" "isClosed s" "FCGI_errno s \<noteq> 0"
    using p by (auto simp: progress_def)
  then have w: "wbuf_ok s" "\<not> rawWrite s" by (simp_all add: writer_ok_def)
  show ?thesis
    using writer_step_open [OF w op, of r os] s w
    by (fastforce simp: progress_def writer_ok_def outcome_defs same_writer_def first_error_def)
next
  case True
  then have s: "wbuf_ok s" "\<not> rawWrite s" "\<not> isClosed s" "\<not> wasFCloseCalled s" "FCGI_errno s = 0"
    "stype s = t" by (simp_all add: open_writer_def)
  obtain cs where cs: "real_errors (ipcFd r) os" "\<forall>c \<in> set cs. chunk_ok c" "concat cs @ pending s = d"
    "isAnythingWritten s = (concat cs \<noteq> [])"
    "sends (ipcFd r) (wire_of (requestId r) (map (Pair t) cs)) os0 os"
    using p s(3) by (auto simp: progress_def)
  obtain n s1 os1 where 1: "writer_step op s r os = Inr (n, s1, r, os1)"
    and alt: "emitted emits_framed (op_data op) s r os s1 os1 \<or> write_failed s r os s1 os1"
    using writer_step_open [OF s(1,2) op, of r os] s(3) by (auto simp: rejected_def)
  from alt show ?thesis
  proof
    assume e: "emitted emits_framed (op_data op) s r os s1 os1"
    then obtain ds where ds: "pending s @ op_data op = concat ds @ pending s1" "\<forall>c\<in>set ds. chunk_ok c"
      "sends (ipcFd r) (frames t (requestId r) ds) os os1"
      "isAnythingWritten s1 = (isAnythingWritten s \<or> concat ds \<noteq> [])"
      using s by (auto simp: emitted_def emits_framed_def)
    have o: "open_writer t s1" using e s by (auto simp: open_writer_def emitted_def same_writer_def)
    have "sends (ipcFd r) (wire_of (requestId r) (map (Pair t) (cs @ ds))) os0 os1"
      using sends_trans [OF cs(5) ds(3)] by simp
    moreover have "concat (cs @ ds) @ pending s1 = d @ op_data op"
      using ds(1) cs(3) by auto
    ultimately have "progress t r os0 s1 os1 (d @ op_data op)"
      using o cs ds sends_real_errors [OF ds(3) cs(1)] unfolding progress_def
      by (intro disjI1 conjI exI [of _ "cs @ ds"]) auto
    then show ?thesis using 1 by blast
  next
    assume "write_failed s r os s1 os1"
    then show ?thesis
      using 1 s cs(1)
      by (auto simp: progress_def write_failed_def first_error_def writer_ok_def same_writer_def)
  qed
qed

lemma progress_run:
  assumes "progress t r os0 s os d" "Close \<notin> set ops"
  shows "\<exists>ns s' os'. writer_run ops s r os = Inr (ns, s', r, os') \<and>
    progress t r os0 s' os' (d @ concat (map op_data ops))"
  using assms
proof (induction ops arbitrary: s os d)
  case Nil
  then show ?case by simp
next
  case (Cons x ops)
  obtain n s1 os1 where 1: "writer_step x s r os = Inr (n, s1, r, os1)"
    "progress t r os0 s1 os1 (d @ op_data x)"
    using progress_step [OF Cons.prems(1), of x] Cons.prems(2) by auto
  show ?case using Cons.IH [OF 1(2)] Cons.prems(2) 1(1) by auto
qed

lemma progress_close:
  assumes p: "progress t r os0 s os d"
  shows "\<exists>s' os'. FCGX_FClose EmptyBuffProc (Some s) r os =
      Inr (if FCGI_errno s' = 0 then 0 else EOF, Some s', r\<lparr>nWriters := nWriters r - 1\<rparr>, os') \<and>
    (FCGI_errno s' \<noteq> 0 \<or>
     (\<exists>cs. (\<forall>c \<in> set cs. chunk_ok c) \<and> concat cs = d \<and>
        sends (ipcFd r) (wire_of (requestId r) (stream_records t r cs)) os0 os'))"
proof -
  have s: "writer_ok s" "\<not> wasFCloseCalled s"
    using p by (auto simp: progress_def open_writer_def writer_ok_def)
  obtain s1 os1 where 1:
    "FCGX_FClose EmptyBuffProc (Some s) r os =
       Inr (if FCGI_errno s1 = 0 then 0 else EOF, Some s1, r\<lparr>nWriters := nWriters r - 1\<rparr>, os1)"
    "(FCGI_errno s1 = FCGI_errno s \<and> sends (ipcFd r) (closing_bytes s r) os os1) \<or>
     ((isClosed s \<or> \<not> writes_ok (ipcFd r) os) \<and> (FCGI_errno s \<noteq> 0 \<longrightarrow> FCGI_errno s1 = FCGI_errno s) \<and>
      (real_errors (ipcFd r) os \<longrightarrow> isClosed s \<or> FCGI_errno s1 \<noteq> 0))"
    by (rule FClose_spec [OF s])
  have "FCGI_errno s1 \<noteq> 0 \<or> (\<exists>cs. (\<forall>c \<in> set cs. chunk_ok c) \<and> concat cs = d \<and>
        sends (ipcFd r) (wire_of (requestId r) (stream_records t r cs)) os0 os1)"
  proof (cases "FCGI_errno s1 = 0")
    case True
    then have o: "open_writer t s" "real_errors (ipcFd r) os" using p 1(2) by (auto simp: progress_def)
    obtain cs where cs: "\<forall>c \<in> set cs. chunk_ok c" "concat cs @ pending s = d"
      "isAnythingWritten s = (concat cs \<noteq> [])"
      "sends (ipcFd r) (wire_of (requestId r) (map (Pair t) cs)) os0 os"
      using p o by (auto simp: progress_def open_writer_def)
    have t: "stype s = t" "sends (ipcFd r) (closing_bytes s r) os os1"
      using o 1(2) True by (auto simp: open_writer_def)
    define ds where "ds = cs @ (if pending s = [] then [] else [pending s])"
    have ne: "(cs = []) = (concat cs = [])" using cs(1) by (cases cs) (auto simp: chunk_ok_def)
    have "map (Pair t) cs @ closing_records s r = stream_records t r ds"
      using t cs(3) ne by (auto simp: closing_records_def stream_records_def ds_def)
    then have "sends (ipcFd r) (wire_of (requestId r) (stream_records t r ds)) os0 os1"
      using sends_trans [OF cs(4) t(2)] by (metis closing_bytes_records wire_of_simps(2))
    moreover have "\<forall>c \<in> set ds. chunk_ok c" "concat ds = d"
      using cs o chunk_ok_pending [of s] by (auto simp: ds_def open_writer_def)
    ultimately show ?thesis by blast
  qed simp
  with 1(1) show ?thesis by blast
qed

lemma writer_run_append:
  "writer_run (xs @ ys) s r os = rbind (writer_run xs s r os) (\<lambda>(ns, s, r, os).
     rbind (writer_run ys s r os) (\<lambda>(ms, s, r, os). Inr (ns @ ms, s, r, os)))"
proof (induction xs arbitrary: s r os)
  case Nil
  show ?case by (cases "writer_run ys s r os") auto
next
  case (Cons x xs)
  show ?case
  proof (cases "writer_step x s r os")
    case (Inr y)
    obtain n s1 r1 os1 where y: "y = (n, s1, r1, os1)" by (cases y)
    show ?thesis
    proof (cases "writer_run xs s1 r1 os1")
      case (Inr z)
      obtain ns s2 r2 os2 where z: "z = (ns, s2, r2, os2)" by (cases z)
      show ?thesis
        using \<open>writer_step x s r os = Inr y\<close> y Inr z Cons [of s1 r1 os1]
        by (cases "writer_run ys s2 r2 os2") auto
    qed (use Inr y Cons [of s1 r1 os1] in simp)
  qed simp
qed

text \<open>C8: with writes that may fail, each failure leaving an \<^verbatim>\<open>errno\<close>, no data is lost silently: when
  the close returns 0, the bytes sent are the records of all the data handed over, the record that
  ends the stream, and the end of the request if this was its last writer; otherwise it returns \<open>EOF\<close>
  and an error is recorded.\<close>

theorem no_silent_loss:
  fixes r :: "'z reqdata_scheme"
  assumes "real_errors (ipcFd r) os" "Close \<notin> set ops"
  shows "\<exists>ns n s' os'.
    writer_run (ops @ [Close]) (NewWriter mBuff len t) r os =
      Inr (ns @ [n], s', r\<lparr>nWriters := nWriters r - 1\<rparr>, os') \<and>
    ((n = EOF \<and> FCGI_errno s' \<noteq> 0) \<or>
     (n = 0 \<and> (\<exists>cs. concat cs = concat (map op_data ops) \<and> (\<forall>c \<in> set cs. chunk_ok c) \<and>
        sent (conns os' (ipcFd r)) =
          sent (conns os (ipcFd r)) @ wire_of (requestId r) (stream_records t r cs))))"
proof -
  obtain ns s1 os1 where 1: "writer_run ops (NewWriter mBuff len t) r os = Inr (ns, s1, r, os1)"
    "progress t r os s1 os1 (concat (map op_data ops))"
    using progress_run [OF progress_start [OF assms(1), of t mBuff len] assms(2)] by auto
  obtain s2 os2 where 2: "FCGX_FClose EmptyBuffProc (Some s1) r os1 =
      Inr (if FCGI_errno s2 = 0 then 0 else EOF, Some s2, r\<lparr>nWriters := nWriters r - 1\<rparr>, os2)"
    "FCGI_errno s2 \<noteq> 0 \<or>
     (\<exists>cs. (\<forall>c \<in> set cs. chunk_ok c) \<and> concat cs = concat (map op_data ops) \<and>
        sends (ipcFd r) (wire_of (requestId r) (stream_records t r cs)) os os2)"
    using progress_close [OF 1(2)] by blast
  show ?thesis
    using 1(1) 2 sends_sent
    by (intro exI [of _ ns] exI [of _ "if FCGI_errno s2 = 0 then 0 else EOF"] exI [of _ s2] exI [of _ os2])
      (auto simp: writer_run_append)
qed

lemma no_silent_loss_witness:
  "\<exists>ns s' os'. writer_run ([PutStr [1, 2, 3]] @ [Close]) (NewWriter 0 64 FCGI_STDOUT) sample_request
      (sample_os [] [WriteFails 32]) = Inr (ns, s', sample_request\<lparr>nWriters := 1\<rparr>, os')"
proof -
  have "real_errors (ipcFd sample_request) (sample_os [] [WriteFails 32])"
    by (simp add: real_errors_def)
  from no_silent_loss [OF this, of "[PutStr [1, 2, 3]]" 0 64 FCGI_STDOUT]
  show ?thesis by auto
qed

section \<open>Every sequence of calls is safe\<close>

lemma writer_run_ok:
  assumes "writer_ok s"
  shows "\<exists>ns s' os'. writer_run ops s r os =
      Inr (ns, s', r\<lparr>nWriters := nWriters r - (if Close \<in> set ops \<and> \<not> wasFCloseCalled s then 1 else 0)\<rparr>, os') \<and>
    length ns = length ops \<and> writer_ok s' \<and> stype s' = stype s"
  using assms
proof (induction ops arbitrary: s r os)
  case Nil
  then show ?case by simp
next
  case (Cons x xs)
  obtain n s1 r1 os1 where 1: "writer_step x s r os = Inr (n, s1, r1, os1)" "writer_ok s1" "stype s1 = stype s"
    "r1 = (if x = Close \<and> \<not> wasFCloseCalled s then r\<lparr>nWriters := nWriters r - 1\<rparr> else r)"
    "wasFCloseCalled s1 = (wasFCloseCalled s \<or> x = Close)"
    using writer_step_ok [OF Cons.prems, of x r os] by auto
  obtain ns s2 os2 where 2: "writer_run xs s1 r1 os1 =
      Inr (ns, s2, r1\<lparr>nWriters := nWriters r1 - (if Close \<in> set xs \<and> \<not> wasFCloseCalled s1 then 1 else 0)\<rparr>, os2)"
    "length ns = length xs" "writer_ok s2" "stype s2 = stype s1"
    using Cons.IH [OF 1(2), of r1 os1] by auto
  have "writer_run (x # xs) s r os = Inr (n # ns, s2,
      r1\<lparr>nWriters := nWriters r1 - (if Close \<in> set xs \<and> \<not> wasFCloseCalled s1 then 1 else 0)\<rparr>, os2)"
    using 1(1) 2(1) by simp
  moreover have "r1\<lparr>nWriters := nWriters r1 - (if Close \<in> set xs \<and> \<not> wasFCloseCalled s1 then 1 else 0)\<rparr> =
     r\<lparr>nWriters := nWriters r - (if Close \<in> set (x # xs) \<and> \<not> wasFCloseCalled s then 1 else 0)\<rparr>"
    using 1(4,5) by auto
  ultimately show ?case using 1(3) 2 by auto
qed

text \<open>C23: no sequence of calls on a new writer, closes anywhere in it, violates an assertion, writes
  outside the buffer or exhausts the bound of the copying loop; the request loses one writer if and
  only if the stream is closed, however often.\<close>

theorem writer_never_faults:
  "\<exists>ns s' os'. writer_run ops (NewWriter mBuff len t) r os =
      Inr (ns, s', r\<lparr>nWriters := nWriters r - (if Close \<in> set ops then 1 else 0)\<rparr>, os') \<and>
    length ns = length ops \<and> writer_ok s' \<and> stype s' = t"
  using writer_run_ok [OF NewWriter_ok, of ops mBuff len t r os] by simp

section \<open>Writing under shutdownNow\<close>

lemma write_it_all_shutdown:
  "shutdownNow os \<Longrightarrow> write_it_all fd buf os = (if buf = [] then 0 else - 1, os)"
  by (simp add: write_it_all.simps [of fd buf os] OS_Write_def)

lemma flush_buffer_shutdown:
  "flush_buffer s r os = Inr (s', r', os') \<Longrightarrow> shutdownNow os \<Longrightarrow> c_errno os = 0 \<Longrightarrow>
    FCGI_errno s' = FCGI_errno s \<and> r' = r \<and> os' = os"
  by (auto simp: flush_buffer_def Let_def write_it_all_shutdown split: if_splits)

lemma encapsulate_errno: "encapsulate s r = Inr s' \<Longrightarrow> FCGI_errno s' = FCGI_errno s"
  by (auto simp: encapsulate_def Let_def rbind_Inr_iff split: if_splits)

lemma EmptyBuffProc_noclose_shutdown:
  "EmptyBuffProc_noclose s r os = Inr (s', r', os') \<Longrightarrow> shutdownNow os \<Longrightarrow> c_errno os = 0 \<Longrightarrow>
    FCGI_errno s' = FCGI_errno s \<and> r' = r \<and> os' = os"
  by (auto simp: EmptyBuffProc_noclose_def rbind_Inr_iff
      dest!: flush_buffer_shutdown dest: encapsulate_errno)

lemma put_some_errno: "put_some str s = Inr (rest, s') \<Longrightarrow> FCGI_errno s' = FCGI_errno s"
  by (auto simp: put_some_def Let_def rbind_Inr_iff split: if_splits)

lemma put_loop_shutdown:
  "put_loop (\<lambda>_. EmptyBuffProc_noclose) fuel n str s r os = Inr (n', s', r', os') \<Longrightarrow>
    shutdownNow os \<Longrightarrow> c_errno os = 0 \<Longrightarrow> FCGI_errno s' = FCGI_errno s \<and> r' = r \<and> os' = os"
proof (induction fuel arbitrary: str s r os)
  case 0
  then show ?case by simp
next
  case (Suc fuel)
  from Suc.prems(1) obtain rest s1 where 1: "put_some str s = Inr (rest, s1)"
    and rest: "(if rest = [] then Inr (n, s1, r, os)
       else if isClosed s1 \<or> isReader s1 then Inr (- 1, s1, r, os)
       else rbind (EmptyBuffProc_noclose s1 r os) (\<lambda>(s, r, os).
              put_loop (\<lambda>_. EmptyBuffProc_noclose) fuel n rest s r os)) = Inr (n', s', r', os')"
    by (auto simp: rbind_Inr_iff)
  show ?case
  proof (cases "rest = [] \<or> isClosed s1 \<or> isReader s1")
    case True
    then show ?thesis using rest put_some_errno [OF 1] by (auto split: if_splits)
  next
    case False
    then obtain s2 r2 os2 where 2: "EmptyBuffProc_noclose s1 r os = Inr (s2, r2, os2)"
      "put_loop (\<lambda>_. EmptyBuffProc_noclose) fuel n rest s2 r2 os2 = Inr (n', s', r', os')"
      using rest by (auto simp: rbind_Inr_iff)
    have e: "FCGI_errno s2 = FCGI_errno s1" "r2 = r" "os2 = os"
      using EmptyBuffProc_noclose_shutdown [OF 2(1) Suc.prems(2,3)] by auto
    show ?thesis
      using Suc.IH [OF 2(2)] e Suc.prems put_some_errno [OF 1] by simp
  qed
qed

lemma PutStr_shutdown:
  "FCGX_PutStr (\<lambda>_. EmptyBuffProc_noclose) str s r os = Inr (n', s', r', os') \<Longrightarrow>
    shutdownNow os \<Longrightarrow> c_errno os = 0 \<Longrightarrow> FCGI_errno s' = FCGI_errno s \<and> r' = r \<and> os' = os"
  by (auto simp: FCGX_PutStr_def rbind_Inr_iff simp del: put_loop.simps dest: put_loop_shutdown split: if_splits)

lemma WriteCloseRecords_shutdown:
  "WriteCloseRecords s r os = Inr (s', r', os') \<Longrightarrow> shutdownNow os \<Longrightarrow> c_errno os = 0 \<Longrightarrow>
    FCGI_errno s' = FCGI_errno s \<and> os' = os"
  by (auto simp: WriteCloseRecords_def Let_def rbind_Inr_iff split: if_splits
      dest!: PutStr_shutdown)

text \<open>The hypothesis that failing writes set \<^verbatim>\<open>errno\<close> is needed. With the flag \<^verbatim>\<open>shutdownNow\<close> set
  (\<^verbatim>\<open>OS_Write\<close> tests it, nothing in the sources sets it) a write fails and leaves \<^verbatim>\<open>errno\<close> alone: the
  error would be recorded as 0, and closing the stream return 0 with nothing sent.\<close>

theorem close_in_shutdown_silent:
  fixes r :: "'z reqdata_scheme"
  assumes "shutdownNow os" "c_errno os = 0" "writer_ok s" "FCGI_errno s = 0" "\<not> wasFCloseCalled s"
  shows "\<exists>s'. FCGX_FClose EmptyBuffProc (Some s) r os = Inr (0, Some s', r\<lparr>nWriters := nWriters r - 1\<rparr>, os)"
proof -
  obtain s1 os1 where 1: "FCGX_FClose EmptyBuffProc (Some s) r os =
       Inr (if FCGI_errno s1 = 0 then 0 else EOF, Some s1, r\<lparr>nWriters := nWriters r - 1\<rparr>, os1)"
    by (rule FClose_spec [OF assms(3,5)])
  then have "FCGI_errno s1 = 0 \<and> os1 = os"
    using assms
    by (auto simp: FCGX_FClose_def EmptyBuffProc_def rbind_Inr_iff Let_def split: if_splits
        dest!: flush_buffer_shutdown WriteCloseRecords_shutdown dest: encapsulate_errno)
  then show ?thesis using 1 by auto
qed

lemma close_in_shutdown_silent_witness:
  "\<exists>s'. FCGX_FClose EmptyBuffProc (Some (NewWriter 0 64 FCGI_STDOUT)) sample_request
      (sample_os [] []\<lparr>shutdownNow := True\<rparr>) =
    Inr (0, Some s', sample_request\<lparr>nWriters := 1\<rparr>, sample_os [] []\<lparr>shutdownNow := True\<rparr>)"
  using close_in_shutdown_silent [of "sample_os [] []\<lparr>shutdownNow := True\<rparr>" "NewWriter 0 64 FCGI_STDOUT"
      sample_request] NewWriter_ok [of 0 64 FCGI_STDOUT]
  by simp

end
