(* ===== verification/Params.thy ===== *)
theory Params
  imports Prelude
begin

text \<open>
  The environment of a request: the growing vector \<^verbatim>\<open>Params\<close> of \<^verbatim>\<open>libfcgi/fcgiapp.c\<close> with
  \<^verbatim>\<open>NewParams\<close>, \<^verbatim>\<open>PutParam\<close> and \<^verbatim>\<open>FreeParams\<close>, and the lookup \<^verbatim>\<open>FCGX_GetParam\<close>. An entry is the block
  \<^verbatim>\<open>name=value\<close> with its NUL; a \<^verbatim>\<open>NULL\<close> cell is \<open>None\<close>, and so is a cell not yet written.
\<close>

section \<open>The vector\<close>

record Params =
  vec :: "byte list option list"
  plength :: nat
  cur :: nat

definition NewParams :: "nat \<Rightarrow> fault + Params" where
  "NewParams n =
     (if 0 < n then Inr \<lparr> vec = replicate n None, plength = n, cur = 0 \<rparr> else Inl BufferOverrun)"

text \<open>\<open>realloc\<close> to \<open>n\<close> cells keeps what fits.\<close>

definition realloc_vec :: "nat \<Rightarrow> 'a option list \<Rightarrow> 'a option list" where
  "realloc_vec n v = take n v @ replicate (n - length v) None"

definition store_vec :: "'a list \<Rightarrow> nat \<Rightarrow> 'a \<Rightarrow> fault + 'a list" where
  "store_vec v i x = (if i < length v then Inr (v[i := x]) else Inl BufferOverrun)"

definition PutParam :: "Params \<Rightarrow> byte list \<Rightarrow> fault + Params" where
  "PutParam p nameValue =
     rbind (store_vec (vec p) (cur p) (Some nameValue)) (\<lambda>v.
     let p1 = p\<lparr>vec := v, cur := cur p + 1\<rparr>;
         size = cur p1;
         p2 = (if size \<ge> plength p1
               then p1\<lparr>plength := plength p1 * 2, vec := realloc_vec (plength p1 * 2) (vec p1), cur := size\<rparr>
               else p1)
     in rbind (store_vec (vec p2) (cur p2) None) (\<lambda>v. Inr (p2\<lparr>vec := v\<rparr>)))"

text \<open>\<^verbatim>\<open>FreeParams\<close>: the strings it frees, and the pointer it nulls.\<close>

definition FreeParams :: "Params option \<Rightarrow> byte list option list \<times> Params option" where
  "FreeParams po = (case po of None \<Rightarrow> ([], None) | Some p \<Rightarrow> (take (cur p) (vec p), None))"

text \<open>\<^verbatim>\<open>FCGX_GetParam\<close>: a pointer into an entry is the rest of the entry's block from there.\<close>

fun get_param :: "byte list \<Rightarrow> byte list option list \<Rightarrow> fault + byte list option" where
  "get_param name [] = Inl BufferOverrun"
| "get_param name (None # ps) = Inr None"
| "get_param name (Some p # ps) =
     (let len = length name in
      if take len (cstr p) = name
      then rbind (load p len) (\<lambda>c.
           if c = 0x3D then Inr (Some (drop (len + 1) p)) else get_param name ps)
      else get_param name ps)"

definition FCGX_GetParam ::
  "byte list option \<Rightarrow> byte list option list option \<Rightarrow> fault + byte list option" where
  "FCGX_GetParam name envp =
     (case (name, envp) of
        (Some n, Some e) \<Rightarrow> get_param (cstr n) e
      | _ \<Rightarrow> Inr None)"

section \<open>The vector holds what was put, and stays terminated\<close>

definition params_ok :: "Params \<Rightarrow> byte list list \<Rightarrow> bool" where
  "params_ok p xs \<longleftrightarrow> length (vec p) = plength p \<and> cur p = length xs \<and> cur p < plength p \<and>
     take (cur p) (vec p) = map Some xs \<and> vec p ! cur p = None"

lemma NewParams_ok: "0 < n \<Longrightarrow> \<exists>p. NewParams n = Inr p \<and> params_ok p [] \<and> plength p = n"
  by (simp add: NewParams_def params_ok_def)

lemma take_Suc_store: "i < length v \<Longrightarrow> take (Suc i) (v[i := x]) = take i v @ [x]"
  by (simp add: take_Suc_conv_app_nth)

lemma PutParam_ok:
  assumes "params_ok p xs"
  obtains p' where "PutParam p x = Inr p'" "params_ok p' (xs @ [x])"
    "plength p' = (if length xs + 1 = plength p then 2 * plength p else plength p)"
proof -
  have p: "length (vec p) = plength p" "cur p = length xs" "length xs < plength p"
    "take (length xs) (vec p) = map Some xs"
    using assms by (auto simp: params_ok_def)
  let ?v = "(vec p)[length xs := Some x]"
  have v: "take (Suc (length xs)) ?v = map Some (xs @ [x])"
    using p by (simp add: take_Suc_store)
  show ?thesis
  proof (cases "Suc (length xs) = plength p")
    case True
    have len: "length (realloc_vec (2 * plength p) ?v) = 2 * plength p"
      using p by (simp add: realloc_vec_def)
    have tk: "take (Suc (length xs)) (realloc_vec (2 * plength p) ?v) = map Some (xs @ [x])"
      using v p by (simp add: realloc_vec_def min_def)
    let ?p = "p\<lparr>vec := (realloc_vec (2 * plength p) ?v)[Suc (length xs) := None],
      plength := 2 * plength p, cur := Suc (length xs)\<rparr>"
    have "PutParam p x = Inr ?p"
      using p True len by (simp add: PutParam_def store_vec_def Let_def mult.commute)
    moreover have "params_ok ?p (xs @ [x])"
      using p True len tk by (simp add: params_ok_def)
    ultimately show ?thesis using that True by simp
  next
    case False
    let ?p = "p\<lparr>vec := ?v[Suc (length xs) := None], cur := Suc (length xs)\<rparr>"
    have "PutParam p x = Inr ?p"
      using p False by (simp add: PutParam_def store_vec_def Let_def)
    moreover have "params_ok ?p (xs @ [x])"
      using p False v by (simp add: params_ok_def)
    ultimately show ?thesis using that False by simp
  qed
qed

fun put_params :: "Params \<Rightarrow> byte list list \<Rightarrow> fault + Params" where
  "put_params p [] = Inr p"
| "put_params p (x # xs) = rbind (PutParam p x) (\<lambda>p. put_params p xs)"

lemma put_params_ok:
  "params_ok p xs \<Longrightarrow> \<exists>p'. put_params p ys = Inr p' \<and> params_ok p' (xs @ ys)"
proof (induction ys arbitrary: p xs)
  case Nil
  then show ?case by simp
next
  case (Cons y ys)
  obtain p1 where "PutParam p y = Inr p1" "params_ok p1 (xs @ [y])"
    by (rule PutParam_ok [OF Cons.prems])
  then show ?case using Cons.IH [of p1 "xs @ [y]"] by simp
qed

section \<open>Lookup\<close>

text \<open>A \<^verbatim>\<open>name=value\<close> entry, and the environment lookup on pairs.\<close>

definition entry :: "byte list \<times> byte list \<Rightarrow> byte list" where
  "entry nv = fst nv @ [0x3D] @ snd nv @ [0]"

lemma take_prefix_entry:
  assumes "0x3D \<notin> set n" "0x3D \<notin> set m" "0 \<notin> set n" "0 \<notin> set m"
  shows "(take (length n) (cstr (m @ 0x3D # v)) = n \<and> (m @ 0x3D # v) ! length n = 0x3D) = (m = n)"
proof
  assume a: "take (length n) (cstr (m @ 0x3D # v)) = n \<and> (m @ 0x3D # v) ! length n = 0x3D"
  have c: "cstr (m @ 0x3D # v) = m @ 0x3D # cstr v"
    using assms by (auto simp: cstr_def takeWhile_append)
  show "m = n"
  proof (cases "length n" "length m" rule: linorder_cases)
    case less
    then have "(m @ 0x3D # v) ! length n \<in> set m" by (simp add: nth_append)
    then show ?thesis using a assms by metis
  next
    case equal
    then show ?thesis using a by (simp add: c)
  next
    case greater
    then obtain k where "length n = length m + Suc k"
      by (metis less_imp_Suc_add add_Suc_right)
    then have "0x3D \<in> set (take (length n) (m @ 0x3D # cstr v))"
      by simp
    moreover have "take (length n) (m @ 0x3D # cstr v) = n"
      using a by (simp only: c)
    ultimately show ?thesis using assms by metis
  qed
next
  assume "m = n"
  then show "take (length n) (cstr (m @ 0x3D # v)) = n \<and> (m @ 0x3D # v) ! length n = 0x3D"
    using assms by (auto simp: cstr_def takeWhile_append)
qed

lemma get_param_entries:
  assumes "0x3D \<notin> set n" "0 \<notin> set n"
    and "\<forall>(m, v) \<in> set kvs. 0x3D \<notin> set m \<and> 0 \<notin> set m"
  shows "get_param n (map (Some \<circ> entry) kvs @ None # rest) =
    Inr (map_option (\<lambda>v. v @ [0]) (map_of kvs n))"
  using assms(3)
proof (induction kvs)
  case Nil
  then show ?case by simp
next
  case (Cons kv kvs)
  obtain m v where kv: "kv = (m, v)" by (cases kv)
  have m: "0x3D \<notin> set m" "0 \<notin> set m" using Cons.prems kv by auto
  let ?e = "m @ 0x3D # v @ [0]"
  have iff: "(take (length n) (cstr ?e) = n \<and> ?e ! length n = 0x3D) = (m = n)"
    by (rule take_prefix_entry [OF assms(1) m(1) assms(2) m(2)])
  have len: "take (length n) (cstr ?e) = n \<Longrightarrow> length n < length ?e"
  proof -
    assume a: "take (length n) (cstr ?e) = n"
    have "length (cstr ?e) < length ?e"
    proof -
      have "cstr ?e = m @ 0x3D # cstr (v @ [0])" using m by (auto simp: cstr_def takeWhile_append)
      moreover have "length (cstr (v @ [0])) < length (v @ [0 :: byte])"
        by (auto simp: cstr_def takeWhile_append le_imp_less_Suc length_takeWhile_le)
      ultimately show ?thesis by simp
    qed
    moreover have "length n \<le> length (cstr ?e)"
      using arg_cong [OF a, of length] by simp
    ultimately show "length n < length ?e" by simp
  qed
  show ?case
  proof (cases "m = n")
    case True
    then show ?thesis using iff len kv by (simp add: entry_def)
  next
    case False
    then show ?thesis
      using iff len kv Cons by (cases "take (length n) (cstr ?e) = n") (auto simp: entry_def Let_def)
  qed
qed

lemma params_ok_vec: "params_ok p xs \<Longrightarrow> \<exists>rest. vec p = map Some xs @ None # rest"
proof
  assume p: "params_ok p xs"
  then have "drop (cur p) (vec p) = None # drop (Suc (cur p)) (vec p)"
    by (auto simp: params_ok_def Cons_nth_drop_Suc [symmetric])
  moreover have "take (cur p) (vec p) = map Some xs"
    using p by (auto simp: params_ok_def)
  ultimately show "vec p = map Some xs @ None # drop (Suc (cur p)) (vec p)"
    by (metis append_take_drop_id)
qed

text \<open>C30: for an environment of any size built with \<^verbatim>\<open>NewParams\<close> and \<^verbatim>\<open>PutParam\<close>, across every doubling
  of the vector, no write leaves the vector and \<^verbatim>\<open>FCGX_GetParam\<close> finds for each name the value of its
  first entry, and \<^verbatim>\<open>NULL\<close> for a name that is not there.\<close>

theorem environment_lookup:
  assumes "0 < k" "0x3D \<notin> set n" "0 \<notin> set n"
    and "\<forall>(m, v) \<in> set kvs. 0x3D \<notin> set m \<and> 0 \<notin> set m"
  shows "\<exists>p. rbind (NewParams k) (\<lambda>p. put_params p (map entry kvs)) = Inr p \<and>
    length kvs < plength p \<and>
    FCGX_GetParam (Some (n @ [0])) (Some (vec p)) = Inr (map_option (\<lambda>v. v @ [0]) (map_of kvs n))"
proof -
  obtain p0 where p0: "NewParams k = Inr p0" "params_ok p0 []"
    using NewParams_ok [OF assms(1)] by auto
  obtain p where p: "put_params p0 (map entry kvs) = Inr p" "params_ok p (map entry kvs)"
    using put_params_ok [OF p0(2), of "map entry kvs"] by auto
  obtain rest where "vec p = map (Some \<circ> entry) kvs @ None # rest"
    using params_ok_vec [OF p(2)] by auto
  then have "FCGX_GetParam (Some (n @ [0])) (Some (vec p)) =
      Inr (map_option (\<lambda>v. v @ [0]) (map_of kvs n))"
    using get_param_entries [OF assms(2-4)] assms(3) by (simp add: FCGX_GetParam_def cstr_block)
  then show ?thesis using p0 p by (auto simp: params_ok_def)
qed

lemma environment_lookup_witness:
  "\<exists>p. rbind (NewParams 1) (\<lambda>p. put_params p (map entry [([65], [66]), ([67], []), ([65], [68])])) = Inr p \<and>
    FCGX_GetParam (Some [65, 0]) (Some (vec p)) = Inr (Some [66, 0])"
  using environment_lookup [of 1 "[65]" "[([65], [66]), ([67], []), ([65], [68])]"] by auto

end
