(* ===== verification/NameValue.thy ===== *)
theory NameValue
  imports Protocol Params
begin

text \<open>
  The encoding of name-value pairs in \<^verbatim>\<open>FCGI_PARAMS\<close> and \<^verbatim>\<open>FCGI_GET_VALUES\<close> records, as a reference for
  \<^verbatim>\<open>ReadParams\<close> of \<^verbatim>\<open>libfcgi/fcgiapp.c\<close>: lengths of one or four bytes, the decoding of a whole byte
  string into \<^verbatim>\<open>name=value\<close> entries, and the encoder a web server uses.
\<close>

section \<open>Decoding\<close>

text \<open>A length whose first byte is \<open>c\<close>, and the rest of the input.\<close>

definition dec_tail :: "int \<Rightarrow> byte list \<Rightarrow> (int \<times> byte list) option" where
  "dec_tail c bs =
     (if c AND 0x80 \<noteq> 0
      then if length bs < 3 then None
           else Some (push_bit 24 (c AND 0x7f) + push_bit 16 (uint (bs ! 0)) +
                      push_bit 8 (uint (bs ! 1)) + uint (bs ! 2), drop 3 bs)
      else Some (c, bs))"

definition dec_len :: "byte list \<Rightarrow> (int \<times> byte list) option" where
  "dec_len bs = (case bs of [] \<Rightarrow> None | b # bs \<Rightarrow> dec_tail (uint b) bs)"

text \<open>The two lengths of a pair.\<close>

definition dec_lens :: "byte list \<Rightarrow> (int \<times> int \<times> byte list) option" where
  "dec_lens bs =
     (case dec_len bs of None \<Rightarrow> None
      | Some (n, bs) \<Rightarrow> (case dec_len bs of None \<Rightarrow> None | Some (v, bs) \<Rightarrow> Some (n, v, bs)))"

lemma and_127: "x AND 127 = x mod 128" for x :: int
proof -
  have "(127 :: int) = mask 7" by (simp add: mask_eq_exp_minus_1)
  then have "x AND 127 = take_bit 7 x" by (simp only: take_bit_eq_mask)
  then show ?thesis by (simp add: take_bit_eq_mod)
qed

lemma uint_byte_lt: "uint (b :: byte) < 256"
  using uint_lt2p [of b] by simp

lemma dec_tail_range:
  assumes "dec_tail c bs = Some (n, rest)" "0 \<le> c" "c < 256"
  shows "0 \<le> n" "n < 2 ^ 31" "length rest \<le> length bs"
proof -
  have "uint (bs ! 0) < 256" "uint (bs ! 1) < 256" "uint (bs ! 2) < 256"
    by (rule uint_byte_lt)+
  moreover have "c mod 128 < 128" by simp
  ultimately show "n < 2 ^ 31"
    using assms by (auto simp: dec_tail_def push_bit_eq_mult and_127 split: if_splits)
  show "0 \<le> n" "length rest \<le> length bs"
    using assms by (auto simp: dec_tail_def push_bit_eq_mult and_127 split: if_splits)
qed

lemma dec_len_range:
  assumes "dec_len bs = Some (n, rest)"
  shows "0 \<le> n" "n < 2 ^ 31" "length rest < length bs"
  using assms dec_tail_range [of "uint (hd bs)" "tl bs" n rest] uint_byte_lt [of "hd bs"]
  by (auto simp: dec_len_def split: list.splits)

lemma dec_lens_range:
  assumes "dec_lens bs = Some (n, v, rest)"
  shows "0 \<le> n" "0 \<le> v" "length rest < length bs"
proof -
  obtain bs1 where "dec_len bs = Some (n, bs1)" "dec_len bs1 = Some (v, rest)"
    using assms by (auto simp: dec_lens_def split: option.splits)
  then show "0 \<le> n" "0 \<le> v" "length rest < length bs"
    using dec_len_range [of bs n bs1] dec_len_range [of bs1 v rest] by simp_all
qed

lemma dec_lens_shorter: "Some (n, v, rest) = dec_lens bs \<Longrightarrow> length (drop k rest) < length bs"
  using dec_lens_range(3) [of bs n v rest] by simp

text \<open>
  A whole stream: the entries of its complete pairs and the code \<^verbatim>\<open>ReadParams\<close> returns, -1 if it ends
  within a pair. No result where a pair announces a size that does not fit a C \<^verbatim>\<open>int\<close>.
\<close>

function dec_pairs :: "byte list \<Rightarrow> (byte list list \<times> int) option" where
  "dec_pairs bs =
     (if bs = [] then Some ([], 0)
      else case dec_lens bs of
             None \<Rightarrow> Some ([], - 1)
           | Some (n, v, rest) \<Rightarrow>
               if 2 ^ 31 \<le> n + v + 2 then None
               else if int (length rest) < n + v then Some ([], - 1)
               else map_option (\<lambda>(es, rc). (entry (take (nat n) rest, take (nat v) (drop (nat n) rest)) # es, rc))
                      (dec_pairs (drop (nat (n + v)) rest)))"
  by pat_completeness auto
termination
  by (relation "measure length") (auto simp del: length_drop intro: dec_lens_shorter)

declare dec_pairs.simps [simp del]

section \<open>Encoding\<close>

definition enc_len :: "nat \<Rightarrow> byte list" where
  "enc_len n =
     (if n < 128 then [of_nat n]
      else [of_nat (n div 2 ^ 24 + 128), of_nat (n div 2 ^ 16), of_nat (n div 2 ^ 8), of_nat n])"

fun enc_pairs :: "(byte list \<times> byte list) list \<Rightarrow> byte list" where
  "enc_pairs [] = []"
| "enc_pairs ((n, v) # kvs) = enc_len (length n) @ enc_len (length v) @ n @ v @ enc_pairs kvs"

lemma and_128: "(x AND 128 = 0) = even (x div 128)" for x :: int
  using and_exp_eq_0_iff_not_bit [of x 7] by (simp add: bit_iff_odd)

lemma bytes4:
  fixes n :: int
  shows "push_bit 24 (n div 16777216) + push_bit 16 (n div 65536 mod 256) +
    push_bit 8 (n div 256 mod 256) + n mod 256 = n"
proof -
  define a b c where "a = n div 256" "b = a div 256" "c = b div 256"
  have d: "n div 65536 = b" "n div 16777216 = c"
    by (simp_all add: a_b_c_def zdiv_zmult2_eq [symmetric])
  have "n = 256 * a + n mod 256" "a = 256 * b + a mod 256" "b = 256 * c + b mod 256"
    by (simp_all add: a_b_c_def)
  then have "c * 16777216 + b mod 256 * 65536 + a mod 256 * 256 + n mod 256 = n"
    by linarith
  then show ?thesis
    by (simp add: d push_bit_eq_mult a_b_c_def(1) [symmetric])
qed

lemma uint_of_nat_byte: "uint (of_nat m :: byte) = int m mod 256"
  by (simp add: uint_nat unat_of_nat zmod_int)

lemma dec_enc_len:
  assumes "n < 2 ^ 31"
  shows "dec_len (enc_len n @ rest) = Some (int n, rest)"
proof (cases "n < 128")
  case True
  then have "uint (of_nat n :: byte) = int n" "int n AND 128 = 0"
    by (simp_all add: uint_of_nat_byte and_128)
  then show ?thesis
    using True by (simp add: enc_len_def dec_len_def dec_tail_def)
next
  case False
  define k where "k = int n div 2 ^ 24"
  have k: "0 \<le> k" "k < 128" using assms by (auto simp: k_def)
  have u: "uint (of_nat (n div 2 ^ 24 + 128) :: byte) = k + 128"
  proof -
    have "uint (of_nat (n div 2 ^ 24 + 128) :: byte) = int (n div 2 ^ 24 + 128) mod 256"
      by (rule uint_of_nat_byte)
    also have "int (n div 2 ^ 24 + 128) = k + 128" by (simp add: k_def zdiv_int)
    finally show ?thesis using k by simp
  qed
  have "(k + 128) div 128 = 1" using k by simp
  then have nz: "(k + 128) AND 128 \<noteq> 0" by (simp add: and_128)
  have lo: "(k + 128) AND 127 = k" using k by (simp add: and_127)
  define d1 d2 d3 where "d1 = (of_nat (n div 2 ^ 16) :: byte)" "d2 = (of_nat (n div 2 ^ 8) :: byte)"
    "d3 = (of_nat n :: byte)"
  have d: "uint d1 = int n div 2 ^ 16 mod 256" "uint d2 = int n div 2 ^ 8 mod 256" "uint d3 = int n mod 256"
    by (simp_all only: d1_d2_d3_def uint_of_nat_byte) (simp_all add: zdiv_int)
  have "enc_len n @ rest = of_nat (n div 2 ^ 24 + 128) # d1 # d2 # d3 # rest"
    using False by (simp add: enc_len_def d1_d2_d3_def)
  then have "dec_len (enc_len n @ rest) =
      Some (push_bit 24 k + push_bit 16 (uint d1) + push_bit 8 (uint d2) + uint d3, rest)"
    using nz lo by (simp only: dec_len_def dec_tail_def list.case u if_True) simp
  also have "push_bit 24 k + push_bit 16 (uint d1) + push_bit 8 (uint d2) + uint d3 = int n"
    using bytes4 [of "int n"] by (simp add: d k_def)
  finally show ?thesis .
qed

lemma enc_len_ne [simp]: "enc_len n \<noteq> []"
  by (simp add: enc_len_def)

text \<open>Decoding inverts encoding.\<close>

lemma dec_enc_pairs:
  assumes "\<forall>(n, v) \<in> set kvs. length n + length v + 2 < 2 ^ 31"
  shows "dec_pairs (enc_pairs kvs) = Some (map entry kvs, 0)"
  using assms
proof (induction kvs)
  case Nil
  then show ?case by (simp add: dec_pairs.simps)
next
  case (Cons kv kvs)
  obtain n v where kv: "kv = (n, v)" by (cases kv)
  have len: "length n + length v + 2 < 2 ^ 31" using Cons.prems kv by simp
  then have "dec_lens (enc_pairs (kv # kvs)) = Some (int (length n), int (length v), n @ v @ enc_pairs kvs)"
    by (simp add: kv dec_lens_def dec_enc_len)
  moreover have "enc_pairs (kv # kvs) \<noteq> []" by (simp add: kv)
  moreover have "\<not> 2 ^ 31 \<le> int (length n) + int (length v) + 2" using len by simp
  moreover have "nat (int (length n) + int (length v)) = length n + length v" by simp
  ultimately show ?case
    using Cons by (subst dec_pairs.simps) (simp add: kv)
qed

end
