(* ===== verification/ReaderOps.thy ===== *)
theory ReaderOps
  imports StreamState NameValue
begin

text \<open>
  The input side of \<^verbatim>\<open>libfcgi/fcgiapp.c\<close> above the buffer: \<^verbatim>\<open>FCGX_GetChar\<close>, \<^verbatim>\<open>FCGX_GetStr\<close>,
  \<^verbatim>\<open>FCGX_GetLine\<close>, \<^verbatim>\<open>FCGX_UnGetChar\<close> and \<^verbatim>\<open>ReadParams\<close>, which call through the stream's
  \<^verbatim>\<open>fillBuffProc\<close> pointer (the argument \<open>fill\<close>), and the interface that procedure offers them.
\<close>

section \<open>Operations on a reader\<close>

definition get_byte :: "strm \<Rightarrow> fault + int \<times> strm" where
  "get_byte s = rbind (load (buff s) (rdNext s)) (\<lambda>b. Inr (uint b, s\<lparr>rdNext := rdNext s + 1\<rparr>))"

definition FCGX_GetChar ::
  "'z proc \<Rightarrow> strm \<Rightarrow> 'z reqdata_scheme \<Rightarrow> os_state \<Rightarrow>
    fault + int \<times> strm \<times> 'z reqdata_scheme \<times> os_state" where
  "FCGX_GetChar fill s r os =
     (if isClosed s \<or> \<not> isReader s then Inr (EOF, s, r, os)
      else if rdNext s \<noteq> stop s then rbind (get_byte s) (\<lambda>(c, s). Inr (c, s, r, os))
      else rbind (fill s r os) (\<lambda>(s, r, os).
        if isClosed s then Inr (EOF, s, r, os)
        else let s = s\<lparr>stopUnget := Some (rdNext s)\<rparr> in
          if rdNext s \<noteq> stop s then rbind (get_byte s) (\<lambda>(c, s). Inr (c, s, r, os))
          else rbind (c_assert (isClosed s)) (\<lambda>_. Inr (EOF, s, r, os))))"

text \<open>The copy step of \<^verbatim>\<open>FCGX_GetStr\<close>: at most \<open>n\<close> of the bytes at hand. A \<open>stop\<close> below \<open>rdNext\<close>
  would make the count of the \<^verbatim>\<open>memcpy\<close> negative.\<close>

definition get_some :: "nat \<Rightarrow> strm \<Rightarrow> fault + byte list \<times> strm" where
  "get_some n s =
     (if rdNext s = stop s then Inr ([], s)
      else if stop s < rdNext s then Inl BufferOverrun
      else let m = min n (stop s - rdNext s) in
        if rdNext s + m \<le> length (buff s)
        then Inr (slice (rdNext s) (rdNext s + m) (buff s), s\<lparr>rdNext := rdNext s + m\<rparr>)
        else Inl BufferOverrun)"

text \<open>\<open>acc\<close> holds the bytes moved so far; the call returns them, their number being the C result.\<close>

fun get_loop ::
  "'z proc \<Rightarrow> nat \<Rightarrow> nat \<Rightarrow> byte list \<Rightarrow> strm \<Rightarrow> 'z reqdata_scheme \<Rightarrow> os_state \<Rightarrow>
    fault + byte list \<times> strm \<times> 'z reqdata_scheme \<times> os_state" where
  "get_loop fill 0 n acc s r os = Inl OutOfFuel"
| "get_loop fill (Suc fuel) n acc s r os =
     rbind (get_some (n - length acc) s) (\<lambda>(bs, s).
       let acc = acc @ bs in
       if bs \<noteq> [] \<and> length acc = n then Inr (acc, s, r, os)
       else if isClosed s \<or> \<not> isReader s then Inr (acc, s, r, os)
       else rbind (fill s r os) (\<lambda>(s, r, os).
         if isClosed s then Inr (acc, s, r, os)
         else get_loop fill fuel n acc (s\<lparr>stopUnget := Some (rdNext s)\<rparr>) r os))"

definition FCGX_GetStr ::
  "'z proc \<Rightarrow> int \<Rightarrow> strm \<Rightarrow> 'z reqdata_scheme \<Rightarrow> os_state \<Rightarrow>
    fault + byte list \<times> strm \<times> 'z reqdata_scheme \<times> os_state" where
  "FCGX_GetStr fill n s r os =
     (if isClosed s \<or> \<not> isReader s \<or> n \<le> 0 then Inr ([], s, r, os)
      else if n \<le> int (stop s) - int (rdNext s)
      then rbind (get_some (nat n) s) (\<lambda>(bs, s). Inr (bs, s, r, os))
      else get_loop fill (nat n + 2) (nat n) [] s r os)"

text \<open>\<^verbatim>\<open>FCGX_GetLine\<close>: \<open>None\<close> is \<^verbatim>\<open>NULL\<close>, and otherwise the bytes stored into \<open>str\<close>, the NUL included.\<close>

fun line_loop ::
  "'z proc \<Rightarrow> nat \<Rightarrow> byte list \<Rightarrow> strm \<Rightarrow> 'z reqdata_scheme \<Rightarrow> os_state \<Rightarrow>
    fault + byte list option \<times> strm \<times> 'z reqdata_scheme \<times> os_state" where
  "line_loop fill 0 acc s r os = Inr (Some (acc @ [0]), s, r, os)"
| "line_loop fill (Suc n) acc s r os =
     rbind (FCGX_GetChar fill s r os) (\<lambda>(c, s, r, os).
       if c = EOF then Inr (if acc = [] then None else Some (acc @ [0]), s, r, os)
       else let acc = acc @ [word_of_int c] in
         if c = 10 then Inr (Some (acc @ [0]), s, r, os)
         else line_loop fill n acc s r os)"

definition FCGX_GetLine ::
  "'z proc \<Rightarrow> int \<Rightarrow> strm \<Rightarrow> 'z reqdata_scheme \<Rightarrow> os_state \<Rightarrow>
    fault + byte list option \<times> strm \<times> 'z reqdata_scheme \<times> os_state" where
  "FCGX_GetLine fill n s r os = line_loop fill (nat (n - 1)) [] s r os"

text \<open>A \<open>stopUnget\<close> that does not mark the start of the current fragment lets the pointer run below
  the buffer.\<close>

definition FCGX_UnGetChar :: "int \<Rightarrow> strm \<Rightarrow> fault + int \<times> strm" where
  "FCGX_UnGetChar c s =
     (if c = EOF \<or> isClosed s \<or> \<not> isReader s \<or> Some (rdNext s) = stopUnget s then Inr (EOF, s)
      else if rdNext s = 0 then Inl BufferOverrun
      else rbind (memcpy_to (buff s) (rdNext s - 1) [word_of_int c]) (\<lambda>b.
           Inr (c, s\<lparr>rdNext := rdNext s - 1, buff := b\<rparr>)))"

section \<open>ReadParams\<close>

text \<open>A length of one or four bytes, its first byte read already; \<open>None\<close> is the error return.\<close>

definition read_len ::
  "'z proc \<Rightarrow> int \<Rightarrow> strm \<Rightarrow> 'z reqdata_scheme \<Rightarrow> os_state \<Rightarrow>
    fault + int option \<times> strm \<times> 'z reqdata_scheme \<times> os_state" where
  "read_len fill c s r os =
     (if c AND 0x80 \<noteq> 0
      then rbind (FCGX_GetStr fill 3 s r os) (\<lambda>(lenBuff, s, r, os).
        if length lenBuff \<noteq> 3 then Inr (None, s, r, os)
        else Inr (Some (push_bit 24 (c AND 0x7f) + push_bit 16 (uint (lenBuff ! 0)) +
                        push_bit 8 (uint (lenBuff ! 1)) + uint (lenBuff ! 2)), s, r, os))
      else Inr (Some c, s, r, os))"

text \<open>The name and the value, into a fresh block.\<close>

definition read_name_value ::
  "'z proc \<Rightarrow> int \<Rightarrow> int \<Rightarrow> strm \<Rightarrow> 'z reqdata_scheme \<Rightarrow> os_state \<Rightarrow>
    fault + byte list option \<times> strm \<times> 'z reqdata_scheme \<times> os_state" where
  "read_name_value fill nameLen valueLen s r os =
     rbind (Malloc (wrap32 (nameLen + valueLen + 2))) (\<lambda>nv.
     rbind (FCGX_GetStr fill nameLen s r os) (\<lambda>(name, s, r, os).
     rbind (memcpy_to nv 0 name) (\<lambda>nv.
     if int (length name) \<noteq> nameLen then Inr (None, s, r, os)
     else rbind (memcpy_to nv (nat nameLen) [0x3D]) (\<lambda>nv.
     rbind (FCGX_GetStr fill valueLen s r os) (\<lambda>(val, s, r, os).
     rbind (memcpy_to nv (nat (nameLen + 1)) val) (\<lambda>nv.
     if int (length val) \<noteq> valueLen then Inr (None, s, r, os)
     else rbind (memcpy_to nv (nat (nameLen + valueLen + 1)) [0]) (\<lambda>nv.
     Inr (Some nv, s, r, os))))))))"

text \<open>One pair, the first byte of its name length read already.\<close>

definition read_pair ::
  "'z proc \<Rightarrow> int \<Rightarrow> strm \<Rightarrow> 'z reqdata_scheme \<Rightarrow> os_state \<Rightarrow>
    fault + byte list option \<times> strm \<times> 'z reqdata_scheme \<times> os_state" where
  "read_pair fill c s r os =
     rbind (read_len fill c s r os) (\<lambda>(nameLen, s, r, os).
     case nameLen of None \<Rightarrow> Inr (None, s, r, os)
     | Some nameLen \<Rightarrow>
         rbind (FCGX_GetChar fill s r os) (\<lambda>(c, s, r, os).
         if c = EOF then Inr (None, s, r, os)
         else rbind (read_len fill c s r os) (\<lambda>(valueLen, s, r, os).
           case valueLen of None \<Rightarrow> Inr (None, s, r, os)
           | Some valueLen \<Rightarrow> read_name_value fill nameLen valueLen s r os)))"

fun params_loop ::
  "'z proc \<Rightarrow> nat \<Rightarrow> Params \<Rightarrow> strm \<Rightarrow> 'z reqdata_scheme \<Rightarrow> os_state \<Rightarrow>
    fault + int \<times> Params \<times> strm \<times> 'z reqdata_scheme \<times> os_state" where
  "params_loop fill 0 p s r os = Inl OutOfFuel"
| "params_loop fill (Suc fuel) p s r os =
     rbind (FCGX_GetChar fill s r os) (\<lambda>(c, s, r, os).
     if c = EOF then Inr (0, p, s, r, os)
     else rbind (read_pair fill c s r os) (\<lambda>(nv, s, r, os).
       case nv of None \<Rightarrow> Inr (- 1, p, SetError FCGX_PARAMS_ERROR s, r, os)
       | Some nv \<Rightarrow> rbind (PutParam p nv) (\<lambda>p. params_loop fill fuel p s r os)))"

text \<open>What is left to read on the connection: each pair takes some of it, so it bounds the loop.\<close>

fun event_bytes :: "read_event \<Rightarrow> byte list" where
  "event_bytes (Arrives bs) = bs"
| "event_bytes (ReadFails e) = []"

definition inbox_left :: "'z reqdata_scheme \<Rightarrow> os_state \<Rightarrow> nat" where
  "inbox_left r os = sum_list (map (length \<circ> event_bytes) (inbox (conns os (ipcFd r))))"

definition input_left :: "strm \<Rightarrow> 'z reqdata_scheme \<Rightarrow> os_state \<Rightarrow> nat" where
  "input_left s r os = (buffStop s - rdNext s) + inbox_left r os"

definition ReadParams ::
  "'z proc \<Rightarrow> Params \<Rightarrow> strm \<Rightarrow> 'z reqdata_scheme \<Rightarrow> os_state \<Rightarrow>
    fault + int \<times> Params \<times> strm \<times> 'z reqdata_scheme \<times> os_state" where
  "ReadParams fill p s r os = params_loop fill (input_left s r os + 1) p s r os"

section \<open>The interface of fillBuffProc\<close>

definition rbuf_ok :: "strm \<Rightarrow> bool" where
  "rbuf_ok s \<longleftrightarrow> isReader s \<and> rdNext s \<le> stop s \<and> stop s \<le> buffStop s \<and> buffStop s \<le> bufflen s \<and>
     bufflen s \<le> length (buff s) \<and> 0 < bufflen s"

text \<open>The bytes at hand.\<close>

definition ready :: "strm \<Rightarrow> byte list" where
  "ready s = slice (rdNext s) (stop s) (buff s)"

lemma length_ready: "rbuf_ok s \<Longrightarrow> length (ready s) = stop s - rdNext s"
  by (simp add: ready_def rbuf_ok_def)

lemma ready_Nil_iff: "rbuf_ok s \<Longrightarrow> ready s = [] \<longleftrightarrow> rdNext s = stop s"
  using length_ready [of s] by (auto simp: rbuf_ok_def)

lemma ready_cong [simp]:
  "ready (s\<lparr>stopUnget := u\<rparr>) = ready s" "rbuf_ok (s\<lparr>stopUnget := u\<rparr>) = rbuf_ok s"
  by (simp_all add: ready_def rbuf_ok_def)

lemma ready_move:
  "ready (s\<lparr>rdNext := rdNext s + m\<rparr>) = drop m (ready s)"
  by (simp add: ready_def)

lemma get_some_ready:
  assumes "rbuf_ok s"
  shows "get_some n s =
    Inr (take n (ready s), s\<lparr>rdNext := rdNext s + min n (stop s - rdNext s)\<rparr>)"
proof (cases "rdNext s = stop s")
  case True
  then show ?thesis by (simp add: get_some_def ready_def)
next
  case False
  then show ?thesis
    using assms by (auto simp: get_some_def ready_def rbuf_ok_def Let_def min_def)
qed

lemma rbuf_ok_move: "rbuf_ok s \<Longrightarrow> m \<le> stop s - rdNext s \<Longrightarrow> rbuf_ok (s\<lparr>rdNext := rdNext s + m\<rparr>)"
  by (auto simp: rbuf_ok_def)

text \<open>What a line of at most \<open>n\<close> bytes takes from \<open>bs\<close>.\<close>

fun line_of :: "nat \<Rightarrow> byte list \<Rightarrow> byte list" where
  "line_of 0 bs = []"
| "line_of (Suc n) [] = []"
| "line_of (Suc n) (b # bs) = (if b = 10 then [b] else b # line_of n bs)"

lemma uint_byte_eq_10 [simp]: "(uint (b :: byte) = 10) = (b = 10)"
proof -
  have "uint (10 :: byte) = 10" by simp
  then show ?thesis by (metis word_uint_eq_iff)
qed

lemma uint_byte_EOF [simp]: "uint (b :: byte) \<noteq> - 1"
  using uint_ge_0 [of b] by linarith

text \<open>
  A source: \<open>src bs s r os\<close> says that \<open>bs\<close> is what the stream will still deliver after the bytes at
  hand, \<open>ended s r os\<close> what holds once it is closed. The contract of a \<^verbatim>\<open>fillBuffProc\<close>, called when
  no bytes are at hand: it closes the stream if there is nothing more, and otherwise puts a nonempty
  piece of what is to come at hand.
\<close>

locale byte_source =
  fixes fill :: "'z proc"
    and src :: "byte list \<Rightarrow> strm \<Rightarrow> 'z reqdata_scheme \<Rightarrow> os_state \<Rightarrow> bool"
    and ended :: "strm \<Rightarrow> 'z reqdata_scheme \<Rightarrow> os_state \<Rightarrow> bool"
  assumes fill: "rbuf_ok s \<Longrightarrow> \<not> isClosed s \<Longrightarrow> rdNext s = stop s \<Longrightarrow> src bs s r os \<Longrightarrow>
      \<exists>s' r' os'. fill s r os = Inr (s', r', os') \<and>
        ((bs = [] \<and> isClosed s' \<and> ended s' r' os') \<or>
         (\<exists>cs. bs = ready s' @ cs \<and> ready s' \<noteq> [] \<and> \<not> isClosed s' \<and> rbuf_ok s' \<and> src cs s' r' os'))"
    and src_rdNext: "src bs s r os \<Longrightarrow> src bs (s\<lparr>rdNext := n\<rparr>) r os"
    and src_stopUnget: "src bs s r os \<Longrightarrow> src bs (s\<lparr>stopUnget := u\<rparr>) r os"
    and src_length: "src bs s r os \<Longrightarrow> length bs \<le> (buffStop s - stop s) + inbox_left r os"
begin

text \<open>What the stream will still deliver.\<close>

definition avail :: "byte list \<Rightarrow> strm \<Rightarrow> 'z reqdata_scheme \<Rightarrow> os_state \<Rightarrow> bool" where
  "avail bs s r os \<longleftrightarrow>
     (if isClosed s then bs = [] \<and> ended s r os
      else rbuf_ok s \<and> (\<exists>cs. bs = ready s @ cs \<and> src cs s r os))"

lemma avail_rbuf_ok: "avail bs s r os \<Longrightarrow> \<not> isClosed s \<Longrightarrow> rbuf_ok s"
  by (simp add: avail_def)

lemma avail_ended: "avail bs s r os \<Longrightarrow> isClosed s \<Longrightarrow> ended s r os"
  by (simp add: avail_def)

lemma avail_length: "avail bs s r os \<Longrightarrow> length bs \<le> input_left s r os"
  by (force simp: avail_def input_left_def length_ready rbuf_ok_def split: if_splits dest: src_length)

lemma avail_stopUnget:
  "avail bs s r os \<Longrightarrow> \<not> isClosed s \<Longrightarrow> avail bs (s\<lparr>stopUnget := u\<rparr>) r os"
  by (auto simp: avail_def src_stopUnget)

lemma avail_move:
  assumes "avail bs s r os" "\<not> isClosed s" "m \<le> stop s - rdNext s"
  shows "avail (drop m bs) (s\<lparr>rdNext := rdNext s + m\<rparr>) r os" "take m bs = take m (ready s)"
proof -
  obtain cs where cs: "rbuf_ok s" "bs = ready s @ cs" "src cs s r os"
    using assms by (auto simp: avail_def)
  show "avail (drop m bs) (s\<lparr>rdNext := rdNext s + m\<rparr>) r os"
    using cs assms(2,3) by (simp add: avail_def ready_move rbuf_ok_move src_rdNext length_ready)
  show "take m bs = take m (ready s)"
    using cs assms(3) by (simp add: length_ready)
qed

lemma avail_fill:
  assumes "avail bs s r os" "\<not> isClosed s" "rdNext s = stop s"
  obtains s' r' os' where "fill s r os = Inr (s', r', os')" "avail bs s' r' os'"
    "isClosed s' = (bs = [])" "isClosed s' \<or> ready s' \<noteq> []"
proof -
  have "src bs s r os" "rbuf_ok s"
    using assms ready_Nil_iff [of s] by (auto simp: avail_def)
  from fill [OF this(2) assms(2,3) this(1)] show ?thesis
    using that by (fastforce simp: avail_def)
qed

text \<open>A byte, or the end of the stream.\<close>

lemma get_byte_ready:
  assumes "avail bs s r os" "\<not> isClosed s" "ready s \<noteq> []"
  shows "get_byte s = Inr (uint (hd bs), s\<lparr>rdNext := rdNext s + 1\<rparr>)"
    "avail (tl bs) (s\<lparr>rdNext := rdNext s + 1\<rparr>) r os" "bs \<noteq> []"
proof -
  have ok: "rbuf_ok s" by (rule avail_rbuf_ok [OF assms(1,2)])
  then have lt: "rdNext s < stop s" "stop s \<le> length (buff s)"
    using assms(3) ready_Nil_iff [OF ok] by (auto simp: rbuf_ok_def)
  then have "ready s = buff s ! rdNext s # slice (Suc (rdNext s)) (stop s) (buff s)"
    by (simp add: ready_def slice_Cons)
  then obtain cs where cs: "bs = buff s ! rdNext s # cs"
    using assms by (auto simp: avail_def)
  then show "get_byte s = Inr (uint (hd bs), s\<lparr>rdNext := rdNext s + 1\<rparr>)" "bs \<noteq> []"
    using lt by (simp_all add: get_byte_def)
  show "avail (tl bs) (s\<lparr>rdNext := rdNext s + 1\<rparr>) r os"
    using avail_move(1) [OF assms(1,2), of 1] lt by (simp add: drop_Suc)
qed

lemma GetChar_avail:
  assumes "avail bs s r os"
  shows "\<exists>s' r' os'. FCGX_GetChar fill s r os =
      Inr (if bs = [] then EOF else uint (hd bs), s', r', os') \<and> avail (tl bs) s' r' os' \<and>
    (isClosed s' = (bs = []))"
proof (cases "isClosed s")
  case True
  then show ?thesis using assms by (auto simp: FCGX_GetChar_def avail_def)
next
  case open1: False
  have ok: "rbuf_ok s" by (rule avail_rbuf_ok [OF assms open1])
  then have rd: "isReader s" by (simp add: rbuf_ok_def)
  show ?thesis
  proof (cases "rdNext s = stop s")
    case False
    then have "ready s \<noteq> []" using ready_Nil_iff [OF ok] by simp
    from get_byte_ready [OF assms open1 this] show ?thesis
      using open1 rd False by (simp add: FCGX_GetChar_def)
  next
    case True
    obtain s1 r1 os1 where 1: "fill s r os = Inr (s1, r1, os1)" "avail bs s1 r1 os1"
      "isClosed s1 = (bs = [])" "isClosed s1 \<or> ready s1 \<noteq> []"
      by (rule avail_fill [OF assms open1 True])
    show ?thesis
    proof (cases "bs = []")
      case True
      then show ?thesis using open1 rd 1 \<open>rdNext s = stop s\<close> by (simp add: FCGX_GetChar_def)
    next
      case False
      let ?s1 = "s1\<lparr>stopUnget := Some (rdNext s1)\<rparr>"
      have s1: "avail bs ?s1 r1 os1" "\<not> isClosed ?s1" "ready ?s1 \<noteq> []"
        using 1 False avail_stopUnget by simp_all
      have "rdNext s1 \<noteq> stop s1"
        using s1(2,3) ready_Nil_iff [OF avail_rbuf_ok [OF 1(2)]] by simp
      then show ?thesis
        using get_byte_ready [OF s1] open1 rd 1 \<open>rdNext s = stop s\<close> False
        by (simp add: FCGX_GetChar_def)
    qed
  qed
qed

text \<open>The copying loop: its bound is never reached, and it stops short only at the end of the stream.\<close>

lemma get_loop_avail:
  assumes "avail bs s r os" "\<not> isClosed s" "length acc < n"
    and "(n - length acc) + (if rdNext s = stop s then 2 else 1) \<le> fuel"
  shows "\<exists>s' r' os'. get_loop fill fuel n acc s r os = Inr (acc @ take (n - length acc) bs, s', r', os') \<and>
    avail (drop (n - length acc) bs) s' r' os' \<and> (length bs < n - length acc \<longrightarrow> isClosed s')"
  using assms
proof (induction fuel arbitrary: acc bs s r os)
  case 0
  then show ?case by simp
next
  case (Suc fuel)
  have ok: "rbuf_ok s" and rd: "isReader s"
    using avail_rbuf_ok [OF Suc.prems(1,2)] by (simp_all add: rbuf_ok_def)
  define k where "k = n - length acc"
  define m where "m = min k (stop s - rdNext s)"
  let ?s = "s\<lparr>rdNext := rdNext s + m\<rparr>"
  have lm: "length (take k (ready s)) = m" using length_ready [OF ok] by (simp add: m_def)
  have gs: "get_some k s = Inr (take k (ready s), ?s)"
    using get_some_ready [OF ok, of k] by (simp add: m_def)
  have tk: "take k (ready s) = take m bs"
    using avail_move(2) [OF Suc.prems(1,2), of m] length_ready [OF ok]
    by (simp add: m_def min_def split: if_splits)
  have av: "avail (drop m bs) ?s r os"
    using avail_move(1) [OF Suc.prems(1,2), of m] by (simp add: m_def)
  have k: "0 < k" using Suc.prems(3) by (simp add: k_def)
  show ?case
  proof (cases "m = k")
    case True
    then have len: "length (take k bs) = k" using lm tk by simp
    then have "take k bs \<noteq> []" "\<not> length bs < k" using k by auto
    moreover have "length (acc @ take k bs) = n" using len Suc.prems(3) by (simp add: k_def)
    ultimately have "get_loop fill (Suc fuel) n acc s r os = Inr (acc @ take k bs, ?s, r, os)"
      using gs tk True by (simp add: k_def [symmetric])
    then show ?thesis
      using av True \<open>\<not> length bs < k\<close> unfolding k_def [symmetric] by auto
  next
    case False
    then have mk: "m < k" "m = stop s - rdNext s" by (auto simp: m_def)
    then have at_end: "rdNext ?s = stop ?s" using ok by (simp add: rbuf_ok_def)
    have short: "length (take m bs) = m" using lm tk by simp
    obtain s1 r1 os1 where 1: "fill ?s r os = Inr (s1, r1, os1)" "avail (drop m bs) s1 r1 os1"
      "isClosed s1 = (drop m bs = [])" "isClosed s1 \<or> ready s1 \<noteq> []"
      using avail_fill [OF av _ at_end] Suc.prems(2) by auto
    have step: "get_loop fill (Suc fuel) n acc s r os =
        (if isClosed s1 then Inr (acc @ take m bs, s1, r1, os1)
         else get_loop fill fuel n (acc @ take m bs) (s1\<lparr>stopUnget := Some (rdNext s1)\<rparr>) r1 os1)"
    proof -
      have "length (acc @ take m bs) \<noteq> n" using short mk Suc.prems(3) by (simp add: k_def)
      then show ?thesis
        using gs tk rd Suc.prems(2) 1(1) by (simp add: k_def [symmetric])
    qed
    show ?thesis
    proof (cases "drop m bs = []")
      case True
      then have "length bs \<le> m" by simp
      then show ?thesis
        using step 1 True mk unfolding k_def [symmetric] by simp
    next
      case more: False
      let ?s1 = "s1\<lparr>stopUnget := Some (rdNext s1)\<rparr>"
      have a1: "avail (drop m bs) ?s1 r1 os1" "\<not> isClosed ?s1"
        using 1 more avail_stopUnget by simp_all
      have ne: "rdNext s1 \<noteq> stop s1"
        using 1(3,4) more ready_Nil_iff [OF avail_rbuf_ok [OF 1(2)]] by auto
      have lacc: "n - length (acc @ take m bs) = k - m" "length (acc @ take m bs) < n"
        using short mk by (simp_all add: k_def)
      have fuel: "(n - length (acc @ take m bs)) + (if rdNext ?s1 = stop ?s1 then 2 else 1) \<le> fuel"
      proof -
        have "rdNext s \<noteq> stop s \<Longrightarrow> 0 < m" using mk ok by (simp add: rbuf_ok_def)
        then have "k - m + 1 \<le> fuel"
          using Suc.prems(4) mk unfolding k_def [symmetric] by (auto split: if_splits)
        then show ?thesis using ne lacc(1) by simp
      qed
      from Suc.IH [OF a1 lacc(2) fuel] obtain s2 r2 os2 where 2:
        "get_loop fill fuel n (acc @ take m bs) ?s1 r1 os1 =
           Inr ((acc @ take m bs) @ take (k - m) (drop m bs), s2, r2, os2)"
        "avail (drop (k - m) (drop m bs)) s2 r2 os2"
        "length (drop m bs) < k - m \<longrightarrow> isClosed s2"
        unfolding lacc by auto
      have "take m bs @ take (k - m) (drop m bs) = take k bs"
        using mk by (simp add: take_add [symmetric])
      then show ?thesis
        using step 1(3) more 2 mk by (auto simp: k_def [symmetric])
    qed
  qed
qed

lemma GetStr_avail:
  assumes "avail bs s r os" "0 \<le> n"
  shows "\<exists>s' r' os'. FCGX_GetStr fill n s r os = Inr (take (nat n) bs, s', r', os') \<and>
    avail (drop (nat n) bs) s' r' os' \<and> (int (length bs) < n \<longrightarrow> isClosed s')"
proof (cases "isClosed s \<or> n \<le> 0")
  case True
  then show ?thesis using assms by (auto simp: FCGX_GetStr_def avail_def)
next
  case False
  have ok: "rbuf_ok s" and rd: "isReader s"
    using avail_rbuf_ok [OF assms(1)] False by (simp_all add: rbuf_ok_def)
  show ?thesis
  proof (cases "n \<le> int (stop s) - int (rdNext s)")
    case True
    let ?s = "s\<lparr>rdNext := rdNext s + nat n\<rparr>"
    have "nat n \<le> stop s - rdNext s" using True False by linarith
    then have "take (nat n) (ready s) = take (nat n) bs" "avail (drop (nat n) bs) ?s r os"
      "min (nat n) (stop s - rdNext s) = nat n" "nat n \<le> length bs"
      using avail_move [OF assms(1), of "nat n"] False length_ready [OF ok]
      by (auto, metis length_take min.absorb2 min.absorb_iff2 min.cobounded1)
    then show ?thesis
      using False True rd get_some_ready [OF ok, of "nat n"] by (simp add: FCGX_GetStr_def)
  next
    case slow: False
    have f: "(nat n - length ([] :: byte list)) + (if rdNext s = stop s then 2 else 1) \<le> nat n + 2"
      by simp
    show ?thesis
      using get_loop_avail [OF assms(1) _ _ f] False slow rd
      by (auto simp: FCGX_GetStr_def simp del: get_loop.simps)
  qed
qed

lemma line_loop_avail:
  assumes "avail bs s r os"
  shows "\<exists>s' r' os'. line_loop fill n acc s r os =
      Inr (if acc @ line_of n bs = [] \<and> 0 < n then None else Some (acc @ line_of n bs @ [0]), s', r', os') \<and>
    avail (drop (length (line_of n bs)) bs) s' r' os'"
  using assms
proof (induction n arbitrary: acc bs s r os)
  case 0
  then show ?case by simp
next
  case (Suc n)
  obtain s1 r1 os1 where 1:
    "FCGX_GetChar fill s r os = Inr (if bs = [] then EOF else uint (hd bs), s1, r1, os1)"
    "avail (tl bs) s1 r1 os1"
    using GetChar_avail [OF Suc.prems] by auto
  show ?case
  proof (cases bs)
    case Nil
    then show ?thesis using 1 by simp
  next
    case (Cons b cs)
    show ?thesis
      using 1 Cons Suc.IH [OF 1(2), of "acc @ [b]"] by simp
  qed
qed

lemma GetLine_avail:
  assumes "avail bs s r os" "1 < n"
  shows "\<exists>s' r' os'. FCGX_GetLine fill n s r os =
      Inr (if bs = [] then None else Some (line_of (nat (n - 1)) bs @ [0]), s', r', os') \<and>
    avail (drop (length (line_of (nat (n - 1)) bs)) bs) s' r' os'"
proof -
  have "line_of (nat (n - 1)) bs = [] \<longleftrightarrow> bs = []"
    using assms(2) by (cases bs; cases "nat (n - 1)") auto
  then show ?thesis
    using line_loop_avail [OF assms(1), of "nat (n - 1)" "[]"] assms(2)
    by (cases "bs = []") (simp_all add: FCGX_GetLine_def)
qed

text \<open>The pieces of \<^verbatim>\<open>ReadParams\<close> against the reference decoder.\<close>

lemma read_len_avail:
  assumes "avail bs s r os"
  shows "\<exists>s' r' os'. read_len fill c s r os = Inr (map_option fst (dec_tail c bs), s', r', os') \<and>
    (case dec_tail c bs of None \<Rightarrow> isClosed s' \<and> ended s' r' os' | Some (n, rest) \<Rightarrow> avail rest s' r' os')"
proof (cases "c AND 0x80 = 0")
  case True
  then show ?thesis using assms by (simp add: read_len_def dec_tail_def)
next
  case False
  obtain s1 r1 os1 where 1: "FCGX_GetStr fill 3 s r os = Inr (take 3 bs, s1, r1, os1)"
    "avail (drop 3 bs) s1 r1 os1" "length bs < 3 \<longrightarrow> isClosed s1"
    using GetStr_avail [OF assms, of 3] by auto
  show ?thesis
  proof (cases "length bs < 3")
    case True
    then show ?thesis using 1 False by (auto simp: read_len_def dec_tail_def dest: avail_ended)
  next
    case long: False
    then show ?thesis using 1 False by (simp add: read_len_def dec_tail_def)
  qed
qed

lemma read_name_value_avail:
  assumes "avail bs s r os" "0 \<le> n" "0 \<le> v" "n + v + 2 < 2 ^ 31"
  shows "\<exists>s' r' os'. read_name_value fill n v s r os =
      Inr (if int (length bs) < n + v then None
           else Some (entry (take (nat n) bs, take (nat v) (drop (nat n) bs))), s', r', os') \<and>
    (if int (length bs) < n + v then isClosed s' \<and> ended s' r' os' else avail (drop (nat (n + v)) bs) s' r' os')"
proof -
  have blk: "Malloc (wrap32 (n + v + 2)) = Inr (replicate (nat (n + v + 2)) 0)"
    using assms by (simp add: Malloc_def)
  obtain s1 r1 os1 where 1: "FCGX_GetStr fill n s r os = Inr (take (nat n) bs, s1, r1, os1)"
    "avail (drop (nat n) bs) s1 r1 os1" "int (length bs) < n \<longrightarrow> isClosed s1"
    using GetStr_avail [OF assms(1,2)] by auto
  obtain s2 r2 os2 where 2:
    "FCGX_GetStr fill v s1 r1 os1 = Inr (take (nat v) (drop (nat n) bs), s2, r2, os2)"
    "avail (drop (nat v) (drop (nat n) bs)) s2 r2 os2"
    "int (length (drop (nat n) bs)) < v \<longrightarrow> isClosed s2"
    using GetStr_avail [OF 1(2) assms(3)] by auto
  define N V where "N = nat n" and "V = nat v"
  have nv: "n = int N" "v = int V" "nat (n + v + 2) = N + V + 2" "nat (n + v + 1) = N + V + 1"
    "nat (n + 1) = N + 1" "nat (n + v) = N + V"
    using assms by (simp_all add: N_def V_def nat_add_distrib)
  note c = 1(1) 2(1)
  show ?thesis
  proof (cases "length bs < N")
    case True
    have "memcpy_to (replicate (N + V + 2) 0) 0 bs = Inr (poke (replicate (N + V + 2) 0) 0 bs)"
      using True by simp
    then show ?thesis
      using True 1 blk nv
      by (auto simp: read_name_value_def dest: avail_ended)
  next
    case n_ok: False
    define b1 where "b1 = poke (replicate (N + V + 2) (0 :: byte)) 0 (take N bs)"
    define b2 where "b2 = poke b1 N [0x3D]"
    define b3 where "b3 = poke b2 (N + 1) (take V (drop N bs))"
    define b4 where "b4 = poke b3 (N + V + 1) [0]"
    have len: "length b1 = N + V + 2" "length b2 = N + V + 2" "length b3 = N + V + 2"
      using n_ok by (simp_all add: b1_def b2_def b3_def)
    have m: "memcpy_to (replicate (N + V + 2) 0) 0 (take N bs) = Inr b1"
      "memcpy_to b1 N [0x3D] = Inr b2" "memcpy_to b2 (N + 1) (take V (drop N bs)) = Inr b3"
      "memcpy_to b3 (N + V + 1) [0] = Inr b4"
      using n_ok len by (simp_all add: b1_def b2_def b3_def b4_def)
    have run: "read_name_value fill n v s r os =
        Inr (if length (take V (drop N bs)) \<noteq> V then None else Some b4, s2, r2, os2)"
      using n_ok blk c m nv by (simp add: read_name_value_def)
    show ?thesis
    proof (cases "length bs < N + V")
      case True
      then show ?thesis using run 2(2,3) nv n_ok
        by (auto simp: N_def [symmetric] V_def [symmetric] dest: avail_ended)
    next
      case False
      have t1: "take N b1 = take N bs" using n_ok by (simp add: b1_def poke_0)
      have t2: "take (N + 1) b2 = take N bs @ [0x3D]"
        using len by (simp add: b2_def t1)
      have t3: "take (N + V + 1) b3 = take N bs @ [0x3D] @ take V (drop N bs)"
        using len False t2 by (simp add: b3_def)
      have "b4 = take (N + V + 2) b4" using len by (simp add: b4_def)
      also have "\<dots> = take (N + V + 1) b3 @ [0]"
        using len by (simp only: b4_def) (rule take_poke_end, simp_all)
      finally have "b4 = entry (take N bs, take V (drop N bs))"
        unfolding t3 by (simp add: entry_def)
      then show ?thesis
        using run 2(2) False nv by (simp add: N_def [symmetric] V_def [symmetric] add.commute)
    qed
  qed
qed

text \<open>
  \<^verbatim>\<open>ReadParams\<close> decodes the whole stream: the entries of its complete pairs are put, in order, and it
  returns 0 at the end of the stream, -1 with an error recorded when the stream ends within a pair.
\<close>

lemma read_pair_avail:
  assumes "avail bs s r os" "0 \<le> c" "c < 256"
    and lens: "dec_tail c bs = Some (n, bs1)" "dec_len bs1 = Some (v, rest)" "n + v + 2 < 2 ^ 31"
  shows "\<exists>s' r' os'. read_pair fill c s r os =
      Inr (if int (length rest) < n + v then None
           else Some (entry (take (nat n) rest, take (nat v) (drop (nat n) rest))), s', r', os') \<and>
    (if int (length rest) < n + v then isClosed s' \<and> ended s' r' os'
     else avail (drop (nat (n + v)) rest) s' r' os')"
proof -
  obtain s1 r1 os1 where 1: "read_len fill c s r os = Inr (Some n, s1, r1, os1)" "avail bs1 s1 r1 os1"
    using read_len_avail [OF assms(1), of c] lens(1) by auto
  obtain b bs2 where bs1: "bs1 = b # bs2" "dec_tail (uint b) bs2 = Some (v, rest)"
    using lens(2) by (auto simp: dec_len_def split: list.splits)
  obtain s2 r2 os2 where 2: "FCGX_GetChar fill s1 r1 os1 = Inr (uint b, s2, r2, os2)" "avail bs2 s2 r2 os2"
    using GetChar_avail [OF 1(2)] bs1 by auto
  obtain s3 r3 os3 where 3: "read_len fill (uint b) s2 r2 os2 = Inr (Some v, s3, r3, os3)" "avail rest s3 r3 os3"
    using read_len_avail [OF 2(2), of "uint b"] bs1(2) by auto
  have "0 \<le> n" "0 \<le> v"
    using dec_tail_range(1) [OF lens(1) assms(2,3)] dec_len_range(1) [OF lens(2)] by auto
  from read_name_value_avail [OF 3(2) this lens(3)]
  show ?thesis using 1(1) 2(1) 3(1) by (simp add: read_pair_def)
qed

lemma read_pair_short:
  assumes "avail bs s r os" "0 \<le> c" "c < 256"
    and "case dec_tail c bs of None \<Rightarrow> True | Some (n, bs1) \<Rightarrow> dec_len bs1 = None"
  shows "\<exists>s' r' os'. read_pair fill c s r os = Inr (None, s', r', os') \<and> isClosed s' \<and> ended s' r' os'"
proof (cases "dec_tail c bs")
  case None
  then show ?thesis
    using read_len_avail [OF assms(1), of c] by (auto simp: read_pair_def)
next
  case (Some nb)
  obtain n bs1 where nb: "dec_tail c bs = Some (n, bs1)" "dec_len bs1 = None"
    using Some assms(4) by (cases nb) auto
  obtain s1 r1 os1 where 1: "read_len fill c s r os = Inr (Some n, s1, r1, os1)" "avail bs1 s1 r1 os1"
    using read_len_avail [OF assms(1), of c] nb(1) by auto
  obtain s2 r2 os2 where 2:
    "FCGX_GetChar fill s1 r1 os1 = Inr (if bs1 = [] then EOF else uint (hd bs1), s2, r2, os2)"
    "avail (tl bs1) s2 r2 os2" "isClosed s2 = (bs1 = [])"
    using GetChar_avail [OF 1(2)] by auto
  show ?thesis
  proof (cases bs1)
    case Nil
    then show ?thesis using 1(1) 2 by (auto simp: read_pair_def dest: avail_ended)
  next
    case (Cons b bs2)
    have "dec_tail (uint b) bs2 = None" using nb(2) Cons by (simp add: dec_len_def)
    then obtain s3 r3 os3 where "read_len fill (uint b) s2 r2 os2 = Inr (None, s3, r3, os3)"
      "isClosed s3" "ended s3 r3 os3"
      using read_len_avail [of bs2 s2 r2 os2 "uint b"] 2(2) Cons by auto
    then show ?thesis using 1(1) 2(1) Cons by (simp add: read_pair_def)
  qed
qed

lemma params_loop_avail:
  assumes "avail bs s r os" "dec_pairs bs = Some (es, rc)" "params_ok p xs" "length bs < fuel"
  shows "\<exists>p' s' r' os'. params_loop fill fuel p s r os = Inr (rc, p', s', r', os') \<and>
    params_ok p' (xs @ es) \<and> isClosed s' \<and>
    (if rc = 0 then ended s' r' os'
     else rc = - 1 \<and> (\<exists>s1. s' = SetError FCGX_PARAMS_ERROR s1 \<and> ended s1 r' os'))"
  using assms
proof (induction fuel arbitrary: bs s r os p xs es)
  case 0
  then show ?case by simp
next
  case (Suc fuel)
  obtain s1 r1 os1 where 1:
    "FCGX_GetChar fill s r os = Inr (if bs = [] then EOF else uint (hd bs), s1, r1, os1)"
    "avail (tl bs) s1 r1 os1" "isClosed s1 = (bs = [])"
    using GetChar_avail [OF Suc.prems(1)] by auto
  show ?case
  proof (cases bs)
    case Nil
    then have "es = []" "rc = 0" using Suc.prems(2) by (simp_all add: dec_pairs.simps)
    then show ?thesis using 1 Nil Suc.prems(3) avail_ended [OF 1(2)] by simp
  next
    case (Cons b cs)
    let ?c = "uint b"
    have ne: "0 \<le> ?c" "?c < 256"
      using uint_byte_lt [of b] uint_ge_0 [of b] by linarith+
    have av: "avail cs s1 r1 os1" using 1 Cons by simp
    have step: "params_loop fill (Suc fuel) p s r os = rbind (read_pair fill ?c s1 r1 os1) (\<lambda>(nv, s, r, os).
       case nv of None \<Rightarrow> Inr (- 1, p, SetError FCGX_PARAMS_ERROR s, r, os)
       | Some nv \<Rightarrow> rbind (PutParam p nv) (\<lambda>p. params_loop fill fuel p s r os))"
      using 1(1) Cons by simp
    show ?thesis
    proof (cases "dec_lens bs")
      case None
      then have "es = []" "rc = - 1" using Suc.prems(2) Cons by (simp_all add: dec_pairs.simps [of "b # cs"])
      moreover have "case dec_tail ?c cs of None \<Rightarrow> True | Some (n, bs1) \<Rightarrow> dec_len bs1 = None"
        using None Cons by (auto simp: dec_lens_def dec_len_def split: option.splits)
      ultimately show ?thesis
        using read_pair_short [OF av ne] step Suc.prems(3) by fastforce
    next
      case (Some x)
      obtain n v rest where x: "dec_lens bs = Some (n, v, rest)" using Some by (cases x) auto
      then obtain bs1 where lens: "dec_tail ?c cs = Some (n, bs1)" "dec_len bs1 = Some (v, rest)"
        using Cons by (auto simp: dec_lens_def dec_len_def [of "b # cs"] split: option.splits)
      have fits: "n + v + 2 < 2 ^ 31" using Suc.prems(2) Cons x by (auto simp: dec_pairs.simps [of "b # cs"] split: if_splits)
      obtain s2 r2 os2 where 2: "read_pair fill ?c s1 r1 os1 =
          Inr (if int (length rest) < n + v then None
           else Some (entry (take (nat n) rest, take (nat v) (drop (nat n) rest))), s2, r2, os2)"
        "if int (length rest) < n + v then isClosed s2 \<and> ended s2 r2 os2
         else avail (drop (nat (n + v)) rest) s2 r2 os2"
        using read_pair_avail [OF av ne lens fits] by auto
      show ?thesis
      proof (cases "int (length rest) < n + v")
        case True
        then have "es = []" "rc = - 1" using Suc.prems(2) Cons x fits by (simp_all add: dec_pairs.simps [of "b # cs"])
        then show ?thesis using 2 True step Suc.prems(3) by fastforce
      next
        case False
        let ?e = "entry (take (nat n) rest, take (nat v) (drop (nat n) rest))"
        obtain es1 where es: "es = ?e # es1" "dec_pairs (drop (nat (n + v)) rest) = Some (es1, rc)"
          using Suc.prems(2) Cons x fits False by (auto simp: dec_pairs.simps [of "b # cs"])
        obtain p1 where p1: "PutParam p ?e = Inr p1" "params_ok p1 (xs @ [?e])"
          by (rule PutParam_ok [OF Suc.prems(3)])
        have "length (drop (nat (n + v)) rest) < fuel"
          using dec_lens_range(3) [OF x] Suc.prems(4) by simp
        from Suc.IH [OF _ es(2) p1(2) this] 2 False step p1(1) es(1)
        show ?thesis by fastforce
      qed
    qed
  qed
qed

lemma ReadParams_avail:
  assumes "avail bs s r os" "dec_pairs bs = Some (es, rc)" "params_ok p xs"
  shows "\<exists>p' s' r' os'. ReadParams fill p s r os = Inr (rc, p', s', r', os') \<and>
    params_ok p' (xs @ es) \<and> isClosed s' \<and>
    (if rc = 0 then ended s' r' os'
     else rc = - 1 \<and> (\<exists>s1. s' = SetError FCGX_PARAMS_ERROR s1 \<and> ended s1 r' os'))"
  using params_loop_avail [OF assms, of "input_left s r os + 1"] avail_length [OF assms(1)]
  by (simp add: ReadParams_def del: params_loop.simps)

end

context byte_source
begin

text \<open>
  Lengths that together leave the range of a C \<^verbatim>\<open>int\<close>: the size passed to \<^verbatim>\<open>Malloc\<close> wraps around. It is
  negative, and the process aborts, except for two lengths of \<open>2 ^ 31 - 1\<close>, where it is 0 and the first
  byte of the name is stored outside the block.
\<close>

lemma read_name_value_oversize:
  assumes "avail bs s r os" "0 \<le> n" "n < 2 ^ 31" "0 \<le> v" "v < 2 ^ 31" "2 ^ 31 \<le> n + v + 2"
  shows "(n + v + 2 < 2 ^ 32 \<and> read_name_value fill n v s r os = Inl AssertFailed) \<or>
    (n + v + 2 = 2 ^ 32 \<and> bs \<noteq> [] \<and> read_name_value fill n v s r os = Inl BufferOverrun) \<or>
    (n + v + 2 = 2 ^ 32 \<and> bs = [] \<and>
     (\<exists>s' r' os'. read_name_value fill n v s r os = Inr (None, s', r', os') \<and> isClosed s' \<and> ended s' r' os'))"
proof -
  have w: "wrap32 (n + v + 2) = n + v + 2 - 2 ^ 32"
    using assms by (intro wrap32_overflow) simp_all
  show ?thesis
  proof (cases "n + v + 2 < 2 ^ 32")
    case True
    then show ?thesis using w by (simp add: read_name_value_def Malloc_def)
  next
    case False
    then have eq: "n + v + 2 = 2 ^ 32" "n = 2 ^ 31 - 1" using assms by simp_all
    obtain s1 r1 os1 where 1: "FCGX_GetStr fill n s r os = Inr (take (nat n) bs, s1, r1, os1)"
      "avail (drop (nat n) bs) s1 r1 os1" "int (length bs) < n \<longrightarrow> isClosed s1"
      using GetStr_avail [OF assms(1,2)] by auto
    have m: "Malloc (wrap32 (n + v + 2)) = Inr []" using w eq by (simp add: Malloc_def)
    show ?thesis
    proof (cases "bs = []")
      case True
      then have "read_name_value fill n v s r os = Inr (None, s1, r1, os1)" "isClosed s1"
        using 1 m eq(2) by (simp_all add: read_name_value_def poke_def)
      then show ?thesis using True eq 1(2) avail_ended by auto
    next
      case False
      then have "take (nat n) bs \<noteq> []" using eq(2) by simp
      then have "read_name_value fill n v s r os = Inl BufferOverrun"
        using 1(1) m by (simp add: read_name_value_def memcpy_to_def)
      then show ?thesis using False eq by simp
    qed
  qed
qed

lemma read_pair_oversize:
  assumes "avail bs s r os" "0 \<le> c" "c < 256"
    and lens: "dec_tail c bs = Some (n, bs1)" "dec_len bs1 = Some (v, rest)" "2 ^ 31 \<le> n + v + 2"
  shows "(n + v + 2 < 2 ^ 32 \<and> read_pair fill c s r os = Inl AssertFailed) \<or>
    (n + v + 2 = 2 ^ 32 \<and> rest \<noteq> [] \<and> read_pair fill c s r os = Inl BufferOverrun) \<or>
    (n + v + 2 = 2 ^ 32 \<and> rest = [] \<and>
     (\<exists>s' r' os'. read_pair fill c s r os = Inr (None, s', r', os') \<and> isClosed s' \<and> ended s' r' os'))"
proof -
  obtain s1 r1 os1 where 1: "read_len fill c s r os = Inr (Some n, s1, r1, os1)" "avail bs1 s1 r1 os1"
    using read_len_avail [OF assms(1), of c] lens(1) by auto
  obtain b bs2 where bs1: "bs1 = b # bs2" "dec_tail (uint b) bs2 = Some (v, rest)"
    using lens(2) by (auto simp: dec_len_def split: list.splits)
  obtain s2 r2 os2 where 2: "FCGX_GetChar fill s1 r1 os1 = Inr (uint b, s2, r2, os2)" "avail bs2 s2 r2 os2"
    using GetChar_avail [OF 1(2)] bs1 by auto
  obtain s3 r3 os3 where 3: "read_len fill (uint b) s2 r2 os2 = Inr (Some v, s3, r3, os3)" "avail rest s3 r3 os3"
    using read_len_avail [OF 2(2), of "uint b"] bs1(2) by auto
  have run: "read_pair fill c s r os = read_name_value fill n v s3 r3 os3"
    using 1(1) 2(1) 3(1) by (simp add: read_pair_def)
  note n = dec_tail_range(1,2) [OF lens(1) assms(2,3)]
  note v = dec_len_range(1,2) [OF lens(2)]
  show ?thesis
    unfolding run by (rule read_name_value_oversize [OF 3(2) n v lens(3)])
qed

text \<open>Whatever the stream holds: \<^verbatim>\<open>ReadParams\<close> ends, with its result or by such a fault.\<close>

lemma params_loop_total:
  assumes "avail bs s r os" "params_ok p xs" "length bs < fuel"
  shows "(dec_pairs bs = None \<and>
      (params_loop fill fuel p s r os = Inl AssertFailed \<or> params_loop fill fuel p s r os = Inl BufferOverrun)) \<or>
    (\<exists>rc p' es s' r' os'. params_loop fill fuel p s r os = Inr (rc, p', s', r', os') \<and>
       params_ok p' (xs @ es) \<and> isClosed s' \<and>
       (if rc = 0 then ended s' r' os'
        else rc = - 1 \<and> (\<exists>s1. s' = SetError FCGX_PARAMS_ERROR s1 \<and> ended s1 r' os')))"
  using assms
proof (induction fuel arbitrary: bs s r os p xs)
  case 0
  then show ?case by simp
next
  case (Suc fuel)
  show ?case
  proof (cases "dec_pairs bs")
    case (Some x)
    obtain es rc where x: "dec_pairs bs = Some (es, rc)" using Some by (cases x) auto
    from params_loop_avail [OF Suc.prems(1) x Suc.prems(2,3)] show ?thesis by blast
  next
    case None
    then obtain b cs where bs: "bs = b # cs" by (cases bs) (simp_all add: dec_pairs.simps)
    let ?c = "uint b"
    have c: "0 \<le> ?c" "?c < 256" using uint_byte_lt [of b] uint_ge_0 [of b] by linarith+
    obtain s1 r1 os1 where 1: "FCGX_GetChar fill s r os = Inr (?c, s1, r1, os1)" "avail cs s1 r1 os1"
      using GetChar_avail [OF Suc.prems(1)] bs by auto
    have step: "params_loop fill (Suc fuel) p s r os = rbind (read_pair fill ?c s1 r1 os1) (\<lambda>(nv, s, r, os).
       case nv of None \<Rightarrow> Inr (- 1, p, SetError FCGX_PARAMS_ERROR s, r, os)
       | Some nv \<Rightarrow> rbind (PutParam p nv) (\<lambda>p. params_loop fill fuel p s r os))"
      using 1(1) by simp
    obtain n v rest where x: "dec_lens bs = Some (n, v, rest)"
      using None bs by (cases "dec_lens bs") (auto simp: dec_pairs.simps [of "b # cs"])
    then obtain bs1 where lens: "dec_tail ?c cs = Some (n, bs1)" "dec_len bs1 = Some (v, rest)"
      using bs by (auto simp: dec_lens_def dec_len_def [of "b # cs"] split: option.splits)
    show ?thesis
    proof (cases "2 ^ 31 \<le> n + v + 2")
      case True
      from read_pair_oversize [OF 1(2) c lens True] show ?thesis
      proof (elim disjE conjE exE)
        fix s' r' os' assume "read_pair fill ?c s1 r1 os1 = Inr (None, s', r', os')" "isClosed s'" "ended s' r' os'"
        then show ?thesis
          using step Suc.prems(2) by (intro disjI2 exI [of _ "- 1"] exI [of _ p] exI [of _ "[]"]) auto
      qed (use step None in simp_all)
    next
      case fits: False
      then have enough: "\<not> int (length rest) < n + v"
        using None bs x by (auto simp: dec_pairs.simps [of "b # cs"])
      let ?e = "entry (take (nat n) rest, take (nat v) (drop (nat n) rest))"
      have none: "dec_pairs (drop (nat (n + v)) rest) = None"
        using None bs x fits enough by (auto simp: dec_pairs.simps [of "b # cs"])
      obtain s2 r2 os2 where 2: "read_pair fill ?c s1 r1 os1 = Inr (Some ?e, s2, r2, os2)"
        "avail (drop (nat (n + v)) rest) s2 r2 os2"
        using read_pair_avail [OF 1(2) c lens] fits enough by auto
      obtain p1 where p1: "PutParam p ?e = Inr p1" "params_ok p1 (xs @ [?e])"
        by (rule PutParam_ok [OF Suc.prems(2)])
      have "length (drop (nat (n + v)) rest) < fuel"
        using dec_lens_range(3) [OF x] Suc.prems(3) by simp
      from Suc.IH [OF 2(2) p1(2) this] none 2(1) step p1(1) None
      show ?thesis by fastforce
    qed
  qed
qed

lemma ReadParams_total:
  assumes "avail bs s r os" "params_ok p xs"
  shows "(dec_pairs bs = None \<and>
      (ReadParams fill p s r os = Inl AssertFailed \<or> ReadParams fill p s r os = Inl BufferOverrun)) \<or>
    (\<exists>rc p' es s' r' os'. ReadParams fill p s r os = Inr (rc, p', s', r', os') \<and>
       params_ok p' (xs @ es) \<and> isClosed s' \<and>
       (if rc = 0 then ended s' r' os'
        else rc = - 1 \<and> (\<exists>s1. s' = SetError FCGX_PARAMS_ERROR s1 \<and> ended s1 r' os')))"
  using params_loop_total [OF assms, of "input_left s r os + 1"] avail_length [OF assms(1)]
  unfolding ReadParams_def by simp

end

end
