(* ===== verification/Reader.thy ===== *)
theory Reader
  imports ReaderOps
begin

text \<open>
  \<^verbatim>\<open>FillBuffProc\<close> of \<^verbatim>\<open>libfcgi/fcgiapp.c\<close>, which turns the bytes of the connection into the content of
  one stream, with the functions that interpret record headers: \<^verbatim>\<open>ProcessHeader\<close>,
  \<^verbatim>\<open>ProcessBeginRecord\<close> and \<^verbatim>\<open>ProcessManagementRecord\<close>.

  The C functions are mutually recursive: \<^verbatim>\<open>FillBuffProc\<close> hands a complete header to
  \<^verbatim>\<open>ProcessHeader\<close>, which may read the record's content through the stream, calling \<^verbatim>\<open>FillBuffProc\<close>
  again with \<^verbatim>\<open>eorStop\<close> set. Such an inner call returns at the end of the record and never reaches a
  header. So the loop is a function of the header handler \<open>ph\<close>, the inner calls are the instance
  \<open>FillBuffProc_eor\<close> without a handler, and \<open>FillBuffProc\<close> is the instance with \<^verbatim>\<open>ProcessHeader\<close>;
  \<open>FillBuffProc_inner\<close> proves that on streams with \<^verbatim>\<open>eorStop\<close> set the two are the same function.
\<close>

section \<open>One iteration of FillBuffProc\<close>

text \<open>An iteration returns or goes round again with the header bytes collected so far.\<close>

datatype 'a loop = Return 'a | Continue "byte list" 'a

text \<open>\<open>fill_refill\<close>: read into an empty buffer; \<open>True\<close> is the error return.\<close>

definition fill_refill ::
  "strm \<Rightarrow> 'z reqdata_scheme \<Rightarrow> os_state \<Rightarrow> fault + bool \<times> strm \<times> os_state" where
  "fill_refill s r os =
     (if rdNext s = buffStop s then
        let (count, bs, os) = OS_Read (ipcFd r) (bufflen s) os in
        if count \<le> 0
        then Inr (True, SetError (if count = 0 then FCGX_PROTOCOL_ERROR else c_errno os) s, os)
        else rbind (memcpy_to (buff s) 0 bs) (\<lambda>b.
             Inr (False, s\<lparr>buff := b, rdNext := 0, buffStop := nat count\<rparr>, os))
      else Inr (False, s, os))"

text \<open>\<open>fill_content\<close>: content of the current record; \<open>None\<close> is to fall through.\<close>

datatype passage = Deliver | Again | Through

definition fill_content :: "strm \<Rightarrow> passage \<times> strm" where
  "fill_content s =
     (if contentLen s > 0 then
        let count = min (contentLen s) (buffStop s - rdNext s);
            s = s\<lparr>contentLen := contentLen s - count\<rparr>
        in if \<not> skip s
           then (Deliver, s\<lparr>wrNext := rdNext s + count, stop := rdNext s + count\<rparr>)
           else let s = s\<lparr>rdNext := rdNext s + count\<rparr> in
             if contentLen s > 0 then (Again, s) else (Through, s\<lparr>skip := False\<rparr>)
      else (Through, s))"

definition fill_padding :: "strm \<Rightarrow> passage \<times> strm" where
  "fill_padding s =
     (if paddingLen s > 0 then
        let count = min (paddingLen s) (buffStop s - rdNext s);
            s = s\<lparr>paddingLen := paddingLen s - count, rdNext := rdNext s + count\<rparr>
        in if paddingLen s > 0 then (Again, s) else (Through, s)
      else (Through, s))"

text \<open>Status codes of the \<^verbatim>\<open>Process\<close> functions.\<close>

abbreviation (input) "STREAM_RECORD \<equiv> 0 :: int"
abbreviation (input) "SKIP \<equiv> 1 :: int"
abbreviation (input) "BEGIN_RECORD \<equiv> 2 :: int"
abbreviation (input) "MGMT_RECORD \<equiv> 3 :: int"

type_synonym 'z handler =
  "FCGI_Header \<Rightarrow> strm \<Rightarrow> 'z reqdata_scheme \<Rightarrow> os_state \<Rightarrow>
    fault + int \<times> strm \<times> 'z reqdata_scheme \<times> os_state"

definition fill_dispatch ::
  "'z handler \<Rightarrow> FCGI_Header \<Rightarrow> strm \<Rightarrow> 'z reqdata_scheme \<Rightarrow> os_state \<Rightarrow>
    fault + (strm \<times> 'z reqdata_scheme \<times> os_state) loop" where
  "fill_dispatch ph header s r os =
     rbind (ph header (s\<lparr>eorStop := True, stop := rdNext s\<rparr>) r os) (\<lambda>(status, s, r, os).
     let s = s\<lparr>eorStop := False, isClosed := False\<rparr> in
     if status = STREAM_RECORD then
       if contentLen s = 0
       then Inr (Return (s\<lparr>wrNext := rdNext s, stop := rdNext s, isClosed := True\<rparr>, r, os))
       else Inr (Continue [] (s, r, os))
     else if status = SKIP then Inr (Continue [] (s\<lparr>skip := True\<rparr>, r, os))
     else if status = BEGIN_RECORD then Inr (Return (s, r, os))
     else if status = MGMT_RECORD then Inr (Continue [] (s, r, os))
     else rbind (c_assert (status < 0)) (\<lambda>_. Inr (Return (SetError status s, r, os))))"

definition fill_header ::
  "'z handler \<Rightarrow> byte list \<Rightarrow> strm \<Rightarrow> 'z reqdata_scheme \<Rightarrow> os_state \<Rightarrow>
    fault + (strm \<times> 'z reqdata_scheme \<times> os_state) loop" where
  "fill_header ph hdr s r os =
     (let count = min (8 - length hdr) (buffStop s - rdNext s);
          hdr = hdr @ slice (rdNext s) (rdNext s + count) (buff s);
          s = s\<lparr>rdNext := rdNext s + count\<rparr>
      in if length hdr < 8 then Inr (Continue hdr (s, r, os))
         else fill_dispatch ph (header_of_bytes hdr) s r os)"

definition fill_step ::
  "'z handler \<Rightarrow> byte list \<Rightarrow> strm \<Rightarrow> 'z reqdata_scheme \<Rightarrow> os_state \<Rightarrow>
    fault + (strm \<times> 'z reqdata_scheme \<times> os_state) loop" where
  "fill_step ph hdr s r os =
     rbind (fill_refill s r os) (\<lambda>(failed, s, os).
     if failed then Inr (Return (s, r, os))
     else case fill_content s of
       (Deliver, s) \<Rightarrow> Inr (Return (s, r, os))
     | (Again, s) \<Rightarrow> Inr (Continue hdr (s, r, os))
     | (Through, s) \<Rightarrow>
         (case fill_padding s of
            (Through, s) \<Rightarrow>
              if eorStop s
              then Inr (Return (s\<lparr>stop := rdNext s, isClosed := True\<rparr>, r, os))
              else fill_header ph hdr s r os
          | (_, s) \<Rightarrow> Inr (Continue hdr (s, r, os))))"

section \<open>FillBuffProc\<close>

fun fill_loop ::
  "'z handler \<Rightarrow> nat \<Rightarrow> byte list \<Rightarrow> 'z proc" where
  "fill_loop ph 0 hdr s r os = Inl OutOfFuel"
| "fill_loop ph (Suc fuel) hdr s r os =
     rbind (fill_step ph hdr s r os) (\<lambda>x. case x of
       Return y \<Rightarrow> Inr y
     | Continue hdr (s, r, os) \<Rightarrow> fill_loop ph fuel hdr s r os)"

text \<open>Each iteration consumes input, so the input bounds the loop.\<close>

definition FillBuffProc_with :: "'z handler \<Rightarrow> 'z proc" where
  "FillBuffProc_with ph s r os = fill_loop ph (input_left s r os + 1) [] s r os"

definition FillBuffProc_eor :: "'z proc" where
  "FillBuffProc_eor = FillBuffProc_with (\<lambda>_ _ _ _. Inl NullDeref)"

section \<open>Interpreting headers\<close>

definition max_conns :: "byte list" where "max_conns = chars ''FCGI_MAX_CONNS''"
definition max_reqs :: "byte list" where "max_reqs = chars ''FCGI_MAX_REQS''"
definition mpxs_conns :: "byte list" where "mpxs_conns = chars ''FCGI_MPXS_CONNS''"

text \<open>The answer to one variable: \<open>pos\<close> is \<^verbatim>\<open>responseP - response\<close>.\<close>

definition answer_value :: "byte list \<Rightarrow> byte option" where
  "answer_value name =
     (if name = max_conns then Some 0x31
      else if name = max_reqs then Some 0x31
      else if name = mpxs_conns then Some 0x30
      else None)"

definition answer_one :: "byte list option \<Rightarrow> byte list \<times> nat \<Rightarrow> fault + byte list \<times> nat" where
  "answer_one p = (\<lambda>(response, pos).
     case p of None \<Rightarrow> Inl NullDeref
     | Some nv \<Rightarrow>
         let str = cstr nv in
         if 0x3D \<notin> set str then Inl NullDeref
         else let name = takeWhile (\<lambda>b. b \<noteq> 0x3D) str in
           (case answer_value name of
              None \<Rightarrow> Inr (response, pos)
            | Some value \<Rightarrow>
                let len = length name in
                rbind (memcpy_to response pos ([of_nat len, 1] @ name @ [value, 0])) (\<lambda>response.
                Inr (response, pos + len + 3))))"

fun answer_all :: "byte list option list \<Rightarrow> byte list \<times> nat \<Rightarrow> fault + byte list \<times> nat" where
  "answer_all [] acc = Inr acc"
| "answer_all (p # ps) acc = rbind (answer_one p acc) (\<lambda>acc. answer_all ps acc)"

text \<open>The replies, built in the 64 bytes of \<^verbatim>\<open>response\<close>: the bytes \<^verbatim>\<open>write_it_all\<close> is given. Zeros stand
  for what the uninitialised array holds between the answers and the end of the padding.\<close>

definition values_reply :: "byte list option list \<Rightarrow> fault + byte list" where
  "values_reply ps =
     rbind (answer_all ps (replicate 64 0, FCGI_HEADER_LEN)) (\<lambda>(response, pos).
     let len = int pos - int FCGI_HEADER_LEN;
         paddedLen = AlignInt8 (word_of_int len)
     in rbind (MakeHeader FCGI_GET_VALUES_RESULT FCGI_NULL_REQUEST_ID len (paddedLen - len)) (\<lambda>h.
        rbind (memcpy_to response 0 (header_bytes h)) (\<lambda>response.
        if 64 < FCGI_HEADER_LEN + nat paddedLen then Inl BufferOverrun
        else Inr (take (FCGI_HEADER_LEN + nat paddedLen) response))))"

definition unknown_reply :: "int \<Rightarrow> fault + byte list" where
  "unknown_reply type =
     rbind (MakeHeader FCGI_UNKNOWN_TYPE FCGI_NULL_REQUEST_ID 8 0) (\<lambda>h.
     rbind (memcpy_to (replicate 64 0) 0 (header_bytes h)) (\<lambda>response.
     rbind (memcpy_to response FCGI_HEADER_LEN (unknown_body_bytes (MakeUnknownTypeBody type))) (\<lambda>response.
     Inr (take (FCGI_HEADER_LEN + 8) response))))"

definition send_reply ::
  "int \<Rightarrow> byte list \<Rightarrow> strm \<Rightarrow> 'z reqdata_scheme \<Rightarrow> os_state \<Rightarrow>
    fault + int \<times> strm \<times> 'z reqdata_scheme \<times> os_state" where
  "send_reply status reply s r os =
     (let (res, os) = write_it_all (ipcFd r) reply os
      in if res < 0 then Inr (- 1, SetError (c_errno os) s, r, os) else Inr (status, s, r, os))"

definition ProcessManagementRecord ::
  "int \<Rightarrow> strm \<Rightarrow> 'z reqdata_scheme \<Rightarrow> os_state \<Rightarrow>
    fault + int \<times> strm \<times> 'z reqdata_scheme \<times> os_state" where
  "ProcessManagementRecord type s r os =
     rbind (NewParams 3) (\<lambda>p.
     if type = FCGI_GET_VALUES then
       rbind (ReadParams FillBuffProc_eor p s r os) (\<lambda>(_, p, s, r, os).
       if FCGX_GetError s \<noteq> 0 \<or> contentLen s \<noteq> 0 then Inr (FCGX_PROTOCOL_ERROR, s, r, os)
       else rbind (values_reply (take (cur p) (vec p))) (\<lambda>reply. send_reply MGMT_RECORD reply s r os))
     else rbind (unknown_reply type) (\<lambda>reply. send_reply MGMT_RECORD reply s r os))"

definition ProcessBeginRecord ::
  "int \<Rightarrow> strm \<Rightarrow> 'z reqdata_scheme \<Rightarrow> os_state \<Rightarrow>
    fault + int \<times> strm \<times> 'z reqdata_scheme \<times> os_state" where
  "ProcessBeginRecord reqId s r os =
     (if reqId = 0 \<or> contentLen s \<noteq> 8 then Inr (FCGX_PROTOCOL_ERROR, s, r, os)
      else if isBeginProcessed r then
        rbind (MakeHeader FCGI_END_REQUEST reqId 8 0) (\<lambda>h.
        send_reply SKIP (header_bytes h @ end_body_bytes (MakeEndRequestBody 0 FCGI_CANT_MPX_CONN)) s r os)
      else
        let r = r\<lparr>requestId := reqId\<rparr> in
        rbind (FCGX_GetStr FillBuffProc_eor 8 s r os) (\<lambda>(bs, s, r, os).
        if length bs \<noteq> 8 then Inr (FCGX_PROTOCOL_ERROR, s, r, os)
        else let body = begin_body_of_bytes bs in
          Inr (BEGIN_RECORD, s,
               r\<lparr>keepConnection := uint (bflags body) AND FCGI_KEEP_CONN,
                 role := push_bit 8 (uint (roleB1 body)) + uint (roleB0 body),
                 isBeginProcessed := True\<rparr>, os)))"

definition ProcessHeader :: "'z handler" where
  "ProcessHeader header s r os =
     (if uint (version header) \<noteq> FCGI_VERSION_1 then Inr (FCGX_UNSUPPORTED_VERSION, s, r, os)
      else
        let reqId = header_requestId header;
            s = s\<lparr>contentLen := nat (header_contentLength header),
                  paddingLen := unat (paddingLength header)\<rparr>
        in if uint (htype header) = FCGI_BEGIN_REQUEST then ProcessBeginRecord reqId s r os
           else if reqId = FCGI_NULL_REQUEST_ID then ProcessManagementRecord (uint (htype header)) s r os
           else if reqId \<noteq> requestId r then Inr (SKIP, s, r, os)
           else if uint (htype header) \<noteq> stype s then Inr (FCGX_PROTOCOL_ERROR, s, r, os)
           else Inr (STREAM_RECORD, s, r, os))"

definition FillBuffProc :: "'z proc" where
  "FillBuffProc = FillBuffProc_with ProcessHeader"

end
