(* ===== verification/ReaderLoop.thy ===== *)
theory ReaderLoop
  imports Reader
begin

text \<open>
  How the loop of \<^verbatim>\<open>FillBuffProc\<close> consumes its input: the bytes that will arrive as one list, whatever
  the sizes of the reads; one iteration on it; and the loop without its bound as a step relation, which
  the bounded loop computes.
\<close>

section \<open>The bytes that arrive\<close>

text \<open>What successive reads return until one fails or reports the end.\<close>

fun flat :: "read_event list \<Rightarrow> byte list" where
  "flat [] = []"
| "flat (Arrives bs # es) = (if bs = [] then [] else bs @ flat es)"
| "flat (ReadFails e # es) = []"

definition arriving :: "int \<Rightarrow> os_state \<Rightarrow> byte list" where
  "arriving fd os = (if shutdownNow os then [] else flat (inbox (conns os fd)))"

text \<open>Reading touches nothing but the inbox of the descriptor, and \<^verbatim>\<open>errno\<close>.\<close>

definition same_out :: "os_state \<Rightarrow> os_state \<Rightarrow> bool" where
  "same_out os os' \<longleftrightarrow> shutdownNow os' = shutdownNow os \<and>
     (\<forall>fd. sent (conns os' fd) = sent (conns os fd) \<and> outcomes (conns os' fd) = outcomes (conns os fd))"

lemma same_out_refl [simp]: "same_out os os"
  by (simp add: same_out_def)

lemma same_out_trans: "same_out os os1 \<Longrightarrow> same_out os1 os2 \<Longrightarrow> same_out os os2"
  by (simp add: same_out_def)

lemma OS_Read_cases:
  fixes r :: "'z reqdata_scheme"
  assumes "0 < len"
  obtains
    (failed) os' where "OS_Read (ipcFd r) len os = (- 1, [], os')" "arriving (ipcFd r) os = []"
      "same_out os os'" "inbox_left r os' \<le> inbox_left r os"
  | (data) bs os' where "OS_Read (ipcFd r) len os = (int (length bs), bs, os')" "bs \<noteq> []" "length bs \<le> len"
      "arriving (ipcFd r) os = bs @ arriving (ipcFd r) os'" "same_out os os'" "c_errno os' = c_errno os"
      "inbox_left r os = length bs + inbox_left r os'"
proof (cases "shutdownNow os")
  case True
  then show ?thesis using failed [of os] by (simp add: OS_Read_def arriving_def)
next
  case False
  let ?c = "conns os (ipcFd r)"
  show ?thesis
  proof (cases "inbox ?c")
    case Nil
    then show ?thesis
      using False failed [of os] by (simp add: OS_Read_def arriving_def sys_read_def Let_def)
  next
    case (Cons ev es)
    show ?thesis
    proof (cases ev)
      case (ReadFails e)
      show ?thesis
        by (rule failed [of "(set_conn (ipcFd r) (?c\<lparr>inbox := es\<rparr>) os)\<lparr>c_errno := e\<rparr>"])
          (use False Cons ReadFails in
            \<open>auto simp: OS_Read_def arriving_def sys_read_def Let_def same_out_def inbox_left_def set_conn_def\<close>)
    next
      case (Arrives bs)
      show ?thesis
      proof (cases "bs = []")
        case True
        show ?thesis
          by (rule failed [of "set_conn (ipcFd r) (?c\<lparr>inbox := es\<rparr>) os"])
            (use False Cons Arrives True in
              \<open>auto simp: OS_Read_def arriving_def sys_read_def Let_def same_out_def inbox_left_def set_conn_def\<close>)
      next
        case ne: False
        show ?thesis
        proof (cases "length bs \<le> len")
          case True
          show ?thesis
            by (rule data [of bs "set_conn (ipcFd r) (?c\<lparr>inbox := es\<rparr>) os"])
              (use False Cons Arrives True ne in
                \<open>auto simp: OS_Read_def arriving_def sys_read_def Let_def same_out_def inbox_left_def set_conn_def\<close>)
        next
          case long: False
          show ?thesis
            by (rule data [of "take len bs" "set_conn (ipcFd r) (?c\<lparr>inbox := Arrives (drop len bs) # es\<rparr>) os"])
              (use False Cons Arrives long ne assms in
                \<open>auto simp: OS_Read_def arriving_def sys_read_def Let_def same_out_def inbox_left_def set_conn_def\<close>)
        qed
      qed
    qed
  qed
qed

lemma length_flat: "length (flat es) \<le> sum_list (map (length \<circ> event_bytes) es)"
  by (induction es rule: flat.induct) auto

lemma length_arriving: "length (arriving (ipcFd r) os) \<le> inbox_left r os"
  using length_flat by (simp add: arriving_def inbox_left_def)

section \<open>Refilling the buffer\<close>

text \<open>What holds at the head of the loop, where \<open>stop\<close> may be stale.\<close>

definition lp_ok :: "strm \<Rightarrow> bool" where
  "lp_ok s \<longleftrightarrow> isReader s \<and> rdNext s \<le> buffStop s \<and> buffStop s \<le> bufflen s \<and>
     bufflen s \<le> length (buff s) \<and> 0 < bufflen s"

lemma rbuf_ok_lp_ok: "rbuf_ok s \<Longrightarrow> lp_ok s"
  by (auto simp: rbuf_ok_def lp_ok_def)

text \<open>The rest of the buffer and what arrives after it.\<close>

definition buffered :: "strm \<Rightarrow> byte list" where
  "buffered s = slice (rdNext s) (buffStop s) (buff s)"

definition inp :: "strm \<Rightarrow> 'z reqdata_scheme \<Rightarrow> os_state \<Rightarrow> byte list" where
  "inp s r os = buffered s @ arriving (ipcFd r) os"

lemma length_buffered: "lp_ok s \<Longrightarrow> length (buffered s) = buffStop s - rdNext s"
  by (simp add: buffered_def lp_ok_def)

lemma length_inp: "lp_ok s \<Longrightarrow> length (inp s r os) \<le> input_left s r os"
  using length_arriving [of r os] by (simp add: inp_def input_left_def length_buffered)

text \<open>What the loop never changes.\<close>

definition same_reader :: "strm \<Rightarrow> strm \<Rightarrow> bool" where
  "same_reader s s' \<longleftrightarrow> stype s' = stype s \<and> isReader s' = isReader s \<and> bufflen s' = bufflen s \<and>
     length (buff s') = length (buff s) \<and> wasFCloseCalled s' = wasFCloseCalled s"

lemma same_reader_refl [simp]: "same_reader s s"
  by (simp add: same_reader_def)

lemma same_reader_trans: "same_reader s s1 \<Longrightarrow> same_reader s1 s2 \<Longrightarrow> same_reader s s2"
  by (simp add: same_reader_def)

lemma fill_refill_cases:
  fixes r :: "'z reqdata_scheme"
  assumes "lp_ok s"
  obtains
    (failed) e os' where "fill_refill s r os = Inr (True, SetError e s, os')" "inp s r os = []"
      "same_out os os'" "inbox_left r os' \<le> inbox_left r os" "rdNext s = buffStop s"
  | (data) b n m os' where
      "fill_refill s r os = Inr (False, s\<lparr>buff := b, rdNext := n, buffStop := m\<rparr>, os')"
      "lp_ok (s\<lparr>buff := b, rdNext := n, buffStop := m\<rparr>)" "n < m" "length b = length (buff s)"
      "inp (s\<lparr>buff := b, rdNext := n, buffStop := m\<rparr>) r os' = inp s r os"
      "same_out os os'" "c_errno os' = c_errno os"
      "input_left (s\<lparr>buff := b, rdNext := n, buffStop := m\<rparr>) r os' = input_left s r os"
proof (cases "rdNext s = buffStop s")
  case False
  have eq: "s\<lparr>buff := buff s, rdNext := rdNext s, buffStop := buffStop s\<rparr> = s" by simp
  show ?thesis
    using data [where b = "buff s" and n = "rdNext s" and m = "buffStop s" and os' = os] False assms unfolding eq
    by (auto simp: fill_refill_def lp_ok_def)
next
  case True
  have len: "0 < bufflen s" "bufflen s \<le> length (buff s)" using assms by (simp_all add: lp_ok_def)
  from len(1) show ?thesis
  proof (rule OS_Read_cases [where r = r and os = os])
    fix os' assume failed: "OS_Read (ipcFd r) (bufflen s) os = (- 1, [], os')" "arriving (ipcFd r) os = []"
      "same_out os os'" "inbox_left r os' \<le> inbox_left r os"
    show ?thesis
      using failed True that(1) [of "c_errno os'" os'] by (simp add: fill_refill_def inp_def buffered_def)
  next
    fix bs os' assume data: "OS_Read (ipcFd r) (bufflen s) os = (int (length bs), bs, os')" "bs \<noteq> []"
      "length bs \<le> bufflen s" "arriving (ipcFd r) os = bs @ arriving (ipcFd r) os'" "same_out os os'"
      "c_errno os' = c_errno os" "inbox_left r os = length bs + inbox_left r os'"
    let ?b = "poke (buff s) 0 bs"
    have "fill_refill s r os = Inr (False, s\<lparr>buff := ?b, rdNext := 0, buffStop := length bs\<rparr>, os')"
      using True data len by (simp add: fill_refill_def)
    moreover have "slice 0 (length bs) ?b = bs"
      using data len by (simp add: slice_def poke_0)
    ultimately show ?thesis
      using True data len assms
      by (intro that(2) [where b = ?b and n = 0 and m = "length bs" and os' = os'])
        (auto simp: lp_ok_def inp_def buffered_def input_left_def)
  qed
qed

section \<open>The loop as a relation\<close>

text \<open>\<open>fills ph hdr s r os y\<close>: the loop, entered with the header bytes \<open>hdr\<close>, returns \<open>y\<close>.\<close>

inductive fills ::
  "'z handler \<Rightarrow> byte list \<Rightarrow> strm \<Rightarrow> 'z reqdata_scheme \<Rightarrow> os_state \<Rightarrow>
    strm \<times> 'z reqdata_scheme \<times> os_state \<Rightarrow> bool" for ph where
  returns: "fill_step ph hdr s r os = Inr (Return y) \<Longrightarrow> fills ph hdr s r os y"
| continues: "fill_step ph hdr s r os = Inr (Continue hdr' (s', r', os')) \<Longrightarrow>
    fills ph hdr' s' r' os' y \<Longrightarrow> fills ph hdr s r os y"

text \<open>Handlers that keep the buffer well-formed and consume, never produce, input.\<close>

definition handler_ok :: "'z handler \<Rightarrow> bool" where
  "handler_ok ph \<longleftrightarrow> (\<forall>h s r os status s' r' os'. lp_ok s \<longrightarrow> eorStop s \<longrightarrow> stop s = rdNext s \<longrightarrow> \<not> isClosed s \<longrightarrow>
     ph h s r os = Inr (status, s', r', os') \<longrightarrow> 0 \<le> status \<longrightarrow>
     lp_ok s' \<and> input_left s' r' os' \<le> input_left s r os)"

text \<open>After content and padding: the three ways to go on.\<close>

lemma fill_content_cases:
  assumes "lp_ok s" "rdNext s < buffStop s"
  obtains
    (none) "contentLen s = 0" "fill_content s = (Through, s)"
  | (deliver) k where "0 < contentLen s" "\<not> skip s" "0 < k" "k = min (contentLen s) (buffStop s - rdNext s)"
      "fill_content s = (Deliver, s\<lparr>contentLen := contentLen s - k, wrNext := rdNext s + k, stop := rdNext s + k\<rparr>)"
  | (again) "skip s" "buffStop s - rdNext s < contentLen s"
      "fill_content s = (Again, s\<lparr>contentLen := contentLen s - (buffStop s - rdNext s), rdNext := buffStop s\<rparr>)"
  | (skipped) "0 < contentLen s" "skip s" "contentLen s \<le> buffStop s - rdNext s"
      "fill_content s = (Through, s\<lparr>contentLen := 0, rdNext := rdNext s + contentLen s, skip := False\<rparr>)"
proof (cases "contentLen s = 0")
  case True
  then show ?thesis by (intro none) (simp_all add: fill_content_def)
next
  case False
  show ?thesis
  proof (cases "skip s")
    case nsk: False
    show ?thesis
      by (rule deliver [of "min (contentLen s) (buffStop s - rdNext s)"])
        (use False nsk assms in \<open>simp_all add: fill_content_def Let_def\<close>)
  next
    case sk: True
    show ?thesis
    proof (cases "contentLen s \<le> buffStop s - rdNext s")
      case True
      then show ?thesis
        using False sk by (intro skipped) (simp_all add: fill_content_def Let_def)
    next
      case F2: False
      have "rdNext s + (buffStop s - rdNext s) = buffStop s" using assms by simp
      then show ?thesis
        using F2 sk by (intro again) (simp_all add: fill_content_def Let_def)
    qed
  qed
qed

lemma fill_padding_cases:
  assumes "lp_ok s"
  obtains
    (again) "buffStop s - rdNext s < paddingLen s"
      "fill_padding s = (Again, s\<lparr>paddingLen := paddingLen s - (buffStop s - rdNext s), rdNext := buffStop s\<rparr>)"
  | (through) "paddingLen s \<le> buffStop s - rdNext s"
      "fill_padding s = (Through, s\<lparr>paddingLen := 0, rdNext := rdNext s + paddingLen s\<rparr>)"
proof (cases "paddingLen s \<le> buffStop s - rdNext s")
  case True
  then show ?thesis
    by (intro through) (simp_all add: fill_padding_def Let_def)
next
  case False
  have "rdNext s + (buffStop s - rdNext s) = buffStop s" using assms by (simp add: lp_ok_def)
  then show ?thesis
    using False by (intro again) (simp_all add: fill_padding_def Let_def)
qed

lemma input_left_update:
  "input_left (s\<lparr>eorStop := b\<rparr>) r os = input_left s r os"
  "input_left (s\<lparr>isClosed := b\<rparr>) r os = input_left s r os"
  "input_left (s\<lparr>skip := b\<rparr>) r os = input_left s r os"
  "input_left (s\<lparr>stop := n\<rparr>) r os = input_left s r os"
  "input_left (s\<lparr>wrNext := n\<rparr>) r os = input_left s r os"
  "input_left (s\<lparr>contentLen := n\<rparr>) r os = input_left s r os"
  "input_left (s\<lparr>paddingLen := n\<rparr>) r os = input_left s r os"
  by (simp_all add: input_left_def)

lemma lp_ok_update:
  "lp_ok (s\<lparr>eorStop := b\<rparr>) = lp_ok s"
  "lp_ok (s\<lparr>isClosed := b\<rparr>) = lp_ok s"
  "lp_ok (s\<lparr>skip := b\<rparr>) = lp_ok s"
  "lp_ok (s\<lparr>stop := n\<rparr>) = lp_ok s"
  "lp_ok (s\<lparr>wrNext := n\<rparr>) = lp_ok s"
  "lp_ok (s\<lparr>contentLen := n\<rparr>) = lp_ok s"
  "lp_ok (s\<lparr>paddingLen := n\<rparr>) = lp_ok s"
  by (simp_all add: lp_ok_def)

lemmas update_simps = input_left_update lp_ok_update

lemma lp_ok_advance: "lp_ok s \<Longrightarrow> k \<le> buffStop s - rdNext s \<Longrightarrow> lp_ok (s\<lparr>rdNext := rdNext s + k\<rparr>)"
  by (auto simp: lp_ok_def)

lemma input_left_advance:
  "lp_ok s \<Longrightarrow> k \<le> buffStop s - rdNext s \<Longrightarrow>
    input_left (s\<lparr>rdNext := rdNext s + k\<rparr>) r os + k = input_left s r os"
  by (auto simp: lp_ok_def input_left_def)

lemma fill_dispatch_consumes:
  assumes "fill_dispatch ph h s r os = Inr (Continue hdr' (s', r', os'))" "lp_ok s" "\<not> isClosed s" "handler_ok ph"
  shows "lp_ok s' \<and> hdr' = [] \<and> \<not> isClosed s' \<and> input_left s' r' os' \<le> input_left s r os"
proof -
  let ?s = "s\<lparr>eorStop := True, stop := rdNext s\<rparr>"
  obtain status s1 r1 os1 where 1: "ph h ?s r os = Inr (status, s1, r1, os1)"
    using assms(1) by (auto simp: fill_dispatch_def rbind_Inr_iff)
  have st: "0 \<le> status"
    using assms(1) 1 by (auto simp: fill_dispatch_def rbind_Inr_iff Let_def split: if_splits)
  have "lp_ok ?s" "eorStop ?s" "stop ?s = rdNext ?s" "\<not> isClosed ?s"
    using assms(2,3) by (simp_all add: lp_ok_update)
  then have "lp_ok s1 \<and> input_left s1 r1 os1 \<le> input_left ?s r os"
    using assms(4) 1 st unfolding handler_ok_def by blast
  then show ?thesis
    using assms(1) 1
    by (auto simp: fill_dispatch_def rbind_Inr_iff Let_def update_simps split: if_splits)
qed

lemma fill_header_consumes:
  assumes "fill_header ph hdr s r os = Inr (Continue hdr' (s', r', os'))" "lp_ok s" "\<not> isClosed s" "handler_ok ph"
    "length hdr < 8"
  shows "lp_ok s' \<and> length hdr' < 8 \<and> \<not> isClosed s' \<and>
    input_left s' r' os' \<le> input_left s r os - (if rdNext s < buffStop s then 1 else 0)"
proof -
  define k where "k = min (8 - length hdr) (buffStop s - rdNext s)"
  let ?hdr = "hdr @ slice (rdNext s) (rdNext s + k) (buff s)"
  let ?s = "s\<lparr>rdNext := rdNext s + k\<rparr>"
  have k: "k \<le> buffStop s - rdNext s" "rdNext s < buffStop s \<Longrightarrow> 1 \<le> k"
    using assms(5) by (auto simp: k_def)
  note s1 = lp_ok_advance [OF assms(2) k(1)] input_left_advance [OF assms(2) k(1), of r os]
  show ?thesis
  proof (cases "length ?hdr < 8")
    case True
    then have "hdr' = ?hdr" "s' = ?s" "r' = r" "os' = os"
      using assms(1) by (auto simp: fill_header_def Let_def k_def)
    then show ?thesis using True s1 k(2) assms(3) by auto
  next
    case False
    then have "fill_dispatch ph (header_of_bytes ?hdr) ?s r os = Inr (Continue hdr' (s', r', os'))"
      using assms(1) by (simp add: fill_header_def Let_def k_def del: length_append)
    from fill_dispatch_consumes [OF this s1(1) _ assms(4)] show ?thesis
      using s1(2) k(2) assms(3) by auto
  qed
qed

lemma fill_step_consumes:
  assumes step: "fill_step ph hdr s r os = Inr (Continue hdr' (s', r', os'))"
    and s: "lp_ok s" "\<not> isClosed s" "handler_ok ph" "length hdr < 8"
  shows "lp_ok s' \<and> length hdr' < 8 \<and> \<not> isClosed s' \<and> input_left s' r' os' < input_left s r os"
proof (cases rule: fill_refill_cases [OF s(1), of r os])
  case 1
  then show ?thesis using step by (simp add: fill_step_def)
next
  case (2 b n m os1)
  define s1 where "s1 = s\<lparr>buff := b, rdNext := n, buffStop := m\<rparr>"
  have s1: "lp_ok s1" "rdNext s1 < buffStop s1" "input_left s1 r os1 = input_left s r os" "\<not> isClosed s1"
    using 2 s(2) by (simp_all add: s1_def)
  have pos: "0 < input_left s1 r os1" using s1(2) by (simp add: input_left_def)
  have step1: "(case fill_content s1 of
       (Deliver, s) \<Rightarrow> Inr (Return (s, r, os1))
     | (Again, s) \<Rightarrow> Inr (Continue hdr (s, r, os1))
     | (Through, s) \<Rightarrow>
         (case fill_padding s of
            (Through, s) \<Rightarrow>
              if eorStop s
              then Inr (Return (s\<lparr>stop := rdNext s, isClosed := True\<rparr>, r, os1))
              else fill_header ph hdr s r os1
          | (_, s) \<Rightarrow> Inr (Continue hdr (s, r, os1)))) = Inr (Continue hdr' (s', r', os'))"
    using step 2(1) by (simp add: fill_step_def s1_def)
  have pad: "lp_ok s' \<and> length hdr' < 8 \<and> \<not> isClosed s' \<and>
      input_left s' r' os' \<le> input_left s2 r os1 - (if rdNext s2 < buffStop s2 then 1 else 0)"
    if s2: "lp_ok s2" "\<not> isClosed s2" and c: "fill_content s1 = (Through, s2)" for s2
  proof (cases rule: fill_padding_cases [OF s2(1)])
    case 1
    have "s' = s2\<lparr>paddingLen := paddingLen s2 - (buffStop s2 - rdNext s2), rdNext := buffStop s2\<rparr>"
      "hdr' = hdr" "r' = r" "os' = os1"
      using step1 c 1 by simp_all
    then show ?thesis using s2 s(4) by (auto simp: lp_ok_def input_left_def)
  next
    case 2
    let ?s3 = "s2\<lparr>paddingLen := 0, rdNext := rdNext s2 + paddingLen s2\<rparr>"
    have h: "fill_header ph hdr ?s3 r os1 = Inr (Continue hdr' (s', r', os'))"
      using step1 c 2 by (simp split: if_splits)
    have s3: "lp_ok ?s3" "\<not> isClosed ?s3" "input_left ?s3 r os1 + paddingLen s2 = input_left s2 r os1"
      using s2 2(1) by (auto simp: lp_ok_def input_left_def)
    from fill_header_consumes [OF h s3(1,2) s(3,4)] s3(3) show ?thesis
      using 2(1) by (auto split: if_splits)
  qed
  show ?thesis
  proof (cases rule: fill_content_cases [OF s1(1,2)])
    case 1
    then show ?thesis using pad [OF s1(1,4)] s1(2,3) pos by auto
  next
    case (2 k)
    then show ?thesis using step1 by simp
  next
    case 3
    have "s' = s1\<lparr>contentLen := contentLen s1 - (buffStop s1 - rdNext s1), rdNext := buffStop s1\<rparr>"
      "hdr' = hdr" "r' = r" "os' = os1"
      using step1 3 by simp_all
    then show ?thesis using s1 s(4) by (auto simp: lp_ok_def input_left_def)
  next
    case 4
    let ?s2 = "s1\<lparr>contentLen := 0, rdNext := rdNext s1 + contentLen s1, skip := False\<rparr>"
    have "lp_ok ?s2" "\<not> isClosed ?s2" "input_left ?s2 r os1 + contentLen s1 = input_left s1 r os1"
      using s1 4(3) by (auto simp: lp_ok_def input_left_def)
    then show ?thesis using pad [OF _ _ 4(4)] 4(1) s1(3) pos by (auto split: if_splits)
  qed
qed

text \<open>Where the relation reaches a result, the bounded loop computes it.\<close>

lemma fills_loop:
  assumes "fills ph hdr s r os y" "lp_ok s" "\<not> isClosed s" "handler_ok ph" "length hdr < 8"
    "input_left s r os < fuel"
  shows "fill_loop ph fuel hdr s r os = Inr y"
  using assms
proof (induction arbitrary: fuel rule: fills.induct)
  case (returns hdr s r os y)
  then show ?case by (cases fuel) simp_all
next
  case (continues hdr s r os hdr' s' r' os' y)
  obtain f where f: "fuel = Suc f" using continues.prems(5) by (cases fuel) auto
  have "lp_ok s' \<and> length hdr' < 8 \<and> \<not> isClosed s' \<and> input_left s' r' os' < input_left s r os"
    by (rule fill_step_consumes [OF continues.hyps(1) continues.prems(1-4)])
  then have "fill_loop ph f hdr' s' r' os' = Inr y"
    using continues.prems(5) f by (intro continues.IH continues.prems(3)) auto
  then show ?case using continues.hyps(1) f by simp
qed

lemma fills_FillBuffProc_with:
  "fills ph [] s r os y \<Longrightarrow> lp_ok s \<Longrightarrow> \<not> isClosed s \<Longrightarrow> handler_ok ph \<Longrightarrow>
    FillBuffProc_with ph s r os = Inr y"
  unfolding FillBuffProc_with_def by (rule fills_loop) simp_all

end
