(* ===== verification/ReaderRecord.thy ===== *)
theory ReaderRecord
  imports ReaderLoop
begin

text \<open>
  The inner calls of \<^verbatim>\<open>FillBuffProc\<close>, which read the content of one record, as a byte source; and
  the functions that use it, \<^verbatim>\<open>ProcessBeginRecord\<close>, \<^verbatim>\<open>ProcessManagementRecord\<close> and
  \<^verbatim>\<open>ProcessHeader\<close>, as a handler the outer loop can rely on.
\<close>

section \<open>Inner calls: the content of one record\<close>

text \<open>What an inner call that closes the stream achieved: nothing but input was consumed, and if the
  whole record and at least one more byte were there, exactly the rest of the record was.\<close>

definition closed_at ::
  "nat \<Rightarrow> strm \<Rightarrow> 'z reqdata_scheme \<Rightarrow> os_state \<Rightarrow> strm \<Rightarrow> os_state \<Rightarrow> bool" where
  "closed_at n s r os s' os' \<longleftrightarrow> lp_ok s' \<and> isClosed s' \<and> eorStop s' \<and> same_reader s s' \<and> same_out os os' \<and>
     input_left s' r os' \<le> input_left s r os \<and>
     (n < length (inp s r os) \<longrightarrow> contentLen s' = 0 \<and> paddingLen s' = 0 \<and> stop s' = rdNext s' \<and>
        inp s' r os' = drop n (inp s r os) \<and> FCGI_errno s' = FCGI_errno s \<and> c_errno os' = c_errno os \<and>
        skip s' = (skip s \<and> contentLen s = 0))"

lemma closed_at_step:
  assumes "closed_at m s1 r os1 s2 os2"
    and "same_reader s s1" "same_out os os1" "input_left s1 r os1 \<le> input_left s r os"
    and "inp s1 r os1 = drop k (inp s r os)" "FCGI_errno s1 = FCGI_errno s" "c_errno os1 = c_errno os"
    and "(skip s1 \<and> contentLen s1 = 0) = (skip s \<and> contentLen s = 0)" "n = k + m"
  shows "closed_at n s r os s2 os2"
  using assms unfolding closed_at_def
  by (auto intro: same_reader_trans same_out_trans simp: add.commute)

lemma inp_advance:
  assumes "lp_ok s" "k \<le> buffStop s - rdNext s" "buffStop s' = buffStop s" "buff s' = buff s"
    "rdNext s' = rdNext s + k"
  shows "inp s' r os = drop k (inp s r os)"
  using assms length_buffered [OF assms(1)] by (simp add: inp_def buffered_def)

lemma eor_tail:
  fixes r :: "'z reqdata_scheme"
  assumes s: "lp_ok s" "\<not> isClosed s" "eorStop s" "contentLen s = 0"
  obtains
    (close) s' where "fill_padding s = (Through, s')" "eorStop s'"
      "closed_at (paddingLen s) s r os (s'\<lparr>stop := rdNext s', isClosed := True\<rparr>) os"
  | (again) s' k where "fill_padding s = (Again, s')" "k = buffStop s - rdNext s" "k < paddingLen s"
      "lp_ok s'" "\<not> isClosed s'" "eorStop s'" "contentLen s' = 0" "same_reader s s'"
      "paddingLen s' = paddingLen s - k" "inp s' r os = drop k (inp s r os)" "FCGI_errno s' = FCGI_errno s"
      "input_left s' r os = input_left s r os - k" "skip s' = skip s"
proof (cases rule: fill_padding_cases [OF s(1)])
  case 1
  let ?s = "s\<lparr>paddingLen := paddingLen s - (buffStop s - rdNext s), rdNext := buffStop s\<rparr>"
  have "inp ?s r os = drop (buffStop s - rdNext s) (inp s r os)"
    using s(1) by (intro inp_advance) (auto simp: lp_ok_def)
  then show ?thesis
    using 1 s by (intro again [of ?s "buffStop s - rdNext s"])
      (auto simp: lp_ok_def same_reader_def input_left_def)
next
  case 2
  let ?s = "s\<lparr>paddingLen := 0, rdNext := rdNext s + paddingLen s\<rparr>"
  let ?c = "?s\<lparr>stop := rdNext ?s, isClosed := True\<rparr>"
  have "inp ?c r os = drop (paddingLen s) (inp s r os)"
    using s(1) 2(1) by (intro inp_advance) auto
  then show ?thesis
    using 2 s by (intro close [of ?s]) (auto simp: closed_at_def lp_ok_def same_reader_def input_left_def)
qed

lemma eor_closes:
  assumes "lp_ok s" "\<not> isClosed s" "eorStop s" "contentLen s = 0 \<or> skip s"
  shows "\<exists>s' os'. fills ph hdr s r os (s', r, os') \<and> closed_at (contentLen s + paddingLen s) s r os s' os'"
  using assms
proof (induction "input_left s r os" arbitrary: s os rule: less_induct)
  case less
  show ?case
  proof (cases rule: fill_refill_cases [OF less.prems(1), of r os])
    case (1 e os')
    then have "fill_step ph hdr s r os = Inr (Return (SetError e s, r, os'))"
      by (simp add: fill_step_def)
    moreover have "closed_at (contentLen s + paddingLen s) s r os (SetError e s) os'"
      using 1 less.prems by (simp add: closed_at_def lp_ok_def same_reader_def input_left_def)
    ultimately show ?thesis by (blast intro: fills.returns)
  next
    case (2 b n m os1)
    define s1 where "s1 = s\<lparr>buff := b, rdNext := n, buffStop := m\<rparr>"
    have s1: "lp_ok s1" "rdNext s1 < buffStop s1" "\<not> isClosed s1" "eorStop s1"
      "contentLen s1 = contentLen s" "paddingLen s1 = paddingLen s" "skip s1 = skip s"
      "same_reader s s1" "inp s1 r os1 = inp s r os" "input_left s1 r os1 = input_left s r os"
      "FCGI_errno s1 = FCGI_errno s"
      using 2 less.prems by (simp_all add: s1_def same_reader_def)
    note os1 = 2(6,7)
    have step: "fill_step ph hdr s r os = (case fill_content s1 of
       (Deliver, s) \<Rightarrow> Inr (Return (s, r, os1))
     | (Again, s) \<Rightarrow> Inr (Continue hdr (s, r, os1))
     | (Through, s) \<Rightarrow>
         (case fill_padding s of
            (Through, s) \<Rightarrow>
              if eorStop s
              then Inr (Return (s\<lparr>stop := rdNext s, isClosed := True\<rparr>, r, os1))
              else fill_header ph hdr s r os1
          | (_, s) \<Rightarrow> Inr (Continue hdr (s, r, os1))))"
      using 2(1) by (simp add: fill_step_def s1_def)
    have tail: ?thesis
      if c: "fill_content s1 = (Through, s2)" and s2: "lp_ok s2" "\<not> isClosed s2" "eorStop s2" "contentLen s2 = 0"
        "paddingLen s2 = paddingLen s" "same_reader s s2" "FCGI_errno s2 = FCGI_errno s"
        "input_left s2 r os1 \<le> input_left s r os" "inp s2 r os1 = drop (contentLen s) (inp s r os)"
        "(skip s2 \<and> contentLen s2 = 0) = (skip s \<and> contentLen s = 0)" "rdNext s2 < buffStop s2 \<or> input_left s2 r os1 < input_left s r os"
      for s2
    proof (cases rule: eor_tail [OF s2(1-4), of r os1])
      case (1 s3)
      let ?s4 = "s3\<lparr>stop := rdNext s3, isClosed := True\<rparr>"
      have "fill_step ph hdr s r os = Inr (Return (?s4, r, os1))"
        using step c 1 by simp
      moreover have "closed_at (contentLen s + paddingLen s) s r os ?s4 os1"
        using s2(5) by (intro closed_at_step [OF 1(3) s2(6) os1(1) s2(8,9,7) os1(2) s2(10)]) simp
      ultimately show ?thesis by (blast intro: fills.returns)
    next
      case (2 s3 k)
      have st: "fill_step ph hdr s r os = Inr (Continue hdr (s3, r, os1))"
        using step c 2 by simp
      have dec: "input_left s3 r os1 < input_left s r os"
        using 2(2,12) s2(8,11) by (auto simp: input_left_def)
      obtain s4 os4 where 4: "fills ph hdr s3 r os1 (s4, r, os4)"
        "closed_at (contentLen s3 + paddingLen s3) s3 r os1 s4 os4"
        using less.hyps [OF dec 2(4-6)] 2(7) by auto
      have "closed_at (paddingLen s2) s2 r os1 s4 os4"
        using 2 s2(4) by (intro closed_at_step [OF 4(2), where k = k]) auto
      then have "closed_at (contentLen s + paddingLen s) s r os s4 os4"
        using s2(5) by (intro closed_at_step [OF _ s2(6) os1(1) s2(8,9,7) os1(2) s2(10)]) simp_all
      then show ?thesis using fills.continues [OF st 4(1)] by blast
    qed
    show ?thesis
    proof (cases rule: fill_content_cases [OF s1(1,2)])
      case 1
      show ?thesis
        using 1 s1 by (intro tail [OF 1(2)]) simp_all
    next
      case (2 k)
      then show ?thesis using less.prems(4) s1(5,7) by simp
    next
      case 3
      let ?k = "buffStop s1 - rdNext s1"
      let ?s2 = "s1\<lparr>contentLen := contentLen s1 - ?k, rdNext := buffStop s1\<rparr>"
      have st: "fill_step ph hdr s r os = Inr (Continue hdr (?s2, r, os1))"
        using step 3(3) by simp
      have s2: "lp_ok ?s2" "same_reader s ?s2" "input_left ?s2 r os1 < input_left s r os"
        using s1 by (auto simp: lp_ok_def input_left_def same_reader_def)
      have inp2: "inp ?s2 r os1 = drop ?k (inp s r os)"
        using s1 by (subst inp_advance [of s1 ?k]) auto
      obtain s4 os4 where 4: "fills ph hdr ?s2 r os1 (s4, r, os4)"
        "closed_at (contentLen ?s2 + paddingLen ?s2) ?s2 r os1 s4 os4"
        using less.hyps [OF s2(3,1)] s1 3(1) by auto
      have "closed_at (contentLen s + paddingLen s) s r os s4 os4"
        using s1 s2 3(2) 2(7)
        by (intro closed_at_step [OF 4(2) s2(2) os1(1) _ inp2 _ os1(2)]) auto
      then show ?thesis using fills.continues [OF st 4(1)] by blast
    next
      case 4
      let ?s2 = "s1\<lparr>contentLen := 0, rdNext := rdNext s1 + contentLen s1, skip := False\<rparr>"
      have "inp ?s2 r os1 = drop (contentLen s) (inp s r os)"
        using s1 4(3) by (subst inp_advance [of s1 "contentLen s1"]) auto
      then show ?thesis
        using s1 4 by (intro tail [OF 4(4)]) (auto simp: lp_ok_def input_left_def same_reader_def)
    qed
  qed
qed

text \<open>A fill within the content of a record that is to be delivered.\<close>

lemma content_fills:
  fixes r :: "'z reqdata_scheme"
  assumes s: "lp_ok s" "0 < contentLen s" "\<not> skip s"
  obtains
    (failed) e os' where "fills ph hdr s r os (SetError e s, r, os')" "inp s r os = []" "same_out os os'"
      "inbox_left r os' \<le> inbox_left r os"
  | (piece) s' os' k where "fills ph hdr s r os (s', r, os')" "0 < k" "k \<le> contentLen s" "rbuf_ok s'"
      "ready s' = take k (inp s r os)" "k \<le> length (inp s r os)" "contentLen s' = contentLen s - k"
      "paddingLen s' = paddingLen s" "\<not> skip s'" "eorStop s' = eorStop s" "isClosed s' = isClosed s"
      "FCGI_errno s' = FCGI_errno s" "c_errno os' = c_errno os" "same_reader s s'" "same_out os os'"
      "inp s' r os' = inp s r os" "input_left s' r os' = input_left s r os" "stop s' = rdNext s' + k"
proof (cases rule: fill_refill_cases [OF s(1), of r os])
  case (1 e os')
  then have "fills ph hdr s r os (SetError e s, r, os')"
    by (intro fills.returns) (simp add: fill_step_def)
  then show ?thesis using 1 failed by blast
next
  case (2 b n m os1)
  define s1 where "s1 = s\<lparr>buff := b, rdNext := n, buffStop := m\<rparr>"
  have s1: "lp_ok s1" "rdNext s1 < buffStop s1" "contentLen s1 = contentLen s" "\<not> skip s1"
    using 2 s by (simp_all add: s1_def)
  define k where "k = min (contentLen s1) (buffStop s1 - rdNext s1)"
  define s2 where "s2 = s1\<lparr>contentLen := contentLen s1 - k, wrNext := rdNext s1 + k, stop := rdNext s1 + k\<rparr>"
  have st: "fill_step ph hdr s r os = Inr (Return (s2, r, os1))"
    using 2(1) s s1 by (simp add: fill_step_def fill_content_def Let_def s1_def [symmetric] s2_def k_def)
  have k: "0 < k" "k \<le> contentLen s" "k \<le> buffStop s1 - rdNext s1"
    using s s1 by (simp_all add: k_def)
  have inp1: "inp s1 r os1 = inp s r os" using 2(5) by (simp add: s1_def)
  have rdy: "ready s2 = take k (buffered s1)"
    using k by (auto simp: s2_def ready_def buffered_def min_def)
  then have "ready s2 = take k (inp s r os)" "k \<le> length (inp s r os)"
    unfolding inp1 [symmetric] unfolding inp_def using k length_buffered [OF s1(1)] by simp_all
  moreover have "rbuf_ok s2" using s1(1) k by (auto simp: s2_def rbuf_ok_def lp_ok_def)
  moreover have "inp s2 r os1 = inp s r os" "input_left s2 r os1 = input_left s r os"
    using inp1 2(8) by (simp_all add: s2_def inp_def buffered_def input_left_def s1_def [symmetric])
  ultimately show ?thesis
    using k 2 s1 fills.returns [OF st]
    by (intro piece [of s2 os1 k]) (simp_all add: s2_def s1_def same_reader_def)
qed

definition coming :: "strm \<Rightarrow> 'z reqdata_scheme \<Rightarrow> os_state \<Rightarrow> byte list" where
  "coming s r os = slice (stop s) (buffStop s) (buff s) @ arriving (ipcFd r) os"

lemma coming_inp: "rdNext s = stop s \<Longrightarrow> coming s r os = inp s r os"
  by (simp add: coming_def inp_def buffered_def)

lemma length_slice_le: "length (slice i j xs) \<le> j - i"
  by (simp add: slice_def)

lemma length_coming: "length (coming s r os) \<le> (buffStop s - stop s) + inbox_left r os"
  using length_arriving [of r os] length_slice_le [of "stop s" "buffStop s" "buff s"]
  by (simp add: coming_def)

lemma coming_piece:
  assumes "rbuf_ok s" "stop s = rdNext s + k"
  shows "coming s r os = drop k (inp s r os)"
proof -
  have "k \<le> buffStop s - rdNext s" using assms by (auto simp: rbuf_ok_def)
  then show ?thesis
    using assms length_buffered [OF rbuf_ok_lp_ok [OF assms(1)]]
    by (simp add: coming_def inp_def buffered_def)
qed

text \<open>The record being read, from the state \<open>s0\<close>, \<open>os0\<close> at its header on.\<close>

definition eor_src ::
  "'z reqdata_scheme \<Rightarrow> strm \<Rightarrow> os_state \<Rightarrow> byte list \<Rightarrow> strm \<Rightarrow> 'z reqdata_scheme \<Rightarrow> os_state \<Rightarrow> bool" where
  "eor_src r0 s0 os0 bs s r os \<longleftrightarrow>
     r = r0 \<and> eorStop s \<and> same_reader s0 s \<and> same_out os0 os \<and>
     (buffStop s - stop s) + inbox_left r os \<le> input_left s0 r0 os0 \<and> paddingLen s = paddingLen s0 \<and>
     (skip s \<longrightarrow> skip s0) \<and>
     bs = (if skip s then [] else take (contentLen s) (coming s r os)) \<and>
     (contentLen s0 + paddingLen s0 < length (inp s0 r0 os0) \<longrightarrow>
        contentLen s + paddingLen s < length (coming s r os) \<and>
        drop (contentLen s + paddingLen s) (coming s r os) = drop (contentLen s0 + paddingLen s0) (inp s0 r0 os0) \<and>
        FCGI_errno s = FCGI_errno s0 \<and> c_errno os = c_errno os0 \<and>
        (skip s \<and> contentLen s = 0) = (skip s0 \<and> contentLen s0 = 0))"

definition eor_ended ::
  "'z reqdata_scheme \<Rightarrow> strm \<Rightarrow> os_state \<Rightarrow> strm \<Rightarrow> 'z reqdata_scheme \<Rightarrow> os_state \<Rightarrow> bool" where
  "eor_ended r0 s0 os0 s r os \<longleftrightarrow> r = r0 \<and> closed_at (contentLen s0 + paddingLen s0) s0 r0 os0 s os"

lemma handler_ok_none: "handler_ok (\<lambda>_ _ _ _. Inl NullDeref)"
  by (simp add: handler_ok_def)

lemma eor_fill:
  fixes r :: "'z reqdata_scheme"
  assumes s: "rbuf_ok s" "\<not> isClosed s" "rdNext s = stop s" and src: "eor_src r0 s0 os0 bs s r os"
  shows "\<exists>s' r' os'. FillBuffProc_eor s r os = Inr (s', r', os') \<and>
    ((bs = [] \<and> isClosed s' \<and> eor_ended r0 s0 os0 s' r' os') \<or>
     (\<exists>cs. bs = ready s' @ cs \<and> ready s' \<noteq> [] \<and> \<not> isClosed s' \<and> rbuf_ok s' \<and> eor_src r0 s0 os0 cs s' r' os'))"
proof -
  let ?m0 = "contentLen s0 + paddingLen s0" and ?n = "contentLen s + paddingLen s"
  note lp = rbuf_ok_lp_ok [OF s(1)]
  note cm = coming_inp [OF s(3), of r os]
  have f: "FillBuffProc_eor s r os = Inr y" if "fills (\<lambda>_ _ _ _. Inl NullDeref) [] s r os y" for y
    unfolding FillBuffProc_eor_def by (rule fills_FillBuffProc_with [OF that lp s(2) handler_ok_none])
  have r0: "r0 = r" using src by (simp add: eor_src_def)
  have src': "r = r0" "eorStop s" "same_reader s0 s" "same_out os0 os" "input_left s r os \<le> input_left s0 r0 os0"
    "bs = (if skip s then [] else take (contentLen s) (inp s r os))" "paddingLen s = paddingLen s0"
    "?m0 < length (inp s0 r0 os0) \<Longrightarrow> ?n < length (inp s r os) \<and>
       drop ?n (inp s r os) = drop ?m0 (inp s0 r0 os0) \<and>
       FCGI_errno s = FCGI_errno s0 \<and> c_errno os = c_errno os0 \<and>
       (skip s \<and> contentLen s = 0) = (skip s0 \<and> contentLen s0 = 0)"
    using src s(3) unfolding r0 eor_src_def cm input_left_def by auto
  have ended: "eor_ended r0 s0 os0 s' r os'" if c: "closed_at ?n s r os s' os'" for s' os'
    using c src' unfolding eor_ended_def closed_at_def
    by (auto intro: same_reader_trans same_out_trans)
  show ?thesis
  proof (cases "contentLen s = 0 \<or> skip s")
    case True
    obtain s' os' where 1: "fills (\<lambda>_ _ _ _. Inl NullDeref) [] s r os (s', r, os')" "closed_at ?n s r os s' os'"
      using eor_closes [OF lp s(2) src'(2) True] by blast
    have "bs = []" using src'(6) True by auto
    then show ?thesis using f [OF 1(1)] ended [OF 1(2)] 1(2) by (auto simp: closed_at_def)
  next
    case False
    show ?thesis
    proof (cases rule: content_fills [OF lp, of "\<lambda>_ _ _ _. Inl NullDeref" "[]" r os])
      case 1
      then show ?case using False by simp
    next
      case 2
      then show ?case using False by simp
    next
      case (3 e os')
      then have "bs = []" "closed_at ?n s r os (SetError e s) os'"
        using src' lp False by (simp_all add: closed_at_def lp_ok_def same_reader_def input_left_def)
      then show ?thesis using f [OF 3(1)] ended by auto
    next
      case (4 s' os' k)
      have cm': "coming s' r os' = drop k (inp s r os)"
        using coming_piece [OF 4(4,18), of r os'] 4(16) by simp
      have bs: "bs = ready s' @ take (contentLen s') (coming s' r os')"
        using src'(6) False 4 cm' by (simp add: take_add [symmetric])
      have "eor_src r0 s0 os0 (take (contentLen s') (coming s' r os')) s' r os'"
        using src' 4 cm' s False unfolding eor_src_def
        by (auto intro: same_reader_trans same_out_trans simp: input_left_def drop_drop add.commute rbuf_ok_def)
      moreover have "ready s' \<noteq> []" using 4 by auto
      ultimately show ?thesis using f [OF 4(1)] bs 4(4,11) s(2) by blast
    qed
  qed
qed

lemma coming_cong [simp]:
  "coming (s\<lparr>rdNext := n\<rparr>) r os = coming s r os"
  "coming (s\<lparr>stopUnget := u\<rparr>) r os = coming s r os"
  by (simp_all add: coming_def)

lemma same_reader_cong [simp]:
  "same_reader s0 (s\<lparr>rdNext := n\<rparr>) = same_reader s0 s"
  "same_reader s0 (s\<lparr>stopUnget := u\<rparr>) = same_reader s0 s"
  by (simp_all add: same_reader_def)

interpretation eor: byte_source FillBuffProc_eor "eor_src r0 s0 os0" "eor_ended r0 s0 os0" for r0 s0 os0
proof unfold_locales
  fix s bs r os
  assume "rbuf_ok s" "\<not> isClosed s" "rdNext s = stop s" "eor_src r0 s0 os0 bs s r os"
  then show "\<exists>s' r' os'. FillBuffProc_eor s r os = Inr (s', r', os') \<and>
      ((bs = [] \<and> isClosed s' \<and> eor_ended r0 s0 os0 s' r' os') \<or>
       (\<exists>cs. bs = ready s' @ cs \<and> ready s' \<noteq> [] \<and> \<not> isClosed s' \<and> rbuf_ok s' \<and> eor_src r0 s0 os0 cs s' r' os'))"
    by (rule eor_fill)
next
  fix bs s r os n
  show "eor_src r0 s0 os0 bs s r os \<Longrightarrow> eor_src r0 s0 os0 bs (s\<lparr>rdNext := n\<rparr>) r os"
    unfolding eor_src_def by auto
next
  fix bs s r os u
  show "eor_src r0 s0 os0 bs s r os \<Longrightarrow> eor_src r0 s0 os0 bs (s\<lparr>stopUnget := u\<rparr>) r os"
    unfolding eor_src_def by auto
next
  fix bs s r os
  assume "eor_src r0 s0 os0 bs s r os"
  then show "length bs \<le> (buffStop s - stop s) + inbox_left r os"
    using length_coming [of s r os] by (auto simp: eor_src_def)
qed

text \<open>The content of the record whose header was just read.\<close>

definition record_content :: "strm \<Rightarrow> 'z reqdata_scheme \<Rightarrow> os_state \<Rightarrow> byte list" where
  "record_content s r os = (if skip s then [] else take (contentLen s) (inp s r os))"

lemma eor_enter:
  assumes "lp_ok s" "\<not> isClosed s" "eorStop s" "stop s = rdNext s"
  shows "eor.avail r s os (record_content s r os) s r os"
proof -
  have "rbuf_ok s" "ready s = []" using assms by (auto simp: lp_ok_def rbuf_ok_def ready_def)
  then show ?thesis
    using assms coming_inp [of s r os]
    by (auto simp: eor.avail_def eor_src_def record_content_def input_left_def)
qed

text \<open>What is known after any operation on the record's content.\<close>

lemma eor_avail_left:
  assumes "eor.avail r0 s0 os0 bs s r os" "bs = []"
  shows "lp_ok s" "input_left s r os \<le> input_left s0 r0 os0" "r = r0" "same_reader s0 s" "same_out os0 os"
proof -
  have "lp_ok s \<and> input_left s r os \<le> input_left s0 r0 os0 \<and> r = r0 \<and> same_reader s0 s \<and> same_out os0 os"
  proof (cases "isClosed s")
    case True
    then show ?thesis
      using assms by (simp add: eor.avail_def eor_ended_def closed_at_def)
  next
    case False
    then have *: "rbuf_ok s" "ready s = []" "eor_src r0 s0 os0 [] s r os"
      using assms by (auto simp: eor.avail_def)
    then have "rdNext s = stop s" using ready_Nil_iff by auto
    then show ?thesis using * rbuf_ok_lp_ok [OF *(1)] by (auto simp: eor_src_def input_left_def)
  qed
  then show "lp_ok s" "input_left s r os \<le> input_left s0 r0 os0" "r = r0" "same_reader s0 s" "same_out os0 os"
    by blast+
qed

lemma inbox_left_sends: "sends fd bs os os' \<Longrightarrow> inbox_left r os' = inbox_left r os"
  by (simp add: inbox_left_def sends_inbox)

lemma input_left_sends: "sends fd bs os os' \<Longrightarrow> input_left s r os' = input_left s r os"
  by (simp add: input_left_def inbox_left_sends)

lemma write_it_all_input_left:
  "write_it_all fd bs os = (res, os') \<Longrightarrow> input_left s r os' = input_left s r os"
  using write_it_all_sends [of fd bs os res os'] by (auto simp: input_left_sends)

lemma unknown_reply_eq:
  "unknown_reply t = Inr (wire_record FCGI_UNKNOWN_TYPE FCGI_NULL_REQUEST_ID
     (unknown_body_bytes (MakeUnknownTypeBody t)) [])"
proof -
  let ?b = "unknown_body_bytes (MakeUnknownTypeBody t)"
  have len: "length ?b = 8"
    by (simp add: unknown_body_bytes_def MakeUnknownTypeBody_def)
  let ?h = "header_bytes (mk_header FCGI_UNKNOWN_TYPE FCGI_NULL_REQUEST_ID 8 0)"
  let ?r = "poke (replicate 64 (0 :: byte)) 0 ?h"
  have m: "memcpy_to (replicate 64 0) 0 ?h = Inr ?r" "memcpy_to ?r 8 ?b = Inr (poke ?r 8 ?b)"
    using len by (intro memcpy_to_Inr, simp)+
  have "take 8 ?r = ?h" by (simp add: poke_0)
  then have "take 16 (poke ?r 8 ?b) = ?h @ ?b"
    using len by (subst take_poke_end) simp_all
  then show ?thesis
    using m len by (simp add: unknown_reply_def MakeHeader_ok wire_record_def)
qed

lemma send_reply_cases:
  fixes r :: "'z reqdata_scheme"
  obtains os' where "send_reply k bs s r os = Inr (- 1, SetError (c_errno os') s, r, os')"
      "\<not> writes_ok (ipcFd r) os"
    | os' where "send_reply k bs s r os = Inr (k, s, r, os')" "sends (ipcFd r) bs os os'"
      "c_errno os' = c_errno os"
proof -
  obtain res os' where w: "write_it_all (ipcFd r) bs os = (res, os')" by fastforce
  from write_it_all_sends [OF w] show ?thesis
    using that w by (auto simp: send_reply_def)
qed

lemma send_reply_left:
  "\<exists>status s' os'. send_reply k bs s r os = Inr (status, s', r, os') \<and> status \<in> {- 1, k} \<and>
     lp_ok s' = lp_ok s \<and> input_left s' r os' = input_left s r os"
proof (cases "write_it_all (ipcFd r) bs os")
  case (Pair res os')
  have "input_left s r os' = input_left s r os" for s by (rule write_it_all_input_left [OF Pair])
  then show ?thesis using Pair by (simp add: send_reply_def input_left_def lp_ok_def)
qed

text \<open>\<^verbatim>\<open>ProcessBeginRecord\<close> on every branch.\<close>

lemma GetStr_record:
  assumes "lp_ok s" "\<not> isClosed s" "eorStop s" "stop s = rdNext s" "contentLen s = 8"
  obtains s' os' where
    "FCGX_GetStr FillBuffProc_eor 8 s r os = Inr (record_content s r os, s', r, os')"
    "lp_ok s'" "input_left s' r os' \<le> input_left s r os" "same_reader s s'" "same_out os os'"
    "eor.avail r s os [] s' r os'"
proof -
  let ?bs = "record_content s r os"
  have len: "length ?bs \<le> 8" using assms by (simp add: record_content_def)
  obtain s1 r1 os1 where 1: "FCGX_GetStr FillBuffProc_eor 8 s r os = Inr (take (nat 8) ?bs, s1, r1, os1)"
    "eor.avail r s os (drop (nat 8) ?bs) s1 r1 os1"
    using eor.GetStr_avail [OF eor_enter [OF assms(1-4)], of 8 r os] by auto
  have "drop (nat 8) ?bs = []" "take (nat 8) ?bs = ?bs" using len by simp_all
  then have 2: "FCGX_GetStr FillBuffProc_eor 8 s r os = Inr (?bs, s1, r1, os1)" "eor.avail r s os [] s1 r1 os1"
    using 1 by simp_all
  note left = eor_avail_left [OF 2(2) refl]
  show ?thesis
    using that [of s1 os1] 2 left by simp
qed

lemma ProcessBeginRecord_total:
  assumes "lp_ok s" "\<not> isClosed s" "eorStop s" "stop s = rdNext s"
  shows "\<exists>status s' r' os'. ProcessBeginRecord i s r os = Inr (status, s', r', os') \<and>
    status \<in> {FCGX_PROTOCOL_ERROR, - 1, SKIP, BEGIN_RECORD} \<and>
    lp_ok s' \<and> input_left s' r' os' \<le> input_left s r os"
proof (cases "i = 0 \<or> contentLen s \<noteq> 8")
  case True
  then show ?thesis using assms by (simp add: ProcessBeginRecord_def)
next
  case c: False
  show ?thesis
  proof (cases "isBeginProcessed r")
    case True
    then have run: "ProcessBeginRecord i s r os = send_reply SKIP (header_bytes (mk_header FCGI_END_REQUEST i 8 0) @
         end_body_bytes (MakeEndRequestBody 0 FCGI_CANT_MPX_CONN)) s r os"
      using c by (simp add: ProcessBeginRecord_def MakeHeader_ok)
    show ?thesis
      using run assms(1) send_reply_left [of SKIP "header_bytes (mk_header FCGI_END_REQUEST i 8 0) @
         end_body_bytes (MakeEndRequestBody 0 FCGI_CANT_MPX_CONN)" s r os] by auto
  next
    case False
    let ?r = "r\<lparr>requestId := i\<rparr>"
    have c8: "contentLen s = 8" using c by simp
    obtain s1 os1 where 1: "FCGX_GetStr FillBuffProc_eor 8 s ?r os = Inr (record_content s ?r os, s1, ?r, os1)"
      "lp_ok s1" "input_left s1 ?r os1 \<le> input_left s ?r os"
      using GetStr_record [OF assms c8, of ?r os] by metis
    have il: "input_left s1 (r\<lparr>requestId := i, keepConnection := a, role := b, isBeginProcessed := d\<rparr>) os1
        \<le> input_left s r os" "input_left s1 ?r os1 \<le> input_left s r os" for a b d
      using 1(3) by (simp_all add: input_left_def inbox_left_def)
    show ?thesis
      using c False 1(1,2) il by (simp add: ProcessBeginRecord_def Let_def)
  qed
qed


text \<open>\<^verbatim>\<open>ProcessManagementRecord\<close>: it ends with a status, or by a fault in its handling of
  \<^verbatim>\<open>FCGI_GET_VALUES\<close>; where it answers, it only consumed input and sent the answer.\<close>

lemma params_ok_take: "params_ok p xs \<Longrightarrow> take (cur p) (vec p) = map Some xs"
  by (auto simp: params_ok_def)

lemma values_reply_fuel: "values_reply ps \<noteq> Inl OutOfFuel"
proof -
  have "answer_all ps acc \<noteq> Inl OutOfFuel" for acc
    by (induction ps arbitrary: acc)
      (auto simp: answer_one_def Let_def rbind_def memcpy_to_def split: sum.splits option.splits if_splits prod.splits)
  moreover have "memcpy_to m i bs \<noteq> Inl OutOfFuel" "MakeHeader a b c d \<noteq> Inl OutOfFuel"
    for m bs :: "byte list" and i a b c d
    by (simp_all add: memcpy_to_def MakeHeader_def c_assert_def rbind_def)
  ultimately show ?thesis
    by (auto simp: values_reply_def rbind_def Let_def split: sum.splits if_splits prod.splits)
qed

lemma ProcessManagementRecord_total:
  assumes "lp_ok s" "\<not> isClosed s" "eorStop s" "stop s = rdNext s"
  shows "(t = FCGI_GET_VALUES \<and> (\<exists>f. ProcessManagementRecord t s r os = Inl f \<and> f \<noteq> OutOfFuel)) \<or>
    (\<exists>status s' os'. ProcessManagementRecord t s r os = Inr (status, s', r, os') \<and>
       status \<in> {FCGX_PROTOCOL_ERROR, - 1, MGMT_RECORD} \<and>
       (status = MGMT_RECORD \<longrightarrow> lp_ok s' \<and> input_left s' r os' \<le> input_left s r os))"
proof (cases "t = FCGI_GET_VALUES")
  case False
  then have run: "ProcessManagementRecord t s r os = send_reply MGMT_RECORD (wire_record FCGI_UNKNOWN_TYPE
      FCGI_NULL_REQUEST_ID (unknown_body_bytes (MakeUnknownTypeBody t)) []) s r os"
    by (simp add: ProcessManagementRecord_def NewParams_def unknown_reply_eq)
  show ?thesis
    using run assms(1) send_reply_left [of MGMT_RECORD "wire_record FCGI_UNKNOWN_TYPE
      FCGI_NULL_REQUEST_ID (unknown_body_bytes (MakeUnknownTypeBody t)) []" s r os] by auto
next
  case True
  obtain p0 where p0: "NewParams 3 = Inr p0" "params_ok p0 []" using NewParams_ok [of 3] by auto
  let ?bs = "record_content s r os"
  from eor.ReadParams_total [OF eor_enter [OF assms, of r os] p0(2)]
  show ?thesis
  proof (elim disjE conjE exE)
    assume "ReadParams FillBuffProc_eor p0 s r os = Inl AssertFailed"
    then show ?thesis using True p0 by (simp add: ProcessManagementRecord_def)
  next
    assume "ReadParams FillBuffProc_eor p0 s r os = Inl BufferOverrun"
    then show ?thesis using True p0 by (simp add: ProcessManagementRecord_def)
  next
    fix rc p' es s1 r1 os1
    assume 1: "ReadParams FillBuffProc_eor p0 s r os = Inr (rc, p', s1, r1, os1)" "params_ok p' ([] @ es)"
      "if rc = 0 then eor_ended r s os s1 r1 os1
       else rc = - 1 \<and> (\<exists>s2. s1 = SetError FCGX_PARAMS_ERROR s2 \<and> eor_ended r s os s2 r1 os1)"
    have r1: "r1 = r" using 1(3) by (auto simp: eor_ended_def split: if_splits)
    show ?thesis
    proof (cases "FCGX_GetError s1 \<noteq> 0 \<or> contentLen s1 \<noteq> 0")
      case bad: True
      then show ?thesis using True 1(1) p0 r1 by (simp add: ProcessManagementRecord_def)
    next
      case False
      then have "rc = 0" using 1(3) by (auto simp: FCGX_GetError_def split: if_splits)
      then have e: "closed_at (contentLen s + paddingLen s) s r os s1 os1"
        using 1(3) by (simp add: eor_ended_def)
      then have left: "lp_ok s1" "input_left s1 r os1 \<le> input_left s r os"
        by (simp_all add: closed_at_def)
      have run: "ProcessManagementRecord t s r os =
          rbind (values_reply (map Some es)) (\<lambda>reply. send_reply MGMT_RECORD reply s1 r os1)"
        using True 1(1) p0 r1 False params_ok_take [OF 1(2)] by (simp add: ProcessManagementRecord_def)
      show ?thesis
      proof (cases "values_reply (map Some es)")
        case (Inl f)
        then show ?thesis using run values_reply_fuel [of "map Some es"] True by auto
      next
        case (Inr reply)
        then have "ProcessManagementRecord t s r os = send_reply MGMT_RECORD reply s1 r os1"
          using run by simp
        then show ?thesis
          using left send_reply_left [of MGMT_RECORD reply s1 r os1] by auto
      qed
    qed
  qed
qed

text \<open>So \<^verbatim>\<open>ProcessHeader\<close> is a handler the loop can rely on, and never itself runs out of fuel.\<close>

lemma ProcessHeader_cases:
  assumes "lp_ok s" "\<not> isClosed s" "eorStop s" "stop s = rdNext s"
  shows "(\<exists>f. ProcessHeader h s r os = Inl f \<and> f \<noteq> OutOfFuel) \<or>
    (\<exists>status s' r' os'. ProcessHeader h s r os = Inr (status, s', r', os') \<and>
       status \<in> {FCGX_UNSUPPORTED_VERSION, FCGX_PROTOCOL_ERROR, - 1, STREAM_RECORD, SKIP, BEGIN_RECORD, MGMT_RECORD} \<and>
       (0 \<le> status \<longrightarrow> lp_ok s' \<and> input_left s' r' os' \<le> input_left s r os))"
proof -
  define s1 where "s1 = s\<lparr>contentLen := nat (header_contentLength h), paddingLen := unat (paddingLength h)\<rparr>"
  have s1: "lp_ok s1" "\<not> isClosed s1" "eorStop s1" "stop s1 = rdNext s1"
    and il: "input_left s1 r os = input_left s r os" for r :: "'a reqdata_scheme" and os
    using assms by (simp_all add: s1_def update_simps)
  note b = ProcessBeginRecord_total [OF s1, of "header_requestId h" r os]
  note m = ProcessManagementRecord_total [OF s1, of "uint (htype h)" r os]
  show ?thesis
  proof (cases "uint (version h) = 1")
    case False
    then show ?thesis by (simp add: ProcessHeader_def)
  next
    case v: True
    have run: "ProcessHeader h s r os =
        (if uint (htype h) = 1 then ProcessBeginRecord (header_requestId h) s1 r os
         else if header_requestId h = 0 then ProcessManagementRecord (uint (htype h)) s1 r os
         else if header_requestId h \<noteq> requestId r then Inr (1, s1, r, os)
         else if uint (htype h) \<noteq> stype s1 then Inr (- 3, s1, r, os)
         else Inr (0, s1, r, os))"
      using v by (simp add: ProcessHeader_def s1_def Let_def)
    consider "uint (htype h) = 1" | "uint (htype h) \<noteq> 1" "header_requestId h = 0"
      | "uint (htype h) \<noteq> 1" "header_requestId h \<noteq> 0" by blast
    then show ?thesis
    proof cases
      case 1
      then show ?thesis using b run il [of r os] by fastforce
    next
      case 2
      then show ?thesis using m run il [of r os] by (elim disjE) (fastforce)+
    next
      case 3
      then show ?thesis using run il [of r os] s1(1) by auto
    qed
  qed
qed

lemma handler_ok_ProcessHeader: "handler_ok ProcessHeader"
proof -
  have "lp_ok s' \<and> input_left s' r' os' \<le> input_left s r os"
    if "lp_ok s" "eorStop s" "stop s = rdNext s" "\<not> isClosed s"
      "ProcessHeader h s r os = Inr (status, s', r', os')" "0 \<le> status"
    for h s and r :: "'a reqdata_scheme" and os status s' r' os'
    using ProcessHeader_cases [OF that(1,4,2,3), of h r os] that(5,6) by auto
  then show ?thesis unfolding handler_ok_def by blast
qed

end
