(* ===== verification/ReaderStream.thy ===== *)
theory ReaderStream
  imports ReaderRecord
begin

text \<open>
  The outer calls of \<^verbatim>\<open>FillBuffProc\<close>: what a stream delivers from a connection that carries any
  sequence of records, and that it does so whatever the sizes of the reads.
\<close>

section \<open>Reaching the next header\<close>

text \<open>What skipping to a header leaves as it was.\<close>

definition skimmed :: "strm \<Rightarrow> os_state \<Rightarrow> strm \<Rightarrow> os_state \<Rightarrow> bool" where
  "skimmed s os s' os' \<longleftrightarrow> lp_ok s' \<and> \<not> isClosed s' \<and> \<not> eorStop s' \<and> same_reader s s' \<and> same_out os os' \<and>
     c_errno os' = c_errno os \<and> FCGI_errno s' = FCGI_errno s \<and> contentLen s' = 0 \<and> paddingLen s' = 0 \<and>
     skip s' = (skip s \<and> contentLen s = 0)"

text \<open>The loop entered at \<open>s\<close> does what the dispatch of the header \<open>h\<close> at \<open>s'\<close> says.\<close>

definition dispatches ::
  "'z handler \<Rightarrow> byte list \<Rightarrow> strm \<Rightarrow> 'z reqdata_scheme \<Rightarrow> os_state \<Rightarrow> FCGI_Header \<Rightarrow> strm \<Rightarrow> os_state \<Rightarrow> bool" where
  "dispatches ph hdr s r os h s' os' \<longleftrightarrow>
     (\<forall>y. fill_dispatch ph h s' r os' = Inr (Return y) \<longrightarrow> fills ph hdr s r os y) \<and>
     (\<forall>h2 s2 r2 os2 y. fill_dispatch ph h s' r os' = Inr (Continue h2 (s2, r2, os2)) \<longrightarrow>
        fills ph h2 s2 r2 os2 y \<longrightarrow> fills ph hdr s r os y)"

lemma dispatches_step:
  "fill_step ph hdr s r os = fill_dispatch ph h s' r os' \<Longrightarrow> dispatches ph hdr s r os h s' os'"
  unfolding dispatches_def by (auto intro: fills.returns fills.continues)

lemma dispatches_continue:
  "fill_step ph hdr s r os = Inr (Continue hdr1 (s1, r, os1)) \<Longrightarrow> dispatches ph hdr1 s1 r os1 h s' os' \<Longrightarrow>
    dispatches ph hdr s r os h s' os'"
  unfolding dispatches_def by (blast intro: fills.continues)

lemma skimmed_trans:
  assumes "skimmed s1 os1 s2 os2" "same_reader s s1" "same_out os os1" "c_errno os1 = c_errno os"
    "FCGI_errno s1 = FCGI_errno s" "(skip s1 \<and> contentLen s1 = 0) = (skip s \<and> contentLen s = 0)"
  shows "skimmed s os s2 os2"
  using assms unfolding skimmed_def by (auto intro: same_reader_trans same_out_trans)

lemma take_inp:
  "lp_ok s \<Longrightarrow> k \<le> buffStop s - rdNext s \<Longrightarrow> slice (rdNext s) (rdNext s + k) (buff s) = take k (inp s r os)"
  using length_buffered [of s] by (auto simp: inp_def buffered_def min_def)

text \<open>Past the padding: part of the header, or all of it.\<close>

lemma header_tail:
  fixes r :: "'z reqdata_scheme"
  assumes s: "lp_ok s" and len: "length hdr + length hrest = 8" "hrest \<noteq> []" and inp: "inp s r os = hrest @ X"
  obtains
    (all) k where "k = length hrest" "k \<le> buffStop s - rdNext s"
      "fill_header ph hdr s r os = fill_dispatch ph (header_of_bytes (hdr @ hrest)) (s\<lparr>rdNext := rdNext s + k\<rparr>) r os"
  | (part) k where "k = buffStop s - rdNext s" "k < length hrest"
      "fill_header ph hdr s r os = Inr (Continue (hdr @ take k hrest) (s\<lparr>rdNext := rdNext s + k\<rparr>, r, os))"
proof (cases "length hrest \<le> buffStop s - rdNext s")
  case True
  have "slice (rdNext s) (rdNext s + length hrest) (buff s) = hrest"
    using take_inp [OF s True, of r os] inp by simp
  moreover have "min (8 - length hdr) (buffStop s - rdNext s) = length hrest"
    using True len by simp
  ultimately show ?thesis
    using True len by (intro all) (simp_all add: fill_header_def Let_def)
next
  case False
  let ?k = "buffStop s - rdNext s"
  have "slice (rdNext s) (rdNext s + ?k) (buff s) = take ?k hrest"
    using take_inp [OF s, of ?k r os] inp False by simp
  moreover have "min (8 - length hdr) ?k = ?k" using False len by simp
  ultimately show ?thesis
    using False len by (intro part) (simp_all add: fill_header_def Let_def)
qed

lemma to_header:
  assumes "lp_ok s" "\<not> isClosed s" "\<not> eorStop s" "contentLen s = 0 \<or> skip s"
    and "inp s r os = gone @ hrest @ X" "length gone = contentLen s + paddingLen s"
    and "length hdr + length hrest = 8" "hrest \<noteq> []"
  shows "\<exists>s' os'. skimmed s os s' os' \<and> inp s' r os' = X \<and>
    input_left s' r os' + length gone + length hrest = input_left s r os \<and>
    dispatches ph hdr s r os (header_of_bytes (hdr @ hrest)) s' os'"
  using assms
proof (induction "input_left s r os" arbitrary: s os gone hrest hdr rule: less_induct)
  case less
  show ?case
  proof (cases rule: fill_refill_cases [OF less.prems(1), of r os])
    case (1 e os')
    then show ?thesis using less.prems(5,8) by simp
  next
    case (2 b n m os1)
    define s1 where "s1 = s\<lparr>buff := b, rdNext := n, buffStop := m\<rparr>"
    have s1: "lp_ok s1" "rdNext s1 < buffStop s1" "\<not> isClosed s1" "\<not> eorStop s1"
      "contentLen s1 = contentLen s" "paddingLen s1 = paddingLen s" "skip s1 = skip s"
      "same_reader s s1" "inp s1 r os1 = gone @ hrest @ X" "input_left s1 r os1 = input_left s r os"
      "FCGI_errno s1 = FCGI_errno s"
      using 2 less.prems by (simp_all add: s1_def same_reader_def)
    note os1 = 2(6,7)
    have step: "fill_step ph hdr s r os = (case fill_content s1 of
       (Deliver, s) \<Rightarrow> Inr (Return (s, r, os1))
     | (Again, s) \<Rightarrow> Inr (Continue hdr (s, r, os1))
     | (Through, s) \<Rightarrow>
         (case fill_padding s of
            (Through, s) \<Rightarrow>
              if eorStop s
              then Inr (Return (s\<lparr>stop := rdNext s, isClosed := True\<rparr>, r, os1))
              else fill_header ph hdr s r os1
          | (_, s) \<Rightarrow> Inr (Continue hdr (s, r, os1))))"
      using 2(1) by (simp add: fill_step_def s1_def)
    have again: ?thesis
      if st: "fill_step ph hdr s r os = Inr (Continue hdr1 (s2, r, os1))"
        and s2: "lp_ok s2" "\<not> isClosed s2" "\<not> eorStop s2" "contentLen s2 = 0 \<or> skip s2" "same_reader s s2"
          "FCGI_errno s2 = FCGI_errno s" "(skip s2 \<and> contentLen s2 = 0) = (skip s \<and> contentLen s = 0)"
        and i2: "inp s2 r os1 = gone1 @ hrest1 @ X" "length gone1 = contentLen s2 + paddingLen s2"
          "hdr1 @ hrest1 = hdr @ hrest" "length hdr1 + length hrest1 = 8" "hrest1 \<noteq> []"
        and lt: "input_left s2 r os1 < input_left s r os"
          "input_left s2 r os1 + length gone + length hrest = input_left s r os + length gone1 + length hrest1"
      for hdr1 s2 gone1 hrest1
    proof -
      obtain s3 os3 where 3: "skimmed s2 os1 s3 os3" "inp s3 r os3 = X"
        "input_left s3 r os3 + length gone1 + length hrest1 = input_left s2 r os1"
        "dispatches ph hdr1 s2 r os1 (header_of_bytes (hdr1 @ hrest1)) s3 os3"
        using less.hyps [OF lt(1) s2(1-4) i2(1,2,4,5)] by auto
      have "skimmed s os s3 os3" by (rule skimmed_trans [OF 3(1) s2(5) os1 s2(6,7)])
      moreover have "input_left s3 r os3 + length gone + length hrest = input_left s r os"
        using 3(3) lt(2) by linarith
      ultimately show ?thesis
        using 3(2) dispatches_continue [OF st 3(4)] i2(3)
        by (intro exI [of _ s3] exI [of _ os3]) simp
    qed
    have tail: ?thesis
      if c: "fill_content s1 = (Through, s2)" and s2: "lp_ok s2" "\<not> isClosed s2" "\<not> eorStop s2" "contentLen s2 = 0"
        "paddingLen s2 = paddingLen s" "same_reader s s2" "FCGI_errno s2 = FCGI_errno s"
        "input_left s2 r os1 + contentLen s = input_left s r os"
        "inp s2 r os1 = drop (contentLen s) gone @ hrest @ X"
        "skip s2 = (skip s \<and> contentLen s = 0)" "rdNext s2 < buffStop s2 \<or> 0 < contentLen s"
      for s2
    proof (cases rule: fill_padding_cases [OF s2(1)])
      case 1
      let ?k = "buffStop s2 - rdNext s2"
      let ?s3 = "s2\<lparr>paddingLen := paddingLen s2 - ?k, rdNext := buffStop s2\<rparr>"
      have st: "fill_step ph hdr s r os = Inr (Continue hdr (?s3, r, os1))"
        using step c 1 by simp
      have "?k \<le> length (drop (contentLen s) gone)" using 1(1) s2(5) less.prems(6) by simp
      then have i3: "inp ?s3 r os1 = drop (contentLen s + ?k) gone @ hrest @ X"
        using s2(1,9) by (subst inp_advance [of s2 ?k]) (auto simp: lp_ok_def add.commute)
      show ?thesis
        by (rule again [OF st _ _ _ _ _ _ _ i3])
          (use s2 1(1) less.prems(6-8) in \<open>auto simp: lp_ok_def same_reader_def input_left_def\<close>)
    next
      case 2
      let ?s3 = "s2\<lparr>paddingLen := 0, rdNext := rdNext s2 + paddingLen s2\<rparr>"
      have s3: "lp_ok ?s3" "same_reader s ?s3"
        "input_left ?s3 r os1 + paddingLen s = input_left s2 r os1"
        using s2 2(1) by (auto simp: lp_ok_def same_reader_def input_left_def)
      have gl: "length gone = contentLen s + paddingLen s" by (rule less.prems(6))
      have i3: "inp ?s3 r os1 = hrest @ X"
        using s2 2(1) gl by (subst inp_advance [of s2 "paddingLen s2"]) auto
      have run: "fill_step ph hdr s r os = fill_header ph hdr ?s3 r os1"
        using step c 2(2) s2(3) by simp
      show ?thesis
      proof (cases rule: header_tail [OF s3(1) less.prems(7,8) i3, of ph])
        case (1 k)
        let ?s4 = "?s3\<lparr>rdNext := rdNext ?s3 + k\<rparr>"
        have "inp ?s4 r os1 = X"
          using s3(1) 1 i3 by (subst inp_advance [of ?s3 k]) auto
        moreover have "skimmed s os ?s4 os1"
          using s2 s3 1(2) 2(1) os1 unfolding skimmed_def
          by (auto simp: lp_ok_def same_reader_def)
        moreover have "input_left ?s4 r os1 + k = input_left ?s3 r os1"
          using input_left_advance [OF s3(1) 1(2), of r os1] by simp
        ultimately show ?thesis
          using dispatches_step [of ph hdr s r os "header_of_bytes (hdr @ hrest)" ?s4 os1] run 1 s2(8) s3(3) gl
          by (intro exI [of _ ?s4] exI [of _ os1]) simp
      next
        case p: (2 k)
        let ?s4 = "?s3\<lparr>rdNext := rdNext ?s3 + k\<rparr>"
        have st: "fill_step ph hdr s r os = Inr (Continue (hdr @ take k hrest) (?s4, r, os1))"
          using run p(3) by simp
        have i4: "inp ?s4 r os1 = [] @ drop k hrest @ X"
          using s3(1) p(1,2) i3 by (subst inp_advance [of ?s3 k]) auto
        have l4: "input_left ?s4 r os1 + k = input_left ?s3 r os1"
          using input_left_advance [OF s3(1), of k r os1] p(1) by simp
        have pos: "0 < contentLen s + paddingLen s + k"
          using s2(11,5) p(1) 2(1) by auto
        show ?thesis
          by (rule again [OF st _ _ _ _ _ _ _ i4])
            (use s2 s3 p(1,2) less.prems(7) gl pos l4 in \<open>auto simp: lp_ok_def same_reader_def\<close>)
      qed
    qed
    show ?thesis
    proof (cases rule: fill_content_cases [OF s1(1,2)])
      case 1
      show ?thesis
        using 1 s1 by (intro tail [OF 1(2)]) simp_all
    next
      case (2 k)
      then show ?thesis using less.prems(4) s1(5,7) by simp
    next
      case 3
      let ?k = "buffStop s1 - rdNext s1"
      let ?s2 = "s1\<lparr>contentLen := contentLen s1 - ?k, rdNext := buffStop s1\<rparr>"
      have st: "fill_step ph hdr s r os = Inr (Continue hdr (?s2, r, os1))"
        using step 3(3) by simp
      have "?k \<le> length gone" using 3(2) s1(5) less.prems(6) by simp
      then have i2: "inp ?s2 r os1 = drop ?k gone @ hrest @ X"
        using s1 by (subst inp_advance [of s1 ?k]) auto
      show ?thesis
        by (rule again [OF st _ _ _ _ _ _ _ i2])
          (use s1 3(1,2) less.prems(6-8) in \<open>auto simp: lp_ok_def same_reader_def input_left_def\<close>)
    next
      case 4
      let ?s2 = "s1\<lparr>contentLen := 0, rdNext := rdNext s1 + contentLen s1, skip := False\<rparr>"
      have "inp ?s2 r os1 = drop (contentLen s) gone @ hrest @ X"
        using s1 4(3) less.prems(6) by (subst inp_advance [of s1 "contentLen s1"]) auto
      then show ?thesis
        using s1 4 by (intro tail [OF 4(4)]) (auto simp: lp_ok_def input_left_def same_reader_def)
    qed
  qed
qed

section \<open>What a stream delivers\<close>

text \<open>A record on the wire: type, request id, content, padding.\<close>

type_synonym wrec = "int \<times> int \<times> byte list \<times> byte list"

definition wire_all :: "wrec list \<Rightarrow> byte list" where
  "wire_all rs = concat (map (\<lambda>(t, i, c, p). wire_record t i c p) rs)"

definition rec_ok :: "wrec \<Rightarrow> bool" where
  "rec_ok = (\<lambda>(t, i, c, p). 0 \<le> t \<and> t < 256 \<and> 0 \<le> i \<and> i < 2 ^ 16 \<and> length c \<le> 65535 \<and> length p \<le> 255)"

lemma wire_all_simps [simp]:
  "wire_all [] = []"
  "wire_all ((t, i, c, p) # rs) = wire_record t i c p @ wire_all rs"
  by (simp_all add: wire_all_def)

text \<open>The answer to a \<^verbatim>\<open>FCGI_GET_VALUES\<close> record with that content, if it is one the code can handle.\<close>

definition values_answer :: "byte list \<Rightarrow> byte list option" where
  "values_answer c =
     (case dec_pairs c of
        Some (es, rc) \<Rightarrow>
          if rc = 0 then (case values_reply (map Some es) of Inr reply \<Rightarrow> Some reply | Inl _ \<Rightarrow> None) else None
      | None \<Rightarrow> None)"

text \<open>
  The stream of type \<open>t\<close> of request \<open>i\<close>, reading records \<open>rs\<close> of which its empty record is the last.
  \<open>sk\<close> is a \<^verbatim>\<open>skip\<close> flag left over from a record of another request without content: the code clears
  it only when it has skipped some content, so it drops the content of the next record (of this
  stream, or of a management record). The content of a management record of unknown type is not
  consumed by its handler and so becomes data of the stream.
\<close>

fun stream_ok :: "int \<Rightarrow> int \<Rightarrow> bool \<Rightarrow> wrec list \<Rightarrow> bool" where
  "stream_ok t i sk [] = False"
| "stream_ok t i sk ((t', i', c, p) # rs) =
     (rec_ok (t', i', c, p) \<and>
      (if t' = FCGI_BEGIN_REQUEST then i' \<noteq> 0 \<and> length c = 8 \<and> stream_ok t i False rs
       else if i' = 0 then
         (t' = FCGI_GET_VALUES \<longrightarrow> values_answer (if sk then [] else c) \<noteq> None) \<and> stream_ok t i (sk \<and> c = []) rs
       else if i' \<noteq> i then stream_ok t i (c = []) rs
       else t' = t \<and> (if c = [] then rs = [] else stream_ok t i False rs)))"

fun delivered :: "int \<Rightarrow> int \<Rightarrow> bool \<Rightarrow> wrec list \<Rightarrow> byte list" where
  "delivered t i sk [] = []"
| "delivered t i sk ((t', i', c, p) # rs) =
     (if t' = FCGI_BEGIN_REQUEST then delivered t i False rs
      else if i' = 0 then
        (if t' = FCGI_GET_VALUES \<or> sk then [] else c) @ delivered t i (sk \<and> c = []) rs
      else if i' \<noteq> i then delivered t i (c = []) rs
      else (if sk then [] else c) @ delivered t i False rs)"

text \<open>What is sent to the peer meanwhile.\<close>

fun answers :: "int \<Rightarrow> int \<Rightarrow> bool \<Rightarrow> wrec list \<Rightarrow> byte list" where
  "answers t i sk [] = []"
| "answers t i sk ((t', i', c, p) # rs) =
     (if t' = FCGI_BEGIN_REQUEST then
        wire_record FCGI_END_REQUEST i' (end_body_bytes (MakeEndRequestBody 0 FCGI_CANT_MPX_CONN)) [] @
        answers t i False rs
      else if i' = 0 then
        (if t' = FCGI_GET_VALUES then the (values_answer (if sk then [] else c))
         else wire_record FCGI_UNKNOWN_TYPE 0 (unknown_body_bytes (MakeUnknownTypeBody t')) []) @
        answers t i (sk \<and> c = []) rs
      else if i' \<noteq> i then answers t i (c = []) rs
      else answers t i False rs)"

definition last_pad :: "wrec list \<Rightarrow> byte list" where
  "last_pad rs = snd (snd (snd (last rs)))"

lemma last_pad_Cons [simp]: "rs \<noteq> [] \<Longrightarrow> last_pad (x # rs) = last_pad rs"
  by (simp add: last_pad_def)

lemma stream_ok_ne: "stream_ok t i sk rs \<Longrightarrow> rs \<noteq> []"
  by (cases rs) auto

section \<open>Handling one header\<close>

lemma wire_header:
  assumes "rec_ok (t, i, c, p)"
  shows "wire_record t i c p = header_bytes (mk_header t i (int (length c)) (int (length p))) @ c @ p"
    "uint (htype (mk_header t i (int (length c)) (int (length p)))) = t"
    "header_requestId (mk_header t i (int (length c)) (int (length p))) = i"
    "header_contentLength (mk_header t i (int (length c)) (int (length p))) = int (length c)"
    "unat (paddingLength (mk_header t i (int (length c)) (int (length p)))) = length p"
  using assms by (simp_all add: rec_ok_def wire_record_def uint_word_of_int unsigned_of_nat take_bit_nat_eq_self)

text \<open>The state \<^verbatim>\<open>ProcessHeader\<close> leaves in a record's handler.\<close>

definition in_record :: "byte list \<Rightarrow> byte list \<Rightarrow> strm \<Rightarrow> strm" where
  "in_record c p s = s\<lparr>eorStop := True, stop := rdNext s, contentLen := length c, paddingLen := length p\<rparr>"

text \<open>Back at the head of the loop, with the record's content still to come.\<close>

definition past_header :: "byte list \<Rightarrow> byte list \<Rightarrow> bool \<Rightarrow> strm \<Rightarrow> strm" where
  "past_header c p sk s = s\<lparr>eorStop := False, isClosed := False, stop := rdNext s, contentLen := length c,
     paddingLen := length p, skip := sk\<rparr>"

lemma past_header_simps [simp]:
  "rdNext (past_header c p sk s) = rdNext s" "stop (past_header c p sk s) = rdNext s"
  "buffStop (past_header c p sk s) = buffStop s" "buff (past_header c p sk s) = buff s"
  "contentLen (past_header c p sk s) = length c" "paddingLen (past_header c p sk s) = length p"
  "skip (past_header c p sk s) = sk" "\<not> isClosed (past_header c p sk s)" "\<not> eorStop (past_header c p sk s)"
  "FCGI_errno (past_header c p sk s) = FCGI_errno s" "stype (past_header c p sk s) = stype s"
  "lp_ok (past_header c p sk s) = lp_ok s" "input_left (past_header c p sk s) r os = input_left s r os"
  "inp (past_header c p sk s) r os = inp s r os" "same_reader s0 (past_header c p sk s) = same_reader s0 s"
  by (simp_all add: past_header_def lp_ok_def input_left_def inp_def buffered_def same_reader_def)

lemma send_reply_ok:
  assumes "writes_ok (ipcFd r) os"
  obtains os' where "send_reply k bs s r os = Inr (k, s, r, os')" "sends (ipcFd r) bs os os'"
    "c_errno os' = c_errno os"
  using assms by (rule_tac send_reply_cases [of k bs s r os]) auto

lemma sends_arriving: "sends fd bs os os' \<Longrightarrow> arriving fd' os' = arriving fd' os"
  by (simp add: arriving_def sends_inbox sends_shutdown)

lemma sends_inp: "sends fd bs os os' \<Longrightarrow> inp s r os' = inp s r os"
  by (simp add: inp_def sends_arriving)

text \<open>A record of the stream, with content and without.\<close>

lemma dispatch_stream:
  assumes "rec_ok (t, i, c, p)" "t \<noteq> 1" "i \<noteq> 0" "requestId r = i" "stype s = t"
  shows "fill_dispatch ProcessHeader (mk_header t i (int (length c)) (int (length p))) s r os =
    (if c = []
     then Inr (Return ((past_header [] p (skip s) s)\<lparr>wrNext := rdNext s, isClosed := True\<rparr>, r, os))
     else Inr (Continue [] (past_header c p (skip s) s, r, os)))"
  using assms wire_header [OF assms(1)]
  by (cases s) (simp add: fill_dispatch_def ProcessHeader_def past_header_def Let_def)

text \<open>A record of another request.\<close>

lemma dispatch_other:
  assumes "rec_ok (t, i, c, p)" "t \<noteq> 1" "i \<noteq> 0" "requestId r \<noteq> i"
  shows "fill_dispatch ProcessHeader (mk_header t i (int (length c)) (int (length p))) s r os =
    Inr (Continue [] (past_header c p True s, r, os))"
  using assms wire_header [OF assms(1)]
  by (cases s) (simp add: fill_dispatch_def ProcessHeader_def past_header_def Let_def)

text \<open>A request to multiplex the connection.\<close>

lemma dispatch_begin:
  assumes "rec_ok (1, i, c, p)" "i \<noteq> 0" "length c = 8" "isBeginProcessed r" "writes_ok (ipcFd r) os"
  obtains os' where "fill_dispatch ProcessHeader (mk_header 1 i (int (length c)) (int (length p))) s r os =
      Inr (Continue [] (past_header c p True s, r, os'))" "c_errno os' = c_errno os"
    "sends (ipcFd r) (wire_record FCGI_END_REQUEST i (end_body_bytes (MakeEndRequestBody 0 FCGI_CANT_MPX_CONN)) []) os os'"
proof -
  have b: "header_bytes (mk_header 3 i 8 0) @ end_body_bytes (MakeEndRequestBody 0 1) =
      wire_record 3 i (end_body_bytes (MakeEndRequestBody 0 1)) []"
    by (simp add: wire_record_def end_body_bytes_def MakeEndRequestBody_def)
  obtain os' where 1: "send_reply SKIP (wire_record 3 i (end_body_bytes (MakeEndRequestBody 0 1)) [])
      (in_record c p s) r os = Inr (SKIP, in_record c p s, r, os')" "c_errno os' = c_errno os"
    "sends (ipcFd r) (wire_record 3 i (end_body_bytes (MakeEndRequestBody 0 1)) []) os os'"
    using send_reply_ok [OF assms(5), of 1] by metis
  have "fill_dispatch ProcessHeader (mk_header 1 i (int (length c)) (int (length p))) s r os =
      Inr (Continue [] (past_header c p True s, r, os'))"
    using assms wire_header [OF assms(1)] 1(1) b
    by (cases s) (simp add: fill_dispatch_def ProcessHeader_def ProcessBeginRecord_def MakeHeader_ok
        past_header_def in_record_def Let_def)
  then show ?thesis using that 1 by blast
qed

text \<open>A management record of unknown type.\<close>

lemma dispatch_unknown:
  assumes "rec_ok (t, 0, c, p)" "t \<noteq> 1" "t \<noteq> 9" "writes_ok (ipcFd r) os"
  obtains os' where "fill_dispatch ProcessHeader (mk_header t 0 (int (length c)) (int (length p))) s r os =
      Inr (Continue [] (past_header c p (skip s) s, r, os'))" "c_errno os' = c_errno os"
    "sends (ipcFd r) (wire_record FCGI_UNKNOWN_TYPE 0 (unknown_body_bytes (MakeUnknownTypeBody t)) []) os os'"
proof -
  obtain os' where 1: "send_reply MGMT_RECORD (wire_record 11 0 (unknown_body_bytes (MakeUnknownTypeBody t)) [])
      (in_record c p s) r os = Inr (MGMT_RECORD, in_record c p s, r, os')" "c_errno os' = c_errno os"
    "sends (ipcFd r) (wire_record 11 0 (unknown_body_bytes (MakeUnknownTypeBody t)) []) os os'"
    using send_reply_ok [OF assms(4), of 3] by metis
  have "fill_dispatch ProcessHeader (mk_header t 0 (int (length c)) (int (length p))) s r os =
      Inr (Continue [] (past_header c p (skip s) s, r, os'))"
    using assms wire_header [OF assms(1)] 1(1)
    by (cases s) (simp add: fill_dispatch_def ProcessHeader_def ProcessManagementRecord_def NewParams_def
        unknown_reply_eq past_header_def in_record_def Let_def)
  then show ?thesis using that 1 by blast
qed

text \<open>A \<^verbatim>\<open>FCGI_GET_VALUES\<close> record followed by at least one more byte.\<close>

lemma dispatch_values:
  fixes r :: "'z reqdata_scheme"
  assumes rec: "rec_ok (9, 0, c, p)" and s: "lp_ok s" "\<not> isClosed s" "FCGI_errno s = 0"
    and w: "writes_ok (ipcFd r) os" and inp: "inp s r os = c @ p @ X" "X \<noteq> []"
    and ans: "values_answer (if skip s then [] else c) = Some reply"
  obtains s' os' where
    "fill_dispatch ProcessHeader (mk_header 9 0 (int (length c)) (int (length p))) s r os =
       Inr (Continue [] (s', r, os'))"
    "lp_ok s'" "\<not> isClosed s'" "\<not> eorStop s'" "contentLen s' = 0" "paddingLen s' = 0" "inp s' r os' = X"
    "same_reader s s'" "FCGI_errno s' = 0" "skip s' = (skip s \<and> c = [])"
    "input_left s' r os' \<le> input_left s r os"
    "sent (conns os' (ipcFd r)) = sent (conns os (ipcFd r)) @ reply" "writes_ok (ipcFd r) os'"
proof -
  define s0 where "s0 = in_record c p s"
  have s0: "lp_ok s0" "\<not> isClosed s0" "eorStop s0" "stop s0 = rdNext s0" "contentLen s0 = length c"
    "paddingLen s0 = length p" "inp s0 r os = c @ p @ X" "FCGI_errno s0 = 0" "skip s0 = skip s"
    "same_reader s s0" "input_left s0 r os = input_left s r os"
    using s inp by (simp_all add: s0_def in_record_def lp_ok_def inp_def buffered_def same_reader_def input_left_def)
  have rc: "record_content s0 r os = (if skip s then [] else c)"
    using s0 by (simp add: record_content_def)
  obtain es where es: "dec_pairs (record_content s0 r os) = Some (es, 0)" "values_reply (map Some es) = Inr reply"
    using ans unfolding rc values_answer_def by (auto split: option.splits if_splits sum.splits)
  obtain p0 where p0: "NewParams 3 = Inr p0" "params_ok p0 []" using NewParams_ok [of 3] by auto
  obtain p1 s1 r1 os1 where 1: "ReadParams FillBuffProc_eor p0 s0 r os = Inr (0, p1, s1, r1, os1)"
    "params_ok p1 es" "eor_ended r s0 os s1 r1 os1"
    using eor.ReadParams_avail [OF eor_enter [OF s0(1-4), of r os] es(1) p0(2)] by auto
  have e: "r1 = r" "closed_at (contentLen s0 + paddingLen s0) s0 r os s1 os1"
    using 1(3) by (simp_all add: eor_ended_def)
  have "contentLen s0 + paddingLen s0 < length (inp s0 r os)" using s0 inp(2) by simp
  then have c1: "lp_ok s1" "contentLen s1 = 0" "paddingLen s1 = 0" "stop s1 = rdNext s1"
    "inp s1 r os1 = X" "FCGI_errno s1 = 0" "skip s1 = (skip s \<and> c = [])" "same_reader s0 s1" "same_out os os1"
    "input_left s1 r os1 \<le> input_left s0 r os"
    using e(2) s0 by (simp_all add: closed_at_def)
  have ok1: "writes_ok (ipcFd r) os1" "sent (conns os1 (ipcFd r)) = sent (conns os (ipcFd r))"
    using w c1(9) by (simp_all add: writes_ok_def same_out_def)
  obtain os2 where 2: "send_reply MGMT_RECORD reply s1 r os1 = Inr (MGMT_RECORD, s1, r, os2)"
    "sends (ipcFd r) reply os1 os2"
    using send_reply_ok [OF ok1(1), of 3] by metis
  have man: "ProcessManagementRecord 9 s0 r os = Inr (MGMT_RECORD, s1, r, os2)"
    using p0(1) 1(1) e(1) c1 es(2) 2(1) params_ok_take [OF 1(2)]
    by (simp add: ProcessManagementRecord_def FCGX_GetError_def)
  let ?s = "s1\<lparr>eorStop := False, isClosed := False\<rparr>"
  have "fill_dispatch ProcessHeader (mk_header 9 0 (int (length c)) (int (length p))) s r os =
      Inr (Continue [] (?s, r, os2))"
    using wire_header [OF rec] man
    by (cases s) (simp add: fill_dispatch_def ProcessHeader_def s0_def in_record_def Let_def)
  moreover have "lp_ok ?s" "same_reader s ?s" "inp ?s r os2 = X" "input_left ?s r os2 \<le> input_left s r os"
    using c1 s0 sends_inp [OF 2(2), of s1 r] input_left_sends [OF 2(2), of s1 r]
    by (auto simp: lp_ok_def inp_def buffered_def input_left_def intro: same_reader_trans simp: same_reader_def)
  ultimately show ?thesis
    using that [of ?s os2] c1 ok1 sends_sent [OF 2(2)] sends_writes_ok [OF 2(2) ok1(1)] by simp
qed

section \<open>The stream as a source\<close>

text \<open>
  Where a stream stands: \<open>con\<close> is what is left of the current record's content, \<open>pad\<close> of its padding,
  \<open>rs\<close> are the records to come and \<open>X\<close> what follows them on the connection. \<open>P\<close> is the padding of the
  stream's empty record and \<open>T\<close> all that will have been sent when it is reached.
\<close>

definition stream_at ::
  "int \<Rightarrow> byte list \<Rightarrow> byte list \<Rightarrow> byte list \<Rightarrow> byte list \<Rightarrow> byte list \<Rightarrow> wrec list \<Rightarrow>
    strm \<Rightarrow> 'z reqdata_scheme \<Rightarrow> os_state \<Rightarrow> bool" where
  "stream_at t P T X con pad rs s r os \<longleftrightarrow>
     \<not> eorStop s \<and> stype s = t \<and> t \<noteq> FCGI_BEGIN_REQUEST \<and> FCGI_errno s = 0 \<and>
     isBeginProcessed r \<and> requestId r \<noteq> 0 \<and> writes_ok (ipcFd r) os \<and>
     length con = contentLen s \<and> length pad = paddingLen s \<and>
     stream_ok t (requestId r) (skip s \<and> con = []) rs \<and> last_pad rs = P \<and>
     sent (conns os (ipcFd r)) @ answers t (requestId r) (skip s \<and> con = []) rs = T"

definition pending_data :: "int \<Rightarrow> byte list \<Rightarrow> wrec list \<Rightarrow> strm \<Rightarrow> 'z reqdata_scheme \<Rightarrow> byte list" where
  "pending_data t con rs s r =
     (if skip s then [] else con) @ delivered t (requestId r) (skip s \<and> con = []) rs"

definition stream_src ::
  "'z reqdata_scheme \<Rightarrow> strm \<Rightarrow> byte list \<Rightarrow> byte list \<Rightarrow> byte list \<Rightarrow>
    byte list \<Rightarrow> strm \<Rightarrow> 'z reqdata_scheme \<Rightarrow> os_state \<Rightarrow> bool" where
  "stream_src r0 s0 P T X bs s r os \<longleftrightarrow>
     r = r0 \<and> same_reader s0 s \<and>
     (\<exists>con pad rs. coming s r os = con @ pad @ wire_all rs @ X \<and>
        stream_at (stype s0) P T X con pad rs s r os \<and> bs = pending_data (stype s0) con rs s r)"

definition stream_ended ::
  "'z reqdata_scheme \<Rightarrow> strm \<Rightarrow> byte list \<Rightarrow> byte list \<Rightarrow> byte list \<Rightarrow>
    strm \<Rightarrow> 'z reqdata_scheme \<Rightarrow> os_state \<Rightarrow> bool" where
  "stream_ended r0 s0 P T X s r os \<longleftrightarrow>
     r = r0 \<and> same_reader s0 s \<and> lp_ok s \<and> rdNext s = stop s \<and> \<not> eorStop s \<and> FCGI_errno s = 0 \<and>
     contentLen s = 0 \<and> paddingLen s = length P \<and> inp s r os = P @ X \<and>
     sent (conns os (ipcFd r)) = T \<and> writes_ok (ipcFd r) os"

definition filled ::
  "'z reqdata_scheme \<Rightarrow> strm \<Rightarrow> byte list \<Rightarrow> byte list \<Rightarrow> byte list \<Rightarrow>
    byte list \<Rightarrow> strm \<Rightarrow> 'z reqdata_scheme \<Rightarrow> os_state \<Rightarrow> bool" where
  "filled r0 s0 P T X bs s r os \<longleftrightarrow>
     (bs = [] \<and> isClosed s \<and> stream_ended r0 s0 P T X s r os) \<or>
     (\<exists>cs. bs = ready s @ cs \<and> ready s \<noteq> [] \<and> \<not> isClosed s \<and> rbuf_ok s \<and> stream_src r0 s0 P T X cs s r os)"

lemma stream_piece:
  fixes r :: "'z reqdata_scheme"
  assumes s: "lp_ok s" "\<not> isClosed s" "con \<noteq> []" "\<not> skip s"
    and at: "stream_at (stype s0) P T X con pad rs s r os" and inp: "inp s r os = con @ pad @ wire_all rs @ X"
    and sr: "same_reader s0 s"
  shows "\<exists>s' os'. fills ph hdr s r os (s', r, os') \<and>
    filled r s0 P T X (pending_data (stype s0) con rs s r) s' r os'"
proof -
  have c: "contentLen s = length con" "0 < contentLen s" "paddingLen s = length pad"
    using at s(3) by (auto simp: stream_at_def simp flip: length_greater_0_conv)
  show ?thesis
  proof (cases rule: content_fills [OF s(1) c(2) s(4), of ph hdr r os])
    case (1 e os')
    then show ?thesis using inp s(3) by simp
  next
    case (2 s' os' k)
    have k: "k \<le> length con" using 2(3) c(1) by simp
    have cm: "coming s' r os' = drop k con @ pad @ wire_all rs @ X"
      using coming_piece [OF 2(4,18), of r os'] 2(16) inp k by simp
    have rdy: "ready s' = take k con" using 2(5) inp k by simp
    have wr: "writes_ok (ipcFd r) os'" "sent (conns os' (ipcFd r)) = sent (conns os (ipcFd r))"
      using at 2(15) by (simp_all add: stream_at_def writes_ok_def same_out_def)
    have "stype s' = stype s" using 2(14) by (simp add: same_reader_def)
    then have "stream_at (stype s0) P T X (drop k con) pad rs s' r os'"
      using at 2(7-10,12) wr s(4) c(1) unfolding stream_at_def by simp
    moreover have "same_reader s0 s'" by (rule same_reader_trans [OF sr 2(14)])
    ultimately have "stream_src r s0 P T X (pending_data (stype s0) (drop k con) rs s' r) s' r os'"
      using cm unfolding stream_src_def by blast
    moreover have "pending_data (stype s0) con rs s r = ready s' @ pending_data (stype s0) (drop k con) rs s' r"
      using rdy 2(9) s(4) by (simp add: pending_data_def)
    moreover have "ready s' \<noteq> []" using rdy 2(2) k s(3) by simp
    ultimately show ?thesis
      using 2(1,4,11) s(2) unfolding filled_def by blast
  qed
qed

lemma header_bytes_ne [simp]: "header_bytes h \<noteq> []"
  by (simp add: header_bytes_def)

lemma stream_fills:
  fixes r :: "'z reqdata_scheme"
  assumes "lp_ok s" "\<not> isClosed s" "stream_at (stype s0) P T X con pad rs s r os"
    "inp s r os = con @ pad @ wire_all rs @ X" "same_reader s0 s"
  shows "\<exists>s' os'. fills ProcessHeader [] s r os (s', r, os') \<and>
    filled r s0 P T X (pending_data (stype s0) con rs s r) s' r os'"
  using assms
proof (induction rs arbitrary: s os con pad)
  case Nil
  then show ?case by (simp add: stream_at_def)
next
  case (Cons x rs)
  let ?t = "stype s0" and ?i = "requestId r"
  obtain t' i' c p where x: "x = (t', i', c, p)" by (cases x)
  show ?case
  proof (cases "con \<noteq> [] \<and> \<not> skip s")
    case True
    then show ?thesis using stream_piece [OF Cons.prems(1,2) _ _ Cons.prems(3-5)] by blast
  next
    case False
    define sk where "sk = (skip s \<and> con = [])"
    note at = Cons.prems(3) [unfolded stream_at_def, folded sk_def]
    have ok: "rec_ok (t', i', c, p)" using at by (simp add: x)
    note wh = wire_header [OF ok]
    let ?h = "mk_header t' i' (int (length c)) (int (length p))"
    have pd: "pending_data ?t con (x # rs) s r = delivered ?t ?i sk (x # rs)"
      using False by (auto simp: pending_data_def sk_def)
    have i0: "inp s r os = (con @ pad) @ header_bytes ?h @ c @ p @ wire_all rs @ X"
      using Cons.prems(4) wh(1) by (simp add: x)
    have cl: "length (con @ pad) = contentLen s + paddingLen s" "contentLen s = 0 \<or> skip s" "\<not> eorStop s"
      using at False by auto
    obtain s1 os1 where 1: "skimmed s os s1 os1" "inp s1 r os1 = c @ p @ wire_all rs @ X"
      "dispatches ProcessHeader [] s r os ?h s1 os1"
      using to_header [OF Cons.prems(1,2) cl(3,2) i0 cl(1), of "[]" ProcessHeader] by auto
    have sk1: "skip s1 = sk" using 1(1) at by (auto simp: skimmed_def sk_def)
    have s1: "lp_ok s1" "\<not> isClosed s1" "FCGI_errno s1 = 0" "same_reader s0 s1" "stype s1 = ?t"
      "contentLen s1 = 0" "paddingLen s1 = 0" "\<not> eorStop s1"
      using 1(1) at Cons.prems(5) by (auto simp: skimmed_def same_reader_def)
    have os1: "writes_ok (ipcFd r) os1" "sent (conns os1 (ipcFd r)) = sent (conns os (ipcFd r))"
      using 1(1) at by (simp_all add: skimmed_def same_out_def writes_ok_def)
    have go: ?thesis
      if d: "fill_dispatch ProcessHeader ?h s1 r os1 = Inr (Continue [] (s2, r, os2))"
        and s2: "lp_ok s2" "\<not> isClosed s2" "\<not> eorStop s2" "FCGI_errno s2 = 0" "same_reader s0 s2"
          "length con2 = contentLen s2" "length pad2 = paddingLen s2"
          "inp s2 r os2 = con2 @ pad2 @ wire_all rs @ X" "writes_ok (ipcFd r) os2"
        and spec: "stream_ok ?t ?i (skip s2 \<and> con2 = []) rs"
          "sent (conns os2 (ipcFd r)) @ answers ?t ?i (skip s2 \<and> con2 = []) rs = T"
          "pending_data ?t con2 rs s2 r = delivered ?t ?i sk (x # rs)"
      for s2 os2 con2 pad2
    proof -
      have "last_pad rs = P" using at stream_ok_ne [OF spec(1)] by simp
      then have "stream_at ?t P T X con2 pad2 rs s2 r os2"
        using at s2 spec by (simp add: stream_at_def same_reader_def)
      from Cons.IH [OF s2(1,2) this s2(8,5)] obtain s3 os3 where
        "fills ProcessHeader [] s2 r os2 (s3, r, os3)" "filled r s0 P T X (pending_data ?t con2 rs s2 r) s3 r os3"
        by blast
      then show ?thesis using 1(3) d spec(3) pd unfolding dispatches_def by metis
    qed
    consider (mplex) "t' = 1" | (man) "t' \<noteq> 1" "i' = 0" | (other) "t' \<noteq> 1" "i' \<noteq> 0" "i' \<noteq> ?i"
      | (ours) "t' \<noteq> 1" "i' \<noteq> 0" "i' = ?i" by blast
    then show ?thesis
    proof cases
      case mplex
      have b: "i' \<noteq> 0" "length c = 8" "stream_ok ?t ?i False rs" using at by (simp_all add: x mplex)
      then have cne: "c \<noteq> []" by auto
      obtain os2 where d: "fill_dispatch ProcessHeader ?h s1 r os1 = Inr (Continue [] (past_header c p True s1, r, os2))"
        "sends (ipcFd r) (wire_record 3 i' (end_body_bytes (MakeEndRequestBody 0 1)) []) os1 os2"
        using dispatch_begin [OF ok [unfolded mplex] b(1,2), of r os1 s1] at os1(1) mplex by auto
      show ?thesis
        by (rule go [OF d(1), of c p])
          (use s1 b cne at 1(2) sends_inp [OF d(2), of s1 r] sends_sent [OF d(2)] os1(2)
            sends_writes_ok [OF d(2) os1(1)] in \<open>simp_all add: x mplex pending_data_def\<close>)
    next
      case other
      have d: "fill_dispatch ProcessHeader ?h s1 r os1 = Inr (Continue [] (past_header c p True s1, r, os1))"
        using dispatch_other [OF ok other(1,2), of r s1 os1] other(3) by auto
      show ?thesis
        by (rule go [OF d, of c p])
          (use s1 at other 1(2) os1 in \<open>simp_all add: x pending_data_def\<close>)
    next
      case man
      show ?thesis
      proof (cases "t' = 9")
        case False
        obtain os2 where d: "fill_dispatch ProcessHeader ?h s1 r os1 = Inr (Continue [] (past_header c p sk s1, r, os2))"
          "sends (ipcFd r) (wire_record 11 0 (unknown_body_bytes (MakeUnknownTypeBody t')) []) os1 os2"
          using dispatch_unknown [OF ok [unfolded man] man(1) False os1(1), of s1] sk1 man(2) by auto
        show ?thesis
          by (rule go [OF d(1), of c p])
            (use s1 at man False 1(2) sends_inp [OF d(2), of s1 r] sends_sent [OF d(2)] os1(2)
              sends_writes_ok [OF d(2) os1(1)] in \<open>auto simp: x pending_data_def\<close>)
      next
        case gv: True
        obtain reply where rep: "values_answer (if sk then [] else c) = Some reply"
          using at by (auto simp: x man gv)
        have so: "stream_ok ?t ?i (sk \<and> c = []) rs" using at by (simp add: x man gv)
        obtain y ys where "rs = y # ys" using stream_ok_ne [OF so] by (cases rs) auto
        then have ne: "wire_all rs @ X \<noteq> []"
          by (cases y) (simp add: wire_record_def header_bytes_def)
        obtain s2 os2 where d: "fill_dispatch ProcessHeader ?h s1 r os1 = Inr (Continue [] (s2, r, os2))"
          "lp_ok s2" "\<not> isClosed s2" "\<not> eorStop s2" "contentLen s2 = 0" "paddingLen s2 = 0"
          "inp s2 r os2 = wire_all rs @ X" "same_reader s1 s2" "FCGI_errno s2 = 0" "skip s2 = (sk \<and> c = [])"
          "sent (conns os2 (ipcFd r)) = sent (conns os1 (ipcFd r)) @ reply" "writes_ok (ipcFd r) os2"
          using dispatch_values [OF ok [unfolded man gv] s1(1-3) os1(1) _ ne] 1(2) rep
          unfolding sk1 man(2) gv by metis
        show ?thesis
          by (rule go [OF d(1), of "[]" "[]"])
            (use s1 at man gv d so rep os1(2) in \<open>auto simp: x pending_data_def intro: same_reader_trans\<close>)
      qed
    next
      case ours
      have tt: "t' = ?t" using at ours by (simp add: x)
      note d = dispatch_stream [OF ok ours(1,2) ours(3) [symmetric], of s1 os1]
      show ?thesis
      proof (cases "c = []")
        case True
        let ?s2 = "(past_header [] p (skip s1) s1)\<lparr>wrNext := rdNext s1, isClosed := True\<rparr>"
        have rs: "rs = []" using at True ours by (simp add: x)
        have "fills ProcessHeader [] s r os (?s2, r, os1)"
          using 1(3) d s1(5) tt True unfolding dispatches_def by simp
        moreover have "stream_ended r s0 P T X ?s2 r os1"
          using s1 os1 at 1(2) rs True ours
          by (auto simp: stream_ended_def x last_pad_def past_header_def lp_ok_def same_reader_def inp_def
              buffered_def)
        moreover have "pending_data ?t con (x # rs) s r = []"
          unfolding pd using True rs ours by (simp add: x)
        moreover have "isClosed ?s2" by simp
        ultimately show ?thesis unfolding filled_def by metis
      next
        case False
        have d2: "fill_dispatch ProcessHeader ?h s1 r os1 = Inr (Continue [] (past_header c p sk s1, r, os1))"
          using d s1(5) tt False sk1 by simp
        show ?thesis
          by (rule go [OF d2, of c p])
            (use s1 at ours tt False 1(2) os1 in \<open>simp_all add: x pending_data_def\<close>)
      qed
    qed
  qed
qed

end
