(* ===== verification/Delivery.thy ===== *)
theory Delivery
  imports ReaderStream
begin

text \<open>
  What an application gets from a stream: \<^verbatim>\<open>FillBuffProc\<close> interprets the contract of ReaderOps, so the
  reading operations serve the bytes \<open>delivered\<close>, whatever else the connection carries.
\<close>

section \<open>The stream as a byte source\<close>

lemma length_delivered: "length (delivered t i sk rs) \<le> length (wire_all rs)"
proof (induction rs arbitrary: sk)
  case (Cons x rs)
  obtain t' i' c p where "x = (t', i', c, p)" by (cases x)
  then show ?case
    using Cons.IH [of False] Cons.IH [of "c = []"] Cons.IH [of "sk \<and> c = []"] by (cases "i = 0") auto
qed simp

lemma length_pending_data:
  assumes "length con = contentLen s"
  shows "length (pending_data t con rs s r) \<le> length (con @ pad @ wire_all rs @ X)"
  using length_delivered [of t "requestId r" "skip s \<and> con = []" rs] by (auto simp: pending_data_def)

lemma stream_at_cong [simp]:
  "stream_at t P T X con pad rs (s\<lparr>rdNext := n\<rparr>) r os = stream_at t P T X con pad rs s r os"
  "stream_at t P T X con pad rs (s\<lparr>stopUnget := u\<rparr>) r os = stream_at t P T X con pad rs s r os"
  "pending_data t con rs (s\<lparr>rdNext := n\<rparr>) r = pending_data t con rs s r"
  "pending_data t con rs (s\<lparr>stopUnget := u\<rparr>) r = pending_data t con rs s r"
  by (simp_all add: stream_at_def pending_data_def)

interpretation stream: byte_source FillBuffProc "stream_src r0 s0 P T X" "stream_ended r0 s0 P T X"
  for r0 :: "'z reqdata_scheme" and s0 P T X
proof unfold_locales
  fix s bs and r :: "'z reqdata_scheme" and os
  assume s: "rbuf_ok s" "\<not> isClosed s" "rdNext s = stop s" and src: "stream_src r0 s0 P T X bs s r os"
  obtain con pad rs where 1: "r = r0" "same_reader s0 s" "inp s r os = con @ pad @ wire_all rs @ X"
    "stream_at (stype s0) P T X con pad rs s r os" "bs = pending_data (stype s0) con rs s r"
    using src coming_inp [OF s(3), of r os] unfolding stream_src_def by metis
  note lp = rbuf_ok_lp_ok [OF s(1)]
  obtain s' os' where 2: "fills ProcessHeader [] s r os (s', r, os')" "filled r s0 P T X bs s' r os'"
    using stream_fills [OF lp s(2) 1(4,3,2)] unfolding 1(5) by blast
  have "FillBuffProc s r os = Inr (s', r, os')"
    unfolding FillBuffProc_def by (rule fills_FillBuffProc_with [OF 2(1) lp s(2) handler_ok_ProcessHeader])
  then show "\<exists>s' r' os'. FillBuffProc s r os = Inr (s', r', os') \<and>
      ((bs = [] \<and> isClosed s' \<and> stream_ended r0 s0 P T X s' r' os') \<or>
       (\<exists>cs. bs = ready s' @ cs \<and> ready s' \<noteq> [] \<and> \<not> isClosed s' \<and> rbuf_ok s' \<and> stream_src r0 s0 P T X cs s' r' os'))"
    using 2(2) unfolding filled_def 1(1) by blast
next
  fix bs s n and r :: "'z reqdata_scheme" and os
  show "stream_src r0 s0 P T X bs s r os \<Longrightarrow> stream_src r0 s0 P T X bs (s\<lparr>rdNext := n\<rparr>) r os"
    unfolding stream_src_def by auto
next
  fix bs s u and r :: "'z reqdata_scheme" and os
  show "stream_src r0 s0 P T X bs s r os \<Longrightarrow> stream_src r0 s0 P T X bs (s\<lparr>stopUnget := u\<rparr>) r os"
    unfolding stream_src_def by auto
next
  fix bs s and r :: "'z reqdata_scheme" and os
  assume "stream_src r0 s0 P T X bs s r os"
  then obtain con pad rs where "coming s r os = con @ pad @ wire_all rs @ X"
    "length con = contentLen s" "bs = pending_data (stype s0) con rs s r"
    unfolding stream_src_def stream_at_def by blast
  then show "length bs \<le> (buffStop s - stop s) + inbox_left r os"
    using length_pending_data [of con s "stype s0" rs r pad X] length_coming [of s r os] by simp
qed

text \<open>A reader at the start of a stream, as \<^verbatim>\<open>NewReader\<close> and \<^verbatim>\<open>SetReaderType\<close> leave it, for a request
  that has begun.\<close>

definition at_start :: "strm \<Rightarrow> 'z reqdata_scheme \<Rightarrow> os_state \<Rightarrow> bool" where
  "at_start s r os \<longleftrightarrow> rbuf_ok s \<and> \<not> isClosed s \<and> rdNext s = stop s \<and> \<not> eorStop s \<and> \<not> skip s \<and> contentLen s = 0 \<and>
     paddingLen s = 0 \<and> FCGI_errno s = 0 \<and> stype s \<noteq> FCGI_BEGIN_REQUEST \<and>
     isBeginProcessed r \<and> requestId r \<noteq> 0 \<and> writes_ok (ipcFd r) os"

lemma stream_enter:
  assumes "at_start s r os" "inp s r os = wire_all rs @ X" "stream_ok (stype s) (requestId r) False rs"
  shows "stream.avail r s (last_pad rs) (sent (conns os (ipcFd r)) @ answers (stype s) (requestId r) False rs) X
    (delivered (stype s) (requestId r) False rs) s r os"
proof -
  have "ready s = []" using assms(1) by (simp add: at_start_def ready_def)
  moreover have "stream_src r s (last_pad rs) (sent (conns os (ipcFd r)) @ answers (stype s) (requestId r) False rs) X
    (delivered (stype s) (requestId r) False rs) s r os"
    using assms coming_inp [of s r os] unfolding stream_src_def
    by (intro conjI exI [of _ "[]"] exI [of _ rs])
      (auto simp: at_start_def stream_at_def pending_data_def)
  ultimately show ?thesis
    using assms(1) by (simp add: stream.avail_def at_start_def)
qed

lemma avail_same_request: "stream.avail r s0 P T X bs s r' os \<Longrightarrow> r' = r"
  by (auto simp: stream.avail_def stream_src_def stream_ended_def split: if_splits)

section \<open>Any sequence of reads\<close>

datatype read_op = GetChar | GetStr int | GetLine int

datatype read_result = Char int | Str "byte list" | Line "byte list option"

fun read_one ::
  "'z proc \<Rightarrow> read_op \<Rightarrow> strm \<Rightarrow> 'z reqdata_scheme \<Rightarrow> os_state \<Rightarrow>
    fault + read_result \<times> strm \<times> 'z reqdata_scheme \<times> os_state" where
  "read_one fill GetChar s r os = rbind (FCGX_GetChar fill s r os) (\<lambda>(c, s, r, os). Inr (Char c, s, r, os))"
| "read_one fill (GetStr n) s r os = rbind (FCGX_GetStr fill n s r os) (\<lambda>(bs, s, r, os). Inr (Str bs, s, r, os))"
| "read_one fill (GetLine n) s r os = rbind (FCGX_GetLine fill n s r os) (\<lambda>(l, s, r, os). Inr (Line l, s, r, os))"

fun read_run ::
  "'z proc \<Rightarrow> read_op list \<Rightarrow> strm \<Rightarrow> 'z reqdata_scheme \<Rightarrow> os_state \<Rightarrow>
    fault + read_result list \<times> strm \<times> 'z reqdata_scheme \<times> os_state" where
  "read_run fill [] s r os = Inr ([], s, r, os)"
| "read_run fill (x # xs) s r os =
     rbind (read_one fill x s r os) (\<lambda>(y, s, r, os).
     rbind (read_run fill xs s r os) (\<lambda>(ys, s, r, os). Inr (y # ys, s, r, os)))"

text \<open>The same reads on a list of bytes, with what they leave.\<close>

fun list_one :: "read_op \<Rightarrow> byte list \<Rightarrow> read_result \<times> byte list" where
  "list_one GetChar bs = (Char (if bs = [] then EOF else uint (hd bs)), tl bs)"
| "list_one (GetStr n) bs = (Str (take (nat n) bs), drop (nat n) bs)"
| "list_one (GetLine n) bs =
     (if n \<le> 1 then (Line (Some [0]), bs)
      else (Line (if bs = [] then None else Some (line_of (nat (n - 1)) bs @ [0])),
            drop (length (line_of (nat (n - 1)) bs)) bs))"

fun list_run :: "read_op list \<Rightarrow> byte list \<Rightarrow> read_result list \<times> byte list" where
  "list_run [] bs = ([], bs)"
| "list_run (x # xs) bs =
     (let (y, bs) = list_one x bs; (ys, bs) = list_run xs bs in (y # ys, bs))"

context byte_source begin

lemma GetStr_nonpos: "n \<le> 0 \<Longrightarrow> FCGX_GetStr fill n s r os = Inr ([], s, r, os)"
  by (simp add: FCGX_GetStr_def)

lemma read_one_avail:
  assumes "avail bs s r os"
  shows "\<exists>s' r' os'. read_one fill x s r os = Inr (fst (list_one x bs), s', r', os') \<and>
    avail (snd (list_one x bs)) s' r' os'"
proof (cases x)
  case GetChar
  then show ?thesis using GetChar_avail [OF assms] by auto
next
  case (GetStr n)
  show ?thesis
  proof (cases "n \<le> 0")
    case True
    then show ?thesis using GetStr assms by (simp add: GetStr_nonpos)
  next
    case False
    then show ?thesis using GetStr GetStr_avail [OF assms, of n] by auto
  qed
next
  case (GetLine n)
  show ?thesis
  proof (cases "n \<le> 1")
    case True
    then show ?thesis using GetLine assms by (simp add: FCGX_GetLine_def)
  next
    case False
    then show ?thesis using GetLine GetLine_avail [OF assms, of n] by auto
  qed
qed

lemma read_run_avail:
  assumes "avail bs s r os"
  shows "\<exists>s' r' os'. read_run fill xs s r os = Inr (fst (list_run xs bs), s', r', os') \<and>
    avail (snd (list_run xs bs)) s' r' os'"
  using assms
proof (induction xs arbitrary: bs s r os)
  case Nil
  then show ?case by simp
next
  case (Cons x xs)
  obtain s1 r1 os1 where 1: "read_one fill x s r os = Inr (fst (list_one x bs), s1, r1, os1)"
    "avail (snd (list_one x bs)) s1 r1 os1"
    using read_one_avail [OF Cons.prems] by blast
  from Cons.IH [OF 1(2)] obtain s2 r2 os2 where
    "read_run fill xs s1 r1 os1 = Inr (fst (list_run xs (snd (list_one x bs))), s2, r2, os2)"
    "avail (snd (list_run xs (snd (list_one x bs)))) s2 r2 os2"
    by blast
  then show ?case using 1(1) by (simp add: case_prod_beta)
qed

end


lemma read_run_list:
  assumes "at_start s r os" "inp s r os = wire_all rs @ X" "stream_ok (stype s) (requestId r) False rs"
  shows "\<exists>s' os'. read_run FillBuffProc ops s r os =
    Inr (fst (list_run ops (delivered (stype s) (requestId r) False rs)), s', r, os')"
proof -
  note av = stream_enter [OF assms]
  obtain s' r' os' where 1: "read_run FillBuffProc ops s r os =
      Inr (fst (list_run ops (delivered (stype s) (requestId r) False rs)), s', r', os')"
    "stream.avail r s (last_pad rs) (sent (conns os (ipcFd r)) @ answers (stype s) (requestId r) False rs) X
      (snd (list_run ops (delivered (stype s) (requestId r) False rs))) s' r' os'"
    using stream.read_run_avail [OF av] by blast
  then show ?thesis using avail_same_request by blast
qed

text \<open>C5: whatever records a peer sends on a connection - of this stream, of other requests, attempts to
  start another request, management records - and however the bytes are split among the reads of the
  connection, a reader set to a stream type of the current request serves any sequence of
  \<^verbatim>\<open>FCGX_GetChar\<close>, \<^verbatim>\<open>FCGX_GetStr\<close> and \<^verbatim>\<open>FCGX_GetLine\<close> calls as if they read from the list of bytes
  \<open>delivered\<close>; no buffer access is out of bounds and no call runs on.\<close>

theorem reads_as_list:
  assumes "at_start s r os" "inp s r os = wire_all rs @ X" "stream_ok (stype s) (requestId r) False rs"
  shows "\<exists>s' os'. read_run FillBuffProc ops s r os =
    Inr (fst (list_run ops (delivered (stype s) (requestId r) False rs)), s', r, os')"
  using assms by (rule read_run_list)

definition sample_reader :: strm where
  "sample_reader = NewReader 64 64 FCGI_STDIN"

lemma at_start_NewReader:
  assumes "isBeginProcessed r" "requestId r \<noteq> 0" "writes_ok (ipcFd r) os" "t \<noteq> FCGI_BEGIN_REQUEST"
  shows "at_start (NewReader mBuff len t) r os"
  using assms NewStream_buf_ok [of mBuff len True t]
  by (simp add: at_start_def NewReader_def rbuf_ok_def buf_ok_def) (simp add: NewStream_def Let_def)

lemma NewReader_inp:
  "inp (NewReader mBuff len t) r os = arriving (ipcFd r) os" "stype (NewReader mBuff len t) = t"
  by (simp_all add: inp_def buffered_def NewReader_def NewStream_def Let_def)

lemma sample_writes_ok: "writes_ok fd (sample_os es [])"
  by (simp add: writes_ok_def)

lemma sample_reader_start:
  assumes "rs \<noteq> []"
  shows "at_start sample_reader sample_request (sample_os [Arrives (wire_all rs)] [])"
    "inp sample_reader sample_request (sample_os [Arrives (wire_all rs)] []) = wire_all rs @ []" "stype sample_reader = FCGI_STDIN"
proof -
  have "wire_all rs \<noteq> []" using assms by (cases rs) (auto simp: wire_record_def)
  then show "inp sample_reader sample_request (sample_os [Arrives (wire_all rs)] []) = wire_all rs @ []"
    unfolding sample_reader_def NewReader_inp by (simp add: arriving_def del: wire_all_simps)
  show "at_start sample_reader sample_request (sample_os [Arrives (wire_all rs)] [])"
    unfolding sample_reader_def by (rule at_start_NewReader) (simp_all add: sample_writes_ok)
qed (simp add: sample_reader_def NewReader_inp)

lemma reads_as_list_witness:
  "\<exists>s' os'. read_run FillBuffProc [GetChar, GetLine 10, GetStr 5, GetChar] sample_reader sample_request
     (sample_os [Arrives (take 13 (wire_all [(5, 1, [72, 105, 10, 88], [0]), (5, 1, [], [])])),
                 Arrives (drop 13 (wire_all [(5, 1, [72, 105, 10, 88], [0]), (5, 1, [], [])]))] []) =
   Inr ([Char 72, Line (Some [105, 10, 0]), Str [88], Char (- 1)], s', sample_request, os')"
proof -
  let ?rs = "[(5, 1, [72, 105, 10, 88], [0]), (5, 1, [], [])] :: wrec list"
  let ?os = "sample_os [Arrives (take 13 (wire_all ?rs)), Arrives (drop 13 (wire_all ?rs))] []"
  have "at_start sample_reader sample_request ?os"
    unfolding sample_reader_def by (rule at_start_NewReader) (simp_all add: sample_writes_ok)
  moreover have "inp sample_reader sample_request ?os = wire_all ?rs @ []"
    unfolding sample_reader_def NewReader_inp by (simp add: arriving_def del: wire_all_simps)
  moreover have "stream_ok (stype sample_reader) (requestId sample_request) False ?rs"
    unfolding sample_reader_def NewReader_inp by (simp add: rec_ok_def)
  moreover have "delivered (stype sample_reader) (requestId sample_request) False ?rs = [72, 105, 10, 88]"
    unfolding sample_reader_def NewReader_inp by simp
  moreover have "fst (list_run [GetChar, GetLine 10, GetStr 5, GetChar] [72, 105, 10, 88]) =
      [Char 72, Line (Some [105, 10, 0]), Str [88], Char (- 1)]"
    by code_simp
  ultimately show ?thesis
    using reads_as_list [of sample_reader sample_request ?os ?rs "[]" "[GetChar, GetLine 10, GetStr 5, GetChar]"]
    by (simp only:)
qed

section \<open>FillBuffProc ends\<close>

text \<open>An iteration ends where it is, or hands its header to the handler.\<close>

lemma fill_step_to_header:
  fixes r :: "'z reqdata_scheme"
  assumes s: "lp_ok s" "\<not> isClosed s"
  obtains
    (here) y where "\<And>ph. fill_step ph hdr s r os = Inr y"
      "\<And>hdr' s' r' os'. y = Continue hdr' (s', r', os') \<Longrightarrow> eorStop s' = eorStop s"
  | (header) s2 os2 where "\<not> eorStop s" "\<And>ph. fill_step ph hdr s r os = fill_header ph hdr s2 r os2"
      "lp_ok s2" "\<not> isClosed s2"
proof (cases rule: fill_refill_cases [OF s(1), of r os])
  case (1 e os')
  show ?thesis by (rule here [of "Return (SetError e s, r, os')"]) (simp_all add: fill_step_def 1)
next
  case (2 b n m os1)
  define s1 where "s1 = s\<lparr>buff := b, rdNext := n, buffStop := m\<rparr>"
  have s1: "lp_ok s1" "rdNext s1 < buffStop s1" "\<not> isClosed s1" "eorStop s1 = eorStop s"
    using 2 s(2) by (simp_all add: s1_def)
  have step: "fill_step ph hdr s r os = (case fill_content s1 of
       (Deliver, s) \<Rightarrow> Inr (Return (s, r, os1))
     | (Again, s) \<Rightarrow> Inr (Continue hdr (s, r, os1))
     | (Through, s) \<Rightarrow>
         (case fill_padding s of
            (Through, s) \<Rightarrow>
              if eorStop s
              then Inr (Return (s\<lparr>stop := rdNext s, isClosed := True\<rparr>, r, os1))
              else fill_header ph hdr s r os1
          | (_, s) \<Rightarrow> Inr (Continue hdr (s, r, os1))))" for ph
    using 2(1) by (simp add: fill_step_def s1_def)
  have pad: ?thesis
    if c: "fill_content s1 = (Through, s2)" and s2: "lp_ok s2" "\<not> isClosed s2" "eorStop s2 = eorStop s" for s2
  proof (cases rule: fill_padding_cases [OF s2(1)])
    case 1
    show ?thesis
      by (rule here [of "Continue hdr (snd (fill_padding s2), r, os1)"]) (simp_all add: step c 1 s2(3))
  next
    case 2
    let ?s3 = "s2\<lparr>paddingLen := 0, rdNext := rdNext s2 + paddingLen s2\<rparr>"
    show ?thesis
    proof (cases "eorStop s")
      case True
      then show ?thesis
        using s2(3) by (intro here [of "Return (?s3\<lparr>stop := rdNext ?s3, isClosed := True\<rparr>, r, os1)"])
          (simp_all add: step c 2)
    next
      case False
      then show ?thesis
        using s2 2(1) by (intro header [of ?s3 os1]) (auto simp: step c 2(2) lp_ok_def)
    qed
  qed
  show ?thesis
  proof (cases rule: fill_content_cases [OF s1(1,2)])
    case 1
    then show ?thesis using pad [of s1] s1 by simp
  next
    case (2 k)
    show ?thesis by (rule here [of "Return (snd (fill_content s1), r, os1)"]) (simp_all add: step 2)
  next
    case 3
    show ?thesis
      by (rule here [of "Continue hdr (snd (fill_content s1), r, os1)"]) (simp_all add: step 3 s1(4))
  next
    case 4
    show ?thesis by (rule pad [OF 4(4)]) (use s1 4(3) in \<open>auto simp: lp_ok_def\<close>)
  qed
qed

lemma fill_header_fuel:
  assumes "lp_ok s" "\<not> isClosed s"
  shows "fill_header ProcessHeader hdr s r os \<noteq> Inl OutOfFuel"
proof -
  define n where "n = min (8 - length hdr) (buffStop s - rdNext s)"
  let ?s = "s\<lparr>rdNext := rdNext s + n, eorStop := True, stop := rdNext s + n\<rparr>"
  have ok: "lp_ok ?s" "\<not> isClosed ?s" "eorStop ?s" "stop ?s = rdNext ?s"
    using assms by (auto simp: lp_ok_def n_def)
  have "ProcessHeader h ?s r os \<noteq> Inl OutOfFuel" for h
    using ProcessHeader_cases [OF ok, of h r os] by auto
  then show ?thesis
    by (auto simp: fill_header_def fill_dispatch_def Let_def rbind_def c_assert_def n_def [symmetric]
        split: sum.splits if_splits)
qed

lemma fill_loop_ends:
  assumes "lp_ok s" "\<not> isClosed s" "length hdr < 8" "input_left s r os < fuel"
  shows "fill_loop ProcessHeader fuel hdr s r os \<noteq> Inl OutOfFuel"
  using assms
proof (induction fuel arbitrary: hdr s r os)
  case 0
  then show ?case by simp
next
  case (Suc fuel)
  have ns: "fill_step ProcessHeader hdr s r os \<noteq> Inl OutOfFuel"
  proof (cases rule: fill_step_to_header [OF Suc.prems(1,2), where r = r and os = os and hdr = hdr])
    case (1 y)
    then show ?thesis by simp
  next
    case (2 s2 os2)
    show ?thesis unfolding 2(2) by (rule fill_header_fuel [OF 2(3,4)])
  qed
  show ?case
  proof (cases "fill_step ProcessHeader hdr s r os")
    case (Inl f)
    then show ?thesis using ns by simp
  next
    case (Inr y)
    show ?thesis
    proof (cases y)
      case (Return x)
      then show ?thesis using Inr by simp
    next
      case (Continue hdr' x)
      obtain s' r' os' where x: "x = (s', r', os')" by (cases x)
      have "lp_ok s' \<and> length hdr' < 8 \<and> \<not> isClosed s' \<and> input_left s' r' os' < input_left s r os"
        using fill_step_consumes [OF _ Suc.prems(1,2) handler_ok_ProcessHeader Suc.prems(3)] Inr Continue x by blast
      then have "fill_loop ProcessHeader fuel hdr' s' r' os' \<noteq> Inl OutOfFuel"
        using Suc.prems(4) by (intro Suc.IH) auto
      then show ?thesis using Inr Continue x by simp
    qed
  qed
qed

text \<open>C22: \<^verbatim>\<open>FillBuffProc\<close> ends for every state of an open reader and every behaviour of its connection:
  any bytes in any pieces, failing reads, the end of the input, failing writes of the replies. Its bound
  is the input that is left, of which every iteration consumes some.\<close>

theorem FillBuffProc_ends:
  assumes "rbuf_ok s" "\<not> isClosed s"
  shows "FillBuffProc s r os \<noteq> Inl OutOfFuel"
  using fill_loop_ends [OF rbuf_ok_lp_ok [OF assms(1)] assms(2), of "[]" r os "input_left s r os + 1"]
  unfolding FillBuffProc_def FillBuffProc_with_def by simp

lemma FillBuffProc_ends_witness:
  "FillBuffProc (NewReader 3 100 5) sample_request (sample_os [Arrives [1, 2, 3], ReadFails 11, Arrives [4]] []) \<noteq>
    Inl OutOfFuel"
  by (rule FillBuffProc_ends)
    (use NewStream_buf_ok [of 3 100 True 5] in
      \<open>simp_all add: NewReader_def rbuf_ok_def buf_ok_def\<close>, simp_all add: NewStream_def Let_def)

section \<open>Inner calls\<close>

lemma fill_loop_eor:
  assumes "eorStop s" "lp_ok s" "\<not> isClosed s" "length hdr < 8" "handler_ok ph"
  shows "fill_loop ph fuel hdr s r os = fill_loop (\<lambda>_ _ _ _. Inl NullDeref) fuel hdr s r os"
  using assms(1-4)
proof (induction fuel arbitrary: hdr s r os)
  case 0
  then show ?case by simp
next
  case (Suc fuel)
  show ?case
  proof (cases rule: fill_step_to_header [OF Suc.prems(2,3), where r = r and os = os and hdr = hdr])
    case (2 s2 os2)
    then show ?thesis using Suc.prems(1) by simp
  next
    case (1 y)
    show ?thesis
    proof (cases y)
      case (Return x)
      then show ?thesis by (simp add: 1)
    next
      case (Continue hdr' x)
      obtain s' r' os' where x: "x = (s', r', os')" by (cases x)
      have "lp_ok s' \<and> length hdr' < 8 \<and> \<not> isClosed s'" "eorStop s'"
        using fill_step_consumes [OF _ Suc.prems(2,3) assms(5) Suc.prems(4), of r os hdr' s' r' os'] 1 Continue x
          Suc.prems(1) by auto
      then show ?thesis using Suc.IH [of s' hdr' r' os'] by (simp add: 1 Continue x)
    qed
  qed
qed

text \<open>While a record is being read (\<^verbatim>\<open>eorStop\<close> set), \<^verbatim>\<open>FillBuffProc\<close> never reaches a header: it is the
  function without a header handler. So the calls \<^verbatim>\<open>ProcessBeginRecord\<close> and \<^verbatim>\<open>ProcessManagementRecord\<close> make
  through the stream recurse no further than one level.\<close>

theorem FillBuffProc_inner:
  assumes "rbuf_ok s" "\<not> isClosed s" "eorStop s"
  shows "FillBuffProc s r os = FillBuffProc_eor s r os"
  using fill_loop_eor [OF assms(3) rbuf_ok_lp_ok [OF assms(1)] assms(2) _ handler_ok_ProcessHeader,
      of "[]" "input_left s r os + 1" r os]
  unfolding FillBuffProc_def FillBuffProc_eor_def FillBuffProc_with_def by (simp del: fill_loop.simps)

lemma FillBuffProc_inner_witness:
  "FillBuffProc ((NewReader 3 100 5)\<lparr>eorStop := True, contentLen := 2\<rparr>) sample_request (sample_os [Arrives [1, 2, 3]] []) =
   FillBuffProc_eor ((NewReader 3 100 5)\<lparr>eorStop := True, contentLen := 2\<rparr>) sample_request (sample_os [Arrives [1, 2, 3]] [])"
  by (rule FillBuffProc_inner)
    (use NewStream_buf_ok [of 3 100 True 5] in
      \<open>simp_all add: NewReader_def rbuf_ok_def buf_ok_def\<close>, simp_all add: NewStream_def Let_def)

section \<open>Reading one stream\<close>

lemma stream_GetStr:
  assumes "at_start s r os" "inp s r os = wire_all rs @ X" "stream_ok (stype s) (requestId r) False rs" "0 \<le> n"
  shows "\<exists>s' os'. FCGX_GetStr FillBuffProc n s r os =
      Inr (take (nat n) (delivered (stype s) (requestId r) False rs), s', r, os') \<and>
    (int (length (delivered (stype s) (requestId r) False rs)) < n \<longrightarrow> isClosed s' \<and>
     stream_ended r s (last_pad rs) (sent (conns os (ipcFd r)) @ answers (stype s) (requestId r) False rs) X s' r os')"
proof -
  obtain s' r' os' where 1: "FCGX_GetStr FillBuffProc n s r os =
      Inr (take (nat n) (delivered (stype s) (requestId r) False rs), s', r', os')"
    "stream.avail r s (last_pad rs) (sent (conns os (ipcFd r)) @ answers (stype s) (requestId r) False rs) X
      (drop (nat n) (delivered (stype s) (requestId r) False rs)) s' r' os'"
    "int (length (delivered (stype s) (requestId r) False rs)) < n \<longrightarrow> isClosed s'"
    using stream.GetStr_avail [OF stream_enter [OF assms(1-3)] assms(4)] by blast
  have "r' = r"
    using 1(2) by (auto simp: stream.avail_def stream_src_def stream_ended_def split: if_splits)
  then show ?thesis using 1 stream.avail_ended [OF 1(2)] by blast
qed

text \<open>What the stream's own records hold, and a peer that sends nothing the code trips over.\<close>

definition own_content :: "int \<Rightarrow> int \<Rightarrow> wrec list \<Rightarrow> byte list" where
  "own_content t i rs = concat (map (\<lambda>(t', i', c, p). if t' = t \<and> i' = i then c else []) rs)"

definition well_behaved :: "int \<Rightarrow> wrec list \<Rightarrow> bool" where
  "well_behaved i rs \<longleftrightarrow> (\<forall>(t', i', c, p) \<in> set rs. t' = FCGI_BEGIN_REQUEST \<or> i' = i \<or>
     (if i' = 0 then t' = FCGI_GET_VALUES else c \<noteq> []))"

lemma delivered_own_content:
  assumes "well_behaved i rs" "stream_ok t i False rs" "t \<noteq> FCGI_BEGIN_REQUEST" "i \<noteq> 0"
  shows "delivered t i False rs = own_content t i rs"
  using assms(1,2)
proof (induction rs)
  case (Cons x rs)
  obtain t' i' c p where x: "x = (t', i', c, p)" by (cases x)
  have "well_behaved i rs" using Cons.prems(1) by (simp add: well_behaved_def)
  then show ?case
    using Cons assms(3,4) by (auto simp: x well_behaved_def own_content_def split: if_splits)
qed simp

text \<open>C6: from a peer that sends content in every record of another request and no management record but
  \<^verbatim>\<open>FCGI_GET_VALUES\<close>, \<^verbatim>\<open>FCGX_GetStr\<close> delivers the contents of the stream's own records, in order and
  nothing else, until its empty record; and then the connection stands right after that record's header,
  with every management record and every attempt to multiplex answered.\<close>

theorem reads_own_content:
  assumes "at_start s r os" "inp s r os = wire_all rs @ X" "stream_ok (stype s) (requestId r) False rs"
    and "well_behaved (requestId r) rs" "0 \<le> n"
  shows "\<exists>s' os'. FCGX_GetStr FillBuffProc n s r os = Inr (take (nat n) (own_content (stype s) (requestId r) rs), s', r, os') \<and>
    (int (length (own_content (stype s) (requestId r) rs)) < n \<longrightarrow>
       isClosed s' \<and> FCGX_GetError s' = 0 \<and> inp s' r os' = last_pad rs @ X \<and>
       sent (conns os' (ipcFd r)) = sent (conns os (ipcFd r)) @ answers (stype s) (requestId r) False rs)"
proof -
  have "stype s \<noteq> 1" "requestId r \<noteq> 0" using assms(1) by (simp_all add: at_start_def)
  then have d: "delivered (stype s) (requestId r) False rs = own_content (stype s) (requestId r) rs"
    by (rule delivered_own_content [OF assms(4,3)])
  show ?thesis
    using stream_GetStr [OF assms(1-3,5)] unfolding d by (auto simp: stream_ended_def FCGX_GetError_def)
qed

lemma reads_own_content_witness:
  "\<exists>s' os'. FCGX_GetStr FillBuffProc 9 sample_reader sample_request
     (sample_os [Arrives (wire_all [(5, 1, [72, 105], []), (1, 2, replicate 8 0, []), (5, 2, [7], []), (5, 1, [33], [0, 0]),
        (5, 1, [], [])])] []) = Inr ([72, 105, 33], s', sample_request, os')"
proof -
  let ?rs = "[(5, 1, [72, 105], []), (1, 2, replicate 8 0, []), (5, 2, [7], []), (5, 1, [33], [0, 0]), (5, 1, [], [])] :: wrec list"
  let ?os = "sample_os [Arrives (wire_all ?rs)] []"
  have ne: "wire_all ?rs \<noteq> []" by (simp add: wire_record_def)
  have at: "at_start sample_reader sample_request ?os"
    unfolding sample_reader_def by (rule at_start_NewReader) (simp_all add: sample_writes_ok)
  have i: "inp sample_reader sample_request ?os = wire_all ?rs @ []"
    unfolding sample_reader_def NewReader_inp using ne by (simp add: arriving_def del: wire_all_simps)
  have "stream_ok (stype sample_reader) (requestId sample_request) False ?rs"
    "well_behaved (requestId sample_request) ?rs"
    "take (nat 9) (own_content (stype sample_reader) (requestId sample_request) ?rs) = [72, 105, 33]"
    unfolding sample_reader_def NewReader_inp by (simp_all add: rec_ok_def well_behaved_def own_content_def)
  then show ?thesis
    using reads_own_content [OF at i, of 9] by auto
qed

text \<open>C29: an empty record of another request makes the code drop the whole content of the record of this
  stream that comes next: \<^verbatim>\<open>skip\<close> is set for it, and cleared only after some content has been skipped.\<close>

theorem empty_foreign_record_swallows:
  assumes "at_start s r os"
    and "inp s r os = wire_record t' i' [] p @ wire_record (stype s) (requestId r) c q @ wire_all rs @ X"
    and "rec_ok (t', i', [], p)" "rec_ok (stype s, requestId r, c, q)" "c \<noteq> []"
    and "t' \<noteq> FCGI_BEGIN_REQUEST" "i' \<noteq> FCGI_NULL_REQUEST_ID" "i' \<noteq> requestId r"
    and "stream_ok (stype s) (requestId r) False rs" "0 \<le> n"
  shows "\<exists>s' os'. FCGX_GetStr FillBuffProc n s r os =
    Inr (take (nat n) (delivered (stype s) (requestId r) False rs), s', r, os')"
proof -
  let ?rs = "(t', i', [], p) # (stype s, requestId r, c, q) # rs"
  have "stype s \<noteq> 1" "requestId r \<noteq> 0" using assms(1) by (simp_all add: at_start_def)
  then have "stream_ok (stype s) (requestId r) False ?rs"
    "delivered (stype s) (requestId r) False ?rs = delivered (stype s) (requestId r) False rs"
    using assms by simp_all
  then show ?thesis
    using stream_GetStr [OF assms(1), of ?rs X n] assms(2,10) by auto
qed

lemma empty_foreign_record_swallows_witness:
  "\<exists>s' os'. FCGX_GetStr FillBuffProc 9 sample_reader sample_request
     (sample_os [Arrives (wire_record 5 2 [] [] @ wire_record 5 1 [72, 105] [] @ wire_all [(5, 1, [33], []), (5, 1, [], [])])] []) =
   Inr ([33], s', sample_request, os')"
proof -
  let ?bs = "wire_record 5 2 [] [] @ wire_record 5 1 [72, 105] [] @ wire_all [(5, 1, [33], []), (5, 1, [], [])]"
  let ?os = "sample_os [Arrives ?bs] []"
  have ne: "?bs \<noteq> []" by (simp add: wire_record_def)
  have at: "at_start sample_reader sample_request ?os"
    unfolding sample_reader_def by (rule at_start_NewReader) (simp_all add: sample_writes_ok)
  have "inp sample_reader sample_request ?os =
      wire_record 5 2 [] [] @ wire_record (stype sample_reader) (requestId sample_request) [72, 105] [] @
      wire_all [(5, 1, [33], []), (5, 1, [], [])] @ []"
    unfolding sample_reader_def NewReader_inp using ne by (simp add: arriving_def del: wire_all_simps)
  from empty_foreign_record_swallows [OF at this, of 9] show ?thesis
    unfolding sample_reader_def NewReader_inp by (simp add: rec_ok_def)
qed

section \<open>The environment of a request\<close>

text \<open>C7: the environment travels: when the records of the \<^verbatim>\<open>FCGI_PARAMS\<close> stream carry the encoding of the
  pairs \<open>kvs\<close> (in pieces of any size, among other records, read in any pieces), \<^verbatim>\<open>ReadParams\<close> returns 0
  and \<^verbatim>\<open>FCGX_GetParam\<close> on its result finds for every name the value of its first pair, and \<^verbatim>\<open>NULL\<close>
  for a name that was not sent. Names have no \<open>=\<close> and no NUL, and the lengths of a pair stay below \<open>2 ^ 31\<close>.\<close>

theorem environment_roundtrip:
  assumes "at_start s r os" "inp s r os = wire_all rs @ X" "stream_ok (stype s) (requestId r) False rs"
    and "delivered (stype s) (requestId r) False rs = enc_pairs kvs"
    and "\<forall>(m, v) \<in> set kvs. length m + length v + 2 < 2 ^ 31 \<and> 0x3D \<notin> set m \<and> 0 \<notin> set m"
    and "0 < k" "0x3D \<notin> set n" "0 \<notin> set n"
  shows "\<exists>p s' os'. rbind (NewParams k) (\<lambda>p. ReadParams FillBuffProc p s r os) = Inr (0, p, s', r, os') \<and>
    FCGX_GetParam (Some (n @ [0])) (Some (vec p)) = Inr (map_option (\<lambda>v. v @ [0]) (map_of kvs n)) \<and>
    isClosed s' \<and> FCGX_GetError s' = 0 \<and> inp s' r os' = last_pad rs @ X"
proof -
  have e: "dec_pairs (delivered (stype s) (requestId r) False rs) = Some (map entry kvs, 0)"
    using assms(5) unfolding assms(4) by (intro dec_enc_pairs) auto
  obtain p0 where p0: "NewParams k = Inr p0" "params_ok p0 []"
    using NewParams_ok [OF assms(6)] by auto
  obtain p s' r' os' where 1: "ReadParams FillBuffProc p0 s r os = Inr (0, p, s', r', os')"
    "params_ok p (map entry kvs)" "isClosed s'"
    "stream_ended r s (last_pad rs) (sent (conns os (ipcFd r)) @ answers (stype s) (requestId r) False rs) X s' r' os'"
    using stream.ReadParams_avail [OF stream_enter [OF assms(1-3)] e p0(2)] by auto
  have r': "r' = r" using 1(4) by (simp add: stream_ended_def)
  obtain rest where "vec p = map (Some \<circ> entry) kvs @ None # rest"
    using params_ok_vec [OF 1(2)] by auto
  then have "FCGX_GetParam (Some (n @ [0])) (Some (vec p)) = Inr (map_option (\<lambda>v. v @ [0]) (map_of kvs n))"
    using get_param_entries [OF assms(7,8), of kvs rest] assms(5,8) by (auto simp: FCGX_GetParam_def cstr_block)
  then show ?thesis
    using p0(1) 1 by (auto simp: r' stream_ended_def FCGX_GetError_def)
qed

lemma environment_roundtrip_witness:
  "\<exists>p s' os'. rbind (NewParams 30) (\<lambda>p. ReadParams FillBuffProc p (NewReader 0 8192 4) sample_request
      (sample_os [Arrives (take 11 (wire_all [(4, 1, [1, 2, 65], []), (4, 1, [66, 67], []), (4, 1, [], [])])),
                  Arrives (drop 11 (wire_all [(4, 1, [1, 2, 65], []), (4, 1, [66, 67], []), (4, 1, [], [])]))] [])) =
      Inr (0, p, s', sample_request, os') \<and>
    FCGX_GetParam (Some [65, 0]) (Some (vec p)) = Inr (Some [66, 67, 0])"
proof -
  let ?rs = "[(4, 1, [1, 2, 65], []), (4, 1, [66, 67], []), (4, 1, [], [])] :: wrec list"
  let ?s = "NewReader 0 8192 4"
  let ?os = "sample_os [Arrives (take 11 (wire_all ?rs)), Arrives (drop 11 (wire_all ?rs))] []"
  have at: "at_start ?s sample_request ?os"
    by (rule at_start_NewReader) (simp_all add: sample_writes_ok)
  have i: "inp ?s sample_request ?os = wire_all ?rs @ []"
    unfolding NewReader_inp by (simp add: arriving_def del: wire_all_simps)
  have so: "stream_ok (stype ?s) (requestId sample_request) False ?rs"
    unfolding NewReader_inp by (simp add: rec_ok_def)
  have d: "delivered (stype ?s) (requestId sample_request) False ?rs = enc_pairs [([65], [66, 67])]"
    unfolding NewReader_inp by (simp add: enc_len_def)
  show ?thesis
    using environment_roundtrip [OF at i so d, of 30 "[65]"] by (auto simp del: wire_all_simps)
qed

section \<open>From one stream to the next\<close>

lemma wrong_version:
  assumes "uint (version h) \<noteq> FCGI_VERSION_1"
  shows "\<exists>s'. fill_dispatch ProcessHeader h s r os = Inr (Return (s', r, os)) \<and> isClosed s' \<and>
    FCGI_errno s' = (if FCGI_errno s = 0 then FCGX_UNSUPPORTED_VERSION else FCGI_errno s)"
  using assms by (cases s) (simp add: fill_dispatch_def ProcessHeader_def Let_def c_assert_def)

lemma GetChar_wrong_version:
  assumes "at_start s r os" "inp s r os = bs @ X" "length bs = 8" "hd bs \<noteq> 1"
  shows "\<exists>s' os'. FCGX_GetChar FillBuffProc s r os = Inr (EOF, s', r, os') \<and> isClosed s' \<and>
    FCGX_GetError s' = FCGX_UNSUPPORTED_VERSION"
proof -
  have s: "rbuf_ok s" "\<not> isClosed s" "\<not> eorStop s" "contentLen s = 0" "paddingLen s = 0" "rdNext s = stop s"
    "FCGI_errno s = 0" "isReader s"
    using assms(1) by (simp_all add: at_start_def rbuf_ok_def)
  note lp = rbuf_ok_lp_ok [OF s(1)]
  have ne: "bs \<noteq> []" using assms(3) by auto
  obtain s1 os1 where 1: "skimmed s os s1 os1"
    "dispatches ProcessHeader [] s r os (header_of_bytes bs) s1 os1"
    using to_header [OF lp s(2,3) disjI1 [OF s(4)], of r os "[]" bs X "[]" ProcessHeader] s assms ne by auto
  have "version (header_of_bytes bs) = hd bs" using ne by (simp add: header_of_bytes_def hd_conv_nth)
  then have v: "uint (version (header_of_bytes bs)) \<noteq> 1" using assms(4) by (metis uint_1 word_uint_eq_iff)
  obtain s2 where 2: "fill_dispatch ProcessHeader (header_of_bytes bs) s1 r os1 = Inr (Return (s2, r, os1))"
    "isClosed s2" "FCGI_errno s2 = FCGX_UNSUPPORTED_VERSION"
    using wrong_version [OF v, of s1 r os1] 1(1) s(7) by (auto simp: skimmed_def)
  have "fills ProcessHeader [] s r os (s2, r, os1)"
    using 1(2) 2(1) unfolding dispatches_def by blast
  then have "FillBuffProc s r os = Inr (s2, r, os1)"
    unfolding FillBuffProc_def by (rule fills_FillBuffProc_with [OF _ lp s(2) handler_ok_ProcessHeader])
  then show ?thesis using s 2 by (simp add: FCGX_GetChar_def FCGX_GetError_def)
qed

lemma SetReaderType_at_start:
  assumes "stream_ended r s0 P T X s r os" "at_start s0 r os0" "t \<noteq> FCGI_BEGIN_REQUEST" "isClosed s"
  obtains s1 where "SetReaderType t s = Inr s1" "at_start s1 r os" "inp s1 r os = P @ X" "stype s1 = t"
proof -
  let ?s1 = "s\<lparr>stype := t, eorStop := False, skip := False, contentLen := 0,
    paddingLen := 0, stop := rdNext s, wrNext := rdNext s, isClosed := False\<rparr>"
  have "SetReaderType t s = Inr ?s1"
    using assms(1) by (simp add: SetReaderType_def stream_ended_def lp_ok_def)
  moreover have "at_start ?s1 r os"
    using assms by (auto simp: at_start_def stream_ended_def lp_ok_def rbuf_ok_def)
  moreover have "inp ?s1 r os = P @ X"
    using assms(1) unfolding stream_ended_def by (simp add: inp_def buffered_def) metis
  ultimately show ?thesis using that by simp
qed

text \<open>C24: after a stream has been read to its end, \<^verbatim>\<open>SetReaderType\<close> makes the same reader serve the next stream
  of the request, as any sequence of reads of it shows - provided the empty record that ended the first
  had no padding.\<close>

theorem next_stream:
  assumes "at_start s r os" "inp s r os = wire_all rs @ wire_all rs2 @ X"
    and "stream_ok (stype s) (requestId r) False rs" "last_pad rs = []"
    and "stream_ok t (requestId r) False rs2" "t \<noteq> FCGI_BEGIN_REQUEST"
    and "int (length (delivered (stype s) (requestId r) False rs)) < n"
  shows "\<exists>s1 os1 s2 s3 os3. FCGX_GetStr FillBuffProc n s r os = Inr (delivered (stype s) (requestId r) False rs, s1, r, os1) \<and>
    SetReaderType t s1 = Inr s2 \<and>
    read_run FillBuffProc ops s2 r os1 = Inr (fst (list_run ops (delivered t (requestId r) False rs2)), s3, r, os3)"
proof -
  have n: "0 \<le> n" using assms(7) by linarith
  obtain s1 os1 where 1: "FCGX_GetStr FillBuffProc n s r os = Inr (delivered (stype s) (requestId r) False rs, s1, r, os1)"
    "isClosed s1" "stream_ended r s [] (sent (conns os (ipcFd r)) @ answers (stype s) (requestId r) False rs)
       (wire_all rs2 @ X) s1 r os1"
    using stream_GetStr [OF assms(1-3) n] assms(4,7) by auto
  obtain s2 where 2: "SetReaderType t s1 = Inr s2" "at_start s2 r os1" "inp s2 r os1 = wire_all rs2 @ X" "stype s2 = t"
    using SetReaderType_at_start [OF 1(3) assms(1,6) 1(2)] by auto
  show ?thesis
    using 1(1) 2(1) read_run_list [OF 2(2,3), of ops] assms(5) unfolding 2(4) by blast
qed

lemma next_stream_witness:
  "\<exists>s1 os1 s2 s3 os3. FCGX_GetStr FillBuffProc 9 sample_reader sample_request
       (sample_os [Arrives (wire_all [(5, 1, [72], []), (5, 1, [], [])] @ wire_all [(8, 1, [33], []), (8, 1, [], [])])] []) =
      Inr ([72], s1, sample_request, os1) \<and>
    SetReaderType 8 s1 = Inr s2 \<and>
    read_run FillBuffProc [GetChar, GetChar] s2 sample_request os1 = Inr ([Char 33, Char (- 1)], s3, sample_request, os3)"
proof -
  let ?rs = "[(5, 1, [72], []), (5, 1, [], [])] :: wrec list"
  let ?rs2 = "[(8, 1, [33], []), (8, 1, [], [])] :: wrec list"
  let ?os = "sample_os [Arrives (wire_all ?rs @ wire_all ?rs2)] []"
  have ne: "wire_all ?rs \<noteq> []" by (simp add: wire_record_def)
  have at: "at_start sample_reader sample_request ?os"
    unfolding sample_reader_def by (rule at_start_NewReader) (simp_all add: sample_writes_ok)
  have i: "inp sample_reader sample_request ?os = wire_all ?rs @ wire_all ?rs2 @ []"
    unfolding sample_reader_def NewReader_inp using ne by (simp add: arriving_def del: wire_all_simps)
  have "stream_ok (stype sample_reader) (requestId sample_request) False ?rs" "last_pad ?rs = []"
    "stream_ok 8 (requestId sample_request) False ?rs2"
    unfolding sample_reader_def NewReader_inp by (simp_all add: rec_ok_def last_pad_def)
  from next_stream [OF at i this, of 9 "[GetChar, GetChar]"] show ?thesis
    unfolding sample_reader_def NewReader_inp by simp
qed

text \<open>C25: with padding in that record, \<^verbatim>\<open>SetReaderType\<close> forgets the padding that was still to be skipped, and
  the next read takes it for a record header: the stream ends at once with \<^verbatim>\<open>FCGX_UNSUPPORTED_VERSION\<close>.\<close>

theorem end_padding_breaks_next_stream:
  assumes "at_start s r os" "inp s r os = wire_all rs @ X"
    and "stream_ok (stype s) (requestId r) False rs" "last_pad rs \<noteq> []" "hd (last_pad rs) \<noteq> 1"
    and "8 \<le> length (last_pad rs @ X)" "t \<noteq> FCGI_BEGIN_REQUEST"
    and "int (length (delivered (stype s) (requestId r) False rs)) < n"
  shows "\<exists>s1 os1 s2 s3 os3. FCGX_GetStr FillBuffProc n s r os = Inr (delivered (stype s) (requestId r) False rs, s1, r, os1) \<and>
    FCGX_GetError s1 = 0 \<and> SetReaderType t s1 = Inr s2 \<and>
    FCGX_GetChar FillBuffProc s2 r os1 = Inr (EOF, s3, r, os3) \<and> FCGX_GetError s3 = FCGX_UNSUPPORTED_VERSION"
proof -
  have n: "0 \<le> n" using assms(8) by linarith
  obtain s1 os1 where 1: "FCGX_GetStr FillBuffProc n s r os = Inr (delivered (stype s) (requestId r) False rs, s1, r, os1)"
    "isClosed s1" "stream_ended r s (last_pad rs) (sent (conns os (ipcFd r)) @ answers (stype s) (requestId r) False rs)
       X s1 r os1"
    using stream_GetStr [OF assms(1-3) n] assms(8) by auto
  have e1: "FCGX_GetError s1 = 0" using 1(3) by (simp add: stream_ended_def FCGX_GetError_def)
  obtain s2 where 2: "SetReaderType t s1 = Inr s2" "at_start s2 r os1" "inp s2 r os1 = last_pad rs @ X"
    using SetReaderType_at_start [OF 1(3) assms(1,7) 1(2)] by auto
  let ?bs = "take 8 (last_pad rs @ X)"
  have "inp s2 r os1 = ?bs @ drop 8 (last_pad rs @ X)" unfolding 2(3) by (rule append_take_drop_id [symmetric])
  moreover have "length ?bs = 8" "hd ?bs \<noteq> 1" using assms(4-6) by (cases "last_pad rs"; simp)+
  ultimately show ?thesis
    using 1(1) e1 2(1) GetChar_wrong_version [OF 2(2)] by blast
qed

lemma end_padding_breaks_next_stream_witness:
  "\<exists>s1 os1 s2 s3 os3. FCGX_GetStr FillBuffProc 9 sample_reader sample_request
       (sample_os [Arrives (wire_all [(5, 1, [72], []), (5, 1, [], [0, 0])] @ wire_all [(8, 1, [33], []), (8, 1, [], [])])] []) =
      Inr ([72], s1, sample_request, os1) \<and> SetReaderType 8 s1 = Inr s2 \<and>
    FCGX_GetChar FillBuffProc s2 sample_request os1 = Inr (- 1, s3, sample_request, os3) \<and> FCGX_GetError s3 = - 2"
proof -
  let ?rs = "[(5, 1, [72], []), (5, 1, [], [0, 0])] :: wrec list"
  let ?X = "wire_all [(8, 1, [33], []), (8, 1, [], [])]"
  let ?os = "sample_os [Arrives (wire_all ?rs @ ?X)] []"
  have ne: "wire_all ?rs \<noteq> []" by (simp add: wire_record_def)
  have at: "at_start sample_reader sample_request ?os"
    unfolding sample_reader_def by (rule at_start_NewReader) (simp_all add: sample_writes_ok)
  have i: "inp sample_reader sample_request ?os = wire_all ?rs @ ?X"
    unfolding sample_reader_def NewReader_inp using ne by (simp add: arriving_def del: wire_all_simps)
  have "stream_ok (stype sample_reader) (requestId sample_request) False ?rs" "last_pad ?rs \<noteq> []"
    "hd (last_pad ?rs) \<noteq> 1" "8 \<le> length (last_pad ?rs @ ?X)"
    unfolding sample_reader_def NewReader_inp by (simp_all add: rec_ok_def last_pad_def)
  from end_padding_breaks_next_stream [OF at i this, of 8 9] show ?thesis
    unfolding sample_reader_def NewReader_inp by auto
qed

end
