(* ===== verification/AsyncIO.thy ===== *)
theory AsyncIO
  imports OS
begin

text \<open>
  The process-wide state of \<^verbatim>\<open>libfcgi/os_unix.c\<close>: the table of outstanding asynchronous operations
  with its descriptor sets (\<^verbatim>\<open>OS_LibInit\<close>, \<^verbatim>\<open>OS_AsyncReadStdin\<close>, \<^verbatim>\<open>OS_AsyncRead\<close>, \<^verbatim>\<open>OS_AsyncWrite\<close>,
  \<^verbatim>\<open>OS_CloseRead\<close>, \<^verbatim>\<open>OS_LibShutdown\<close>), the signal handlers, and \<^verbatim>\<open>OS_Close\<close>, which goes through the
  table and drains and closes a connection.

  Function and data pointers of callers are opaque numbers. A descriptor set is a set of numbers;
  \<^verbatim>\<open>FD_SET\<close> and \<^verbatim>\<open>FD_CLR\<close> outside \<^verbatim>\<open>0 .. FD_SETSIZE - 1\<close> write out of its bounds.
\<close>

section \<open>State\<close>

record AioInfo =
  procPtr :: nat
  clientData :: nat
  aio_fd :: int
  aio_len :: int
  aio_offset :: int
  aio_buf :: nat
  inUse :: bool

definition free_entry :: AioInfo where
  "free_entry = \<lparr> procPtr = 0, clientData = 0, aio_fd = 0, aio_len = 0, aio_offset = 0, aio_buf = 0, inUse = False \<rparr>"

text \<open>Signal dispositions: the default, the two handlers of this file, one of the application.\<close>

datatype disposition = SIG_DFL | OS_SigpipeHandler | OS_Sigusr1Handler | AppHandler

text \<open>A descriptor, as \<^verbatim>\<open>shutdown\<close> and \<^verbatim>\<open>close\<close> find it: a socket whose peer is there, one whose peer is
  gone (or that is no socket), or no open descriptor.\<close>

datatype descriptor = Live | Dead | NotOpen

text \<open>What the successive calls of \<^verbatim>\<open>accept\<close> find: a connection from a peer, or an error, and whether
  \<^verbatim>\<open>SIGUSR1\<close> arrives while the call returns. A peer has an IPv4 address or is of another family.\<close>

datatype peer = Inet int | OtherFamily

datatype accept_event = Accepted int peer bool | AcceptFails int bool

record os_lib =
  asyncIoInUse :: bool
  asyncIoTableSize :: nat
  asyncIoTable :: "AioInfo list option"
  libInitialized :: bool
  readFdSet :: "int set"
  writeFdSet :: "int set"
  readFdSetPost :: "int set"
  writeFdSetPost :: "int set"
  maxFd :: int
  shutdownPending :: bool
  sigpipe :: disposition
  sigusr1 :: disposition
  descriptors :: "int \<Rightarrow> descriptor"
  closed :: "int list"
  accepts :: "accept_event list"

text \<open>The values the program starts with, in a process that has the descriptors \<open>ds\<close> and is sent \<open>evs\<close>.\<close>

definition os_start :: "(int \<Rightarrow> descriptor) \<Rightarrow> accept_event list \<Rightarrow> os_lib" where
  "os_start ds evs = \<lparr> asyncIoInUse = False, asyncIoTableSize = 16, asyncIoTable = None, libInitialized = False,
     readFdSet = {}, writeFdSet = {}, readFdSetPost = {}, writeFdSetPost = {}, maxFd = - 1,
     shutdownPending = False, sigpipe = SIG_DFL, sigusr1 = SIG_DFL, descriptors = ds, closed = [],
     accepts = evs \<rparr>"

abbreviation (input) "FD_SETSIZE \<equiv> 1024 :: int"
abbreviation (input) "STDIN_FILENO \<equiv> 0 :: int"

definition fd_in_range :: "int \<Rightarrow> fault + unit" where
  "fd_in_range fd = (if 0 \<le> fd \<and> fd < FD_SETSIZE then Inr () else Inl BufferOverrun)"

definition FD_SET :: "int \<Rightarrow> int set \<Rightarrow> fault + int set" where
  "FD_SET fd S = rbind (fd_in_range fd) (\<lambda>_. Inr (insert fd S))"

definition FD_CLR :: "int \<Rightarrow> int set \<Rightarrow> fault + int set" where
  "FD_CLR fd S = rbind (fd_in_range fd) (\<lambda>_. Inr (S - {fd}))"

section \<open>Signals\<close>

definition OS_ShutdownPending :: "os_lib \<Rightarrow> os_lib" where
  "OS_ShutdownPending l = l\<lparr>shutdownPending := True\<rparr>"

text \<open>\<^verbatim>\<open>installSignalHandler\<close>: the new disposition of the signal, from its old one.\<close>

definition installSignalHandler :: "disposition \<Rightarrow> disposition \<Rightarrow> bool \<Rightarrow> disposition" where
  "installSignalHandler old act force = (if force \<or> old = SIG_DFL then act else old)"

definition OS_InstallSignalHandlers :: "bool \<Rightarrow> os_lib \<Rightarrow> os_lib" where
  "OS_InstallSignalHandlers force l =
     (let l = l\<lparr>sigpipe := installSignalHandler (sigpipe l) OS_SigpipeHandler force\<rparr>
      in l\<lparr>sigusr1 := installSignalHandler (sigusr1 l) OS_Sigusr1Handler force\<rparr>)"

text \<open>\<^verbatim>\<open>SIGUSR1\<close> arriving in a process that catches it.\<close>

definition on_sigusr1 :: "os_lib \<Rightarrow> os_lib" where
  "on_sigusr1 l = (if sigusr1 l = OS_Sigusr1Handler then OS_ShutdownPending l else l)"

section \<open>Setting up and shutting down\<close>

text \<open>\<open>mem\<close> says whether \<^verbatim>\<open>malloc\<close> finds the memory; 12 is \<^verbatim>\<open>ENOMEM\<close>.\<close>

definition OS_LibInit :: "bool \<Rightarrow> os_lib \<Rightarrow> os_state \<Rightarrow> int \<times> os_lib \<times> os_state" where
  "OS_LibInit mem l os =
     (if libInitialized l then (0, l, os)
      else if \<not> mem then (- 1, l\<lparr>asyncIoTable := None\<rparr>, os\<lparr>c_errno := 12\<rparr>)
      else
        let l = l\<lparr>asyncIoTable := Some (replicate (asyncIoTableSize l) free_entry)\<rparr>;
            l = l\<lparr>readFdSet := {}, writeFdSet := {}, readFdSetPost := {}, writeFdSetPost := {}\<rparr>;
            l = OS_InstallSignalHandlers False l
        in (0, l\<lparr>libInitialized := True\<rparr>, os))"

definition OS_LibShutdown :: "os_lib \<Rightarrow> os_lib" where
  "OS_LibShutdown l =
     (if \<not> libInitialized l then l else l\<lparr>asyncIoTable := None, libInitialized := False\<rparr>)"

section \<open>Asynchronous operations\<close>

definition AIO_RD_IX :: "int \<Rightarrow> int" where "AIO_RD_IX fd = fd * 2"
definition AIO_WR_IX :: "int \<Rightarrow> int" where "AIO_WR_IX fd = fd * 2 + 1"

text \<open>\<open>asyncIoTable[index]\<close>: read and written, with the faults of a missing or shorter table.\<close>

definition aio_get :: "os_lib \<Rightarrow> int \<Rightarrow> fault + AioInfo" where
  "aio_get l index =
     (case asyncIoTable l of None \<Rightarrow> Inl NullDeref
      | Some t \<Rightarrow> if 0 \<le> index \<and> index < int (length t) then Inr (t ! nat index) else Inl BufferOverrun)"

definition aio_put :: "int \<Rightarrow> AioInfo \<Rightarrow> os_lib \<Rightarrow> os_lib" where
  "aio_put index e l = l\<lparr>asyncIoTable := map_option (\<lambda>t. t[nat index := e]) (asyncIoTable l)\<rparr>"

definition GrowAsyncTable :: "os_lib \<Rightarrow> os_lib" where
  "GrowAsyncTable l =
     (let oldTableSize = asyncIoTableSize l;
          old = (case asyncIoTable l of None \<Rightarrow> replicate oldTableSize free_entry | Some t \<Rightarrow> t)
      in l\<lparr>asyncIoTableSize := oldTableSize * 2,
           asyncIoTable := Some (old @ replicate oldTableSize free_entry)\<rparr>)"

text \<open>\<open>while (index >= asyncIoTableSize) GrowAsyncTable()\<close>; doubling 0 would go on for ever.\<close>

function grow_for :: "int \<Rightarrow> os_lib \<Rightarrow> fault + os_lib" where
  "grow_for index l =
     (if index < int (asyncIoTableSize l) then Inr l
      else if asyncIoTableSize l = 0 then Inl OutOfFuel
      else grow_for index (GrowAsyncTable l))"
  by pat_completeness auto
termination
  by (relation "measure (\<lambda>(index, l). nat (index + 1) - asyncIoTableSize l)")
    (auto simp: GrowAsyncTable_def Let_def)

declare grow_for.simps [simp del]

definition io_entry :: "int \<Rightarrow> int \<Rightarrow> nat \<Rightarrow> int \<Rightarrow> nat \<Rightarrow> nat \<Rightarrow> AioInfo" where
  "io_entry fd offset buf len proc data =
     \<lparr> procPtr = proc, clientData = data, aio_fd = fd, aio_len = len, aio_offset = offset, aio_buf = buf, inUse = True \<rparr>"

definition aio_post ::
  "int \<Rightarrow> int \<Rightarrow> int \<Rightarrow> nat \<Rightarrow> int \<Rightarrow> nat \<Rightarrow> nat \<Rightarrow> os_lib \<Rightarrow> fault + os_lib" where
  "aio_post index fd offset buf len proc data l =
     rbind (aio_get l index) (\<lambda>e.
     rbind (c_assert (\<not> inUse e)) (\<lambda>_.
     Inr (aio_put index (io_entry fd offset buf len proc data) l)))"

lemma io_entry_simps [simp]:
  "inUse (io_entry fd offset buf len proc data)" "aio_fd (io_entry fd offset buf len proc data) = fd"
  by (simp_all add: io_entry_def)

definition OS_AsyncReadStdin :: "nat \<Rightarrow> int \<Rightarrow> nat \<Rightarrow> nat \<Rightarrow> os_lib \<Rightarrow> fault + int \<times> os_lib" where
  "OS_AsyncReadStdin buf len proc data l =
     (let index = AIO_RD_IX STDIN_FILENO;
          l = l\<lparr>asyncIoInUse := True\<rparr>
      in rbind (aio_post index STDIN_FILENO 0 buf len proc data l) (\<lambda>l.
         rbind (FD_SET STDIN_FILENO (readFdSet l)) (\<lambda>S.
         let l = l\<lparr>readFdSet := S\<rparr>
         in Inr (0, if STDIN_FILENO > maxFd l then l\<lparr>maxFd := STDIN_FILENO\<rparr> else l))))"

definition OS_AsyncRead :: "int \<Rightarrow> int \<Rightarrow> nat \<Rightarrow> int \<Rightarrow> nat \<Rightarrow> nat \<Rightarrow> os_lib \<Rightarrow> fault + int \<times> os_lib" where
  "OS_AsyncRead fd offset buf len proc data l =
     (let index = AIO_RD_IX fd in
      rbind (c_assert (asyncIoTable l \<noteq> None)) (\<lambda>_.
      let l = l\<lparr>asyncIoInUse := True\<rparr>;
          l = (if fd > maxFd l then l\<lparr>maxFd := fd\<rparr> else l)
      in rbind (grow_for index l) (\<lambda>l.
         rbind (aio_post index fd offset buf len proc data l) (\<lambda>l.
         rbind (FD_SET fd (readFdSet l)) (\<lambda>S.
         Inr (0, l\<lparr>readFdSet := S\<rparr>))))))"

definition OS_AsyncWrite :: "int \<Rightarrow> int \<Rightarrow> nat \<Rightarrow> int \<Rightarrow> nat \<Rightarrow> nat \<Rightarrow> os_lib \<Rightarrow> fault + int \<times> os_lib" where
  "OS_AsyncWrite fd offset buf len proc data l =
     (let index = AIO_WR_IX fd;
          l = l\<lparr>asyncIoInUse := True\<rparr>;
          l = (if fd > maxFd l then l\<lparr>maxFd := fd\<rparr> else l)
      in rbind (grow_for index l) (\<lambda>l.
         rbind (aio_post index fd offset buf len proc data l) (\<lambda>l.
         rbind (FD_SET fd (writeFdSet l)) (\<lambda>S.
         Inr (0, l\<lparr>writeFdSet := S\<rparr>)))))"

section \<open>Closing\<close>

text \<open>\<^verbatim>\<open>shutdown\<close> (107 is \<^verbatim>\<open>ENOTCONN\<close>, 9 \<^verbatim>\<open>EBADF\<close>) and \<^verbatim>\<open>close\<close>.\<close>

definition sys_shutdown :: "int \<Rightarrow> os_lib \<Rightarrow> os_state \<Rightarrow> int \<times> os_state" where
  "sys_shutdown fd l os =
     (case descriptors l fd of
        Live \<Rightarrow> (0, os)
      | Dead \<Rightarrow> (- 1, os\<lparr>c_errno := 107\<rparr>)
      | NotOpen \<Rightarrow> (- 1, os\<lparr>c_errno := 9\<rparr>))"

definition sys_close :: "int \<Rightarrow> os_lib \<Rightarrow> os_state \<Rightarrow> int \<times> os_lib \<times> os_state" where
  "sys_close fd l os =
     (if descriptors l fd = NotOpen then (- 1, l\<lparr>closed := closed l @ [fd]\<rparr>, os\<lparr>c_errno := 9\<rparr>)
      else (0, l\<lparr>descriptors := (descriptors l)(fd := NotOpen), closed := closed l @ [fd]\<rparr>, os))"

text \<open>\<open>do ... while (read(fd, trash, sizeof(trash)) > 0)\<close>.\<close>

lemma sys_read_measure:
  assumes "sys_read fd len os = (n, bs, os')" "0 < n"
  shows "sum_list (map (\<lambda>e. case e of Arrives bs \<Rightarrow> length bs | ReadFails _ \<Rightarrow> 0) (inbox (conns os' fd))) <
    sum_list (map (\<lambda>e. case e of Arrives bs \<Rightarrow> length bs | ReadFails _ \<Rightarrow> 0) (inbox (conns os fd)))"
  using assms by (auto simp: sys_read_def Let_def split: list.splits read_event.splits if_splits)

function drain :: "int \<Rightarrow> os_state \<Rightarrow> os_state" where
  "drain fd os =
     (case sys_read fd 1024 os of (n, _, os') \<Rightarrow> if n > 0 then drain fd os' else os')"
  by pat_completeness auto
termination
  by (relation "measure (\<lambda>(fd, os). sum_list (map (\<lambda>e. case e of Arrives bs \<Rightarrow> length bs | ReadFails _ \<Rightarrow> 0)
      (inbox (conns os fd))))") (auto dest!: sys_read_measure [OF sym])

declare drain.simps [simp del]

text \<open>Releasing the entries of a descriptor: neither index is compared with the table's size.\<close>

definition aio_release :: "int \<Rightarrow> os_lib \<Rightarrow> fault + os_lib" where
  "aio_release index l =
     rbind (aio_get l index) (\<lambda>e. Inr (if inUse e then aio_put index (e\<lparr>inUse := False\<rparr>) l else l))"

definition OS_Close :: "int \<Rightarrow> os_lib \<Rightarrow> os_state \<Rightarrow> fault + int \<times> os_lib \<times> os_state" where
  "OS_Close fd l os =
     (if fd = - 1 then Inr (0, l, os)
      else rbind
        (if asyncIoInUse l then
           rbind (FD_CLR fd (readFdSet l)) (\<lambda>R.
           rbind (FD_CLR fd (readFdSetPost l)) (\<lambda>RP.
           rbind (aio_release (AIO_RD_IX fd) (l\<lparr>readFdSet := R, readFdSetPost := RP\<rparr>)) (\<lambda>l.
           rbind (FD_CLR fd (writeFdSet l)) (\<lambda>W.
           rbind (FD_CLR fd (writeFdSetPost l)) (\<lambda>WP.
           rbind (aio_release (AIO_WR_IX fd) (l\<lparr>writeFdSet := W, writeFdSetPost := WP\<rparr>)) (\<lambda>l.
           Inr (if maxFd l = fd then l\<lparr>maxFd := maxFd l - 1\<rparr> else l)))))))
         else Inr l)
        (\<lambda>l. let (res, os) = sys_shutdown fd l os;
                 os = (if res = 0 then drain fd os else os)
             in Inr (sys_close fd l os)))"

definition OS_IpcClose :: "int \<Rightarrow> os_lib \<Rightarrow> os_state \<Rightarrow> fault + int \<times> os_lib \<times> os_state" where
  "OS_IpcClose ipcFd l os = OS_Close ipcFd l os"

definition OS_CloseRead :: "int \<Rightarrow> os_lib \<Rightarrow> os_state \<Rightarrow> fault + int \<times> os_lib \<times> os_state" where
  "OS_CloseRead fd l os =
     rbind (aio_get l (AIO_RD_IX fd)) (\<lambda>e.
     rbind (if inUse e
            then rbind (FD_CLR fd (readFdSet l)) (\<lambda>R.
                 Inr ((aio_put (AIO_RD_IX fd) (e\<lparr>inUse := False\<rparr>) l)\<lparr>readFdSet := R\<rparr>))
            else Inr l) (\<lambda>l.
     let (res, os) = sys_shutdown fd l os in Inr (res, l, os)))"

section \<open>The table and the sets agree\<close>

text \<open>The invariant: the table has the size the library believes it has, a descriptor is in the read set
  exactly when the read entry of the descriptor is in use, likewise for writing, and then the entry names
  the descriptor, which is in the range of \<^verbatim>\<open>select\<close>.\<close>

definition posted :: "AioInfo list \<Rightarrow> int \<Rightarrow> bool" where
  "posted t index \<longleftrightarrow> 0 \<le> index \<and> index < int (length t) \<and> inUse (t ! nat index)"

definition side_ok :: "AioInfo list \<Rightarrow> (int \<Rightarrow> int) \<Rightarrow> int set \<Rightarrow> int \<Rightarrow> bool" where
  "side_ok t ix S m \<longleftrightarrow> (\<forall>fd. (fd \<in> S) = posted t (ix fd)) \<and>
     (\<forall>fd \<in> S. 0 \<le> fd \<and> fd < FD_SETSIZE \<and> fd \<le> m \<and> aio_fd (t ! nat (ix fd)) = fd)"

definition aio_ok :: "os_lib \<Rightarrow> bool" where
  "aio_ok l \<longleftrightarrow> 0 < asyncIoTableSize l \<and> (asyncIoTable l = None) = (\<not> libInitialized l) \<and>
     (\<forall>t. asyncIoTable l = Some t \<longrightarrow> length t = asyncIoTableSize l \<and>
        side_ok t AIO_RD_IX (readFdSet l) (maxFd l) \<and> side_ok t AIO_WR_IX (writeFdSet l) (maxFd l))"

lemma AIO_IX_inj [simp]:
  "inj AIO_RD_IX" "inj AIO_WR_IX"
  "AIO_RD_IX fd = AIO_RD_IX fd' \<longleftrightarrow> fd = fd'" "AIO_WR_IX fd = AIO_WR_IX fd' \<longleftrightarrow> fd = fd'"
  "AIO_RD_IX fd \<noteq> AIO_WR_IX fd'" "AIO_WR_IX fd \<noteq> AIO_RD_IX fd'"
  "0 \<le> AIO_RD_IX fd \<longleftrightarrow> 0 \<le> fd" "0 \<le> AIO_WR_IX fd \<longleftrightarrow> 0 \<le> fd"
  unfolding AIO_RD_IX_def AIO_WR_IX_def inj_def by presburger+

lemma nth_entry:
  assumes "0 \<le> i" "i < int (length t)" "0 \<le> j"
  shows "t[nat i := e] ! nat j = (if j = i then e else t ! nat j)"
  using assms by (simp add: nth_list_update eq_nat_nat_iff)

lemma posted_update:
  assumes "0 \<le> i" "i < int (length t)"
  shows "posted (t[nat i := e]) j = (if j = i then inUse e else posted t j)"
  using assms by (auto simp: posted_def nth_entry)

lemma posted_range: "posted t i \<Longrightarrow> 0 \<le> i"
  by (simp add: posted_def)

lemma posted_free [simp]: "posted (t @ replicate k free_entry) j = posted t j"
proof -
  have "nth (t @ replicate k free_entry) (nat j) = free_entry"
    if "int (length t) \<le> j" "j < int (length t) + int k"
    using that by (simp add: nth_append nat_less_iff zless_nat_eq_int_zless)
  then show ?thesis by (auto simp: posted_def nth_append free_entry_def nat_less_iff)
qed

lemma side_ok_free: "side_ok t ix S m \<Longrightarrow> side_ok (t @ replicate k free_entry) ix S m"
  by (auto simp: side_ok_def posted_def nth_append nat_less_iff free_entry_def)

lemma side_ok_mono: "side_ok t ix S m \<Longrightarrow> m \<le> m' \<Longrightarrow> side_ok t ix S m'"
  by (force simp: side_ok_def)

text \<open>Updating an entry of this side, or of the other one.\<close>

lemma entry_update:
  assumes "inj ix" "0 \<le> ix fd" "ix fd < int (length t)"
  shows "posted (t[nat (ix fd) := e]) (ix a) = (if a = fd then inUse e else posted t (ix a))"
    "0 \<le> ix a \<Longrightarrow> t[nat (ix fd) := e] ! nat (ix a) = (if a = fd then e else t ! nat (ix a))"
proof -
  have "ix a = ix fd \<longleftrightarrow> a = fd" by (rule inj_eq [OF assms(1)])
  then show "posted (t[nat (ix fd) := e]) (ix a) = (if a = fd then inUse e else posted t (ix a))"
    "0 \<le> ix a \<Longrightarrow> t[nat (ix fd) := e] ! nat (ix a) = (if a = fd then e else t ! nat (ix a))"
    by (simp_all only: posted_update [OF assms(2,3)] nth_entry [OF assms(2,3)])
qed

lemma side_okD:
  assumes "side_ok t ix S m" "fd \<in> S"
  shows "posted t (ix fd)" "0 \<le> ix fd" "0 \<le> fd" "fd < FD_SETSIZE" "fd \<le> m" "aio_fd (t ! nat (ix fd)) = fd"
  using assms by (auto simp: side_ok_def posted_def)

lemma side_ok_post:
  assumes "side_ok t ix S m" "0 \<le> ix fd" "ix fd < int (length t)" "inj ix"
    and "0 \<le> fd" "fd < FD_SETSIZE" "fd \<le> m" "inUse e" "aio_fd e = fd"
  shows "side_ok (t[nat (ix fd) := e]) ix (insert fd S) m"
  using assms(1,5-9) side_okD [OF assms(1)] unfolding side_ok_def entry_update(1) [OF assms(4,2,3)]
  by (auto simp: entry_update(2) [OF assms(4,2,3)] assms(2))

lemma side_ok_release:
  assumes "side_ok t ix S m" "0 \<le> ix fd" "ix fd < int (length t)" "inj ix" "\<not> inUse e"
  shows "side_ok (t[nat (ix fd) := e]) ix (S - {fd}) m"
  using assms(1,5) side_okD [OF assms(1)] unfolding side_ok_def entry_update(1) [OF assms(4,2,3)]
  by (auto simp: entry_update(2) [OF assms(4,2,3)])

lemma side_ok_other:
  assumes s: "side_ok t ix S m" and i: "0 \<le> i" "i < int (length t)" and ne: "\<And>a. ix a \<noteq> i"
  shows "side_ok (t[nat i := e]) ix S m"
proof -
  have p: "posted (t[nat i := e]) (ix fd) = posted t (ix fd)" for fd
    unfolding posted_update [OF i] using ne [of fd] by (rule if_not_P)
  have n: "t[nat i := e] ! nat (ix fd) = t ! nat (ix fd)" if "fd \<in> S" for fd
  proof -
    have "posted t (ix fd)" using s that unfolding side_ok_def by blast
    then have "0 \<le> ix fd" by (rule posted_range)
    from nth_entry [OF i this] ne [of fd] show ?thesis by (simp only: if_False)
  qed
  show ?thesis using s n unfolding side_ok_def p by simp
qed

lemma side_ok_absent: "side_ok t ix S m \<Longrightarrow> \<not> posted t (ix fd) \<Longrightarrow> S - {fd} = S"
  by (auto simp: side_ok_def)


lemma grow_for_ok:
  assumes "asyncIoTable l = Some t" "length t = asyncIoTableSize l" "0 < asyncIoTableSize l"
  obtains k where "grow_for index l = Inr (l\<lparr>asyncIoTableSize := length t + k,
      asyncIoTable := Some (t @ replicate k free_entry)\<rparr>)" "index < int (length t + k)"
  using assms
proof (induction index l arbitrary: t thesis rule: grow_for.induct)
  case (1 index l)
  show ?case
  proof (cases "index < int (asyncIoTableSize l)")
    case True
    have "l = l\<lparr>asyncIoTableSize := length t, asyncIoTable := Some t\<rparr>" using 1(3,4) by simp
    then show ?thesis using True 1(2) [of 0] 1(3,4) by (simp add: grow_for.simps)
  next
    case False
    let ?n = "asyncIoTableSize l"
    let ?t = "t @ replicate ?n free_entry"
    have g: "GrowAsyncTable l = l\<lparr>asyncIoTableSize := ?n * 2, asyncIoTable := Some ?t\<rparr>"
      using 1(3) by (simp add: GrowAsyncTable_def Let_def)
    have step: "grow_for index l = grow_for index (GrowAsyncTable l)"
      using False 1(5) by (simp add: grow_for.simps [of index l])
    obtain k where "grow_for index (GrowAsyncTable l) = Inr ((GrowAsyncTable l)\<lparr>asyncIoTableSize := length ?t + k,
        asyncIoTable := Some (?t @ replicate k free_entry)\<rparr>)" "index < int (length ?t + k)"
      using 1(1) [OF False, of ?t] 1(4,5) by (auto simp: g)
    then show ?thesis
      using 1(2) [of "?n + k"] 1(4) by (simp add: step g replicate_add add.assoc)
  qed
qed

section \<open>Every operation keeps them in agreement\<close>

lemma aio_okD:
  assumes "aio_ok l" "asyncIoTable l = Some t"
  shows "length t = asyncIoTableSize l" "0 < asyncIoTableSize l" "side_ok t AIO_RD_IX (readFdSet l) (maxFd l)"
    "side_ok t AIO_WR_IX (writeFdSet l) (maxFd l)" "libInitialized l"
  using assms by (auto simp: aio_ok_def)

lemma aio_okI:
  "asyncIoTable l = Some t \<Longrightarrow> libInitialized l \<Longrightarrow> length t = asyncIoTableSize l \<Longrightarrow> 0 < asyncIoTableSize l \<Longrightarrow>
    side_ok t AIO_RD_IX (readFdSet l) (maxFd l) \<Longrightarrow> side_ok t AIO_WR_IX (writeFdSet l) (maxFd l) \<Longrightarrow> aio_ok l"
  by (auto simp: aio_ok_def)

lemma OS_LibInit_ok: "aio_ok l \<Longrightarrow> OS_LibInit mem l os = (rc, l', os') \<Longrightarrow> aio_ok l'"
proof -
  have "\<not> posted (replicate n free_entry) i" for n i
    using posted_free [of "[]" n i] by (simp add: posted_def)
  then have "side_ok (replicate n free_entry) ix {} m" for n ix m
    by (simp add: side_ok_def)
  then show "aio_ok l \<Longrightarrow> OS_LibInit mem l os = (rc, l', os') \<Longrightarrow> aio_ok l'"
    by (auto simp: OS_LibInit_def OS_InstallSignalHandlers_def Let_def aio_ok_def split: if_splits)
qed

lemma OS_LibShutdown_ok: "aio_ok l \<Longrightarrow> aio_ok (OS_LibShutdown l)"
  by (simp add: OS_LibShutdown_def aio_ok_def)

text \<open>What a posted operation does to a table that is large enough.\<close>

lemma aio_post_Inr:
  assumes "aio_post i fd offset b len proc data l = Inr l'"
  shows "\<exists>t. asyncIoTable l = Some t \<and> 0 \<le> i \<and> i < int (length t) \<and> \<not> posted t i \<and>
    l' = l\<lparr>asyncIoTable := Some (t[nat i := io_entry fd offset b len proc data])\<rparr>"
  using assms
  by (auto simp: aio_post_def aio_get_def aio_put_def rbind_Inr_iff c_assert_def posted_def
      split: option.splits if_splits)

lemma OS_AsyncReadStdin_ok:
  assumes ok: "aio_ok l" and run: "OS_AsyncReadStdin b len proc data l = Inr (rc, l')"
  shows "aio_ok l'"
proof -
  let ?l = "l\<lparr>asyncIoInUse := True\<rparr>"
  obtain l1 S where 1: "aio_post (AIO_RD_IX 0) 0 0 b len proc data ?l = Inr l1" "FD_SET 0 (readFdSet l1) = Inr S"
    "l' = (if 0 > maxFd l1 then l1\<lparr>readFdSet := S, maxFd := 0\<rparr> else l1\<lparr>readFdSet := S\<rparr>)"
    using run by (auto simp: OS_AsyncReadStdin_def Let_def rbind_Inr_iff split: if_splits)
  define e where "e = io_entry 0 0 b len proc data"
  obtain t where t: "asyncIoTable l = Some t" "AIO_RD_IX 0 < int (length t)"
    "l1 = ?l\<lparr>asyncIoTable := Some (t[nat (AIO_RD_IX 0) := e])\<rparr>"
    using aio_post_Inr [OF 1(1)] by (auto simp: e_def)
  note d = aio_okD [OF ok t(1)]
  define m where "m = max 0 (maxFd l)"
  have m: "maxFd l' = m" "0 \<le> m" "maxFd l \<le> m" using 1(3) t(3) by (auto simp: m_def)
  have S: "S = insert 0 (readFdSet l)" using 1(2) t(3) by (simp add: FD_SET_def fd_in_range_def)
  have "side_ok (t[nat (AIO_RD_IX 0) := e]) AIO_RD_IX S m" unfolding S
    by (rule side_ok_post [OF side_ok_mono [OF d(3) m(3)]]) (use t m in \<open>auto simp: e_def\<close>)
  moreover have "side_ok (t[nat (AIO_RD_IX 0) := e]) AIO_WR_IX (writeFdSet l) m"
    by (rule side_ok_other [OF side_ok_mono [OF d(4) m(3)]]) (use t in auto)
  ultimately show ?thesis
    using d 1(3) t m(1) by (intro aio_okI [of l' "t[nat (AIO_RD_IX 0) := e]"]) (auto split: if_splits)
qed

text \<open>\<^verbatim>\<open>OS_AsyncRead\<close> and \<^verbatim>\<open>OS_AsyncWrite\<close>: the entry posted, the table grown as far as it takes.\<close>

lemma post_grown:
  assumes ok: "aio_ok l" and t: "asyncIoTable l = Some t"
    and run: "rbind (grow_for i (l\<lparr>asyncIoInUse := True, maxFd := max fd (maxFd l)\<rparr>))
      (\<lambda>l. aio_post i fd offset b len proc data l) = Inr l'"
  obtains k where "0 \<le> i" "i < int (length t + k)" "\<not> posted t i"
    "l' = l\<lparr>asyncIoInUse := True, maxFd := max fd (maxFd l), asyncIoTableSize := length t + k,
       asyncIoTable := Some ((t @ replicate k free_entry)[nat i := io_entry fd offset b len proc data])\<rparr>"
proof -
  let ?l = "l\<lparr>asyncIoInUse := True, maxFd := max fd (maxFd l)\<rparr>"
  have "asyncIoTable ?l = Some t" "length t = asyncIoTableSize ?l" "0 < asyncIoTableSize ?l"
    using aio_okD [OF ok t] t by simp_all
  then obtain k where k: "grow_for i ?l = Inr (?l\<lparr>asyncIoTableSize := length t + k,
      asyncIoTable := Some (t @ replicate k free_entry)\<rparr>)" "i < int (length t + k)"
    by (rule grow_for_ok)
  have p: "aio_post i fd offset b len proc data (?l\<lparr>asyncIoTableSize := length t + k,
      asyncIoTable := Some (t @ replicate k free_entry)\<rparr>) = Inr l'"
    using run k(1) by simp
  show ?thesis
    using aio_post_Inr [OF p] k(2) by (intro that [of k]) auto
qed

lemma max_if: "(if maxFd l < fd then l\<lparr>asyncIoInUse := True, maxFd := fd\<rparr> else l\<lparr>asyncIoInUse := True\<rparr>) =
    l\<lparr>asyncIoInUse := True, maxFd := max fd (maxFd l)\<rparr>"
  by (cases l) (simp add: max_def)

lemma OS_AsyncRead_ok:
  assumes ok: "aio_ok l" and run: "OS_AsyncRead fd offset b len proc data l = Inr (rc, l')"
  shows "aio_ok l'"
proof -
  obtain t where t: "asyncIoTable l = Some t"
    using run by (auto simp: OS_AsyncRead_def c_assert_def split: if_splits)
  note d = aio_okD [OF ok t]
  obtain l1 S where 1: "rbind (grow_for (AIO_RD_IX fd) (l\<lparr>asyncIoInUse := True, maxFd := max fd (maxFd l)\<rparr>))
      (\<lambda>l. aio_post (AIO_RD_IX fd) fd offset b len proc data l) = Inr l1"
    "FD_SET fd (readFdSet l1) = Inr S" "l' = l1\<lparr>readFdSet := S\<rparr>"
    using run by (auto simp: OS_AsyncRead_def Let_def rbind_Inr_iff max_if split: if_splits)
  define e where "e = io_entry fd offset b len proc data"
  obtain k where 2: "0 \<le> fd" "AIO_RD_IX fd < int (length t + k)" "\<not> posted t (AIO_RD_IX fd)"
    "l1 = l\<lparr>asyncIoInUse := True, maxFd := max fd (maxFd l), asyncIoTableSize := length t + k,
       asyncIoTable := Some ((t @ replicate k free_entry)[nat (AIO_RD_IX fd) := e])\<rparr>"
    using post_grown [OF ok t 1(1)] by (auto simp: e_def)
  let ?t = "(t @ replicate k free_entry)[nat (AIO_RD_IX fd) := e]" and ?m = "max fd (maxFd l)"
  have S: "S = insert fd (readFdSet l)" "fd < 1024"
    using 1(2) 2(4) by (auto simp: FD_SET_def fd_in_range_def split: if_splits)
  have "side_ok ?t AIO_RD_IX S ?m" unfolding S(1)
    by (rule side_ok_post [OF side_ok_free [OF side_ok_mono [OF d(3)]]]) (use 2 S in \<open>auto simp: e_def\<close>)
  moreover have "side_ok ?t AIO_WR_IX (writeFdSet l) ?m"
    by (rule side_ok_other [OF side_ok_free [OF side_ok_mono [OF d(4)]]]) (use 2 in auto)
  ultimately show ?thesis
    using d 1(3) 2(4) by (intro aio_okI [of l' ?t]) auto
qed

lemma OS_AsyncWrite_ok:
  assumes ok: "aio_ok l" and t: "asyncIoTable l = Some t" and run: "OS_AsyncWrite fd offset b len proc data l = Inr (rc, l')"
  shows "aio_ok l'"
proof -
  note d = aio_okD [OF ok t]
  obtain l1 S where 1: "rbind (grow_for (AIO_WR_IX fd) (l\<lparr>asyncIoInUse := True, maxFd := max fd (maxFd l)\<rparr>))
      (\<lambda>l. aio_post (AIO_WR_IX fd) fd offset b len proc data l) = Inr l1"
    "FD_SET fd (writeFdSet l1) = Inr S" "l' = l1\<lparr>writeFdSet := S\<rparr>"
    using run by (auto simp: OS_AsyncWrite_def Let_def rbind_Inr_iff max_if split: if_splits)
  define e where "e = io_entry fd offset b len proc data"
  obtain k where 2: "0 \<le> fd" "AIO_WR_IX fd < int (length t + k)" "\<not> posted t (AIO_WR_IX fd)"
    "l1 = l\<lparr>asyncIoInUse := True, maxFd := max fd (maxFd l), asyncIoTableSize := length t + k,
       asyncIoTable := Some ((t @ replicate k free_entry)[nat (AIO_WR_IX fd) := e])\<rparr>"
    using post_grown [OF ok t 1(1)] by (auto simp: e_def)
  let ?t = "(t @ replicate k free_entry)[nat (AIO_WR_IX fd) := e]" and ?m = "max fd (maxFd l)"
  have S: "S = insert fd (writeFdSet l)" "fd < 1024"
    using 1(2) 2(4) by (auto simp: FD_SET_def fd_in_range_def split: if_splits)
  have "side_ok ?t AIO_WR_IX S ?m" unfolding S(1)
    by (rule side_ok_post [OF side_ok_free [OF side_ok_mono [OF d(4)]]]) (use 2 S in \<open>auto simp: e_def\<close>)
  moreover have "side_ok ?t AIO_RD_IX (readFdSet l) ?m"
    by (rule side_ok_other [OF side_ok_free [OF side_ok_mono [OF d(3)]]]) (use 2 in auto)
  ultimately show ?thesis
    using d 1(3) 2(4) by (intro aio_okI [of l' ?t]) auto
qed

text \<open>Releasing the entries of a descriptor.\<close>

lemma aio_release_Inr:
  assumes "aio_release i l = Inr l'"
  shows "\<exists>t e. asyncIoTable l = Some t \<and> 0 \<le> i \<and> i < int (length t) \<and> \<not> inUse e \<and>
    l' = l\<lparr>asyncIoTable := Some (t[nat i := e])\<rparr>"
proof -
  obtain t where t: "asyncIoTable l = Some t" "0 \<le> i" "i < int (length t)"
    using assms by (auto simp: aio_release_def aio_get_def rbind_Inr_iff split: option.splits if_splits)
  let ?e = "(t ! nat i)\<lparr>inUse := False\<rparr>"
  show ?thesis
  proof (cases "inUse (t ! nat i)")
    case True
    then have "l' = l\<lparr>asyncIoTable := Some (t[nat i := ?e])\<rparr>"
      using assms t by (simp add: aio_release_def aio_get_def aio_put_def)
    then show ?thesis using t by (intro exI [of _ t] exI [of _ ?e]) simp
  next
    case False
    have "l' = l" using assms t False by (simp add: aio_release_def aio_get_def)
    then have "l' = l\<lparr>asyncIoTable := Some (t[nat i := t ! nat i])\<rparr>" using t by simp
    then show ?thesis using t False by (intro exI [of _ t] exI [of _ "t ! nat i"]) simp
  qed
qed

lemma release_both:
  assumes ok: "aio_ok l" and t: "asyncIoTable l = Some t"
    and fd: "0 \<le> fd" "AIO_RD_IX fd < int (length t)" "AIO_WR_IX fd < int (length t)"
    and e: "\<not> inUse e" "\<not> inUse e'"
    and l': "l' = l\<lparr>readFdSet := readFdSet l - {fd}, writeFdSet := writeFdSet l - {fd}, readFdSetPost := R, writeFdSetPost := W,
      asyncIoTable := Some (t[nat (AIO_RD_IX fd) := e, nat (AIO_WR_IX fd) := e']),
      maxFd := (if maxFd l = fd then maxFd l - 1 else maxFd l)\<rparr>"
  shows "aio_ok l'"
proof -
  note d = aio_okD [OF ok t]
  let ?t = "t[nat (AIO_RD_IX fd) := e, nat (AIO_WR_IX fd) := e']"
  let ?m = "if maxFd l = fd then maxFd l - 1 else maxFd l"
  have sub: "side_ok u ix (S - {fd}) ?m" if s: "side_ok u ix (S - {fd}) (maxFd l)" for u ix and S :: "int set"
  proof -
    have "a \<le> ?m" if "a \<in> S - {fd}" for a
      using side_okD(5) [OF s that] that by (simp split: if_splits)
    then show ?thesis using s unfolding side_ok_def by blast
  qed
  have "side_ok (t[nat (AIO_RD_IX fd) := e]) AIO_RD_IX (readFdSet l - {fd}) (maxFd l)"
    by (rule side_ok_release [OF d(3)]) (use fd e in auto)
  then have "side_ok ?t AIO_RD_IX (readFdSet l - {fd}) (maxFd l)"
    by (rule side_ok_other) (use fd in auto)
  moreover have "side_ok (t[nat (AIO_RD_IX fd) := e]) AIO_WR_IX (writeFdSet l) (maxFd l)"
    by (rule side_ok_other [OF d(4)]) (use fd in auto)
  then have "side_ok ?t AIO_WR_IX (writeFdSet l - {fd}) (maxFd l)"
    by (rule side_ok_release) (use fd e in auto)
  ultimately show ?thesis
    using d sub unfolding l' by (intro aio_okI [of _ ?t]) simp_all
qed

lemma sys_close_frame:
  "sys_close fd l os = (rc, l', os') \<Longrightarrow> aio_ok l' = aio_ok l"
  by (auto simp: sys_close_def aio_ok_def split: if_splits)

lemma OS_Close_ok:
  assumes ok: "aio_ok l" and run: "OS_Close fd l os = Inr (rc, l', os')"
  shows "aio_ok l'"
proof (cases "fd = - 1 \<or> \<not> asyncIoInUse l")
  case True
  obtain os2 where "fd = - 1 \<and> l' = l \<or> sys_close fd l os2 = (rc, l', os')"
    using run True by (auto simp: OS_Close_def Let_def case_prod_beta split: if_splits)
  then show ?thesis using ok sys_close_frame by blast
next
  case False
  obtain R RP l1 W WP l2 where 1: "FD_CLR fd (readFdSet l) = Inr R" "FD_CLR fd (readFdSetPost l) = Inr RP"
    "aio_release (AIO_RD_IX fd) (l\<lparr>readFdSet := R, readFdSetPost := RP\<rparr>) = Inr l1"
    "FD_CLR fd (writeFdSet l1) = Inr W" "FD_CLR fd (writeFdSetPost l1) = Inr WP"
    "aio_release (AIO_WR_IX fd) (l1\<lparr>writeFdSet := W, writeFdSetPost := WP\<rparr>) = Inr l2"
    and fin: "(let l = (if maxFd l2 = fd then l2\<lparr>maxFd := maxFd l2 - 1\<rparr> else l2); (res, os) = sys_shutdown fd l os;
        os = (if res = 0 then drain fd os else os) in Inr (sys_close fd l os) :: fault + _) = Inr (rc, l', os')"
    using run False by (auto simp: OS_Close_def rbind_Inr_iff)
  obtain t e where 2: "asyncIoTable l = Some t" "0 \<le> fd" "AIO_RD_IX fd < int (length t)" "\<not> inUse e"
    "l1 = l\<lparr>readFdSet := R, readFdSetPost := RP, asyncIoTable := Some (t[nat (AIO_RD_IX fd) := e])\<rparr>"
    using aio_release_Inr [OF 1(3)] by auto
  obtain e' where 3: "AIO_WR_IX fd < int (length t)" "\<not> inUse e'"
    "l2 = l1\<lparr>writeFdSet := W, writeFdSetPost := WP,
       asyncIoTable := Some (t[nat (AIO_RD_IX fd) := e, nat (AIO_WR_IX fd) := e'])\<rparr>"
    using aio_release_Inr [OF 1(6)] 2(5) by auto
  have clr: "FD_CLR fd S = Inr S' \<Longrightarrow> S' = S - {fd}" for S S'
    by (auto simp: FD_CLR_def rbind_Inr_iff)
  let ?l = "if maxFd l2 = fd then l2\<lparr>maxFd := maxFd l2 - 1\<rparr> else l2"
  have "aio_ok ?l"
    by (rule release_both [OF ok 2(1,2,3) 3(1) 2(4) 3(2), where R = RP and W = WP])
      (use 2(5) 3(3) clr [OF 1(1)] clr [OF 1(4)] in simp)
  moreover obtain os2 where "sys_close fd ?l os2 = (rc, l', os')"
    using fin by (auto simp: Let_def case_prod_beta)
  ultimately show ?thesis using sys_close_frame by blast
qed

lemma OS_CloseRead_ok:
  assumes ok: "aio_ok l" and run: "OS_CloseRead fd l os = Inr (rc, l', os')"
  shows "aio_ok l'"
proof -
  obtain t where t: "asyncIoTable l = Some t" "0 \<le> fd" "AIO_RD_IX fd < int (length t)"
    using run by (auto simp: OS_CloseRead_def aio_get_def rbind_Inr_iff split: option.splits if_splits)
  note d = aio_okD [OF ok t(1)]
  let ?e = "t ! nat (AIO_RD_IX fd)"
  show ?thesis
  proof (cases "inUse ?e")
    case False
    then show ?thesis
      using run ok t by (auto simp: OS_CloseRead_def aio_get_def Let_def split: prod.splits)
  next
    case True
    let ?t = "t[nat (AIO_RD_IX fd) := ?e\<lparr>inUse := False\<rparr>]"
    have l': "l' = l\<lparr>asyncIoTable := Some ?t, readFdSet := readFdSet l - {fd}\<rparr>"
      using run t True by (auto simp: OS_CloseRead_def aio_get_def aio_put_def Let_def rbind_Inr_iff FD_CLR_def split: prod.splits)
    have "side_ok ?t AIO_RD_IX (readFdSet l - {fd}) (maxFd l)"
      by (rule side_ok_release [OF d(3)]) (use t in auto)
    moreover have "side_ok ?t AIO_WR_IX (writeFdSet l) (maxFd l)"
      by (rule side_ok_other [OF d(4)]) (use t in auto)
    ultimately show ?thesis using d unfolding l' by (intro aio_okI [of _ ?t]) simp_all
  qed
qed

text \<open>Any sequence of calls.\<close>

datatype aio_op =
    LibInit bool | LibShutdown | ReadStdin nat int nat nat | AsyncRead int int nat int nat nat
  | AsyncWrite int int nat int nat nat | Close int | CloseRead int

fun aio_step :: "aio_op \<Rightarrow> os_lib \<Rightarrow> os_state \<Rightarrow> fault + os_lib \<times> os_state" where
  "aio_step (LibInit mem) l os = (let (_, l, os) = OS_LibInit mem l os in Inr (l, os))"
| "aio_step LibShutdown l os = Inr (OS_LibShutdown l, os)"
| "aio_step (ReadStdin b len proc data) l os = rbind (OS_AsyncReadStdin b len proc data l) (\<lambda>(_, l). Inr (l, os))"
| "aio_step (AsyncRead fd off b len proc data) l os = rbind (OS_AsyncRead fd off b len proc data l) (\<lambda>(_, l). Inr (l, os))"
| "aio_step (AsyncWrite fd off b len proc data) l os = rbind (OS_AsyncWrite fd off b len proc data l) (\<lambda>(_, l). Inr (l, os))"
| "aio_step (Close fd) l os = rbind (OS_Close fd l os) (\<lambda>(_, l, os). Inr (l, os))"
| "aio_step (CloseRead fd) l os = rbind (OS_CloseRead fd l os) (\<lambda>(_, l, os). Inr (l, os))"

fun aio_run :: "aio_op list \<Rightarrow> os_lib \<Rightarrow> os_state \<Rightarrow> fault + os_lib \<times> os_state" where
  "aio_run [] l os = Inr (l, os)"
| "aio_run (x # xs) l os = rbind (aio_step x l os) (\<lambda>(l, os). aio_run xs l os)"

text \<open>Writes are posted only while the library is set up: \<^verbatim>\<open>OS_AsyncWrite\<close>, unlike \<^verbatim>\<open>OS_AsyncRead\<close>, does
  not check that, and would grow a table out of nothing.\<close>

fun disciplined :: "bool \<Rightarrow> aio_op list \<Rightarrow> bool" where
  "disciplined up [] = True"
| "disciplined up (LibInit mem # xs) = disciplined (up \<or> mem) xs"
| "disciplined up (LibShutdown # xs) = disciplined False xs"
| "disciplined up (AsyncWrite _ _ _ _ _ _ # xs) = (up \<and> disciplined up xs)"
| "disciplined up (_ # xs) = disciplined up xs"

lemma grow_for_libInitialized: "grow_for i l = Inr l' \<Longrightarrow> libInitialized l' = libInitialized l"
proof (induction i l rule: grow_for.induct)
  case (1 i l)
  then show ?case
    by (auto simp: grow_for.simps [of i l] GrowAsyncTable_def Let_def split: if_splits)
qed

lemma aio_post_libInitialized: "aio_post i fd off b len proc data l = Inr l' \<Longrightarrow> libInitialized l' = libInitialized l"
  by (auto simp: aio_post_def aio_put_def rbind_Inr_iff)

lemma aio_release_libInitialized: "aio_release i l = Inr l' \<Longrightarrow> libInitialized l' = libInitialized l"
  by (auto simp: aio_release_def aio_put_def rbind_Inr_iff split: if_splits)

lemma OS_LibInit_libInitialized: "OS_LibInit mem l os = (rc, l', os') \<Longrightarrow> libInitialized l' = (libInitialized l \<or> mem)"
  by (auto simp: OS_LibInit_def OS_InstallSignalHandlers_def Let_def split: if_splits)

lemma OS_AsyncReadStdin_libInitialized:
  assumes "OS_AsyncReadStdin b len proc data l = Inr (rc, l')"
  shows "libInitialized l' = libInitialized l"
proof -
  obtain l1 where "aio_post (AIO_RD_IX 0) 0 0 b len proc data (l\<lparr>asyncIoInUse := True\<rparr>) = Inr l1"
    "libInitialized l' = libInitialized l1"
    using assms by (auto simp: OS_AsyncReadStdin_def Let_def rbind_Inr_iff split: if_splits)
  then show ?thesis by (simp add: aio_post_libInitialized [of _ _ _ _ _ _ _ _ l1])
qed

lemma OS_AsyncRead_libInitialized:
  "OS_AsyncRead fd off b len proc data l = Inr (rc, l') \<Longrightarrow> libInitialized l' = libInitialized l"
  by (auto simp: OS_AsyncRead_def rbind_Inr_iff Let_def dest!: aio_post_libInitialized grow_for_libInitialized
      split: if_splits)

lemma OS_AsyncWrite_libInitialized:
  "OS_AsyncWrite fd off b len proc data l = Inr (rc, l') \<Longrightarrow> libInitialized l' = libInitialized l"
  by (auto simp: OS_AsyncWrite_def rbind_Inr_iff Let_def dest!: aio_post_libInitialized grow_for_libInitialized
      split: if_splits)

lemma sys_close_libInitialized: "sys_close fd l os = (rc, l', os') \<Longrightarrow> libInitialized l' = libInitialized l"
  by (auto simp: sys_close_def split: if_splits)

lemma OS_Close_libInitialized:
  assumes "OS_Close fd l os = Inr (rc, l', os')"
  shows "libInitialized l' = libInitialized l"
proof -
  obtain l1 os2 where 1: "fd = - 1 \<and> l' = l \<or> libInitialized l1 = libInitialized l \<and> sys_close fd l1 os2 = (rc, l', os')"
  proof (cases "fd = - 1 \<or> \<not> asyncIoInUse l")
    case True
    then show ?thesis using assms that [of l] by (auto simp: OS_Close_def Let_def case_prod_beta split: if_splits)
  next
    case False
    obtain R RP l1 W WP l2 where 1: "aio_release (AIO_RD_IX fd) (l\<lparr>readFdSet := R, readFdSetPost := RP\<rparr>) = Inr l1"
      "aio_release (AIO_WR_IX fd) (l1\<lparr>writeFdSet := W, writeFdSetPost := WP\<rparr>) = Inr l2"
      and fin: "(let l = (if maxFd l2 = fd then l2\<lparr>maxFd := maxFd l2 - 1\<rparr> else l2); (res, os) = sys_shutdown fd l os;
          os = (if res = 0 then drain fd os else os) in Inr (sys_close fd l os) :: fault + _) = Inr (rc, l', os')"
      using assms False by (auto simp: OS_Close_def rbind_Inr_iff)
    have "libInitialized (if maxFd l2 = fd then l2\<lparr>maxFd := maxFd l2 - 1\<rparr> else l2) = libInitialized l"
      using aio_release_libInitialized [OF 1(1)] aio_release_libInitialized [OF 1(2)] by simp
    then show ?thesis
      using fin that [of "if maxFd l2 = fd then l2\<lparr>maxFd := maxFd l2 - 1\<rparr> else l2"] by (auto simp: Let_def case_prod_beta)
  qed
  then show ?thesis using sys_close_libInitialized by blast
qed

lemma OS_CloseRead_libInitialized:
  assumes "OS_CloseRead fd l os = Inr (rc, l', os')"
  shows "libInitialized l' = libInitialized l"
proof -
  obtain e R where "l' = l \<or> l' = (aio_put (AIO_RD_IX fd) e l)\<lparr>readFdSet := R\<rparr>"
    using assms by (auto simp: OS_CloseRead_def rbind_Inr_iff case_prod_beta split: if_splits)
  then show ?thesis by (auto simp: aio_put_def)
qed

lemma aio_step_ok:
  assumes ok: "aio_ok l" and run: "aio_step x l os = Inr (l', os')" and dis: "disciplined (libInitialized l) (x # xs)"
  shows "aio_ok l' \<and> disciplined (libInitialized l') xs"
proof (cases x)
  case (LibInit mem)
  then obtain rc where "OS_LibInit mem l os = (rc, l', os')" using run by (auto simp: case_prod_beta Let_def prod_eq_iff)
  then show ?thesis using OS_LibInit_ok [OF ok] OS_LibInit_libInitialized dis LibInit by auto
next
  case LibShutdown
  then have "l' = OS_LibShutdown l" using run by simp
  moreover have "libInitialized (OS_LibShutdown l) = False" by (simp add: OS_LibShutdown_def)
  ultimately show ?thesis using OS_LibShutdown_ok [OF ok] dis LibShutdown by simp
next
  case (ReadStdin b len proc data)
  then obtain rc where "OS_AsyncReadStdin b len proc data l = Inr (rc, l')" using run by (auto simp: rbind_Inr_iff)
  then show ?thesis using OS_AsyncReadStdin_ok [OF ok] OS_AsyncReadStdin_libInitialized dis ReadStdin by auto
next
  case (AsyncRead fd off b len proc data)
  then obtain rc where "OS_AsyncRead fd off b len proc data l = Inr (rc, l')" using run by (auto simp: rbind_Inr_iff)
  then show ?thesis using OS_AsyncRead_ok [OF ok] OS_AsyncRead_libInitialized dis AsyncRead by auto
next
  case (AsyncWrite fd off b len proc data)
  then obtain rc where 1: "OS_AsyncWrite fd off b len proc data l = Inr (rc, l')" using run by (auto simp: rbind_Inr_iff)
  have "libInitialized l" using dis AsyncWrite by simp
  then obtain t where "asyncIoTable l = Some t" using ok by (auto simp: aio_ok_def)
  then show ?thesis using OS_AsyncWrite_ok [OF ok _ 1] OS_AsyncWrite_libInitialized [OF 1] dis AsyncWrite by auto
next
  case (Close fd)
  then obtain rc where "OS_Close fd l os = Inr (rc, l', os')" using run by (auto simp: rbind_Inr_iff)
  then show ?thesis using OS_Close_ok [OF ok] OS_Close_libInitialized dis Close by auto
next
  case (CloseRead fd)
  then obtain rc where "OS_CloseRead fd l os = Inr (rc, l', os')" using run by (auto simp: rbind_Inr_iff)
  then show ?thesis using OS_CloseRead_ok [OF ok] OS_CloseRead_libInitialized dis CloseRead by auto
qed

lemma aio_run_ok:
  assumes "aio_ok l" "disciplined (libInitialized l) ops" "aio_run ops l os = Inr (l', os')"
  shows "aio_ok l'"
  using assms
proof (induction ops arbitrary: l os)
  case Nil
  then show ?case by simp
next
  case (Cons x xs)
  obtain l1 os1 where 1: "aio_step x l os = Inr (l1, os1)" "aio_run xs l1 os1 = Inr (l', os')"
    using Cons.prems(3) by (auto simp: rbind_Inr_iff)
  have "aio_ok l1 \<and> disciplined (libInitialized l1) xs"
    by (rule aio_step_ok [OF Cons.prems(1) 1(1) Cons.prems(2)])
  then show ?case using Cons.IH 1(2) by blast
qed

text \<open>A kernel on which nothing happens, to evaluate with.\<close>

definition quiet_os :: os_state where
  "quiet_os = \<lparr> conns = (\<lambda>_. \<lparr> inbox = [], outcomes = [], sent = [] \<rparr>), c_errno = 0, shutdownNow = False \<rparr>"

text \<open>C28: whatever asynchronous reads and writes are posted, cancelled and closed on whatever descriptors, and
  however often the library is shut down and set up again: as long as no call faults, the table has the size
  the library believes it has, an entry is in use exactly when its descriptor is in the matching set for
  \<^verbatim>\<open>select\<close>, and no descriptor in a set is above \<^verbatim>\<open>maxFd\<close>.\<close>

theorem aio_table_invariant:
  assumes "disciplined False ops" "aio_run ops (os_start ds evs) os = Inr (l, os')"
  shows "aio_ok l"
proof -
  have "aio_ok (os_start ds evs)" "\<not> libInitialized (os_start ds evs)" by (simp_all add: os_start_def aio_ok_def)
  then show ?thesis using aio_run_ok [of "os_start ds evs" ops os l os'] assms by simp
qed

lemma aio_table_invariant_witness:
  "aio_ok (fst (projr (aio_run [LibInit True, AsyncRead 9 0 1 100 2 3, ReadStdin 1 10 2 3, AsyncWrite 9 0 4 7 5 6, Close 9]
     (os_start (\<lambda>_. Live) []) quiet_os)))"
proof -
  let ?ops = "[LibInit True, AsyncRead 9 0 1 100 2 3, ReadStdin 1 10 2 3, AsyncWrite 9 0 4 7 5 6, Close 9]"
  let ?os = "quiet_os"
  have "\<not> isl (aio_run ?ops (os_start (\<lambda>_. Live) []) ?os)" by code_simp
  then obtain l os' where "aio_run ?ops (os_start (\<lambda>_. Live) []) ?os = Inr (l, os')"
    by (cases "aio_run ?ops (os_start (\<lambda>_. Live) []) ?os") auto
  then show ?thesis using aio_table_invariant [of ?ops "\<lambda>_. Live" "[]" ?os] by simp
qed

text \<open>Posting a read on a descriptor without one outstanding succeeds, growing the table when it must;
  it stores exactly the caller's arguments in that descriptor's entry and leaves every other entry alone.\<close>

theorem AsyncRead_posts:
  assumes "aio_ok l" "asyncIoTable l = Some t" "0 \<le> fd" "fd < FD_SETSIZE" "fd \<notin> readFdSet l"
  shows "\<exists>l' t'. OS_AsyncRead fd offset b len proc data l = Inr (0, l') \<and> asyncIoTable l' = Some t' \<and>
    length t \<le> length t' \<and> t' ! nat (AIO_RD_IX fd) = io_entry fd offset b len proc data \<and>
    (\<forall>i < length t. i \<noteq> nat (AIO_RD_IX fd) \<longrightarrow> t' ! i = t ! i) \<and> readFdSet l' = insert fd (readFdSet l)"
proof -
  let ?l = "l\<lparr>asyncIoInUse := True, maxFd := max fd (maxFd l)\<rparr>"
  note d = aio_okD [OF assms(1,2)]
  have "asyncIoTable ?l = Some t" "length t = asyncIoTableSize ?l" "0 < asyncIoTableSize ?l"
    using d assms(2) by simp_all
  then obtain k where k: "grow_for (AIO_RD_IX fd) ?l = Inr (?l\<lparr>asyncIoTableSize := length t + k,
      asyncIoTable := Some (t @ replicate k free_entry)\<rparr>)" "AIO_RD_IX fd < int (length t + k)"
    by (rule grow_for_ok)
  let ?u = "t @ replicate k free_entry" and ?i = "nat (AIO_RD_IX fd)"
  have "\<not> posted ?u (AIO_RD_IX fd)" using d(3) assms(5) by (simp add: side_ok_def)
  then have "\<not> inUse (?u ! ?i)" using k(2) assms(3) by (simp add: posted_def)
  then have "OS_AsyncRead fd offset b len proc data l = Inr (0, ?l\<lparr>asyncIoTableSize := length t + k,
      asyncIoTable := Some (?u[?i := io_entry fd offset b len proc data]), readFdSet := insert fd (readFdSet l)\<rparr>)"
    using k assms by (simp add: OS_AsyncRead_def Let_def max_if aio_post_def aio_get_def aio_put_def FD_SET_def fd_in_range_def)
  moreover have "?i < length ?u" using k(2) assms(3) by (simp add: nat_less_iff)
  ultimately show ?thesis by (auto simp: nth_append)
qed

lemma AsyncRead_posts_witness:
  "\<exists>l' t'. OS_AsyncRead 40 0 1 100 2 3 (fst (snd (OS_LibInit True (os_start (\<lambda>_. Live) [])
       quiet_os))) = Inr (0, l') \<and>
     asyncIoTable l' = Some t' \<and> 16 \<le> length t' \<and> t' ! 80 = io_entry 40 0 1 100 2 3 \<and> readFdSet l' = {40}"
proof -
  let ?os = "quiet_os"
  define l where "l = fst (snd (OS_LibInit True (os_start (\<lambda>_. Live) []) ?os))"
  have "aio_ok (os_start (\<lambda>_. Live) [])" by (simp add: os_start_def aio_ok_def)
  moreover obtain rc os' where "OS_LibInit True (os_start (\<lambda>_. Live) []) ?os = (rc, l, os')"
    by (cases "OS_LibInit True (os_start (\<lambda>_. Live) []) ?os") (simp add: l_def)
  ultimately have "aio_ok l" by (rule OS_LibInit_ok)
  moreover have "asyncIoTable l = Some (replicate 16 free_entry)" "readFdSet l = {}"
    by (simp_all add: l_def OS_LibInit_def OS_InstallSignalHandlers_def os_start_def Let_def)
  ultimately show ?thesis
    using AsyncRead_posts [of l "replicate 16 free_entry" 40 0 1 100 2 3] by (auto simp: l_def [symmetric] AIO_RD_IX_def)
qed

text \<open>Once any asynchronous operation has been posted, closing a descriptor whose entries lie beyond the
  table reads out of its bounds; without any, \<^verbatim>\<open>OS_Close\<close> never touches the table.\<close>

theorem close_beyond_table:
  assumes "asyncIoInUse l" "asyncIoTable l = Some t" "0 \<le> fd" "fd < FD_SETSIZE" "int (length t) \<le> AIO_RD_IX fd"
  shows "OS_Close fd l os = Inl BufferOverrun"
  using assms by (simp add: OS_Close_def FD_CLR_def fd_in_range_def aio_release_def aio_get_def)

lemma close_beyond_table_witness:
  "OS_Close 8 ((os_start (\<lambda>_. Live) [])\<lparr>asyncIoInUse := True, asyncIoTable := Some (replicate 16 free_entry)\<rparr>)
     quiet_os = Inl BufferOverrun"
  by (rule close_beyond_table [of _ "replicate 16 free_entry"]) (simp_all add: AIO_RD_IX_def)

text \<open>Draining a connection takes input from it and nothing else.\<close>

lemma drain_frame:
  "sent (conns (drain fd os) fd) = sent (conns os fd) \<and> shutdownNow (drain fd os) = shutdownNow os \<and>
   (\<forall>fd'. fd' \<noteq> fd \<longrightarrow> conns (drain fd os) fd' = conns os fd')"
proof (induction fd os rule: drain.induct)
  case (1 fd os)
  obtain n bs os1 where r: "sys_read fd 1024 os = (n, bs, os1)" by (cases "sys_read fd 1024 os")
  have "sent (conns os1 fd) = sent (conns os fd) \<and> shutdownNow os1 = shutdownNow os \<and>
      (\<forall>fd'. fd' \<noteq> fd \<longrightarrow> conns os1 fd' = conns os fd')"
    using r by (auto simp: sys_read_def Let_def split: list.splits read_event.splits if_splits)
  then show ?case using 1 [OF r [symmetric] refl] r by (auto simp: drain.simps [of fd os])
qed

end
