(* ===== verification/Listen.thy ===== *)
theory Listen
  imports AsyncIO
begin

text \<open>
  Accepting connections in \<^verbatim>\<open>libfcgi/os_unix.c\<close>: \<^verbatim>\<open>OS_Accept\<close> with \<^verbatim>\<open>ClientAddrOK\<close>,
  \<^verbatim>\<open>is_reasonable_accept_errno\<close>, \<^verbatim>\<open>AcquireLock\<close> and \<^verbatim>\<open>ReleaseLock\<close> (which do nothing:
  \<^verbatim>\<open>include/fcgi_config.h\<close> leaves \<^verbatim>\<open>USE_LOCKING\<close> undefined), and \<^verbatim>\<open>OS_IsFcgi\<close>.

  The C library's \<^verbatim>\<open>inet_addr\<close> is the argument \<open>inet_addr\<close>; addresses are the numbers it returns.
\<close>

section \<open>Addresses\<close>

text \<open>\<open>strchr(cur, ',')\<close>: the part before the first separator, and what follows it.\<close>

fun split_first :: "byte \<Rightarrow> byte list \<Rightarrow> byte list \<times> byte list option" where
  "split_first c [] = ([], None)"
| "split_first c (b # bs) =
     (if b = c then ([], Some bs)
      else let (x, rest) = split_first c bs in (b # x, rest))"

lemma split_first_length: "split_first c bs = (x, Some rest) \<Longrightarrow> length rest < length bs"
  by (induction bs arbitrary: x) (auto split: if_splits prod.splits simp: Let_def less_SucI)

function addr_in_list :: "(byte list \<Rightarrow> int) \<Rightarrow> int \<Rightarrow> byte list \<Rightarrow> bool" where
  "addr_in_list inet_addr addr cur =
     (case split_first 0x2C cur of
        (this, rest) \<Rightarrow>
          if inet_addr this = addr then True
          else case rest of None \<Rightarrow> False | Some cur \<Rightarrow> addr_in_list inet_addr addr cur)"
  by pat_completeness auto
termination
  by (relation "measure (\<lambda>(_, _, cur). length cur)") (auto dest: split_first_length [OF sym])

declare addr_in_list.simps [simp del]

definition ClientAddrOK :: "(byte list \<Rightarrow> int) \<Rightarrow> int \<Rightarrow> byte list option \<Rightarrow> bool" where
  "ClientAddrOK inet_addr addr clientList =
     (case clientList of
        None \<Rightarrow> True
      | Some cl \<Rightarrow> if cstr cl = [] then True else addr_in_list inet_addr addr (cstr cl))"

section \<open>Errors of accept\<close>

abbreviation (input) "EINTR \<equiv> 4 :: int"

text \<open>\<^verbatim>\<open>EPROTO\<close>, \<^verbatim>\<open>ECONNABORTED\<close>, \<^verbatim>\<open>ECONNRESET\<close>, \<^verbatim>\<open>ETIMEDOUT\<close>, \<^verbatim>\<open>EHOSTUNREACH\<close>, \<^verbatim>\<open>ENETUNREACH\<close>.\<close>

definition is_reasonable_accept_errno :: "int \<Rightarrow> bool" where
  "is_reasonable_accept_errno error \<longleftrightarrow>
     error = 71 \<or> error = 103 \<or> error = 104 \<or> error = 110 \<or> error = 113 \<or> error = 101"

definition AcquireLock :: "int \<Rightarrow> bool \<Rightarrow> int" where "AcquireLock sock fail_on_intr = 0"
definition ReleaseLock :: "int \<Rightarrow> int" where "ReleaseLock sock = 0"

section \<open>OS_Accept\<close>

text \<open>The call: the descriptor (-1 for an error) and the peer, which an error leaves as it was.\<close>

definition sys_accept :: "peer \<Rightarrow> os_lib \<Rightarrow> os_state \<Rightarrow> fault + int \<times> peer \<times> os_lib \<times> os_state" where
  "sys_accept sa l os =
     (case accepts l of
        [] \<Rightarrow> Inl Blocked
      | Accepted fd p sig # evs \<Rightarrow>
          let l = l\<lparr>accepts := evs, descriptors := (descriptors l)(fd := Live)\<rparr>
          in Inr (fd, p, if sig then on_sigusr1 l else l, os)
      | AcceptFails e sig # evs \<Rightarrow>
          let l = l\<lparr>accepts := evs\<rparr>
          in Inr (- 1, sa, if sig then on_sigusr1 l else l, os\<lparr>c_errno := e\<rparr>))"

text \<open>The \<^verbatim>\<open>do ... while\<close> loop; \<open>socket\<close> and \<open>sa\<close> are what these variables hold when it starts.\<close>

fun accept_retry ::
  "nat \<Rightarrow> bool \<Rightarrow> int \<Rightarrow> peer \<Rightarrow> os_lib \<Rightarrow> os_state \<Rightarrow> fault + int \<times> peer \<times> os_lib \<times> os_state" where
  "accept_retry 0 fail_on_intr socket sa l os = Inl OutOfFuel"
| "accept_retry (Suc fuel) fail_on_intr socket sa l os =
     (if shutdownPending l then Inr (socket, sa, l, os)
      else rbind (sys_accept sa l os) (\<lambda>(socket, sa, l, os).
        if socket < 0 \<and> c_errno os = EINTR \<and> \<not> fail_on_intr \<and> \<not> shutdownPending l
        then accept_retry fuel fail_on_intr socket sa l os
        else Inr (socket, sa, l, os)))"

text \<open>The loop around it, to the connection it returns or the error.\<close>

fun accept_loop ::
  "(byte list \<Rightarrow> int) \<Rightarrow> nat \<Rightarrow> int \<Rightarrow> bool \<Rightarrow> byte list option \<Rightarrow> int \<Rightarrow> peer \<Rightarrow> os_lib \<Rightarrow> os_state \<Rightarrow>
    fault + int \<times> os_lib \<times> os_state" where
  "accept_loop inet_addr 0 listen_sock fail_on_intr addrs socket sa l os = Inl OutOfFuel"
| "accept_loop inet_addr (Suc fuel) listen_sock fail_on_intr addrs socket sa l os =
     rbind (accept_retry (length (accepts l) + 1) fail_on_intr socket sa l os) (\<lambda>(socket, sa, l, os).
     if socket < 0 then
       if shutdownPending l \<or> \<not> is_reasonable_accept_errno (c_errno os)
       then let errnoSave = c_errno os; _ = ReleaseLock listen_sock
            in Inr (- 1, l, if \<not> shutdownPending l then os\<lparr>c_errno := errnoSave\<rparr> else os)
       else accept_loop inet_addr fuel listen_sock fail_on_intr addrs socket sa l (os\<lparr>c_errno := 0\<rparr>)
     else case sa of
       OtherFamily \<Rightarrow> Inr (socket, l, os)
     | Inet addr \<Rightarrow>
         if ClientAddrOK inet_addr addr addrs then Inr (socket, l, os)
         else let (_, l, os) = sys_close socket l os
              in accept_loop inet_addr fuel listen_sock fail_on_intr addrs socket sa l os)"

definition OS_Accept ::
  "(byte list \<Rightarrow> int) \<Rightarrow> int \<Rightarrow> bool \<Rightarrow> byte list option \<Rightarrow> os_lib \<Rightarrow> os_state \<Rightarrow>
    fault + int \<times> os_lib \<times> os_state" where
  "OS_Accept inet_addr listen_sock fail_on_intr webServerAddrs l os =
     (if AcquireLock listen_sock fail_on_intr \<noteq> 0 then Inr (- 1, l, os)
      else rbind
        (accept_loop inet_addr (length (accepts l) + 1) listen_sock fail_on_intr webServerAddrs (- 1) OtherFamily l os)
        (\<lambda>(socket, l, os).
          if socket < 0 then Inr (socket, l, os)
          else if ReleaseLock listen_sock \<noteq> 0 then Inr (- 1, l, os)
          else Inr (socket, l, os)))"

text \<open>\<^verbatim>\<open>OS_IsFcgi\<close>: \<open>peername\<close> is the \<^verbatim>\<open>errno\<close> that \<^verbatim>\<open>getpeername\<close> fails with, 0 if it succeeds;
  107 is \<^verbatim>\<open>ENOTCONN\<close>.\<close>

definition OS_IsFcgi :: "int \<Rightarrow> os_state \<Rightarrow> bool \<times> os_state" where
  "OS_IsFcgi peername os =
     (let os = os\<lparr>c_errno := 0\<rparr>;
          os = (if peername \<noteq> 0 then os\<lparr>c_errno := peername\<rparr> else os)
      in (peername \<noteq> 0 \<and> c_errno os = 107, os))"

section \<open>The list of addresses\<close>

text \<open>The entries of a list separated by a character.\<close>

fun split_on :: "byte \<Rightarrow> byte list \<Rightarrow> byte list list" where
  "split_on c [] = [[]]"
| "split_on c (b # bs) = (if b = c then [] # split_on c bs else
     (case split_on c bs of [] \<Rightarrow> [[b]] | x # xs \<Rightarrow> (b # x) # xs))"

lemma split_on_first:
  "split_on c bs = (case split_first c bs of (x, None) \<Rightarrow> [x] | (x, Some rest) \<Rightarrow> x # split_on c rest)"
proof (induction bs)
  case (Cons b bs)
  then show ?case by (cases "split_first c bs"; cases "snd (split_first c bs)") (auto simp: Let_def)
qed simp

lemma addr_in_list_split: "addr_in_list inet_addr addr cur \<longleftrightarrow> (\<exists>x \<in> set (split_on 0x2C cur). inet_addr x = addr)"
proof (induction inet_addr addr cur rule: addr_in_list.induct)
  case (1 inet_addr addr cur)
  obtain x rest where s: "split_first 0x2C cur = (x, rest)" by (cases "split_first 0x2C cur")
  show ?case
  proof (cases rest)
    case None
    then show ?thesis using s by (simp add: addr_in_list.simps [of inet_addr addr cur] split_on_first [of _ cur])
  next
    case (Some r)
    show ?thesis
      using 1 [OF s [symmetric] _ Some] s Some
      by (auto simp: addr_in_list.simps [of inet_addr addr cur] split_on_first [of _ cur])
  qed
qed

text \<open>C33: a client passes exactly when no list is given, the list is empty, or one of its comma-separated
  entries denotes the client's address.\<close>

theorem ClientAddrOK_iff:
  "ClientAddrOK inet_addr addr clientList \<longleftrightarrow>
     (clientList = None \<or> cstr (the clientList) = [] \<or> (\<exists>x \<in> set (split_on 0x2C (cstr (the clientList))). inet_addr x = addr))"
  by (auto simp: ClientAddrOK_def addr_in_list_split split: option.splits)

section \<open>What OS_Accept returns\<close>

text \<open>What one event leads to, without signals: go on, refuse the client, or return.\<close>

datatype verdict = PassOver | Refuse int | Result int

definition verdict_of :: "(byte list \<Rightarrow> int) \<Rightarrow> bool \<Rightarrow> byte list option \<Rightarrow> accept_event \<Rightarrow> verdict" where
  "verdict_of inet_addr fail_on_intr addrs ev =
     (case ev of
        AcceptFails e _ \<Rightarrow>
          if e = EINTR \<and> \<not> fail_on_intr \<or> is_reasonable_accept_errno e then PassOver else Result (- 1)
      | Accepted fd OtherFamily _ \<Rightarrow> Result fd
      | Accepted fd (Inet addr) _ \<Rightarrow> if ClientAddrOK inet_addr addr addrs then Result fd else Refuse fd)"

fun refused :: "verdict list \<Rightarrow> int list" where
  "refused [] = []"
| "refused (Refuse fd # vs) = fd # refused vs"
| "refused (_ # vs) = refused vs"

fun calm :: "accept_event \<Rightarrow> bool" where
  "calm (Accepted fd p sig) = (\<not> sig \<and> 0 \<le> fd)"
| "calm (AcceptFails e sig) = (\<not> sig)"

lemma EINTR_unreasonable [simp]: "\<not> is_reasonable_accept_errno 4"
  by (simp add: is_reasonable_accept_errno_def)

text \<open>An interrupted call only uses up its event.\<close>

lemma accept_loop_EINTR:
  assumes "accepts l = AcceptFails 4 False # evs" "\<not> shutdownPending l" "\<not> fail"
  shows "accept_loop ia (Suc fuel) ls fail addrs socket sa l os =
    accept_loop ia (Suc fuel) ls fail addrs (- 1) sa (l\<lparr>accepts := evs\<rparr>) (os\<lparr>c_errno := 4\<rparr>)"
  using assms by (simp add: sys_accept_def)

lemma accept_loop_passes:
  assumes "accepts l = ev # evs" "\<not> shutdownPending l" "calm ev" "verdict_of ia fail addrs ev = PassOver"
  shows "\<exists>os'. (\<forall>fuel. \<exists>sa'. accept_loop ia (Suc (Suc fuel)) ls fail addrs socket sa l os =
      accept_loop ia (if ev = AcceptFails 4 False then Suc (Suc fuel) else Suc fuel) ls fail addrs (- 1) sa' (l\<lparr>accepts := evs\<rparr>) os') \<and>
    conns os' = conns os \<and> shutdownNow os' = shutdownNow os"
proof -
  obtain e where ev: "ev = AcceptFails e False"
    using assms(3,4) by (cases ev) (auto simp: verdict_of_def split: peer.splits if_splits)
  show ?thesis
  proof (cases "e = 4")
    case True
    then have "\<not> fail" using assms(4) ev by (simp add: verdict_of_def split: if_splits)
    then show ?thesis
      using True ev assms(1,2) accept_loop_EINTR [of l evs fail ia _ ls addrs socket sa os]
      by (intro exI [of _ "os\<lparr>c_errno := 4\<rparr>"]) (auto simp del: accept_loop.simps)
  next
    case False
    then have "is_reasonable_accept_errno e" using assms(4) ev by (simp add: verdict_of_def split: if_splits)
    then have "accept_loop ia (Suc fuel) ls fail addrs socket sa l os =
      accept_loop ia fuel ls fail addrs (- 1) sa (l\<lparr>accepts := evs\<rparr>) (os\<lparr>c_errno := 0\<rparr>)" for fuel
      using False ev assms(1,2) by (simp add: sys_accept_def)
    then show ?thesis using False ev by (intro exI [of _ "os\<lparr>c_errno := 0\<rparr>"]) (auto simp del: accept_loop.simps)
  qed
qed

lemma accept_loop_refuses:
  assumes "accepts l = ev # evs" "\<not> shutdownPending l" "calm ev" "verdict_of ia fail addrs ev = Refuse fd"
  shows "\<exists>sa'. accept_loop ia (Suc fuel) ls fail addrs socket sa l os =
      accept_loop ia fuel ls fail addrs fd sa'
        (l\<lparr>accepts := evs, descriptors := (descriptors l)(fd := NotOpen), closed := closed l @ [fd]\<rparr>) os"
proof -
  obtain addr where "ev = Accepted fd (Inet addr) False" "0 \<le> fd" "\<not> ClientAddrOK ia addr addrs"
    using assms(3,4) by (cases ev) (auto simp: verdict_of_def split: peer.splits if_splits)
  then show ?thesis
    using assms(1,2) by (intro exI [of _ "Inet addr"]) (simp add: sys_accept_def sys_close_def Let_def)
qed

lemma accept_loop_result:
  assumes "accepts l = ev # evs" "\<not> shutdownPending l" "calm ev" "verdict_of ia fail addrs ev = Result fd"
  shows "(0 \<le> fd \<and> accept_loop ia (Suc fuel) ls fail addrs socket sa l os =
      Inr (fd, l\<lparr>accepts := evs, descriptors := (descriptors l)(fd := Live)\<rparr>, os)) \<or>
    (\<exists>e. fd = - 1 \<and> ev = AcceptFails e False \<and> accept_loop ia (Suc fuel) ls fail addrs socket sa l os =
      Inr (- 1, l\<lparr>accepts := evs\<rparr>, os\<lparr>c_errno := e\<rparr>))"
proof (cases ev)
  case (Accepted fd' p sig)
  then show ?thesis
    using assms by (cases p) (auto simp: verdict_of_def sys_accept_def Let_def split: if_splits)
next
  case (AcceptFails e sig)
  then have e: "\<not> (e = 4 \<and> \<not> fail)" "\<not> is_reasonable_accept_errno e" "fd = - 1" "\<not> sig"
    using assms(3,4) by (auto simp: verdict_of_def split: if_splits)
  then show ?thesis
    using assms(1,2) AcceptFails by (auto simp: sys_accept_def Let_def)
qed

lemma accept_loop_calm:
  assumes "accepts l = pre @ ev # post" "\<not> shutdownPending l" "length pre < fuel"
    and "\<forall>x \<in> set pre. calm x \<and> (\<forall>r. verdict_of ia fail addrs x \<noteq> Result r)"
    and "calm ev" "verdict_of ia fail addrs ev = Result fd"
  shows "\<exists>ds os'. accept_loop ia fuel ls fail addrs socket sa l os = Inr (fd, l\<lparr>accepts := post, descriptors := ds,
      closed := closed l @ refused (map (verdict_of ia fail addrs) pre)\<rparr>, os') \<and>
    conns os' = conns os \<and> shutdownNow os' = shutdownNow os \<and>
    (if 0 \<le> fd then ds fd = Live else fd = - 1 \<and> (\<exists>e. ev = AcceptFails e False \<and> c_errno os' = e))"
  using assms(1-4)
proof (induction pre arbitrary: l os socket sa fuel)
  case Nil
  obtain f where f: "fuel = Suc f" using Nil.prems(3) by (cases fuel) auto
  have acc: "accepts l = ev # post" using Nil.prems(1) by simp
  from accept_loop_result [OF acc Nil.prems(2) assms(5,6), of f ls socket sa os] show ?case
  proof (elim disjE conjE exE)
    assume "0 \<le> fd" "accept_loop ia (Suc f) ls fail addrs socket sa l os =
      Inr (fd, l\<lparr>accepts := post, descriptors := (descriptors l)(fd := Live)\<rparr>, os)"
    then show ?thesis
      by (intro exI [of _ "(descriptors l)(fd := Live)"] exI [of _ os]) (simp add: f fun_upd_def del: accept_loop.simps)
  next
    fix e assume "fd = - 1" "ev = AcceptFails e False" "accept_loop ia (Suc f) ls fail addrs socket sa l os =
      Inr (- 1, l\<lparr>accepts := post\<rparr>, os\<lparr>c_errno := e\<rparr>)"
    then show ?thesis
      by (intro exI [of _ "descriptors l"] exI [of _ "os\<lparr>c_errno := e\<rparr>"]) (simp add: f del: accept_loop.simps)
  qed
next
  case (Cons x pre)
  obtain f where f: "fuel = Suc (Suc f)" using Cons.prems(3) by (cases fuel; cases "fuel - 1") auto
  have acc: "accepts l = x # pre @ ev # post" using Cons.prems(1) by simp
  have c: "calm x" "\<forall>r. verdict_of ia fail addrs x \<noteq> Result r" using Cons.prems(4) by simp_all
  have pre: "\<forall>x \<in> set pre. calm x \<and> (\<forall>r. verdict_of ia fail addrs x \<noteq> Result r)" using Cons.prems(4) by simp
  show ?case
  proof (cases "verdict_of ia fail addrs x")
    case PassOver
    obtain os1 where 1: "\<forall>fuel. \<exists>sa'. accept_loop ia (Suc (Suc fuel)) ls fail addrs socket sa l os =
        accept_loop ia (if x = AcceptFails 4 False then Suc (Suc fuel) else Suc fuel) ls fail addrs (- 1) sa'
          (l\<lparr>accepts := pre @ ev # post\<rparr>) os1" "conns os1 = conns os" "shutdownNow os1 = shutdownNow os"
      using accept_loop_passes [OF acc Cons.prems(2) c(1) PassOver, of ls socket sa os] by auto
    define g where "g = (if x = AcceptFails 4 False then Suc (Suc f) else Suc f)"
    obtain sa1 where 2: "accept_loop ia fuel ls fail addrs socket sa l os =
        accept_loop ia g ls fail addrs (- 1) sa1 (l\<lparr>accepts := pre @ ev # post\<rparr>) os1"
      using 1(1) [rule_format, of f] unfolding f g_def by blast
    have "length pre < g" using Cons.prems(3) f by (simp add: g_def)
    from Cons.IH [OF _ _ this pre, of "l\<lparr>accepts := pre @ ev # post\<rparr>" "- 1" sa1 os1] show ?thesis
      using Cons.prems(2) 1(2,3) PassOver unfolding 2 by (simp del: accept_loop.simps)
  next
    case (Refuse r)
    let ?l = "l\<lparr>accepts := pre @ ev # post, descriptors := (descriptors l)(r := NotOpen), closed := closed l @ [r]\<rparr>"
    obtain sa1 where 2: "accept_loop ia fuel ls fail addrs socket sa l os = accept_loop ia (Suc f) ls fail addrs r sa1 ?l os"
      using accept_loop_refuses [OF acc Cons.prems(2) c(1) Refuse, of "Suc f" ls socket sa os] unfolding f by blast
    have "length pre < Suc f" using Cons.prems(3) f by simp
    from Cons.IH [OF _ _ this pre, of ?l r sa1 os] show ?thesis
      using Cons.prems(2) Refuse unfolding 2 by (simp del: accept_loop.simps)
  next
    case (Result r)
    then show ?thesis using c(2) by blast
  qed
qed

lemma OS_Accept_passes:
  assumes "accepts l = pre @ ev # post" "\<not> shutdownPending l"
    and "\<forall>x \<in> set pre. calm x \<and> (\<forall>r. verdict_of ia fail addrs x \<noteq> Result r)"
    and "calm ev" "verdict_of ia fail addrs ev = Result fd"
  shows "\<exists>ds os'. OS_Accept ia ls fail addrs l os = Inr (fd, l\<lparr>accepts := post, descriptors := ds,
      closed := closed l @ refused (map (verdict_of ia fail addrs) pre)\<rparr>, os') \<and>
    conns os' = conns os \<and> shutdownNow os' = shutdownNow os \<and>
    (if 0 \<le> fd then ds fd = Live else fd = - 1 \<and> (\<exists>e. ev = AcceptFails e False \<and> c_errno os' = e))"
proof -
  have "length pre < length (accepts l) + 1" using assms(1) by simp
  note 1 = accept_loop_calm [OF assms(1,2) this assms(3-5), of ls "- 1" OtherFamily os]
  have "OS_Accept ia ls fail addrs l os =
      accept_loop ia (length (accepts l) + 1) ls fail addrs (- 1) OtherFamily l os"
    unfolding OS_Accept_def AcquireLock_def ReleaseLock_def
    by (cases "accept_loop ia (length (accepts l) + 1) ls fail addrs (- 1) OtherFamily l os")
      (simp_all add: case_prod_beta del: accept_loop.simps)
  with 1 show ?thesis by simp
qed

text \<open>C27: without signals, \<^verbatim>\<open>OS_Accept\<close> passes over interrupted calls (unless told to fail on them) and the
  errors of connections that died in the queue, closes the connections of clients that are not approved,
  and returns the first connection that is, or -1 with \<^verbatim>\<open>errno\<close> set at the first other error.\<close>

theorem OS_Accept_first:
  assumes "accepts l = pre @ ev # post" "\<not> shutdownPending l"
    and "\<forall>x \<in> set pre. calm x \<and> (\<forall>r. verdict_of ia fail addrs x \<noteq> Result r)"
    and "calm ev" "verdict_of ia fail addrs ev = Result fd"
  shows "\<exists>ds os'. OS_Accept ia ls fail addrs l os = Inr (fd, l\<lparr>accepts := post, descriptors := ds,
      closed := closed l @ refused (map (verdict_of ia fail addrs) pre)\<rparr>, os') \<and>
    conns os' = conns os \<and> shutdownNow os' = shutdownNow os \<and>
    (if 0 \<le> fd then ds fd = Live else fd = - 1 \<and> (\<exists>e. ev = AcceptFails e False \<and> c_errno os' = e))"
  using assms by (rule OS_Accept_passes)

lemma OS_Accept_first_witness:
  "\<exists>ds os'. OS_Accept (\<lambda>s. if s = [49] then 1 else 2) 0 False (Some [49, 0])
     (os_start (\<lambda>_. NotOpen) [AcceptFails 4 False, Accepted 7 (Inet 3) False, AcceptFails 103 False, Accepted 8 (Inet 1) False])
     quiet_os =
   Inr (8, (os_start (\<lambda>_. NotOpen) [])\<lparr>descriptors := ds, closed := [7]\<rparr>, os') \<and> ds 8 = Live"
proof -
  let ?pre = "[AcceptFails 4 False, Accepted 7 (Inet 3) False, AcceptFails 103 False]"
  let ?ia = "\<lambda>s :: byte list. if s = [49] then 1 else 2 :: int"
  let ?l = "os_start (\<lambda>_. NotOpen) (?pre @ [Accepted 8 (Inet 1) False])"
  have v: "map (verdict_of ?ia False (Some [49, 0])) ?pre = [PassOver, Refuse 7, PassOver]"
    "verdict_of ?ia False (Some [49, 0]) (Accepted 8 (Inet 1) False) = Result 8"
    by (simp_all add: verdict_of_def is_reasonable_accept_errno_def ClientAddrOK_def cstr_def addr_in_list.simps)
  have "accepts ?l = ?pre @ Accepted 8 (Inet 1) False # []" "\<not> shutdownPending ?l" by (simp_all add: os_start_def)
  from OS_Accept_first [OF this, of ?ia False "Some [49, 0]" 8 0 quiet_os] v show ?thesis
    by (auto simp: os_start_def)
qed

section \<open>A shutdown after a refused client\<close>

lemma accept_loop_spins:
  assumes "shutdownPending l" "0 \<le> socket" "\<not> ClientAddrOK ia addr addrs"
  shows "accept_loop ia fuel ls fail addrs socket (Inet addr) l os = Inl OutOfFuel"
  using assms
proof (induction fuel arbitrary: l os)
  case (Suc fuel)
  have "shutdownPending (fst (snd (sys_close socket l os)))" using Suc.prems(1) by (simp add: sys_close_def)
  then show ?case
    using Suc.IH [OF _ Suc.prems(2,3)] Suc.prems by (simp add: case_prod_beta Let_def)
qed simp

text \<open>C34: when \<^verbatim>\<open>SIGUSR1\<close> arrives while a connection is being accepted whose client is then refused,
  \<^verbatim>\<open>OS_Accept\<close> never returns: the inner loop breaks off at once with the old descriptor still in
  \<^verbatim>\<open>socket\<close>, which is checked, refused and closed again, for ever. (No number of iterations is enough.)\<close>

theorem shutdown_after_refusal_spins:
  assumes "accepts l = Accepted fd (Inet addr) True # evs" "0 \<le> fd" "\<not> shutdownPending l"
    and "sigusr1 l = OS_Sigusr1Handler" "\<not> ClientAddrOK ia addr addrs"
  shows "(\<forall>fuel. accept_loop ia fuel ls fail addrs (- 1) sa l os = Inl OutOfFuel) \<and>
    OS_Accept ia ls fail addrs l os = Inl OutOfFuel"
proof -
  have 1: "accept_loop ia fuel ls fail addrs (- 1) sa l os = Inl OutOfFuel" for fuel sa
  proof (cases fuel)
    case (Suc f)
    let ?l = "OS_ShutdownPending (l\<lparr>accepts := evs, descriptors := (descriptors l)(fd := Live)\<rparr>)"
    have "shutdownPending (fst (snd (sys_close fd ?l os)))" by (simp add: sys_close_def OS_ShutdownPending_def)
    from accept_loop_spins [OF this assms(2,5)] show ?thesis
      using assms Suc by (simp add: sys_accept_def on_sigusr1_def Let_def case_prod_beta)
  qed simp
  then show ?thesis by (simp add: OS_Accept_def AcquireLock_def 1 del: accept_loop.simps)
qed

lemma shutdown_after_refusal_spins_witness:
  "OS_Accept (\<lambda>_. 1) 0 False (Some [49, 0])
     ((os_start (\<lambda>_. NotOpen) [Accepted 7 (Inet 3) True])\<lparr>sigusr1 := OS_Sigusr1Handler\<rparr>) quiet_os = Inl OutOfFuel"
proof -
  let ?l = "(os_start (\<lambda>_. NotOpen) [Accepted 7 (Inet 3) True])\<lparr>sigusr1 := OS_Sigusr1Handler\<rparr>"
  have "accepts ?l = Accepted 7 (Inet 3) True # []" "(0 :: int) \<le> 7" "\<not> shutdownPending ?l" "sigusr1 ?l = OS_Sigusr1Handler"
    "\<not> ClientAddrOK (\<lambda>_. 1) 3 (Some [49, 0])"
    by (simp_all add: os_start_def ClientAddrOK_def cstr_def addr_in_list.simps)
  from shutdown_after_refusal_spins [OF this, of 0 False OtherFamily quiet_os] show ?thesis by blast
qed

end
