(* ===== verification/Decimal.thy ===== *)
theory Decimal
  imports Prelude
begin

text \<open>
  Decimal numbers in C strings: the characters \<^verbatim>\<open>isspace\<close> and \<^verbatim>\<open>isdigit\<close> accept, the value of the leading
  digits (\<^verbatim>\<open>strtol\<close>, \<^verbatim>\<open>atoi\<close>), and the digits of a number (\<^verbatim>\<open>sprintf\<close> of \<^verbatim>\<open>%d\<close>). Used for the ports of
  binding paths and for the conversion specifications of \<^verbatim>\<open>FCGX_VFPrintF\<close>.
\<close>

definition is_space :: "byte \<Rightarrow> bool" where
  "is_space b \<longleftrightarrow> b = 32 \<or> (9 \<le> b \<and> b \<le> 13)"

definition is_digit :: "byte \<Rightarrow> bool" where
  "is_digit b \<longleftrightarrow> 48 \<le> b \<and> b \<le> 57"

fun digits_value :: "int \<Rightarrow> byte list \<Rightarrow> int" where
  "digits_value acc [] = acc"
| "digits_value acc (b # bs) = (if is_digit b then digits_value (acc * 10 + (uint b - 48)) bs else acc)"

fun dec_digits :: "nat \<Rightarrow> byte list" where
  "dec_digits n = (if n < 10 then [of_nat (48 + n)] else dec_digits (n div 10) @ [of_nat (48 + n mod 10)])"

declare dec_digits.simps [simp del]

definition dec_int :: "int \<Rightarrow> byte list" where
  "dec_int n = (if n < 0 then 0x2D # dec_digits (nat (- n)) else dec_digits (nat n))"

lemma digit_byte:
  assumes "d < 10"
  shows "is_digit (of_nat (48 + d))" "uint (of_nat (48 + d) :: byte) = 48 + int d" "(of_nat (48 + d) :: byte) \<noteq> 0"
    "(of_nat (48 + d) :: byte) \<noteq> 0x3A" "\<not> is_space (of_nat (48 + d))" "(of_nat (48 + d) :: byte) \<noteq> 45"
    "(of_nat (48 + d) :: byte) \<noteq> 43"
proof -
  have "d \<in> {0, 1, 2, 3, 4, 5, 6, 7, 8, 9}" using assms by auto
  then show "is_digit (of_nat (48 + d))" "uint (of_nat (48 + d) :: byte) = 48 + int d" "(of_nat (48 + d) :: byte) \<noteq> 0"
    "(of_nat (48 + d) :: byte) \<noteq> 0x3A" "\<not> is_space (of_nat (48 + d))" "(of_nat (48 + d) :: byte) \<noteq> 45"
    "(of_nat (48 + d) :: byte) \<noteq> 43"
    by (auto simp: is_digit_def is_space_def)
qed

lemma digits_value_append:
  "\<forall>b \<in> set xs. is_digit b \<Longrightarrow> digits_value acc (xs @ ys) = digits_value (digits_value acc xs) ys"
  by (induction xs arbitrary: acc) auto

lemma dec_digits_set:
  "b \<in> set (dec_digits n) \<Longrightarrow> \<exists>d < 10. b = of_nat (48 + d)"
  by (induction n rule: dec_digits.induct)
    (subst (asm) dec_digits.simps, auto split: if_splits intro: exI [of _ "_ mod 10"])

lemma digits_value_dec: "digits_value 0 (dec_digits n) = int n"
proof (induction n rule: dec_digits.induct)
  case (1 n)
  have all: "\<forall>b \<in> set (dec_digits m). is_digit b" for m
    using dec_digits_set digit_byte(1) by blast
  show ?case
  proof (cases "n < 10")
    case True
    then show ?thesis using digit_byte(1,2) [of n] by (simp add: dec_digits.simps)
  next
    case False
    have d: "n mod 10 < 10" by simp
    have "digits_value 0 (dec_digits n) = digits_value (int (n div 10)) [of_nat (48 + n mod 10)]"
      using False 1 by (simp add: dec_digits.simps [of n] digits_value_append [OF all])
    also have "\<dots> = int (n div 10) * 10 + int (n mod 10)"
      using digit_byte(1,2) [OF d] by simp
    finally show ?thesis by presburger
  qed
qed

lemma dec_digits_ne: "dec_digits n \<noteq> []"
  by (subst dec_digits.simps) auto

lemma dec_digits_all: "\<forall>b \<in> set (dec_digits n). is_digit b"
  using dec_digits_set digit_byte(1) by blast

lemma length_dec_digits:
  assumes "n < 10 ^ k" "0 < k"
  shows "length (dec_digits n) \<le> k"
  using assms
proof (induction k arbitrary: n)
  case (Suc k)
  show ?case
  proof (cases "n < 10")
    case False
    then have "k \<noteq> 0" using Suc.prems by (cases k) auto
    moreover have "n div 10 < 10 ^ k" using Suc.prems by (simp add: less_mult_imp_div_less mult.commute)
    ultimately show ?thesis using Suc.IH [of "n div 10"] False by (subst dec_digits.simps) simp
  qed (subst dec_digits.simps, simp)
qed simp

lemma hd_dec_digits: "0 < n \<Longrightarrow> hd (dec_digits n) \<noteq> 0x30"
proof (induction n rule: dec_digits.induct)
  case (1 n)
  show ?case
  proof (cases "n < 10")
    case True
    then have "n \<in> {1, 2, 3, 4, 5, 6, 7, 8, 9}" using "1.prems" by auto
    moreover have "dec_digits n = [of_nat (48 + n)]" using True by (subst dec_digits.simps) simp
    ultimately show ?thesis by auto
  next
    case False
    then show ?thesis using 1 dec_digits_ne [of "n div 10"] by (subst dec_digits.simps) simp
  qed
qed

lemma digits_value_stop: "bs = [] \<or> \<not> is_digit (hd bs) \<Longrightarrow> digits_value acc bs = acc"
  by (cases bs) auto

lemma digits_value_nonneg: "0 \<le> acc \<Longrightarrow> 0 \<le> digits_value acc bs"
proof (induction bs arbitrary: acc)
  case (Cons b bs)
  have "48 \<le> uint b" if "is_digit b" using that by (simp add: is_digit_def word_le_def)
  then show ?case using Cons by simp
qed simp

lemma length_dec_int:
  assumes "\<bar>n\<bar> < 10 ^ k" "0 < k"
  shows "length (dec_int n) \<le> Suc k" "0 \<le> n \<Longrightarrow> length (dec_int n) \<le> k"
proof -
  have "nat \<bar>n\<bar> < 10 ^ k" using assms(1) by (simp add: nat_less_iff)
  from length_dec_digits [OF this assms(2)] show "length (dec_int n) \<le> Suc k" "0 \<le> n \<Longrightarrow> length (dec_int n) \<le> k"
    by (simp_all add: dec_int_def abs_if split: if_splits)
qed

end
