(* ===== verification/SockAddr.thy ===== *)
theory SockAddr
  imports Listen Decimal
begin

text \<open>
  Sockets of \<^verbatim>\<open>libfcgi/os_unix.c\<close>: the address a binding path stands for, the listening socket of
  \<^verbatim>\<open>OS_CreateLocalIpcFd\<close>, the connection of \<^verbatim>\<open>OS_FcgiConnect\<close>, and the process started by
  \<^verbatim>\<open>OS_SpawnChild\<close>. \<^verbatim>\<open>include/fcgi_config.h\<close> leaves \<^verbatim>\<open>HAVE_SOCKADDR_UN_SUN_LEN\<close> undefined.

  What the kernel and the resolver answer is a record; the functions return, besides their result,
  the list of the system calls they made. \<^verbatim>\<open>exit\<close> is a result of its own.
\<close>

section \<open>The kernel and the resolver\<close>

datatype sockaddr = Unix "byte list" int | Inet4 int int

text \<open>\<open>Unix sun_path servLen\<close>; \<open>Inet4 address port\<close>, the port in host order.\<close>

record hostent =
  is_inet :: bool
  h_addr_list :: "int list"

record netsys =
  socket_result :: "int \<Rightarrow> int"
  setsockopt_ok :: bool
  bind_errno :: "sockaddr \<Rightarrow> int"
  listen_errno :: int
  connect_ok :: "sockaddr \<Rightarrow> bool"
  gethostbyname :: "byte list \<Rightarrow> hostent option"
  inet_address :: "byte list \<Rightarrow> int"

datatype net_call =
    Socket int | SetReuseAddr int | Unlink "byte list" | Bind int sockaddr | Listening int int
  | Connect int sockaddr | CloseFd int | Dup2 int int | Exec "byte list"

datatype outcome = Returns int | Exits int

abbreviation (input) "AF_UNIX \<equiv> 1 :: int"
abbreviation (input) "AF_INET \<equiv> 2 :: int"
abbreviation (input) "INADDR_ANY \<equiv> 0 :: int"
abbreviation (input) "INADDR_NONE \<equiv> 0xffffffff :: int"
abbreviation (input) "MAXPATHLEN \<equiv> 1024 :: nat"

section \<open>Addresses\<close>

text \<open>\<open>sizeof(sun_path)\<close> is 108, \<open>sizeof(sun_family)\<close> is 2.\<close>

definition OS_BuildSockAddrUn :: "byte list \<Rightarrow> (byte list \<times> int) option" where
  "OS_BuildSockAddrUn bindPath =
     (let path = cstr bindPath; bindPathLen = length path in
      if bindPathLen > 108 then None
      else Some (poke (replicate 108 0) 0 path, 2 + int bindPathLen))"

text \<open>C's \<^verbatim>\<open>atoi\<close>: white space, a sign, digits; a value out of range of \<^verbatim>\<open>long\<close> is clamped, then cut to
  an \<^verbatim>\<open>int\<close>.\<close>

definition atoi :: "byte list \<Rightarrow> int" where
  "atoi str =
     (let bs = dropWhile is_space str;
          (neg, bs) = (case bs of [] \<Rightarrow> (False, bs)
            | b # rest \<Rightarrow> if b = 45 then (True, rest) else if b = 43 then (False, rest) else (False, bs));
          v = digits_value 0 bs;
          v = (if neg then - v else v)
      in wrap32 (max (- (2 ^ 63)) (min (2 ^ 63 - 1) v)))"

text \<open>\<^verbatim>\<open>htons\<close> of a \<^verbatim>\<open>short\<close>, read back as a port.\<close>

definition port_of_short :: "int \<Rightarrow> int" where
  "port_of_short port = port mod 2 ^ 16"

text \<open>What a binding path names: \<open>Some (host, port)\<close> is the \<^verbatim>\<open>tcp\<close> case. The path is copied to an array of
  \<^verbatim>\<open>MAXPATHLEN\<close> bytes, in which the colon is looked for.\<close>

definition bind_target :: "byte list \<Rightarrow> fault + (byte list \<times> int) option" where
  "bind_target bindPath =
     rbind (memcpy_to (replicate MAXPATHLEN 0) 0 (cstr bindPath @ [0])) (\<lambda>buf.
     case split_first 0x3A (cstr buf) of
       (host, None) \<Rightarrow> Inr None
     | (host, Some tp) \<Rightarrow>
         let port = wrap16 (atoi tp) in Inr (if port = 0 then None else Some (host, port)))"

section \<open>Listening\<close>

definition listen_addr :: "netsys \<Rightarrow> byte list \<Rightarrow> int + int" where
  "listen_addr k host =
     (if host = [] \<or> host = [0x2A] then Inr INADDR_ANY
      else
        let tcp_ia = inet_address k host in
        if tcp_ia \<noteq> INADDR_NONE then Inr tcp_ia
        else case gethostbyname k host of
          None \<Rightarrow> Inl 1
        | Some hep \<Rightarrow>
            if \<not> is_inet hep then Inl 1
            else case h_addr_list hep of
              [] \<Rightarrow> Inl 1
            | [a] \<Rightarrow> Inr a
            | _ \<Rightarrow> Inl 1)"

definition bind_listen :: "netsys \<Rightarrow> int \<Rightarrow> sockaddr \<Rightarrow> int \<Rightarrow> net_call list \<Rightarrow> outcome \<times> net_call list" where
  "bind_listen k fd sa backlog calls =
     (let calls = calls @ [Bind fd sa] in
      if bind_errno k sa \<noteq> 0 then (Exits (bind_errno k sa), calls)
      else
        let calls = calls @ [Listening fd backlog] in
        if listen_errno k \<noteq> 0 then (Exits (listen_errno k), calls) else (Returns fd, calls))"

definition OS_CreateLocalIpcFd :: "netsys \<Rightarrow> byte list \<Rightarrow> int \<Rightarrow> fault + outcome \<times> net_call list" where
  "OS_CreateLocalIpcFd k bindPath backlog =
     rbind (bind_target bindPath) (\<lambda>tcp.
     case tcp of
       Some (host, port) \<Rightarrow>
         (case listen_addr k host of
            Inl code \<Rightarrow> Inr (Exits code, [])
          | Inr tcp_ia \<Rightarrow>
              let listenSock = socket_result k AF_INET; calls = [Socket AF_INET] in
              if listenSock < 0 then Inr (Returns (- 1), calls)
              else
                let calls = calls @ [SetReuseAddr listenSock] in
                if \<not> setsockopt_ok k then Inr (Exits 1001, calls)
                else Inr (bind_listen k listenSock (Inet4 tcp_ia (port_of_short port)) backlog calls))
     | None \<Rightarrow>
         let listenSock = socket_result k AF_UNIX; calls = [Socket AF_UNIX] in
         if listenSock < 0 then Inr (Returns (- 1), calls)
         else
           let calls = calls @ [Unlink (cstr bindPath)] in
           case OS_BuildSockAddrUn bindPath of
             None \<Rightarrow> Inr (Exits 1000, calls)
           | Some (path, servLen) \<Rightarrow> Inr (bind_listen k listenSock (Unix path servLen) backlog calls))"

section \<open>Connecting\<close>

definition OS_FcgiConnect :: "netsys \<Rightarrow> byte list \<Rightarrow> fault + outcome \<times> net_call list" where
  "OS_FcgiConnect k bindPath =
     rbind (bind_target bindPath) (\<lambda>tcp.
     rbind
       (case tcp of
          Some (host, port) \<Rightarrow>
            (case gethostbyname k (if host \<noteq> [] then host else chars ''localhost'') of
               None \<Rightarrow> Inr (Inl 1000)
             | Some hp \<Rightarrow>
                 (case h_addr_list hp of
                    [] \<Rightarrow> Inl NullDeref
                  | a # _ \<Rightarrow> Inr (Inr (Inet4 a (port_of_short port), AF_INET))))
        | None \<Rightarrow>
            (case OS_BuildSockAddrUn bindPath of
               None \<Rightarrow> Inr (Inl 1000)
             | Some (path, servLen) \<Rightarrow> Inr (Inr (Unix path servLen, AF_UNIX))))
       (\<lambda>res. case res of
          Inl code \<Rightarrow> Inr (Exits code, [])
        | Inr (sa, domain) \<Rightarrow>
            let resultSock = socket_result k domain in
            rbind (c_assert (resultSock \<ge> 0)) (\<lambda>_.
            let calls = [Socket domain, Connect resultSock sa] in
            if connect_ok k sa then Inr (Returns resultSock, calls)
            else Inr (Returns (- 1), calls @ [CloseFd resultSock]))))"

section \<open>Starting an application\<close>

text \<open>The child, when \<^verbatim>\<open>execl\<close> fails, and the parent; \<open>err\<close> is \<^verbatim>\<open>errno\<close> after the failing call.\<close>

definition OS_SpawnChild :: "int \<Rightarrow> int \<Rightarrow> byte list \<Rightarrow> int \<Rightarrow> outcome \<times> net_call list" where
  "OS_SpawnChild forkResult err appPath listenFd =
     (if forkResult < 0 then (Exits err, [])
      else if forkResult = 0 then
        let calls = [CloseFd 0];
            calls = (if listenFd \<noteq> 0 then calls @ [Dup2 listenFd 0, CloseFd listenFd] else calls)
        in (Exits err, calls @ [CloseFd 1, CloseFd 2, Exec appPath])
      else (Returns 0, []))"

definition OS_SetFlags :: "int \<Rightarrow> bool \<Rightarrow> int \<Rightarrow> int \<Rightarrow> int + int" where
  "OS_SetFlags val setfl_ok err flags =
     (if val < 0 then Inl err
      else let val = val OR flags in if \<not> setfl_ok then Inl err else Inr val)"

section \<open>Ports\<close>

lemma atoi_dec:
  assumes "n < 2 ^ 31"
  shows "atoi (dec_digits n) = int n"
proof -
  obtain b bs where b: "dec_digits n = b # bs" using dec_digits_ne [of n] by (cases "dec_digits n") auto
  then obtain d where "d < 10" "b = of_nat (48 + d)" using dec_digits_set [of b n] by auto
  note p = digit_byte [OF this(1), folded this(2)]
  have "dropWhile is_space (dec_digits n) = dec_digits n" using p(5) by (simp add: b)
  then have "atoi (dec_digits n) = wrap32 (int n)"
    using p(6,7) assms digits_value_dec [of n] by (simp add: atoi_def Let_def b)
  then show ?thesis using assms by (simp add: wrap32_id)
qed

lemma split_first_append: "c \<notin> set h \<Longrightarrow> split_first c (h @ c # rest) = (h, Some rest)"
  by (induction h) auto

lemma wrap16_port: "0 < p \<Longrightarrow> p < 2 ^ 16 \<Longrightarrow> wrap16 (int p) \<noteq> 0 \<and> port_of_short (wrap16 (int p)) = int p"
proof -
  assume p: "0 < p" "p < 2 ^ 16"
  show ?thesis
  proof (cases "p < 2 ^ 15")
    case True
    then show ?thesis using p by (simp add: wrap16_def port_of_short_def)
  next
    case False
    have "int p + 2 ^ 15 = (int p - 2 ^ 15) + 1 * 2 ^ 16" by simp
    then have "(int p + 2 ^ 15) mod 2 ^ 16 = (int p - 2 ^ 15) mod 2 ^ 16" by (metis mod_mult_self1)
    then have w: "wrap16 (int p) = int p - 2 ^ 16" using False p by (simp add: wrap16_def)
    have "int p - 2 ^ 16 = int p + (- 1) * 2 ^ 16" by simp
    then have "(int p - 2 ^ 16) mod 2 ^ 16 = int p mod 2 ^ 16" by (metis mod_mult_self1)
    then show ?thesis using p w by (simp add: port_of_short_def)
  qed
qed

lemma cstr_no_NUL: "0 \<notin> set (cstr bs)"
  by (auto simp: cstr_def dest: set_takeWhileD)

lemma bind_target_eq:
  "bind_target bindPath =
     (if MAXPATHLEN \<le> length (cstr bindPath) then Inl BufferOverrun
      else case split_first 0x3A (cstr bindPath) of
        (host, None) \<Rightarrow> Inr None
      | (host, Some tp) \<Rightarrow>
          let port = wrap16 (atoi tp) in Inr (if port = 0 then None else Some (host, port)))"
proof (cases "length (cstr bindPath) < MAXPATHLEN")
  case True
  have "cstr (cstr bindPath @ [0] @ zs) = cstr bindPath" for zs using cstr_block [OF cstr_no_NUL] by simp
  then show ?thesis using True by (simp add: bind_target_def poke_0)
qed (simp add: bind_target_def memcpy_to_def)

lemma bind_target_tcp:
  assumes "0 < p" "p < 2 ^ 16" "0x3A \<notin> set host" "0 \<notin> set host" "length host + length (dec_digits p) + 2 \<le> 1024"
  shows "\<exists>port. bind_target (host @ 0x3A # dec_digits p @ [0]) = Inr (Some (host, port)) \<and> port_of_short port = int p"
proof -
  have nz: "0 \<notin> set (host @ 0x3A # dec_digits p)" using assms(4) dec_digits_set digit_byte(3) by force
  have c: "cstr (host @ 0x3A # dec_digits p @ [0]) = host @ 0x3A # dec_digits p"
    using cstr_block [OF nz, of "[]"] by simp
  show ?thesis
    using assms wrap16_port [OF assms(1,2)] split_first_append [OF assms(3), of "dec_digits p"]
    by (simp add: bind_target_eq c Let_def atoi_dec)
qed

text \<open>C32: for \<^verbatim>\<open>host:port\<close> with any port from 1 to 65535 (also those that do not fit the \<^verbatim>\<open>short\<close> they are
  kept in) the library listens on exactly that port of the host's address, with the backlog given.\<close>

theorem listen_on_port:
  assumes "0 < p" "p < 2 ^ 16" "0x3A \<notin> set host" "0 \<notin> set host" "length host + length (dec_digits p) + 2 \<le> 1024"
    and "listen_addr k host = Inr ia" "0 \<le> socket_result k AF_INET" "setsockopt_ok k"
    and "bind_errno k (Inet4 ia (int p)) = 0" "listen_errno k = 0"
  shows "OS_CreateLocalIpcFd k (host @ 0x3A # dec_digits p @ [0]) backlog =
    Inr (Returns (socket_result k AF_INET),
      [Socket AF_INET, SetReuseAddr (socket_result k AF_INET), Bind (socket_result k AF_INET) (Inet4 ia (int p)),
       Listening (socket_result k AF_INET) backlog])"
proof -
  obtain port where "bind_target (host @ 0x3A # dec_digits p @ [0]) = Inr (Some (host, port))" "port_of_short port = int p"
    using bind_target_tcp [OF assms(1-5)] by auto
  then show ?thesis using assms(6-10) by (simp add: OS_CreateLocalIpcFd_def bind_listen_def Let_def)
qed

definition sample_net :: netsys where
  "sample_net = \<lparr> socket_result = (\<lambda>_. 3), setsockopt_ok = True, bind_errno = (\<lambda>_. 0), listen_errno = 0,
     connect_ok = (\<lambda>_. True), gethostbyname = (\<lambda>_. None), inet_address = (\<lambda>_. 0x7f000001) \<rparr>"

lemma listen_on_port_witness:
  "OS_CreateLocalIpcFd sample_net ([0x2A] @ 0x3A # dec_digits 40000 @ [0]) 5 =
    Inr (Returns 3, [Socket 2, SetReuseAddr 3, Bind 3 (Inet4 0 40000), Listening 3 5])"
proof -
  have "length (dec_digits 40000) = 5" by (simp add: dec_digits.simps)
  then show ?thesis
    using listen_on_port [of 40000 "[0x2A]" sample_net 0 5] by (simp add: sample_net_def listen_addr_def)
qed

text \<open>The address of a local socket: a path is refused exactly when it is longer than \<^verbatim>\<open>sun_path\<close>;
  otherwise the path is stored whole and the length announced covers it. A path of exactly 108 bytes is
  accepted and leaves \<^verbatim>\<open>sun_path\<close> without its terminating NUL.\<close>

theorem BuildSockAddrUn_spec:
  "case OS_BuildSockAddrUn bindPath of
     None \<Rightarrow> 108 < length (cstr bindPath)
   | Some (path, len) \<Rightarrow> length (cstr bindPath) \<le> 108 \<and> len = 2 + int (length (cstr bindPath)) \<and> length path = 108 \<and>
       take (length (cstr bindPath)) path = cstr bindPath \<and> (0 \<in> set path) = (length (cstr bindPath) < 108)"
proof (cases "length (cstr bindPath) \<le> 108")
  case True
  have nz: "0 \<notin> set (cstr bindPath)" by (auto simp: cstr_def dest: set_takeWhileD)
  have "poke (replicate 108 0) 0 (cstr bindPath) = cstr bindPath @ replicate (108 - length (cstr bindPath)) 0"
    using True by (simp add: poke_0)
  then show ?thesis using True nz by (auto simp: OS_BuildSockAddrUn_def Let_def)
next
  case False
  then show ?thesis by (simp add: OS_BuildSockAddrUn_def Let_def)
qed

text \<open>A binding path of \<^verbatim>\<open>MAXPATHLEN\<close> bytes or more overruns the array it is copied to; and port 65536 is no port but
  part of a file name.\<close>

lemma binding_path_overruns:
  "1024 \<le> length (cstr bindPath) \<Longrightarrow>
     OS_CreateLocalIpcFd k bindPath backlog = Inl BufferOverrun \<and> OS_FcgiConnect k bindPath = Inl BufferOverrun"
  by (simp add: OS_CreateLocalIpcFd_def OS_FcgiConnect_def bind_target_eq)

lemma port_65536_is_a_file: "bind_target (chars ''h:65536'' @ [0]) = Inr None"
  by (simp add: bind_target_eq chars_def cstr_def atoi_def is_space_def is_digit_def wrap16_def wrap32_def Let_def)

section \<open>Both ends\<close>

text \<open>The name a client looks up, and what connecting to an address comes to.\<close>

definition client_host :: "byte list \<Rightarrow> byte list" where
  "client_host bindPath = (let h = fst (split_first 0x3A (cstr bindPath)) in if h = [] then chars ''localhost'' else h)"

definition connecting :: "netsys \<Rightarrow> int \<Rightarrow> sockaddr \<Rightarrow> outcome \<times> net_call list" where
  "connecting k domain sa =
     (let s = socket_result k domain in
      if connect_ok k sa then (Returns s, [Socket domain, Connect s sa])
      else (Returns (- 1), [Socket domain, Connect s sa, CloseFd s]))"

lemma bind_listen_Returns:
  "bind_listen k fd sa backlog calls = (Returns n, calls') \<longleftrightarrow>
     n = fd \<and> calls' = calls @ [Bind fd sa, Listening fd backlog] \<and> bind_errno k sa = 0 \<and> listen_errno k = 0"
  by (auto simp: bind_listen_def Let_def)

text \<open>A listening socket was bound to the address of the path.\<close>

lemma listener_address:
  assumes "OS_CreateLocalIpcFd k bindPath backlog = Inr (Returns fd, calls)" "0 \<le> fd"
  obtains (tcp) host port ia pre where "bind_target bindPath = Inr (Some (host, port))" "listen_addr k host = Inr ia"
      "calls = pre @ [Bind fd (Inet4 ia (port_of_short port)), Listening fd backlog]"
  | (local) path len pre where "bind_target bindPath = Inr None" "OS_BuildSockAddrUn bindPath = Some (path, len)"
      "calls = pre @ [Bind fd (Unix path len), Listening fd backlog]"
  using assms
  by (auto simp: OS_CreateLocalIpcFd_def bind_listen_Returns Let_def elim!: rbind_InrE split: option.splits sum.splits if_splits
      prod.splits)

lemma bind_target_host:
  assumes "bind_target bindPath = Inr (Some (host, port))"
  shows "client_host bindPath = (if host \<noteq> [] then host else chars ''localhost'')"
  using assms by (auto simp: bind_target_eq client_host_def Let_def split: if_splits prod.splits option.splits)

text \<open>C35: both ends of a binding path meet. When \<^verbatim>\<open>OS_CreateLocalIpcFd\<close> has made a listening socket for a path, then
  on the same path \<^verbatim>\<open>OS_FcgiConnect\<close> connects to the address that socket was bound to: for a local socket the same
  path and length, byte for byte; for \<^verbatim>\<open>host:port\<close> the same port, at the first address the client's resolver has
  for the host (for \<^verbatim>\<open>localhost\<close> if none is named). The result is the connected socket; or -1, when the kernel
  refuses, and then the socket was closed.\<close>

theorem connect_reaches_listener:
  assumes "OS_CreateLocalIpcFd k bindPath backlog = Inr (Returns fd, calls)" "0 \<le> fd" "\<forall>d. 0 \<le> socket_result k' d"
  shows "\<exists>sa pre. calls = pre @ [Bind fd sa, Listening fd backlog] \<and>
    (case sa of
       Unix path len \<Rightarrow> OS_FcgiConnect k' bindPath = Inr (connecting k' AF_UNIX (Unix path len))
     | Inet4 ia port \<Rightarrow> \<forall>hp a as. gethostbyname k' (client_host bindPath) = Some hp \<longrightarrow> h_addr_list hp = a # as \<longrightarrow>
         OS_FcgiConnect k' bindPath = Inr (connecting k' AF_INET (Inet4 a port)))"
  using assms(1,2)
proof (cases rule: listener_address)
  case (tcp host port ia pre)
  then show ?thesis
    using assms(3) bind_target_host [OF tcp(1)]
    by (auto simp: OS_FcgiConnect_def connecting_def c_assert_def Let_def)
next
  case (local path len pre)
  then show ?thesis using assms(3) by (auto simp: OS_FcgiConnect_def connecting_def c_assert_def Let_def)
qed

lemma connect_reaches_listener_witness:
  "OS_FcgiConnect (sample_net\<lparr>gethostbyname := (\<lambda>h. if h = [0x68] then Some \<lparr>is_inet = True, h_addr_list = [7]\<rparr> else None)\<rparr>)
     ([0x68] @ 0x3A # dec_digits 40000 @ [0]) = Inr (Returns 3, [Socket 2, Connect 3 (Inet4 7 40000)])"
proof -
  let ?k = "sample_net\<lparr>gethostbyname := (\<lambda>h. if h = [0x68] then Some \<lparr>is_inet = True, h_addr_list = [7]\<rparr> else None)\<rparr>"
  let ?p = "[0x68] @ 0x3A # dec_digits 40000 @ [0]"
  have d: "length (dec_digits 40000) = 5" by (simp add: dec_digits.simps)
  have "OS_CreateLocalIpcFd sample_net ?p 5 = Inr (Returns 3, [Socket 2, SetReuseAddr 3, Bind 3 (Inet4 0x7f000001 40000), Listening 3 5])"
    using listen_on_port [of 40000 "[0x68]" sample_net 2130706433 5] d by (simp add: sample_net_def listen_addr_def)
  moreover have "client_host ?p = [0x68]" by (simp add: client_host_def cstr_def)
  ultimately show ?thesis
    using connect_reaches_listener [of sample_net ?p 5 3 _ ?k] by (auto simp: connecting_def sample_net_def append_eq_Cons_conv)
qed

end
