(* ===== verification/Isolation.thy ===== *)
theory Isolation
  imports Reader Writer
begin

text \<open>
  What an operation on a stream may touch. A stream works on the request it belongs to and, through
  it, on one connection. Whatever it does, it stays a reader or a writer, the parts of the request that own
  the streams and the parameters are left alone, and so is every other connection. The locales
  \<open>confined_source\<close> and \<open>confined_sink\<close> are this contract for the two procedures a stream calls through its
  pointers, and give it for every operation built on them.
\<close>

definition confined ::
  "strm \<Rightarrow> 'z reqdata_scheme \<Rightarrow> os_state \<Rightarrow> strm \<Rightarrow> 'z reqdata_scheme \<Rightarrow> os_state \<Rightarrow> bool" where
  "confined s r os s' r' os' \<longleftrightarrow>
     isReader s' = isReader s \<and> reqdata.more r' = reqdata.more r \<and> ipcFd r' = ipcFd r \<and>
     listen_sock r' = listen_sock r \<and> flags r' = flags r \<and> shutdownNow os' = shutdownNow os \<and>
     (\<forall>fd. fd \<noteq> ipcFd r \<longrightarrow> conns os' fd = conns os fd)"

named_theorems confine

text \<open>The part of it that concerns the world outside: one connection, and the request's own socket and flags.\<close>

definition on_own_conn :: "'z reqdata_scheme \<Rightarrow> os_state \<Rightarrow> 'z reqdata_scheme \<Rightarrow> os_state \<Rightarrow> bool" where
  "on_own_conn r os r' os' \<longleftrightarrow>
     ipcFd r' = ipcFd r \<and> listen_sock r' = listen_sock r \<and> flags r' = flags r \<and> shutdownNow os' = shutdownNow os \<and>
     (\<forall>fd. fd \<noteq> ipcFd r \<longrightarrow> conns os' fd = conns os fd)"

lemma confined_own_conn: "confined s r os s' r' os' \<Longrightarrow> on_own_conn r os r' os'"
  by (simp add: confined_def on_own_conn_def)

lemma on_own_conn_trans: "on_own_conn r os r1 os1 \<Longrightarrow> on_own_conn r1 os1 r' os' \<Longrightarrow> on_own_conn r os r' os'"
  by (simp add: on_own_conn_def)

lemma confined_trans:
  "confined s r os s1 r1 os1 \<Longrightarrow> confined s1 r1 os1 s' r' os' \<Longrightarrow> confined s r os s' r' os'"
  by (simp add: confined_def)

lemma confined_local:
  "isReader s' = isReader s \<Longrightarrow> confined s r os s' r os"
  by (simp add: confined_def)

lemma confined_cong:
  "isReader s1 = isReader s \<Longrightarrow> confined s1 r os s' r' os' = confined s r os s' r' os'"
  "isReader s2 = isReader s' \<Longrightarrow> confined s r os s2 r' os' = confined s r os s' r' os'"
  by (simp_all add: confined_def)

lemma SetError_isReader [simp]: "isReader (SetError e s) = isReader s"
  by (simp add: SetError_def)

section \<open>Reading\<close>

lemma get_byte_isReader: "get_byte s = Inr (c, s') \<Longrightarrow> isReader s' = isReader s"
  by (auto simp: get_byte_def elim!: rbind_InrE)

lemma get_some_isReader: "get_some n s = Inr (bs, s') \<Longrightarrow> isReader s' = isReader s"
  by (auto simp: get_some_def Let_def split: if_splits)

locale confined_source =
  fixes fill :: "'z proc"
  assumes fill_confined: "fill s r os = Inr (s', r', os') \<Longrightarrow> confined s r os s' r' os'"
begin

lemma GetChar_confined:
  "FCGX_GetChar fill s r os = Inr (c, s', r', os') \<Longrightarrow> confined s r os s' r' os'"
  unfolding FCGX_GetChar_def
  by (fastforce simp: Let_def confined_def dest: get_byte_isReader fill_confined split: if_splits elim!: rbind_InrE)

lemma get_loop_confined:
  "get_loop fill n m acc s r os = Inr (bs, s', r', os') \<Longrightarrow> confined s r os s' r' os'"
proof (induction n arbitrary: acc s r os)
  case (Suc n)
  obtain bs1 s1 where 1: "get_some (m - length acc) s = Inr (bs1, s1)" "isReader s1 = isReader s"
    using Suc.prems by (auto elim!: rbind_InrE dest: get_some_isReader)
  show ?case
  proof (cases "bs1 \<noteq> [] \<and> length (acc @ bs1) = m \<or> isClosed s1 \<or> \<not> isReader s1")
    case True
    then show ?thesis using Suc.prems 1 by (auto simp: confined_def Let_def split: if_splits)
  next
    case False
    then obtain s2 r2 os2 where 2: "fill s1 r os = Inr (s2, r2, os2)"
      using Suc.prems 1 by (auto simp: Let_def elim!: rbind_InrE)
    have c: "confined s r os s2 r2 os2" using fill_confined [OF 2] 1(2) by (simp add: confined_def)
    show ?thesis
    proof (cases "isClosed s2")
      case True
      then show ?thesis using Suc.prems 1(1) 2 False c by (auto simp: Let_def)
    next
      case open2: False
      then have "get_loop fill n m (acc @ bs1) (s2\<lparr>stopUnget := Some (rdNext s2)\<rparr>) r2 os2 = Inr (bs, s', r', os')"
        using Suc.prems 1(1) 2 False open2 by (auto simp: Let_def)
      then show ?thesis using Suc.IH c by (fastforce simp: confined_def)
    qed
  qed
qed simp

lemma GetStr_confined:
  "FCGX_GetStr fill n s r os = Inr (bs, s', r', os') \<Longrightarrow> confined s r os s' r' os'"
  unfolding FCGX_GetStr_def
  by (fastforce simp del: get_loop.simps intro: confined_local dest: get_some_isReader get_loop_confined
      split: if_splits elim!: rbind_InrE)

lemma line_loop_confined:
  "line_loop fill n acc s r os = Inr (l, s', r', os') \<Longrightarrow> confined s r os s' r' os'"
proof (induction n arbitrary: acc s r os)
  case (Suc n)
  then obtain c s1 r1 os1 where 1: "FCGX_GetChar fill s r os = Inr (c, s1, r1, os1)"
    by (auto elim!: rbind_InrE)
  then show ?case
    using Suc.prems Suc.IH GetChar_confined [OF 1] by (auto simp: Let_def split: if_splits intro: confined_trans)
qed (auto simp: confined_def)

lemma GetLine_confined:
  "FCGX_GetLine fill n s r os = Inr (l, s', r', os') \<Longrightarrow> confined s r os s' r' os'"
  by (simp add: FCGX_GetLine_def line_loop_confined)

lemma read_len_confined:
  "read_len fill c s r os = Inr (n, s', r', os') \<Longrightarrow> confined s r os s' r' os'"
  unfolding read_len_def
  by (fastforce simp: Let_def confined_local split: if_splits elim!: rbind_InrE dest: GetStr_confined)

lemma read_name_value_confined:
  "read_name_value fill n m s r os = Inr (nv, s', r', os') \<Longrightarrow> confined s r os s' r' os'"
  unfolding read_name_value_def
  by (fastforce split: if_splits elim!: rbind_InrE dest: GetStr_confined intro: confined_trans)

lemma read_pair_confined:
  "read_pair fill c s r os = Inr (nv, s', r', os') \<Longrightarrow> confined s r os s' r' os'"
  unfolding read_pair_def
  by (fastforce split: if_splits option.splits elim!: rbind_InrE
      dest: GetChar_confined read_len_confined read_name_value_confined intro: confined_trans)

lemma params_loop_confined:
  "params_loop fill n p s r os = Inr (rc, p', s', r', os') \<Longrightarrow> confined s r os s' r' os'"
proof (induction n arbitrary: p s r os)
  case (Suc n)
  then obtain c s1 r1 os1 where 1: "FCGX_GetChar fill s r os = Inr (c, s1, r1, os1)"
    by (auto elim!: rbind_InrE)
  note c1 = GetChar_confined [OF 1]
  show ?case
  proof (cases "c = EOF")
    case True
    then show ?thesis using Suc.prems 1 c1 by simp
  next
    case False
    then obtain nv s2 r2 os2 where 2: "read_pair fill c s1 r1 os1 = Inr (nv, s2, r2, os2)"
      using Suc.prems 1 by (cases "read_pair fill c s1 r1 os1") auto
    have c2: "confined s r os s2 r2 os2" using c1 read_pair_confined [OF 2] by (rule confined_trans)
    show ?thesis
    proof (cases nv)
      case None
      then show ?thesis using Suc.prems 1 2 False c2 by simp (metis confined_cong(2) SetError_isReader)
    next
      case (Some v)
      then have "rbind (PutParam p v) (\<lambda>p. params_loop fill n p s2 r2 os2) = Inr (rc, p', s', r', os')"
        using Suc.prems 1 2 False by simp
      then obtain q where "params_loop fill n q s2 r2 os2 = Inr (rc, p', s', r', os')"
        by (rule rbind_InrE)
      then show ?thesis using Suc.IH c2 confined_trans by blast
    qed
  qed
qed simp

lemma ReadParams_confined:
  "ReadParams fill p s r os = Inr (rc, p', s', r', os') \<Longrightarrow> confined s r os s' r' os'"
  unfolding ReadParams_def by (rule params_loop_confined)

lemmas source_confined [confine] = fill_confined GetChar_confined GetStr_confined GetLine_confined ReadParams_confined

end

section \<open>FillBuffProc\<close>

text \<open>Reading and writing the request's own connection.\<close>

lemma OS_Read_confined:
  "OS_Read fd n os = (count, bs, os') \<Longrightarrow> shutdownNow os' = shutdownNow os \<and> (\<forall>x. x \<noteq> fd \<longrightarrow> conns os' x = conns os x)"
  by (auto simp: OS_Read_def sys_read_def Let_def split: if_splits list.splits read_event.splits)

lemma write_it_all_confined:
  "write_it_all fd bs os = (res, os') \<Longrightarrow> shutdownNow os' = shutdownNow os \<and> (\<forall>x. x \<noteq> fd \<longrightarrow> conns os' x = conns os x)"
proof (induction fd bs os rule: write_it_all.induct)
  case (1 fd buf os)
  have w: "OS_Write fd buf os = (wrote, os1) \<Longrightarrow> shutdownNow os1 = shutdownNow os \<and> (\<forall>x. x \<noteq> fd \<longrightarrow> conns os1 x = conns os x)"
    for wrote os1
    by (auto simp: OS_Write_def sys_write_def Let_def split: if_splits list.splits write_event.splits)
  show ?case
    using "1.prems" "1.IH" w by (subst (asm) write_it_all.simps) (fastforce split: if_splits prod.splits)
qed

lemma fill_refill_confined:
  "fill_refill s r os = Inr (failed, s', os') \<Longrightarrow> confined s r os s' r os'"
  unfolding fill_refill_def confined_def
  by (auto simp: Let_def split: if_splits prod.splits elim!: rbind_InrE dest: OS_Read_confined)

definition confined_handler :: "'z handler \<Rightarrow> bool" where
  "confined_handler ph \<longleftrightarrow>
     (\<forall>h s r os status s' r' os'. ph h s r os = Inr (status, s', r', os') \<longrightarrow> confined s r os s' r' os')"

fun step_confined :: "strm \<Rightarrow> 'z reqdata_scheme \<Rightarrow> os_state \<Rightarrow> (strm \<times> 'z reqdata_scheme \<times> os_state) loop \<Rightarrow> bool" where
  "step_confined s r os (Return (s', r', os')) = confined s r os s' r' os'"
| "step_confined s r os (Continue hdr (s', r', os')) = confined s r os s' r' os'"

lemma fill_dispatch_confined:
  assumes "confined_handler ph" "fill_dispatch ph h s r os = Inr x"
  shows "step_confined s r os x"
proof -
  obtain status s1 r1 os1 where 1: "ph h (s\<lparr>eorStop := True, stop := rdNext s\<rparr>) r os = Inr (status, s1, r1, os1)"
    using assms(2) by (auto simp: fill_dispatch_def elim!: rbind_InrE)
  have "confined s r os s1 r1 os1"
    using assms(1) 1 unfolding confined_handler_def confined_def by fastforce
  then show ?thesis
    using assms(2) 1 by (auto simp: fill_dispatch_def Let_def confined_def split: if_splits elim!: rbind_InrE)
qed

lemma fill_content_isReader: "fill_content s = (p, s') \<Longrightarrow> isReader s' = isReader s"
  by (auto simp: fill_content_def Let_def split: if_splits)

lemma fill_padding_isReader: "fill_padding s = (p, s') \<Longrightarrow> isReader s' = isReader s"
  by (auto simp: fill_padding_def Let_def split: if_splits)

lemma step_confined_from:
  "confined s r os s1 r os1 \<Longrightarrow> step_confined s1 r os1 x \<Longrightarrow> step_confined s r os x"
  by (cases "(s, r, os, x)" rule: step_confined.cases) (auto intro: confined_trans)

lemma fill_step_confined:
  assumes ph: "confined_handler ph" and x: "fill_step ph hdr s r os = Inr x"
  shows "step_confined s r os x"
proof -
  obtain failed s1 os1 where 1: "fill_refill s r os = Inr (failed, s1, os1)"
    using x by (auto simp: fill_step_def elim!: rbind_InrE)
  note c1 = fill_refill_confined [OF 1]
  obtain p s2 where 2: "fill_content s1 = (p, s2)" by force
  obtain q s3 where 3: "fill_padding s2 = (q, s3)" by force
  have r: "isReader s2 = isReader s1" "isReader s3 = isReader s1"
    using fill_content_isReader [OF 2] fill_padding_isReader [OF 3] by auto
  have h: "step_confined s3 r os1 y" if "fill_header ph hdr s3 r os1 = Inr y" for y
  proof -
    let ?n = "min (8 - length hdr) (buffStop s3 - rdNext s3)"
    have "step_confined (s3\<lparr>rdNext := rdNext s3 + ?n\<rparr>) r os1 y"
      using that fill_dispatch_confined [OF ph] by (auto simp: fill_header_def Let_def confined_def split: if_splits)
    then show ?thesis by (rule step_confined_from [rotated]) (simp add: confined_def)
  qed
  have "step_confined s1 r os1 x"
  proof (cases "\<not> failed \<and> p = Through \<and> q = Through \<and> \<not> eorStop s3")
    case True
    then have "step_confined s3 r os1 x" using x 1 2 3 h by (simp add: fill_step_def)
    then show ?thesis by (rule step_confined_from [rotated]) (simp add: confined_def r)
  next
    case False
    then show ?thesis using x 1 2 3 r
      by (auto simp: fill_step_def confined_def split: if_splits passage.splits)
  qed
  then show ?thesis using c1 step_confined_from by blast
qed

lemma fill_loop_confined:
  assumes "confined_handler ph"
  shows "fill_loop ph n hdr s r os = Inr (s', r', os') \<Longrightarrow> confined s r os s' r' os'"
proof (induction n arbitrary: hdr s r os)
  case (Suc n)
  then obtain x where 1: "fill_step ph hdr s r os = Inr x" by (auto elim!: rbind_InrE)
  show ?case
    using Suc 1 fill_step_confined [OF assms 1]
    by (cases "(s, r, os, x)" rule: step_confined.cases) (auto intro: confined_trans)
qed simp

lemma confined_source_with: "confined_handler ph \<Longrightarrow> confined_source (FillBuffProc_with ph)"
  unfolding FillBuffProc_with_def by unfold_locales (erule fill_loop_confined)

interpretation own_record: confined_source FillBuffProc_eor
  unfolding FillBuffProc_eor_def by (rule confined_source_with) (simp add: confined_handler_def)

lemma send_reply_confined:
  "send_reply status reply s r os = Inr (n, s', r', os') \<Longrightarrow> confined s r os s' r' os'"
  by (auto simp: send_reply_def confined_def split: if_splits prod.splits dest: write_it_all_confined)

lemma ProcessManagementRecord_confined:
  "ProcessManagementRecord t s r os = Inr (n, s', r', os') \<Longrightarrow> confined s r os s' r' os'"
  unfolding ProcessManagementRecord_def
  by (fastforce split: if_splits elim!: rbind_InrE dest: send_reply_confined own_record.ReadParams_confined intro: confined_trans)

lemma ProcessBeginRecord_confined:
  assumes "ProcessBeginRecord i s r os = Inr (n, s', r', os')"
  shows "confined s r os s' r' os'"
proof (cases "i = 0 \<or> contentLen s \<noteq> 8 \<or> isBeginProcessed r")
  case True
  then show ?thesis using assms
    by (auto simp: ProcessBeginRecord_def confined_local split: if_splits elim!: rbind_InrE dest: send_reply_confined)
next
  case False
  then obtain bs s1 r1 os1 where 1: "FCGX_GetStr FillBuffProc_eor 8 s (r\<lparr>requestId := i\<rparr>) os = Inr (bs, s1, r1, os1)"
    using assms by (auto simp: ProcessBeginRecord_def Let_def elim!: rbind_InrE)
  then show ?thesis
    using own_record.GetStr_confined [OF 1] assms False
    by (auto simp: ProcessBeginRecord_def Let_def confined_def split: if_splits)
qed

lemma confined_handler_ProcessHeader: "confined_handler ProcessHeader"
proof -
  have "confined s r os s' r' os'" if ph: "ProcessHeader h s r os = Inr (n, s', r', os')"
    for h s s' n and r r' :: "'z reqdata_scheme" and os os'
  proof -
    let ?s = "s\<lparr>contentLen := nat (header_contentLength h), paddingLen := unat (paddingLength h)\<rparr>"
    have ifE: "(if b then x else y) = z \<Longrightarrow> (x = z \<Longrightarrow> P) \<Longrightarrow> (y = z \<Longrightarrow> P) \<Longrightarrow> P"
      for b P and x y z :: "fault + int \<times> strm \<times> 'z reqdata_scheme \<times> os_state"
      by (cases b) auto
    have "(n, s', r', os') = (FCGX_UNSUPPORTED_VERSION, s, r, os) \<or> (n, s', r', os') = (SKIP, ?s, r, os) \<or>
      (n, s', r', os') = (FCGX_PROTOCOL_ERROR, ?s, r, os) \<or> (n, s', r', os') = (STREAM_RECORD, ?s, r, os) \<or>
      ProcessBeginRecord (header_requestId h) ?s r os = Inr (n, s', r', os') \<or>
      ProcessManagementRecord (uint (htype h)) ?s r os = Inr (n, s', r', os')"
      using ph unfolding ProcessHeader_def Let_def by (elim ifE) (simp_all only: sum.inject simp_thms eq_commute)
    then have "isReader s' = isReader s \<and> r' = r \<and> os' = os \<or> confined ?s r os s' r' os'"
      by (elim disjE) (auto dest: ProcessBeginRecord_confined ProcessManagementRecord_confined)
    then show ?thesis by (auto simp: confined_def)
  qed
  then show ?thesis by (auto simp: confined_handler_def)
qed

interpretation records: confined_source FillBuffProc
  unfolding FillBuffProc_def by (rule confined_source_with [OF confined_handler_ProcessHeader])

section \<open>Writing\<close>

lemma put_some_isReader: "put_some str s = Inr (rest, s') \<Longrightarrow> isReader s' = isReader s"
  by (auto simp: put_some_def Let_def split: if_splits elim!: rbind_InrE)

locale confined_sink =
  fixes empt :: "bool \<Rightarrow> 'z proc"
  assumes empt_confined: "empt b s r os = Inr (s', r', os') \<Longrightarrow> confined s r os s' r' os'"
begin

lemma PutChar_confined:
  "FCGX_PutChar empt c s r os = Inr (n, s', r', os') \<Longrightarrow> confined s r os s' r' os'"
  unfolding FCGX_PutChar_def
  by (fastforce simp: Let_def confined_def dest: empt_confined split: if_splits elim!: rbind_InrE)

lemma put_loop_confined:
  "put_loop empt n m str s r os = Inr (k, s', r', os') \<Longrightarrow> confined s r os s' r' os'"
proof (induction n arbitrary: str s r os)
  case (Suc n)
  obtain rest s1 where 1: "put_some str s = Inr (rest, s1)" "isReader s1 = isReader s"
    using Suc.prems by (auto elim!: rbind_InrE dest: put_some_isReader)
  show ?case
  proof (cases "rest = [] \<or> isClosed s1 \<or> isReader s1")
    case True
    then show ?thesis using Suc.prems 1 by (auto simp: confined_def split: if_splits)
  next
    case False
    then obtain s2 r2 os2 where 2: "empt False s1 r os = Inr (s2, r2, os2)" "put_loop empt n m rest s2 r2 os2 = Inr (k, s', r', os')"
      using Suc.prems 1 by (auto elim!: rbind_InrE)
    then show ?thesis using Suc.IH [OF 2(2)] empt_confined [OF 2(1)] 1(2) by (simp add: confined_def)
  qed
qed simp

lemma PutStr_confined:
  "FCGX_PutStr empt str s r os = Inr (n, s', r', os') \<Longrightarrow> confined s r os s' r' os'"
  unfolding FCGX_PutStr_def
  by (fastforce simp del: put_loop.simps intro: confined_local dest: put_loop_confined split: if_splits elim!: rbind_InrE)

lemma FFlush_confined:
  "FCGX_FFlush empt s r os = Inr (n, s', r', os') \<Longrightarrow> confined s r os s' r' os'"
  unfolding FCGX_FFlush_def
  by (auto intro: confined_local dest: empt_confined split: if_splits elim!: rbind_InrE)

lemma FClose_confined:
  assumes "FCGX_FClose empt (Some s) r os = Inr (n, so, r', os')"
  obtains s' where "so = Some s'" "confined s r os s' r' os'"
proof -
  have "\<exists>s1 s'. so = Some s' \<and> isReader s' = isReader s1 \<and> confined s r os s1 r' os'"
  proof (cases "wasFCloseCalled s \<or> isReader s")
    case True
    then have "r' = r \<and> os' = os \<and> (\<exists>s'. so = Some s' \<and> isReader s' = isReader s)"
      using assms by (auto simp: FCGX_FClose_def Let_def split: if_splits)
    then show ?thesis using confined_local [of s s r os] by blast
  next
    case False
    then obtain s1 where 1: "empt True s r os = Inr (s1, r', os')" "\<exists>s'. so = Some s' \<and> isReader s' = isReader s1"
      using assms by (auto simp: FCGX_FClose_def Let_def split: if_splits elim!: rbind_InrE)
    then show ?thesis using empt_confined by blast
  qed
  then show ?thesis using that by (auto simp: confined_def)
qed

lemmas sink_confined [confine] = empt_confined PutChar_confined PutStr_confined FFlush_confined

end

lemma encapsulate_isReader:
  assumes "encapsulate s r = Inr s'"
  shows "isReader s' = isReader s"
proof (cases "rawWrite s \<or> int (wrNext s) - int FCGI_HEADER_LEN \<le> 0")
  case True
  then show ?thesis using assms by (auto simp: encapsulate_def split: if_splits)
next
  case False
  then have c: "(rawWrite s) = False" "(int (wrNext s) - int FCGI_HEADER_LEN > 0) = True" by simp_all
  show ?thesis
    using assms unfolding encapsulate_def Let_def c if_False if_True by (elim rbind_InrE) (drule sum.inject(2) [THEN iffD1], hypsubst, simp)
qed

lemma flush_buffer_confined:
  assumes "flush_buffer s r os = Inr (s', r', os')"
  shows "confined s r os s' r' os'"
proof (cases "wrNext s = 0")
  case True
  then show ?thesis using assms by (auto simp: flush_buffer_def confined_def split: if_splits)
next
  case False
  obtain res os1 where 1: "write_it_all (ipcFd r) (take (wrNext s) (buff s)) os = (res, os1)" by force
  then show ?thesis
    using False assms write_it_all_confined [OF 1] by (auto simp: flush_buffer_def Let_def confined_def split: if_splits)
qed

lemma EmptyBuffProc_noclose_confined:
  assumes "EmptyBuffProc_noclose s r os = Inr (s', r', os')"
  shows "confined s r os s' r' os'"
proof -
  obtain s1 where "encapsulate s r = Inr s1" "flush_buffer s1 r os = Inr (s', r', os')"
    using assms by (auto simp: EmptyBuffProc_noclose_def elim: rbind_InrE)
  then show ?thesis using encapsulate_isReader flush_buffer_confined by (fastforce simp: confined_def)
qed

interpretation raw_records: confined_sink "\<lambda>_. EmptyBuffProc_noclose"
  by unfold_locales (rule EmptyBuffProc_noclose_confined)

lemma put_raw_confined:
  assumes "(if b then rbind m (\<lambda>h. rbind (FCGX_PutStr (\<lambda>_. EmptyBuffProc_noclose) (f h) s r os) (\<lambda>(_, s, r, os). Inr (s, r, os)))
      else Inr (s, r, os)) = Inr (s', r', os')"
  shows "confined s r os s' r' os'"
  using assms by (auto split: if_splits elim!: rbind_InrE simp: confined_local dest!: raw_records.PutStr_confined)

lemma WriteCloseRecords_confined:
  assumes "WriteCloseRecords s r os = Inr (s', r', os')"
  shows "confined s r os s' r' os'"
proof -
  obtain s1 r1 os1 s2 r2 os2 where 1: "confined (s\<lparr>rawWrite := True\<rparr>) r os s1 r1 os1" "confined s1 r1 os1 s2 r2 os2"
    "Inr (s2, r2\<lparr>nWriters := nWriters r2 - 1\<rparr>, os2) = (Inr (s', r', os') :: fault + _)"
    using assms unfolding WriteCloseRecords_def Let_def
    by (elim rbind_InrE, clarify, elim rbind_InrE, clarify) (drule put_raw_confined, drule put_raw_confined, blast)
  show ?thesis using confined_trans [OF 1(1,2)] 1(3) by (auto simp: confined_def)
qed

lemma EmptyBuffProc_confined:
  assumes "EmptyBuffProc b s r os = Inr (s', r', os')"
  shows "confined s r os s' r' os'"
proof -
  obtain s1 s2 r2 os2 where 1: "encapsulate s r = Inr s1" "flush_buffer s2 r2 os2 = Inr (s', r', os')"
    "(if b then WriteCloseRecords s1 r os else Inr (s1, r, os)) = Inr (s2, r2, os2)"
    using assms by (auto simp: EmptyBuffProc_def elim!: rbind_InrE)
  have "confined s1 r os s2 r2 os2"
    using 1(3) by (auto simp: confined_local split: if_splits dest: WriteCloseRecords_confined)
  then show ?thesis
    using encapsulate_isReader [OF 1(1)] flush_buffer_confined [OF 1(2)] by (simp add: confined_def)
qed

interpretation framed_records: confined_sink EmptyBuffProc
  by unfold_locales (rule EmptyBuffProc_confined)

end
