(* ===== verification/Request.thy ===== *)
theory Request
  imports WriterSession Delivery SockAddr Isolation
begin

text \<open>
  The life of a request in \<^verbatim>\<open>libfcgi/fcgiapp.c\<close>: \<^verbatim>\<open>FCGX_InitRequest\<close>, \<^verbatim>\<open>FCGX_Init\<close>,
  \<^verbatim>\<open>FCGX_Accept_r\<close>, \<^verbatim>\<open>FCGX_Finish_r\<close>, \<^verbatim>\<open>FCGX_Free\<close>, their forms without a request argument,
  \<^verbatim>\<open>FCGX_IsCGI\<close>, \<^verbatim>\<open>FCGX_StartFilterData\<close> and \<^verbatim>\<open>FCGX_SetExitStatus\<close>.

  A request owns its streams and parameters, so the pointers to them are optional values.
  \<^verbatim>\<open>envp\<close> points to the vector of \<^verbatim>\<open>paramsPtr\<close>, which is not changed once \<^verbatim>\<open>envp\<close> is set; it is
  a copy of that vector (which dangles, in C, after \<^verbatim>\<open>FCGX_Free\<close>).
\<close>

section \<open>State\<close>

record FCGX_Request = reqdata +
  inS :: "strm option"
  outS :: "strm option"
  errS :: "strm option"
  paramsPtr :: "Params option"
  envp :: "byte list option list option"

text \<open>The static variables of \<^verbatim>\<open>fcgiapp.c\<close>.\<close>

record fcgx_globals =
  libInitialized :: bool
  isFastCGI :: int
  webServerAddressList :: "byte list option"
  the_request :: FCGX_Request

text \<open>What the process finds around it: \<^verbatim>\<open>inet_addr\<close>, the variable \<^verbatim>\<open>FCGI_WEB_SERVER_ADDRS\<close>, whether
  \<^verbatim>\<open>malloc\<close> finds memory for the table of asynchronous operations, what \<^verbatim>\<open>getpeername\<close> says of the
  listening socket, and the blocks \<^verbatim>\<open>Malloc\<close> returns for the buffers of the three streams (which may
  differ from try to try).\<close>

record environment =
  inet_addr :: "byte list \<Rightarrow> int"
  web_server_addrs :: "byte list option"
  memory :: bool
  peername :: int
  in_block :: "nat \<Rightarrow> 64 word"
  out_block :: "64 word"
  err_block :: "64 word"

text \<open>A pointer to one of the streams of a request, and what it points to.\<close>

datatype stream_ref = ReqIn | ReqOut | ReqErr

fun request_stream :: "stream_ref \<Rightarrow> FCGX_Request \<Rightarrow> strm option" where
  "request_stream ReqIn r = inS r"
| "request_stream ReqOut r = outS r"
| "request_stream ReqErr r = errS r"

fun put_stream :: "stream_ref \<Rightarrow> strm option \<Rightarrow> FCGX_Request \<Rightarrow> FCGX_Request" where
  "put_stream ReqIn s r = r\<lparr>inS := s\<rparr>"
| "put_stream ReqOut s r = r\<lparr>outS := s\<rparr>"
| "put_stream ReqErr s r = r\<lparr>errS := s\<rparr>"

section \<open>Setting up\<close>

definition zero_request :: FCGX_Request where
  "zero_request = \<lparr> requestId = 0, role = 0, ipcFd = 0, isBeginProcessed = False, keepConnection = 0, appStatus = 0,
     nWriters = 0, flags = 0, listen_sock = 0, inS = None, outS = None, errS = None, paramsPtr = None, envp = None \<rparr>"

definition FCGX_InitRequest :: "int \<Rightarrow> int \<Rightarrow> int \<times> FCGX_Request" where
  "FCGX_InitRequest sock fl = (0, zero_request\<lparr>listen_sock := sock, flags := fl, ipcFd := - 1\<rparr>)"

definition globals_start :: fcgx_globals where
  "globals_start = \<lparr> libInitialized = False, isFastCGI = - 1, webServerAddressList = None, the_request = zero_request \<rparr>"

definition StringCopy :: "byte list \<Rightarrow> byte list" where
  "StringCopy str = cstr str @ [0]"

abbreviation (input) "FCGI_LISTENSOCK_FILENO \<equiv> 0 :: int"
abbreviation (input) "FCGI_FAIL_ACCEPT_ON_INTR \<equiv> 1 :: int"

definition FCGX_Init ::
  "environment \<Rightarrow> fcgx_globals \<Rightarrow> os_lib \<Rightarrow> os_state \<Rightarrow> int \<times> fcgx_globals \<times> os_lib \<times> os_state" where
  "FCGX_Init e g l os =
     (if libInitialized g then (0, g, l, os)
      else
        let g = g\<lparr>the_request := snd (FCGX_InitRequest FCGI_LISTENSOCK_FILENO 0)\<rparr>;
            (rc, l, os) = OS_LibInit (memory e) l os
        in if rc = - 1 then (if c_errno os \<noteq> 0 then c_errno os else - 9997, g, l, os)
           else (0, g\<lparr>webServerAddressList := map_option StringCopy (web_server_addrs e), libInitialized := True\<rparr>, l, os))"

text \<open>\<^verbatim>\<open>FCGX_IsCGI\<close>: \<open>Inl\<close> is a call of \<^verbatim>\<open>exit\<close> with that status.\<close>

definition FCGX_IsCGI ::
  "environment \<Rightarrow> fcgx_globals \<Rightarrow> os_lib \<Rightarrow> os_state \<Rightarrow> (int + bool) \<times> fcgx_globals \<times> os_lib \<times> os_state" where
  "FCGX_IsCGI e g l os =
     (if isFastCGI g \<noteq> - 1 then (Inr (isFastCGI g = 0), g, l, os)
      else
        let (rc, g, l, os) = (if \<not> libInitialized g then FCGX_Init e g l os else (0, g, l, os))
        in if rc \<noteq> 0 then (Inl (if rc < 0 then rc else - rc), g, l, os)
           else let (fcgi, os) = OS_IsFcgi (peername e) os;
                    g = g\<lparr>isFastCGI := (if fcgi then 1 else 0)\<rparr>
                in (Inr (isFastCGI g = 0), g, l, os))"

definition FCGX_OpenSocket ::
  "netsys \<Rightarrow> byte list \<Rightarrow> int \<Rightarrow> fcgx_globals \<Rightarrow> fault + outcome \<times> net_call list \<times> fcgx_globals" where
  "FCGX_OpenSocket k path backlog g =
     rbind (OS_CreateLocalIpcFd k path backlog) (\<lambda>(res, calls).
     case res of
       Exits code \<Rightarrow> Inr (Exits code, calls, g)
     | Returns rc \<Rightarrow>
         Inr (Returns rc, calls,
              if rc = FCGI_LISTENSOCK_FILENO \<and> isFastCGI g = 0 then g\<lparr>isFastCGI := 1\<rparr> else g))"

definition FCGX_ShutdownPending :: "os_lib \<Rightarrow> os_lib" where
  "FCGX_ShutdownPending l = OS_ShutdownPending l"

text \<open>\<^verbatim>\<open>FCGX_CreateWriter\<close>: a writer without a request of the library. \<open>junk\<close> is what the block of memory holds
  that its request is made of; only three fields of it are set.\<close>

definition FCGX_CreateWriter ::
  "'z reqdata_scheme \<Rightarrow> 64 word \<Rightarrow> int \<Rightarrow> int \<Rightarrow> int \<Rightarrow> int \<Rightarrow> strm \<times> 'z reqdata_scheme" where
  "FCGX_CreateWriter junk mBuff fd reqId len streamType =
     (let r = junk\<lparr>ipcFd := fd, requestId := reqId, nWriters := 2\<rparr>
      in (NewWriter mBuff len streamType, r))"

section \<open>Finishing\<close>

definition FCGX_FreeStream :: "strm option \<Rightarrow> strm option" where
  "FCGX_FreeStream s = (case s of None \<Rightarrow> None | Some _ \<Rightarrow> None)"

definition FCGX_Free ::
  "FCGX_Request option \<Rightarrow> bool \<Rightarrow> os_lib \<Rightarrow> os_state \<Rightarrow> fault + FCGX_Request option \<times> os_lib \<times> os_state" where
  "FCGX_Free request close l os =
     (case request of None \<Rightarrow> Inr (None, l, os)
      | Some r \<Rightarrow>
          let r = r\<lparr>inS := FCGX_FreeStream (inS r)\<rparr>;
              r = r\<lparr>outS := FCGX_FreeStream (outS r)\<rparr>;
              r = r\<lparr>errS := FCGX_FreeStream (errS r)\<rparr>;
              r = r\<lparr>paramsPtr := snd (FreeParams (paramsPtr r))\<rparr>
          in if close
             then rbind (OS_IpcClose (ipcFd r) l os) (\<lambda>(_, l, os). Inr (Some (r\<lparr>ipcFd := - 1\<rparr>), l, os))
             else Inr (Some r, l, os))"

definition FCGX_Finish_r ::
  "FCGX_Request option \<Rightarrow> os_lib \<Rightarrow> os_state \<Rightarrow> fault + FCGX_Request option \<times> os_lib \<times> os_state" where
  "FCGX_Finish_r reqDataPtr l os =
     (case reqDataPtr of None \<Rightarrow> Inr (None, l, os)
      | Some r \<Rightarrow>
          let close = (if keepConnection r = 0 then 1 else 0 :: int) in
          rbind
            (case inS r of None \<Rightarrow> Inr (close, r, os)
             | Some s \<Rightarrow>
                 rbind (FCGX_FClose EmptyBuffProc (errS r) r os) (\<lambda>(rc, st, r, os).
                 let r = r\<lparr>errS := st\<rparr>; close = close OR rc in
                 rbind (FCGX_FClose EmptyBuffProc (outS r) r os) (\<lambda>(rc, st, r, os).
                 let r = r\<lparr>outS := st\<rparr>; close = close OR rc
                 in Inr (close OR FCGX_GetError s, r, os))))
            (\<lambda>(close, r, os). FCGX_Free (Some r) (close \<noteq> 0) l os))"

definition FCGX_Finish ::
  "fcgx_globals \<Rightarrow> os_lib \<Rightarrow> os_state \<Rightarrow> fault + fcgx_globals \<times> os_lib \<times> os_state" where
  "FCGX_Finish g l os =
     rbind (FCGX_Finish_r (Some (the_request g)) l os) (\<lambda>(r, l, os).
     Inr (g\<lparr>the_request := the r\<rparr>, l, os))"

section \<open>Accepting\<close>

text \<open>A connection: the open one, or a new one. \<open>Inl\<close> of the inner result is the code to return.\<close>

definition accept_connection ::
  "environment \<Rightarrow> fcgx_globals \<Rightarrow> FCGX_Request \<Rightarrow> os_lib \<Rightarrow> os_state \<Rightarrow>
    fault + (int + unit) \<times> FCGX_Request \<times> os_lib \<times> os_state" where
  "accept_connection e g r l os =
     (if ipcFd r < 0 then
        let fail_on_intr = (flags r AND FCGI_FAIL_ACCEPT_ON_INTR \<noteq> 0) in
        rbind (OS_Accept (inet_addr e) (listen_sock r) fail_on_intr (webServerAddressList g) l os) (\<lambda>(fd, l, os).
        let r = r\<lparr>ipcFd := fd\<rparr>
        in if ipcFd r < 0 then Inr (Inl (if c_errno os > 0 then - c_errno os else - 9999), r, l, os)
           else Inr (Inr (), r, l, os))
      else Inr (Inr (), r, l, os))"

definition role_string :: "int \<Rightarrow> byte list option" where
  "role_string rl =
     (if rl = FCGI_RESPONDER then Some (chars ''FCGI_ROLE=RESPONDER'' @ [0])
      else if rl = FCGI_AUTHORIZER then Some (chars ''FCGI_ROLE=AUTHORIZER'' @ [0])
      else if rl = FCGI_FILTER then Some (chars ''FCGI_ROLE=FILTER'' @ [0])
      else None)"

text \<open>Role and environment from an open connection; false is \<^verbatim>\<open>goto TryAgain\<close>.\<close>

definition read_request :: "64 word \<Rightarrow> FCGX_Request \<Rightarrow> os_state \<Rightarrow> fault + bool \<times> FCGX_Request \<times> os_state" where
  "read_request mBuff r os =
     (let r = r\<lparr>isBeginProcessed := False\<rparr>;
          s = NewReader mBuff 8192 0
      in rbind (FillBuffProc s r os) (\<lambda>(s, r, os).
         let r = r\<lparr>inS := Some s\<rparr> in
         if \<not> isBeginProcessed r then Inr (False, r, os)
         else case role_string (role r) of
           None \<Rightarrow> Inr (False, r, os)
         | Some roleStr \<Rightarrow>
             rbind (NewParams 30) (\<lambda>p.
             rbind (PutParam p (StringCopy roleStr)) (\<lambda>p.
             let r = r\<lparr>paramsPtr := Some p\<rparr> in
             rbind (SetReaderType FCGI_PARAMS s) (\<lambda>s.
             rbind (ReadParams FillBuffProc p s r os) (\<lambda>(rc, p, s, r, os).
             Inr (rc \<ge> 0, r\<lparr>paramsPtr := Some p, inS := Some s\<rparr>, os)))))))"

text \<open>The remaining data structures, once the environment has been read.\<close>

definition ready_request :: "environment \<Rightarrow> FCGX_Request \<Rightarrow> fault + FCGX_Request" where
  "ready_request e r =
     (case (inS r, paramsPtr r) of
        (Some s, Some p) \<Rightarrow>
          rbind (SetReaderType FCGI_STDIN s) (\<lambda>s.
          Inr (r\<lparr>inS := Some s,
                 outS := Some (NewWriter (out_block e) 8192 FCGI_STDOUT),
                 errS := Some (NewWriter (err_block e) 512 FCGI_STDERR),
                 nWriters := 2,
                 envp := Some (vec p)\<rparr>))
      | _ \<Rightarrow> Inl NullDeref)"

fun accept_requests ::
  "environment \<Rightarrow> fcgx_globals \<Rightarrow> nat \<Rightarrow> FCGX_Request \<Rightarrow> os_lib \<Rightarrow> os_state \<Rightarrow>
    fault + int \<times> FCGX_Request \<times> os_lib \<times> os_state" where
  "accept_requests e g 0 r l os = Inl OutOfFuel"
| "accept_requests e g (Suc fuel) r l os =
     rbind (accept_connection e g r l os) (\<lambda>(res, r, l, os).
     case res of
       Inl rc \<Rightarrow> Inr (rc, r, l, os)
     | Inr _ \<Rightarrow>
         rbind (read_request (in_block e fuel) r os) (\<lambda>(ok, r, os).
         if ok then rbind (ready_request e r) (\<lambda>r. Inr (0, r, l, os))
         else rbind (FCGX_Free (Some r) True l os) (\<lambda>(ro, l, os). accept_requests e g fuel (the ro) l os)))"

definition FCGX_Accept_r ::
  "environment \<Rightarrow> fcgx_globals \<Rightarrow> FCGX_Request \<Rightarrow> os_lib \<Rightarrow> os_state \<Rightarrow>
    fault + int \<times> FCGX_Request \<times> os_lib \<times> os_state" where
  "FCGX_Accept_r e g r l os =
     (if \<not> libInitialized g then Inr (- 9998, r, l, os)
      else rbind (FCGX_Finish_r (Some r) l os) (\<lambda>(ro, l, os).
           accept_requests e g (length (accepts l) + 2) (the ro) l os))"

text \<open>\<^verbatim>\<open>FCGX_Accept\<close>: the code and the four pointers stored for the caller, if they are stored.\<close>

definition FCGX_Accept ::
  "environment \<Rightarrow> fcgx_globals \<Rightarrow> os_lib \<Rightarrow> os_state \<Rightarrow>
    fault + (int \<times> (strm option \<times> strm option \<times> strm option \<times> byte list option list option) option) \<times>
      fcgx_globals \<times> os_lib \<times> os_state" where
  "FCGX_Accept e g l os =
     (let (rc, g, l, os) = (if \<not> libInitialized g then FCGX_Init e g l os else (0, g, l, os))
      in if rc \<noteq> 0 then Inr ((rc, None), g, l, os)
         else rbind (FCGX_Accept_r e g (the_request g) l os) (\<lambda>(rc, r, l, os).
              let g = g\<lparr>the_request := r\<rparr>
              in Inr ((rc, Some (inS r, outS r, errS r, envp r)), g, l, os)))"

section \<open>During a request\<close>

definition FCGX_StartFilterData :: "strm \<Rightarrow> 'z reqdata_scheme \<Rightarrow> fault + int \<times> strm" where
  "FCGX_StartFilterData s r =
     (if role r \<noteq> FCGI_FILTER \<or> \<not> isReader s \<or> \<not> isClosed s \<or> stype s \<noteq> FCGI_STDIN
      then Inr (- 1, SetError FCGX_CALL_SEQ_ERROR s)
      else rbind (SetReaderType FCGI_DATA s) (\<lambda>s. Inr (0, s)))"

definition FCGX_SetExitStatus :: "int \<Rightarrow> 'z reqdata_scheme \<Rightarrow> 'z reqdata_scheme" where
  "FCGX_SetExitStatus status r = r\<lparr>appStatus := status\<rparr>"

section \<open>The record that begins a request\<close>

definition begun :: "int \<Rightarrow> byte list \<Rightarrow> 'z reqdata_scheme \<Rightarrow> 'z reqdata_scheme" where
  "begun i body r = r\<lparr>requestId := i, keepConnection := uint (body ! 2) AND FCGI_KEEP_CONN,
     role := push_bit 8 (uint (body ! 0)) + uint (body ! 1), isBeginProcessed := True\<rparr>"

lemma begun_simps [simp]:
  "requestId (begun i body r) = i" "isBeginProcessed (begun i body r)" "ipcFd (begun i body r) = ipcFd r"
  "role (begun i body r) = push_bit 8 (uint (body ! 0)) + uint (body ! 1)"
  "keepConnection (begun i body r) = uint (body ! 2) AND 1" "appStatus (begun i body r) = appStatus r"
  "nWriters (begun i body r) = nWriters r" "listen_sock (begun i body r) = listen_sock r" "flags (begun i body r) = flags r"
  by (simp_all add: begun_def)

lemma GetStr_begin:
  fixes r :: "'z reqdata_scheme"
  assumes s: "lp_ok s" "\<not> isClosed s" "eorStop s" "stop s = rdNext s" "contentLen s = 8" "paddingLen s = 0" "\<not> skip s"
    and inp: "inp s r os = body @ rest" "length body = 8" "rest \<noteq> []"
  obtains s' os' where "FCGX_GetStr FillBuffProc_eor 8 s r os = Inr (body, s', r, os')" "lp_ok s'"
    "contentLen s' = 0" "paddingLen s' = 0" "inp s' r os' = rest" "FCGI_errno s' = FCGI_errno s" "\<not> skip s'"
    "same_reader s s'" "same_out os os'"
proof -
  obtain s1 os1 where 1: "FCGX_GetStr FillBuffProc_eor 8 s r os = Inr (record_content s r os, s1, r, os1)"
    "lp_ok s1" "same_reader s s1" "same_out os os1" "eor.avail r s os [] s1 r os1"
    using GetStr_record [OF s(1-5), of r os] by metis
  have rc: "record_content s r os = body" using s inp by (simp add: record_content_def)
  have lt: "contentLen s + paddingLen s < length (inp s r os)" using s inp by simp
  have "contentLen s1 = 0 \<and> paddingLen s1 = 0 \<and> inp s1 r os1 = rest \<and> FCGI_errno s1 = FCGI_errno s \<and> \<not> skip s1"
  proof (cases "isClosed s1")
    case True
    then have "closed_at (contentLen s + paddingLen s) s r os s1 os1"
      using 1(5) by (simp add: eor.avail_def eor_ended_def)
    then show ?thesis using lt s inp by (auto simp: closed_at_def)
  next
    case False
    then have e: "rbuf_ok s1" "ready s1 = []" "eor_src r s os [] s1 r os1"
      using 1(5) by (auto simp: eor.avail_def)
    then have rd: "rdNext s1 = stop s1" using ready_Nil_iff by auto
    note cm = coming_inp [OF rd, of r os1]
    have c: "contentLen s1 + paddingLen s1 < length (inp s1 r os1)" "paddingLen s1 = 0"
      "drop (contentLen s1 + paddingLen s1) (inp s1 r os1) = rest" "FCGI_errno s1 = FCGI_errno s"
      "(skip s1 \<and> contentLen s1 = 0) = (skip s \<and> contentLen s = 0)"
      "[] = (if skip s1 then [] else take (contentLen s1) (inp s1 r os1))"
      using e(3) lt s inp unfolding eor_src_def cm by auto
    have "\<not> skip s1" using e(3) s(7) by (simp add: eor_src_def)
    then show ?thesis using c by (auto split: if_splits)
  qed
  then show ?thesis using that 1 rc by metis
qed

lemma inp_begun [simp]:
  "inp s (begun i body r) os = inp s r os" "inp s (r\<lparr>requestId := i\<rparr>) os = inp s r os"
  by (simp_all add: inp_def begun_def)

lemma begin_fill:
  fixes r :: "'z reqdata_scheme"
  assumes s: "lp_ok s" "\<not> isClosed s" "\<not> eorStop s" "contentLen s = 0" "paddingLen s = 0" "\<not> skip s" "FCGI_errno s = 0"
    and r: "\<not> isBeginProcessed r" and rec: "rec_ok (1, i, body, [])" "i \<noteq> 0" "length body = 8"
    and inp: "inp s r os = wire_record FCGI_BEGIN_REQUEST i body [] @ rest" "rest \<noteq> []"
  obtains s' os' where "FillBuffProc s r os = Inr (s', begun i body r, os')" "lp_ok s'" "\<not> isClosed s'" "\<not> eorStop s'"
    "inp s' r os' = rest" "FCGI_errno s' = 0" "same_reader s s'" "same_out os os'"
proof -
  let ?h = "mk_header 1 i 8 0"
  have wh: "wire_record 1 i body [] = header_bytes ?h @ body" "uint (htype ?h) = 1" "header_requestId ?h = i"
    "header_contentLength ?h = 8" "unat (paddingLength ?h) = 0"
    using wire_header [OF rec(1)] rec(3) by simp_all
  have i0: "inp s r os = [] @ header_bytes ?h @ body @ rest" using inp(1) wh(1) by simp
  obtain s1 os1 where 1: "skimmed s os s1 os1" "inp s1 r os1 = body @ rest"
    "dispatches ProcessHeader [] s r os ?h s1 os1"
    using to_header [OF s(1-3) disjI1 [OF s(4)] i0, of "[]" ProcessHeader] s(4,5) by auto
  have s1: "lp_ok s1" "\<not> isClosed s1" "\<not> skip s1" "FCGI_errno s1 = 0" "same_reader s s1" "same_out os os1"
    using 1(1) s by (simp_all add: skimmed_def)
  let ?s2 = "s1\<lparr>eorStop := True, stop := rdNext s1, contentLen := 8, paddingLen := 0\<rparr>"
  have s2: "lp_ok ?s2" "\<not> isClosed ?s2" "eorStop ?s2" "stop ?s2 = rdNext ?s2" "contentLen ?s2 = 8" "paddingLen ?s2 = 0"
    "\<not> skip ?s2" "inp ?s2 (r\<lparr>requestId := i\<rparr>) os1 = body @ rest"
    using s1 1(2) by (simp_all add: lp_ok_def inp_def buffered_def)
  obtain s3 os2 where 3: "FCGX_GetStr FillBuffProc_eor 8 ?s2 (r\<lparr>requestId := i\<rparr>) os1 = Inr (body, s3, r\<lparr>requestId := i\<rparr>, os2)"
    "lp_ok s3" "contentLen s3 = 0" "paddingLen s3 = 0" "inp s3 (r\<lparr>requestId := i\<rparr>) os2 = rest" "FCGI_errno s3 = FCGI_errno ?s2"
    "same_reader ?s2 s3" "same_out os1 os2"
    by (rule GetStr_begin [OF s2 rec(3) inp(2)])
  have ph: "ProcessHeader ?h (s1\<lparr>eorStop := True, stop := rdNext s1\<rparr>) r os1 = Inr (2, s3, begun i body r, os2)"
    using wh(2-5) rec(2,3) r 3(1)
    by (simp add: ProcessHeader_def ProcessBeginRecord_def Let_def begun_def begin_body_of_bytes_def)
  let ?s = "s3\<lparr>eorStop := False, isClosed := False\<rparr>"
  have "fill_dispatch ProcessHeader ?h s1 r os1 = Inr (Return (?s, begun i body r, os2))"
    using ph by (simp add: fill_dispatch_def Let_def)
  then have "fills ProcessHeader [] s r os (?s, begun i body r, os2)"
    using 1(3) unfolding dispatches_def by blast
  then have "FillBuffProc s r os = Inr (?s, begun i body r, os2)"
    unfolding FillBuffProc_def by (rule fills_FillBuffProc_with [OF _ s(1,2) handler_ok_ProcessHeader])
  moreover have "same_reader s s3"
    using same_reader_trans [OF s1(5), of s3] 3(7) by (simp add: same_reader_def)
  ultimately show ?thesis
    using 3 s1(4) same_out_trans [OF s1(6) 3(8)]
    by (intro that [of ?s os2]) (simp_all add: lp_ok_def inp_def buffered_def same_reader_def)
qed

section \<open>Reading role and environment\<close>

definition role_name :: "int \<Rightarrow> byte list" where
  "role_name rl = (if rl = FCGI_RESPONDER then chars ''RESPONDER''
     else if rl = FCGI_AUTHORIZER then chars ''AUTHORIZER'' else chars ''FILTER'')"

lemma role_string_entry:
  assumes "rl \<in> {FCGI_RESPONDER, FCGI_AUTHORIZER, FCGI_FILTER}"
  obtains str where "role_string rl = Some str" "StringCopy str = entry (chars ''FCGI_ROLE'', role_name rl)"
proof -
  have "StringCopy (chars ''FCGI_ROLE=RESPONDER'' @ [0]) = entry (chars ''FCGI_ROLE'', chars ''RESPONDER'')"
    "StringCopy (chars ''FCGI_ROLE=AUTHORIZER'' @ [0]) = entry (chars ''FCGI_ROLE'', chars ''AUTHORIZER'')"
    "StringCopy (chars ''FCGI_ROLE=FILTER'' @ [0]) = entry (chars ''FCGI_ROLE'', chars ''FILTER'')"
    by (simp_all add: StringCopy_def cstr_def chars_def entry_def)
  then show ?thesis using assms that by (auto simp: role_string_def role_name_def)
qed

lemma role_name_ok: "0x3D \<notin> set (chars ''FCGI_ROLE'') \<and> 0 \<notin> set (chars ''FCGI_ROLE'')"
  by (simp add: chars_def)

lemma wire_all_ne: "rs \<noteq> [] \<Longrightarrow> wire_all rs @ X \<noteq> []"
  by (cases rs) (auto simp: wire_record_def)

text \<open>A connection on which a well-formed request begins.\<close>

definition begins ::
  "int \<Rightarrow> byte list \<Rightarrow> (byte list \<times> byte list) list \<Rightarrow> wrec list \<Rightarrow> byte list \<Rightarrow> int \<Rightarrow> os_state \<Rightarrow> bool" where
  "begins i body kvs rs X fd os \<longleftrightarrow>
     arriving fd os = wire_record FCGI_BEGIN_REQUEST i body [] @ wire_all rs @ X \<and> writes_ok fd os \<and>
     rec_ok (FCGI_BEGIN_REQUEST, i, body, []) \<and> i \<noteq> 0 \<and> length body = 8 \<and>
     push_bit 8 (uint (body ! 0)) + uint (body ! 1) \<in> {FCGI_RESPONDER, FCGI_AUTHORIZER, FCGI_FILTER} \<and>
     stream_ok FCGI_PARAMS i False rs \<and> last_pad rs = [] \<and> delivered FCGI_PARAMS i False rs = enc_pairs kvs \<and>
     (\<forall>(m, v) \<in> set kvs. length m + length v + 2 < 2 ^ 31 \<and> 0x3D \<notin> set m \<and> 0 \<notin> set m)"

definition body_role :: "byte list \<Rightarrow> int" where
  "body_role body = push_bit 8 (uint (body ! 0)) + uint (body ! 1)"

lemma same_out_arriving_writes: "same_out os os' \<Longrightarrow> writes_ok fd os \<Longrightarrow> writes_ok fd os'"
  by (simp add: same_out_def writes_ok_def)

lemma read_request_ok:
  assumes b: "begins i body kvs rs X (ipcFd r) os"
  obtains s p os' where "read_request mBuff r os = Inr (True, (begun i body r)\<lparr>inS := Some s, paramsPtr := Some p\<rparr>, os')"
    "params_ok p (entry (chars ''FCGI_ROLE'', role_name (body_role body)) # map entry kvs)"
    "\<exists>s1. SetReaderType FCGI_STDIN s = Inr s1 \<and> stype s1 = FCGI_STDIN \<and>
       (\<forall>r'. ipcFd r' = ipcFd r \<longrightarrow> requestId r' = i \<longrightarrow> isBeginProcessed r' \<longrightarrow> at_start s1 (r' :: FCGX_Request) os' \<and> inp s1 r' os' = X)"
    "sent (conns os' (ipcFd r)) = sent (conns os (ipcFd r)) @ answers FCGI_PARAMS i False rs"
    "writes_ok (ipcFd r) os'"
proof -
  note b = b [unfolded begins_def]
  let ?r0 = "r\<lparr>isBeginProcessed := False\<rparr>" and ?s0 = "NewReader mBuff 8192 0"
  have rs: "rs \<noteq> []" using b stream_ok_ne by blast
  have s0: "lp_ok ?s0" "\<not> isClosed ?s0" "\<not> eorStop ?s0" "contentLen ?s0 = 0" "paddingLen ?s0 = 0" "\<not> skip ?s0"
    "FCGI_errno ?s0 = 0" "inp ?s0 ?r0 os = wire_record FCGI_BEGIN_REQUEST i body [] @ wire_all rs @ X"
    using NewStream_buf_ok [of mBuff 8192 True 0] b
    by (simp_all add: NewReader_def lp_ok_def buf_ok_def inp_def buffered_def) (simp_all add: NewStream_def Let_def)
  obtain s1 os1 where 1: "FillBuffProc ?s0 ?r0 os = Inr (s1, begun i body ?r0, os1)" "lp_ok s1" "\<not> isClosed s1"
    "\<not> eorStop s1" "inp s1 ?r0 os1 = wire_all rs @ X" "FCGI_errno s1 = 0" "same_reader ?s0 s1" "same_out os os1"
    by (rule begin_fill [OF s0(1-7) _ _ _ _ s0(8) wire_all_ne [OF rs]]) (use b in auto)
  have bg: "begun i body ?r0 = begun i body r" by (simp add: begun_def)
  obtain str where str: "role_string (role (begun i body r)) = Some str"
    "StringCopy str = entry (chars ''FCGI_ROLE'', role_name (body_role body))"
    using role_string_entry [of "role (begun i body r)"] b by (auto simp: body_role_def)
  obtain p0 where p0: "NewParams 30 = Inr p0" "params_ok p0 []" using NewParams_ok [of 30] by auto
  obtain p1 where p1: "PutParam p0 (StringCopy str) = Inr p1" "params_ok p1 [StringCopy str]"
    using PutParam_ok [OF p0(2)] by auto
  let ?r2 = "(begun i body r)\<lparr>inS := Some s1, paramsPtr := Some p1\<rparr>"
  let ?s2 = "s1\<lparr>stype := 4, eorStop := False, skip := False, contentLen := 0,
    paddingLen := 0, stop := rdNext s1, wrNext := rdNext s1, isClosed := False\<rparr>"
  have s2: "SetReaderType FCGI_PARAMS s1 = Inr ?s2" using 1(2) by (simp add: SetReaderType_def lp_ok_def)
  have w1: "writes_ok (ipcFd r) os1" using same_out_arriving_writes [OF 1(8)] b by blast
  have at: "at_start ?s2 ?r2 os1"
    using 1(2,6) b w1 by (simp add: at_start_def rbuf_ok_def lp_ok_def)
  have i2: "inp ?s2 ?r2 os1 = wire_all rs @ X"
    using 1(5) by (simp add: inp_def buffered_def)
  have so: "stream_ok (stype ?s2) (requestId ?r2) False rs" using b by simp
  have dp: "dec_pairs (delivered (stype ?s2) (requestId ?r2) False rs) = Some (map entry kvs, 0)"
    using b by (simp, intro dec_enc_pairs) auto
  obtain p s3 r3 os3 where 3: "ReadParams FillBuffProc p1 ?s2 ?r2 os1 = Inr (0, p, s3, r3, os3)"
    "params_ok p (StringCopy str # map entry kvs)" "isClosed s3"
    "stream_ended ?r2 ?s2 [] (sent (conns os1 (ipcFd r)) @ answers 4 i False rs) X s3 r3 os3"
    using stream.ReadParams_avail [OF stream_enter [OF at i2 so] dp p1(2)] b by auto
  have r3: "r3 = ?r2" using 3(4) by (simp add: stream_ended_def)
  have se: "stream_ended ?r2 ?s2 [] (sent (conns os1 (ipcFd r)) @ answers 4 i False rs) X s3 ?r2 os3"
    using 3(4) by (simp add: r3)
  let ?s4 = "s3\<lparr>stype := 5, eorStop := False, skip := False, contentLen := 0,
    paddingLen := 0, stop := rdNext s3, wrNext := rdNext s3, isClosed := False\<rparr>"
  have run: "read_request mBuff r os = Inr (True, (begun i body r)\<lparr>inS := Some s3, paramsPtr := Some p\<rparr>, os3)"
    using 1(1) str(1) p0(1) p1(1) s2 3(1) by (simp add: read_request_def Let_def bg r3)
  have s4: "SetReaderType FCGI_STDIN s3 = Inr ?s4"
    using se by (simp add: SetReaderType_def stream_ended_def lp_ok_def)
  have fin: "at_start ?s4 r' os3 \<and> inp ?s4 r' os3 = X"
    if "ipcFd r' = ipcFd r" "requestId r' = i" "isBeginProcessed r'" for r' :: FCGX_Request
  proof
    show "at_start ?s4 r' os3"
      using se that b by (simp add: at_start_def stream_ended_def rbuf_ok_def lp_ok_def)
    have "inp s3 ?r2 os3 = X" using se by (simp add: stream_ended_def)
    then show "inp ?s4 r' os3 = X" using that(1) by (simp add: inp_def buffered_def)
  qed
  have "sent (conns os3 (ipcFd r)) = sent (conns os (ipcFd r)) @ answers FCGI_PARAMS i False rs" "writes_ok (ipcFd r) os3"
    using se 1(8) by (simp_all add: stream_ended_def same_out_def)
  then show ?thesis using that [OF run] 3(2) str(2) s4 fin by auto
qed

section \<open>What a request touches\<close>

lemma on_own_conn_fields:
  "on_own_conn (r\<lparr>inS := x\<rparr>) os r' os' = on_own_conn r os r' os'" "on_own_conn (r\<lparr>paramsPtr := p\<rparr>) os r' os' = on_own_conn r os r' os'"
  "on_own_conn r os (r'\<lparr>inS := x\<rparr>) os' = on_own_conn r os r' os'" "on_own_conn r os (r'\<lparr>paramsPtr := p\<rparr>) os' = on_own_conn r os r' os'"
  "on_own_conn (r\<lparr>isBeginProcessed := b\<rparr>) os r' os' = on_own_conn r os r' os'"
  by (simp_all add: on_own_conn_def)

lemma read_request_own_conn:
  assumes "read_request mBuff r os = Inr (ok, r', os')"
  shows "on_own_conn r os r' os'"
proof -
  let ?r0 = "r\<lparr>isBeginProcessed := False\<rparr>"
  obtain s1 r1 os1 where 1: "FillBuffProc (NewReader mBuff 8192 0) ?r0 os = Inr (s1, r1, os1)"
    using assms by (auto simp: read_request_def Let_def elim!: rbind_InrE)
  have c1: "on_own_conn r os r1 os1"
    using confined_own_conn [OF records.fill_confined [OF 1]] by (simp add: on_own_conn_fields)
  show ?thesis
  proof (cases "isBeginProcessed r1 \<and> role_string (role r1) \<noteq> None")
    case False
    then show ?thesis using assms 1 c1 by (auto simp: read_request_def Let_def on_own_conn_fields split: if_splits)
  next
    case True
    then obtain str p1 s2 rc p s3 r3 os3 where 3: "role_string (role r1) = Some str"
      "ReadParams FillBuffProc p1 s2 (r1\<lparr>inS := Some s1, paramsPtr := Some p1\<rparr>) os1 = Inr (rc, p, s3, r3, os3)"
      "r' = r3\<lparr>paramsPtr := Some p, inS := Some s3\<rparr>" "os' = os3"
      using assms 1 by (auto simp: read_request_def Let_def elim!: rbind_InrE)
    show ?thesis
      using confined_own_conn [OF records.ReadParams_confined [OF 3(2)]] c1 3(3,4) on_own_conn_trans
      by (simp add: on_own_conn_fields) blast
  qed
qed

section \<open>Accepting a request\<close>

lemma begins_cong: "conns os' = conns os \<Longrightarrow> shutdownNow os' = shutdownNow os \<Longrightarrow> begins i body kvs rs X fd os' = begins i body kvs rs X fd os"
  by (simp add: begins_def arriving_def writes_ok_def)

lemma Finish_fresh:
  "inS r = None \<Longrightarrow> ipcFd r = - 1 \<Longrightarrow> FCGX_Finish_r (Some r) l os =
     Inr (Some (r\<lparr>inS := None, outS := None, errS := None, paramsPtr := None\<rparr>), l, os)"
  by (cases r) (simp add: FCGX_Finish_r_def FCGX_Free_def FCGX_FreeStream_def FreeParams_def OS_IpcClose_def OS_Close_def
      Let_def split: option.splits)

text \<open>The state of a request that has been accepted, as the application gets it.\<close>

definition accepted ::
  "environment \<Rightarrow> int \<Rightarrow> byte list \<Rightarrow> (byte list \<times> byte list) list \<Rightarrow> byte list \<Rightarrow> FCGX_Request \<Rightarrow> os_state \<Rightarrow> bool" where
  "accepted e i body kvs X r os \<longleftrightarrow>
     requestId r = i \<and> role r = body_role body \<and> keepConnection r = uint (body ! 2) AND FCGI_KEEP_CONN \<and> nWriters r = 2 \<and>
     (\<exists>s. inS r = Some s \<and> at_start s r os \<and> stype s = FCGI_STDIN \<and> inp s r os = X) \<and>
     outS r = Some (NewWriter (out_block e) 8192 FCGI_STDOUT) \<and> errS r = Some (NewWriter (err_block e) 512 FCGI_STDERR) \<and>
     (\<forall>n. 0x3D \<notin> set n \<longrightarrow> 0 \<notin> set n \<longrightarrow> FCGX_GetParam (Some (n @ [0])) (envp r) =
        Inr (map_option (\<lambda>v. v @ [0]) (map_of ((chars ''FCGI_ROLE'', role_name (body_role body)) # kvs) n)))"

text \<open>The vector of its environment: the role, then the pairs in the order in which they came.\<close>

definition env_vector :: "byte list \<Rightarrow> (byte list \<times> byte list) list \<Rightarrow> FCGX_Request \<Rightarrow> bool" where
  "env_vector body kvs r \<longleftrightarrow>
     (\<exists>rest. envp r = Some (map (Some \<circ> entry) ((chars ''FCGI_ROLE'', role_name (body_role body)) # kvs) @ None # rest))"

lemma accept_open:
  assumes b: "begins i body kvs rs X (ipcFd r) os" and fd: "0 \<le> ipcFd r"
  shows "\<exists>r' os'. accept_requests e g (Suc fuel) r l os = Inr (0, r', l, os') \<and> accepted e i body kvs X r' os' \<and>
    ipcFd r' = ipcFd r \<and> appStatus r' = appStatus r \<and> writes_ok (ipcFd r) os' \<and>
    sent (conns os' (ipcFd r)) = sent (conns os (ipcFd r)) @ answers FCGI_PARAMS i False rs \<and> on_own_conn r os r' os' \<and>
    env_vector body kvs r'"
proof -
  obtain s p os1 s1 where 1: "read_request (in_block e fuel) r os = Inr (True, (begun i body r)\<lparr>inS := Some s, paramsPtr := Some p\<rparr>, os1)"
    "params_ok p (entry (chars ''FCGI_ROLE'', role_name (body_role body)) # map entry kvs)"
    "SetReaderType FCGI_STDIN s = Inr s1" "stype s1 = FCGI_STDIN"
    "\<forall>r'. ipcFd r' = ipcFd r \<longrightarrow> requestId r' = i \<longrightarrow> isBeginProcessed r' \<longrightarrow> at_start s1 (r' :: FCGX_Request) os1 \<and> inp s1 r' os1 = X"
    "sent (conns os1 (ipcFd r)) = sent (conns os (ipcFd r)) @ answers FCGI_PARAMS i False rs" "writes_ok (ipcFd r) os1"
    using read_request_ok [OF b, of "in_block e fuel"] by metis
  let ?r = "(begun i body r)\<lparr>inS := Some s1, paramsPtr := Some p, outS := Some (NewWriter (out_block e) 8192 FCGI_STDOUT),
    errS := Some (NewWriter (err_block e) 512 FCGI_STDERR), nWriters := 2, envp := Some (vec p)\<rparr>"
  have run: "accept_requests e g (Suc fuel) r l os = Inr (0, ?r, l, os1)"
    using fd 1(1,3) by (simp add: accept_connection_def ready_request_def)
  let ?all = "(chars ''FCGI_ROLE'', role_name (body_role body)) # kvs"
  have "params_ok p (map entry ?all)" using 1(2) by simp
  from params_ok_vec [OF this] obtain rest where vec: "vec p = map (Some \<circ> entry) ?all @ None # rest" by auto
  have par: "FCGX_GetParam (Some (n @ [0])) (Some (vec p)) = Inr (map_option (\<lambda>v. v @ [0]) (map_of ?all n))"
    if n: "0x3D \<notin> set n" "0 \<notin> set n" for n
  proof -
    have "\<forall>(m, v) \<in> set ?all. 0x3D \<notin> set m \<and> 0 \<notin> set m"
      using b role_name_ok by (auto simp: begins_def)
    then show ?thesis
      using get_param_entries [OF n, of ?all rest] n(2) vec by (simp add: FCGX_GetParam_def cstr_block)
  qed
  have "accepted e i body kvs X ?r os1"
    using 1(4,5) par unfolding accepted_def by (simp add: body_role_def)
  moreover have "on_own_conn r os ?r os1" "env_vector body kvs ?r"
    using read_request_own_conn [OF 1(1)] vec by (simp_all add: on_own_conn_def env_vector_def)
  ultimately show ?thesis using run 1(6,7) by (intro exI [of _ ?r] exI [of _ os1]) simp
qed

lemma Accept_r_ok:
  assumes "libInitialized g" "inS r = None" "ipcFd r = - 1"
    and "accepts l = pre @ ev # post" "\<not> shutdownPending l"
    and "\<forall>x \<in> set pre. calm x \<and>
      (\<forall>c. verdict_of (inet_addr e) (flags r AND 1 \<noteq> 0) (webServerAddressList g) x \<noteq> Result c)"
    and "calm ev" "verdict_of (inet_addr e) (flags r AND 1 \<noteq> 0) (webServerAddressList g) ev = Result fd" "0 \<le> fd"
    and "begins i body kvs rs X fd os"
  shows "\<exists>r' ds os'. FCGX_Accept_r e g r l os = Inr (0, r', l\<lparr>accepts := post, descriptors := ds,
        closed := closed l @ refused (map (verdict_of (inet_addr e) (flags r AND 1 \<noteq> 0) (webServerAddressList g)) pre)\<rparr>, os') \<and>
    ds fd = Live \<and> accepted e i body kvs X r' os' \<and> ipcFd r' = fd \<and> appStatus r' = appStatus r \<and>
    sent (conns os' fd) = sent (conns os fd) @ answers FCGI_PARAMS i False rs \<and> writes_ok fd os' \<and>
    on_own_conn (r\<lparr>ipcFd := fd\<rparr>) os r' os' \<and> env_vector body kvs r'"
proof -
  let ?r = "r\<lparr>inS := None, outS := None, errS := None, paramsPtr := None\<rparr>"
  let ?v = "verdict_of (inet_addr e) (flags r AND 1 \<noteq> 0) (webServerAddressList g)"
  obtain ds os1 where 1: "OS_Accept (inet_addr e) (listen_sock r) (flags r AND 1 \<noteq> 0) (webServerAddressList g) l os =
      Inr (fd, l\<lparr>accepts := post, descriptors := ds, closed := closed l @ refused (map ?v pre)\<rparr>, os1)"
    "conns os1 = conns os" "shutdownNow os1 = shutdownNow os" "ds fd = Live"
    using OS_Accept_passes [OF assms(4-8), of "listen_sock r" os] assms(9) by auto
  let ?l = "l\<lparr>accepts := post, descriptors := ds, closed := closed l @ refused (map ?v pre)\<rparr>"
  let ?n = "length (accepts l) + 1"
  have b: "begins i body kvs rs X (ipcFd (?r\<lparr>ipcFd := fd\<rparr>)) os1"
    using assms(10) begins_cong [OF 1(2,3)] by simp
  obtain r' os' where 2: "accept_requests e g (Suc ?n) (?r\<lparr>ipcFd := fd\<rparr>) ?l os1 = Inr (0, r', ?l, os')"
    "accepted e i body kvs X r' os'" "ipcFd r' = fd" "appStatus r' = appStatus r" "writes_ok fd os'"
    "sent (conns os' fd) = sent (conns os1 fd) @ answers FCGI_PARAMS i False rs" "on_own_conn (?r\<lparr>ipcFd := fd\<rparr>) os1 r' os'"
    "env_vector body kvs r'"
    using accept_open [OF b, of e g ?n ?l] assms(9) by auto
  have "accept_connection e g ?r l os = Inr (Inr (), ?r\<lparr>ipcFd := fd\<rparr>, ?l, os1)"
    using 1(1) assms(3,9) by (simp add: accept_connection_def Let_def)
  moreover have "accept_connection e g (?r\<lparr>ipcFd := fd\<rparr>) ?l os1 = Inr (Inr (), ?r\<lparr>ipcFd := fd\<rparr>, ?l, os1)"
    using assms(9) by (simp add: accept_connection_def)
  ultimately have "accept_requests e g (Suc ?n) ?r l os = Inr (0, r', ?l, os')"
    using 2(1) by simp
  then have "FCGX_Accept_r e g r l os = Inr (0, r', ?l, os')"
    using assms(1) Finish_fresh [OF assms(2,3)] by (simp add: FCGX_Accept_r_def del: accept_requests.simps)
  moreover have "on_own_conn (r\<lparr>ipcFd := fd\<rparr>) os r' os'"
    using 2(7) 1(2,3) by (simp add: on_own_conn_def)
  ultimately show ?thesis using 1 2 by (intro exI [of _ r'] exI [of _ ds] exI [of _ os']) simp
qed

text \<open>C1: accepting a request end to end. The request handed over has the id, role and keep-connection flag of
  its \<^verbatim>\<open>FCGI_BEGIN_REQUEST\<close> record, an environment in which every name has the value of its first pair
  (\<^verbatim>\<open>FCGI_ROLE\<close> that of the role), an input stream positioned at the start of \<^verbatim>\<open>FCGI_STDIN\<close>, and two fresh
  output streams; clients that are not approved were closed, and no byte was read past the
  parameters or written but the answers due. Only its exit status is the one left over from before.\<close>

theorem Accept_r_serves:
  assumes "libInitialized g" "inS r = None" "ipcFd r = - 1"
    and "accepts l = pre @ ev # post" "\<not> shutdownPending l"
    and "\<forall>x \<in> set pre. calm x \<and>
      (\<forall>c. verdict_of (inet_addr e) (flags r AND 1 \<noteq> 0) (webServerAddressList g) x \<noteq> Result c)"
    and "calm ev" "verdict_of (inet_addr e) (flags r AND 1 \<noteq> 0) (webServerAddressList g) ev = Result fd" "0 \<le> fd"
    and "begins i body kvs rs X fd os"
  shows "\<exists>r' l' os'. FCGX_Accept_r e g r l os = Inr (0, r', l', os') \<and> accepted e i body kvs X r' os' \<and> ipcFd r' = fd \<and>
    appStatus r' = appStatus r \<and> accepts l' = post \<and> descriptors l' fd = Live \<and>
    closed l' = closed l @ refused (map (verdict_of (inet_addr e) (flags r AND 1 \<noteq> 0) (webServerAddressList g)) pre) \<and>
    sent (conns os' fd) = sent (conns os fd) @ answers FCGI_PARAMS i False rs \<and> writes_ok fd os'"
proof -
  obtain r' ds os' where 1: "FCGX_Accept_r e g r l os = Inr (0, r', l\<lparr>accepts := post, descriptors := ds,
        closed := closed l @ refused (map (verdict_of (inet_addr e) (flags r AND 1 \<noteq> 0) (webServerAddressList g)) pre)\<rparr>, os')"
    "ds fd = Live" "accepted e i body kvs X r' os'" "ipcFd r' = fd" "appStatus r' = appStatus r"
    "sent (conns os' fd) = sent (conns os fd) @ answers FCGI_PARAMS i False rs" "writes_ok fd os'"
    using Accept_r_ok [OF assms] by blast
  then show ?thesis by simp
qed

section \<open>A request to evaluate with\<close>

definition sample_env :: environment where
  "sample_env = \<lparr> inet_addr = (\<lambda>_. 0), web_server_addrs = None, memory = True, peername = 107, in_block = (\<lambda>_. 0),
     out_block = 0, err_block = 0 \<rparr>"

definition sample_body :: "byte list" where
  "sample_body = [0, 1, 0, 0, 0, 0, 0, 0]"

definition sample_params :: "wrec list" where
  "sample_params = [(4, 1, [1, 1, 65, 66], []), (4, 1, [], [])]"

definition sample_input :: os_state where
  "sample_input = sample_os [Arrives (wire_record 1 1 sample_body []), Arrives (wire_all sample_params)] []"

lemma sample_begins: "begins 1 sample_body [([65], [66])] sample_params [] fd sample_input"
proof -
  have ne: "wire_all sample_params \<noteq> []" "wire_record 1 1 sample_body [] \<noteq> []"
    by (simp_all add: sample_params_def wire_record_def)
  have "arriving fd sample_input = wire_record 1 1 sample_body [] @ wire_all sample_params @ []"
    using ne by (simp add: arriving_def sample_input_def)
  moreover have "writes_ok fd sample_input" by (simp add: sample_input_def sample_writes_ok)
  ultimately show ?thesis
    by (simp add: begins_def) (simp add: rec_ok_def sample_body_def sample_params_def last_pad_def enc_len_def)
qed

lemma Accept_r_serves_witness:
  "\<exists>r' l' os'. FCGX_Accept_r sample_env (globals_start\<lparr>libInitialized := True\<rparr>) (snd (FCGX_InitRequest 0 0))
      (os_start (\<lambda>_. NotOpen) [AcceptFails 4 False, Accepted 5 OtherFamily False]) sample_input = Inr (0, r', l', os') \<and>
    requestId r' = 1 \<and> role r' = 1 \<and> ipcFd r' = 5 \<and> FCGX_GetParam (Some [65, 0]) (envp r') = Inr (Some [66, 0])"
proof -
  let ?g = "globals_start\<lparr>libInitialized := True\<rparr>" and ?r = "snd (FCGX_InitRequest 0 0)"
  let ?l = "os_start (\<lambda>_. NotOpen) [AcceptFails 4 False, Accepted 5 OtherFamily False]"
  have r: "inS ?r = None" "ipcFd ?r = - 1" "flags ?r = 0" by (simp_all add: FCGX_InitRequest_def zero_request_def)
  have l: "accepts ?l = [AcceptFails 4 False] @ Accepted 5 OtherFamily False # []" "\<not> shutdownPending ?l"
    by (simp_all add: os_start_def)
  have v: "\<forall>x \<in> set [AcceptFails 4 False]. calm x \<and> (\<forall>c. verdict_of (inet_addr sample_env) (flags ?r AND 1 \<noteq> 0)
      (webServerAddressList ?g) x \<noteq> Result c)"
    "verdict_of (inet_addr sample_env) (flags ?r AND 1 \<noteq> 0) (webServerAddressList ?g) (Accepted 5 OtherFamily False) = Result 5"
    by (simp_all add: verdict_of_def r)
  have nm: "0x3D \<notin> set [65 :: byte]" "0 \<notin> set [65 :: byte]" by simp_all
  have mo: "map_of ((chars ''FCGI_ROLE'', role_name (body_role sample_body)) # [([65], [66])]) [65] = Some [66]"
    by (simp add: chars_def)
  from Accept_r_serves [OF _ r(1,2) l v(1) _ v(2) _ sample_begins] obtain r' l' os' where
    "FCGX_Accept_r sample_env ?g ?r ?l sample_input = Inr (0, r', l', os')"
    "accepted sample_env 1 sample_body [([65], [66])] [] r' os'" "ipcFd r' = 5"
    by auto
  moreover from this(2) have "FCGX_GetParam (Some ([65] @ [0])) (envp r') = Inr (map_option (\<lambda>v. v @ [0]) (Some [66]))"
    unfolding accepted_def using nm mo by metis
  ultimately show ?thesis
    by (auto simp: accepted_def body_role_def sample_body_def)
qed

section \<open>Accepting in general\<close>

lemma accept_requests_cong:
  assumes "webServerAddressList g' = webServerAddressList g"
  shows "accept_requests e g' n r l os = accept_requests e g n r l os"
proof (induction n arbitrary: r l os)
  case (Suc n)
  have c: "accept_connection e g' r l os = accept_connection e g r l os" using assms by (simp add: accept_connection_def)
  show ?case unfolding accept_requests.simps c Suc ..
qed simp

text \<open>A failed attempt to accept leaves no stream behind.\<close>

lemma accept_requests_fails:
  assumes "accept_requests e g n r l os = Inr (rc, r', l', os')" "rc \<noteq> 0" "inS r = None" "outS r = None" "errS r = None"
  shows "inS r' = None \<and> outS r' = None \<and> errS r' = None"
  using assms
proof (induction n arbitrary: r l os)
  case (Suc n)
  obtain res r1 l1 os1 where 1: "accept_connection e g r l os = Inr (res, r1, l1, os1)"
    using Suc.prems(1) by (cases "accept_connection e g r l os") auto
  have n1: "inS r1 = None" "outS r1 = None" "errS r1 = None"
    using 1 Suc.prems(3-5) by (auto simp: accept_connection_def Let_def split: if_splits sum.splits elim!: rbind_InrE)
  show ?case
  proof (cases res)
    case (Inl c)
    then show ?thesis using Suc.prems(1) 1 n1 by simp
  next
    case (Inr u)
    obtain ok r2 os2 where 2: "read_request (in_block e n) r1 os1 = Inr (ok, r2, os2)"
      using Suc.prems(1) 1 Inr by (cases "read_request (in_block e n) r1 os1") auto
    have nok: "\<not> ok" using Suc.prems(1,2) 1 2 Inr by (auto elim!: rbind_InrE)
    obtain ro l2 os3 where 3: "FCGX_Free (Some r2) True l1 os2 = Inr (ro, l2, os3)"
      "accept_requests e g n (the ro) l2 os3 = Inr (rc, r', l', os')"
      using Suc.prems(1) 1 2 Inr nok by (auto elim!: rbind_InrE)
    have "inS (the ro) = None" "outS (the ro) = None" "errS (the ro) = None"
      using 3(1) by (auto simp: FCGX_Free_def FCGX_FreeStream_def Let_def elim!: rbind_InrE split: option.splits)
    then show ?thesis using Suc.IH [OF 3(2) Suc.prems(2)] by simp
  qed
qed simp

section \<open>Finishing a request\<close>

lemma OS_Close_plain:
  assumes "\<not> asyncIoInUse l" "fd \<noteq> - 1" "descriptors l fd = Live"
  shows "OS_Close fd l os =
    Inr (0, l\<lparr>descriptors := (descriptors l)(fd := NotOpen), closed := closed l @ [fd]\<rparr>, drain fd os)"
  using assms by (simp add: OS_Close_def sys_shutdown_def sys_close_def Let_def)

text \<open>What is left of a request that was finished or given up, whatever its streams held.\<close>

definition released :: "FCGX_Request \<Rightarrow> os_state \<Rightarrow> FCGX_Request \<Rightarrow> os_state \<Rightarrow> bool" where
  "released r os r' os' \<longleftrightarrow>
     inS r' = None \<and> outS r' = None \<and> errS r' = None \<and> paramsPtr r' = None \<and>
     listen_sock r' = listen_sock r \<and> flags r' = flags r \<and> shutdownNow os' = shutdownNow os \<and>
     (\<forall>fd. fd \<noteq> ipcFd r \<longrightarrow> conns os' fd = conns os fd)"

lemma OS_IpcClose_conns:
  assumes "OS_IpcClose fd l os = Inr (rc, l', os')"
  shows "shutdownNow os' = shutdownNow os \<and> (\<forall>x. x \<noteq> fd \<longrightarrow> conns os' x = conns os x)"
proof (cases "fd = - 1")
  case False
  then obtain l1 where "(let (res, os) = sys_shutdown fd l1 os; os = (if res = 0 then drain fd os else os)
      in Inr (sys_close fd l1 os) :: fault + _) = Inr (rc, l', os')"
    using assms unfolding OS_IpcClose_def OS_Close_def by (auto elim!: rbind_InrE)
  then show ?thesis
    using drain_frame [of fd os] by (auto simp: sys_shutdown_def sys_close_def Let_def split: if_splits descriptor.splits)
qed (use assms in \<open>simp add: OS_IpcClose_def OS_Close_def\<close>)

lemma Free_released:
  assumes "FCGX_Free (Some r) close l os = Inr (ro, l', os')"
  obtains r' where "ro = Some r'" "released r os r' os'"
proof -
  have p: "snd (FreeParams q) = None" for q by (simp add: FreeParams_def split: option.splits)
  have s: "FCGX_FreeStream q = None" for q by (simp add: FCGX_FreeStream_def split: option.splits)
  show ?thesis
    using assms that unfolding FCGX_Free_def released_def
    by (auto simp: p s Let_def split: if_splits elim!: rbind_InrE dest: OS_IpcClose_conns)
qed

lemma FClose_own_conn:
  "FCGX_FClose EmptyBuffProc so r os = Inr (rc, so', r', os') \<Longrightarrow> on_own_conn r os r' os'"
proof (cases so)
  case None
  then show "FCGX_FClose EmptyBuffProc so r os = Inr (rc, so', r', os') \<Longrightarrow> ?thesis"
    by (simp add: FCGX_FClose_def on_own_conn_def)
next
  case (Some s)
  then show "FCGX_FClose EmptyBuffProc so r os = Inr (rc, so', r', os') \<Longrightarrow> ?thesis"
    by (auto elim: framed_records.FClose_confined dest: confined_own_conn)
qed

lemma Finish_r_released:
  assumes "FCGX_Finish_r (Some r) l os = Inr (ro, l', os')"
  obtains r' where "ro = Some r'" "released r os r' os'"
proof -
  obtain close r1 os1 where 1: "FCGX_Free (Some r1) close l os1 = Inr (ro, l', os')" "on_own_conn r os r1 os1"
  proof (cases "inS r")
    case None
    then show ?thesis using assms that [of r _ os] by (simp add: FCGX_Finish_r_def Let_def on_own_conn_def)
  next
    case (Some s)
    then obtain rc st r1 os1 rc2 st2 r2 os2 and close :: int where
      "FCGX_FClose EmptyBuffProc (errS r) r os = Inr (rc, st, r1, os1)"
      "FCGX_FClose EmptyBuffProc (outS (r1\<lparr>errS := st\<rparr>)) (r1\<lparr>errS := st\<rparr>) os1 = Inr (rc2, st2, r2, os2)"
      "FCGX_Free (Some (r2\<lparr>outS := st2\<rparr>)) (close \<noteq> 0) l os2 = Inr (ro, l', os')"
      using assms by (auto simp: FCGX_Finish_r_def Let_def elim!: rbind_InrE)
    moreover from this(1,2) have "on_own_conn r os (r2\<lparr>outS := st2\<rparr>) os2"
      by (auto simp: on_own_conn_def dest!: FClose_own_conn)
    ultimately show ?thesis using that by blast
  qed
  obtain r' where "ro = Some r'" "released r1 os1 r' os'" by (rule Free_released [OF 1(1)])
  then show ?thesis using 1(2) that by (simp add: released_def on_own_conn_def)
qed

lemma Finish_r_ok:
  assumes s: "session r os0 out err os rs d1 d2" and ok: "writes_ok (ipcFd r) os" and n: "nWriters r = 2"
    and st: "inS r = Some s" "FCGX_GetError s = 0" "outS r = Some out" "errS r = Some err"
    and l: "\<not> asyncIoInUse l" "ipcFd r \<noteq> - 1" "descriptors l (ipcFd r) = Live"
  shows "\<exists>l' os'. FCGX_Finish_r (Some r) l os = Inr (Some (r\<lparr>nWriters := 0, inS := None, outS := None, errS := None,
      paramsPtr := None, ipcFd := if keepConnection r = 0 then - 1 else ipcFd r\<rparr>), l', os') \<and>
    sent (conns os' (ipcFd r)) = sent (conns os0 (ipcFd r)) @ wire_of (requestId r) (rs @ final_records out err r) \<and>
    (if keepConnection r = 0
     then l' = l\<lparr>descriptors := (descriptors l)(ipcFd r := NotOpen), closed := closed l @ [ipcFd r]\<rparr>
     else l' = l \<and> arriving (ipcFd r) os' = arriving (ipcFd r) os)"
proof -
  have o: "open_writer FCGI_STDOUT out" "open_writer FCGI_STDERR err"
    "sends (ipcFd r) (wire_of (requestId r) rs) os0 os"
    using s by (simp_all add: session_def)
  let ?r = "r\<lparr>nWriters := nWriters r - 1\<rparr>"
  obtain s1 os1 where 1:
    "FCGX_FClose EmptyBuffProc (Some err) r os = Inr (0, Some s1, ?r, os1)"
    "sends (ipcFd r) (wire_of (requestId r) (closing_records err r)) os os1"
    using FClose_open [OF o(2) ok] by metis
  let ?r1 = "?r\<lparr>errS := Some s1\<rparr>"
  have "writes_ok (ipcFd ?r1) os1" using sends_writes_ok [OF 1(2) ok] by simp
  from FClose_open [OF o(1) this] obtain s2 os2 where 2:
    "FCGX_FClose EmptyBuffProc (Some out) ?r1 os1 = Inr (0, Some s2, ?r1\<lparr>nWriters := nWriters ?r1 - 1\<rparr>, os2)"
    "sends (ipcFd ?r1) (wire_of (requestId ?r1) (closing_records out ?r1)) os1 os2"
    by metis
  have fr: "final_records out err r = closing_records err r @ closing_records out ?r1"
    using n by (simp add: final_records_def closing_records_def)
  have sn: "sends (ipcFd r) (wire_of (requestId r) (rs @ final_records out err r)) os0 os2"
    using sends_trans [OF o(3) sends_trans [OF 1(2) 2(2) [simplified]]] by (simp add: fr)
  have ar: "arriving (ipcFd r) os2 = arriving (ipcFd r) os"
    using sends_arriving [OF 1(2)] sends_arriving [OF 2(2)] by simp
  let ?c = "if keepConnection r = 0 then 1 else 0 :: int"
  let ?r2 = "r\<lparr>errS := Some s1, nWriters := 0, outS := Some s2\<rparr>"
  have r2: "?r2\<lparr>inS := None, outS := None, errS := None, paramsPtr := None\<rparr> =
      r\<lparr>nWriters := 0, inS := None, outS := None, errS := None, paramsPtr := None\<rparr>"
    "?r2\<lparr>inS := None, outS := None, errS := None, paramsPtr := None, ipcFd := fd\<rparr> =
      r\<lparr>nWriters := 0, inS := None, outS := None, errS := None, paramsPtr := None, ipcFd := fd\<rparr>" for fd
    by (cases r; simp)+
  have "FCGX_Finish_r (Some r) l os = FCGX_Free (Some ?r2) (?c \<noteq> 0) l os2"
    using 1(1) 2(1) st n by (simp add: FCGX_Finish_r_def)
  moreover have "OS_IpcClose (ipcFd r) l os2 =
      Inr (0, l\<lparr>descriptors := (descriptors l)(ipcFd r := NotOpen), closed := closed l @ [ipcFd r]\<rparr>, drain (ipcFd r) os2)"
    unfolding OS_IpcClose_def by (rule OS_Close_plain [OF l])
  moreover have "FreeParams p = (fst (FreeParams p), None)" for p
    by (simp add: FreeParams_def split: option.splits)
  then have "snd (FreeParams p) = None" for p by (metis snd_conv)
  ultimately show ?thesis
    using sends_sent [OF sn] ar drain_frame [of "ipcFd r" os2] r2
    by (simp add: FCGX_Free_def FCGX_FreeStream_def Let_def split: option.splits)
qed

text \<open>What an application does with an accepted request: calls on its output streams, then
  \<^verbatim>\<open>FCGX_Finish_r\<close>.\<close>

definition serve ::
  "app_op list \<Rightarrow> FCGX_Request \<Rightarrow> os_lib \<Rightarrow> os_state \<Rightarrow> fault + int list \<times> FCGX_Request option \<times> os_lib \<times> os_state" where
  "serve ops r l os =
     (case (outS r, errS r) of
        (Some out, Some err) \<Rightarrow>
          rbind (app_run ops out err r os) (\<lambda>(ns, out, err, r, os).
          rbind (FCGX_Finish_r (Some (r\<lparr>outS := Some out, errS := Some err\<rparr>)) l os) (\<lambda>(ro, l, os).
          Inr (ns, ro, l, os)))
      | _ \<Rightarrow> Inl NullDeref)"

lemma session_cong:
  "session (r\<lparr>outS := x, errS := y\<rparr>) os0 out err os rs d1 d2 = session r os0 out err os rs d1 d2"
  "final_records out err (r\<lparr>outS := x, errS := y\<rparr>) = final_records out err r"
  "peer_finds (r\<lparr>outS := x, errS := y\<rparr>) d1 d2 recs = peer_finds r d1 d2 recs"
  by (simp_all add: session_def final_records_def closing_records_def peer_finds_def)

text \<open>An operation that writes \<open>bs\<close> to any open stream of any request, and returns \<open>x\<close>.\<close>

definition emits_as ::
  "(strm \<Rightarrow> FCGX_Request \<Rightarrow> os_state \<Rightarrow> fault + 'a \<times> strm \<times> FCGX_Request \<times> os_state) \<Rightarrow> 'a \<Rightarrow> byte list \<Rightarrow> bool" where
  "emits_as f x bs \<longleftrightarrow>
     (\<forall>t s r os. open_writer t s \<longrightarrow> writes_ok (ipcFd r) os \<longrightarrow>
        (\<exists>s' os'. f s r os = Inr (x, s', r, os') \<and> emitted emits_framed bs s r os s' os'))"

lemma emits_as_step: "q \<noteq> writer_op.Close \<Longrightarrow> emits_as (writer_step q) (op_result q) (op_data q)"
  unfolding emits_as_def by (blast elim: writer_step_emits)

lemma writer_step_fun:
  "writer_step (PutChar c) = FCGX_PutChar EmptyBuffProc c" "writer_step (PutStr bs) = FCGX_PutStr EmptyBuffProc bs"
  "writer_step (PutS str) = FCGX_PutS EmptyBuffProc str" "writer_step Flush = FCGX_FFlush EmptyBuffProc"
  by (intro ext; simp)+

lemma emits_as_writer:
  "emits_as (FCGX_PutChar EmptyBuffProc c) (uint (word_of_int c :: byte)) [word_of_int c]"
  "emits_as (FCGX_PutStr EmptyBuffProc bs) (int (length bs)) bs"
  "emits_as (FCGX_PutS EmptyBuffProc str) (int (length (cstr str))) (cstr str)"
  "emits_as (FCGX_FFlush EmptyBuffProc) 0 []"
  using emits_as_step [of "PutChar c"] emits_as_step [of "PutStr bs"] emits_as_step [of "PutS str"] emits_as_step [of Flush]
  by (simp_all add: cstr_def writer_step_fun)

lemma emits_as_map:
  assumes "emits_as f x bs"
  shows "emits_as (\<lambda>s r os. rbind (f s r os) (\<lambda>(n, s, r, os). Inr (g n, s, r, os))) (g x) bs"
  unfolding emits_as_def
proof (intro allI impI)
  fix t s and r :: FCGX_Request and os
  assume "open_writer t s" "writes_ok (ipcFd r) os"
  then obtain s' os' where "f s r os = Inr (x, s', r, os')" "emitted emits_framed bs s r os s' os'"
    using assms unfolding emits_as_def by blast
  then show "\<exists>s' os'. rbind (f s r os) (\<lambda>(n, s, r, os). Inr (g n, s, r, os)) = Inr (g x, s', r, os') \<and>
      emitted emits_framed bs s r os s' os'"
    by simp
qed

text \<open>Doing nothing.\<close>

lemma emits_as_none: "emits_as (\<lambda>s r os. Inr (x, s, r, os)) x []"
  unfolding emits_as_def open_writer_def by (simp add: framed.emitted_refl)

text \<open>One such operation after another.\<close>

lemma emits_as_seq:
  assumes "emits_as f x bs" "emits_as (g x) y cs"
  shows "emits_as (\<lambda>s r os. rbind (f s r os) (\<lambda>(n, s, r, os). g n s r os)) y (bs @ cs)"
  unfolding emits_as_def
proof (intro allI impI)
  fix t s and r :: FCGX_Request and os
  assume s: "open_writer t s" "writes_ok (ipcFd r) os"
  then obtain s1 os1 where 1: "f s r os = Inr (x, s1, r, os1)" "emitted emits_framed bs s r os s1 os1"
    using assms(1) unfolding emits_as_def by blast
  obtain ds where "sends (ipcFd r) (wire_of (requestId r) (map (Pair t) ds)) os os1" by (rule emitted_records [OF s(1) 1(2)])
  then have "open_writer t s1" "writes_ok (ipcFd r) os1" using emitted_open [OF 1(2) s(1)] sends_writes_ok s(2) by blast+
  then obtain s2 os2 where "g x s1 r os1 = Inr (y, s2, r, os2)" "emitted emits_framed cs s1 r os1 s2 os2"
    using assms(2) unfolding emits_as_def by blast
  then show "\<exists>s' os'. rbind (f s r os) (\<lambda>(n, s, r, os). g n s r os) = Inr (y, s', r, os') \<and>
      emitted emits_framed (bs @ cs) s r os s' os'"
    using 1(1) framed.emitted_trans [OF 1(2)] by auto
qed

lemma put_stream_both [simp]:
  "put_stream ReqOut s (r\<lparr>outS := x, errS := y\<rparr>) = r\<lparr>outS := s, errS := y\<rparr>"
  "put_stream ReqErr s (r\<lparr>outS := x, errS := y\<rparr>) = r\<lparr>outS := x, errS := s\<rparr>"
  by (cases r; simp)+

text \<open>An operation that on a stream serving \<open>bs\<close> returns \<open>x\<close> and leaves \<open>bs'\<close>.\<close>

definition reads_to ::
  "(strm \<Rightarrow> FCGX_Request \<Rightarrow> os_state \<Rightarrow> fault + 'a \<times> strm \<times> FCGX_Request \<times> os_state) \<Rightarrow>
    byte list \<Rightarrow> 'a \<Rightarrow> byte list \<Rightarrow> bool" where
  "reads_to f bs x bs' \<longleftrightarrow>
     (\<forall>s r os s0 P T X. stream.avail r s0 P T X bs s r os \<longrightarrow>
        (\<exists>s' os'. f s r os = Inr (x, s', r, os') \<and> stream.avail r s0 P T X bs' s' r os'))"

lemma stream_inS:
  "stream_at t P T X con pad rs s (r\<lparr>inS := x\<rparr>) os = stream_at t P T X con pad rs s r os"
  "pending_data t con rs s (r\<lparr>inS := x\<rparr>) = pending_data t con rs s r" "coming s (r\<lparr>inS := x\<rparr>) os = coming s r os"
  "inp s (r\<lparr>inS := x\<rparr>) os = inp s r os"
  by (simp_all add: stream_at_def pending_data_def coming_def inp_def)

lemma avail_inS:
  "stream.avail r s0 P T X bs s r os \<Longrightarrow> stream.avail (r\<lparr>inS := x\<rparr>) s0 P T X bs s (r\<lparr>inS := x\<rparr>) os"
  by (simp add: stream.avail_def stream_src_def stream_ended_def stream_inS split: if_splits)

lemma reads_toI:
  assumes "\<And>s r os s0 P T X. stream.avail (r :: FCGX_Request) s0 P T X bs s r os \<Longrightarrow>
    \<exists>s' r' os'. f s r os = Inr (x, s', r', os') \<and> stream.avail r s0 P T X bs' s' r' os'"
  shows "reads_to f bs x bs'"
  unfolding reads_to_def using assms avail_same_request by blast

lemma reads_to_calls:
  "reads_to (FCGX_GetChar FillBuffProc) bs (if bs = [] then EOF else uint (hd bs)) (tl bs)"
  "0 \<le> n \<Longrightarrow> reads_to (FCGX_GetStr FillBuffProc n) bs (take (nat n) bs) (drop (nat n) bs)"
  "1 < n \<Longrightarrow> reads_to (FCGX_GetLine FillBuffProc n) bs (if bs = [] then None else Some (line_of (nat (n - 1)) bs @ [0]))
     (drop (length (line_of (nat (n - 1)) bs)) bs)"
  "n \<le> 1 \<Longrightarrow> reads_to (FCGX_GetLine FillBuffProc n) bs (Some [0]) bs"
proof -
  show "reads_to (FCGX_GetChar FillBuffProc) bs (if bs = [] then EOF else uint (hd bs)) (tl bs)"
    by (rule reads_toI) (use stream.GetChar_avail in blast)
  show "reads_to (FCGX_GetStr FillBuffProc n) bs (take (nat n) bs) (drop (nat n) bs)" if "0 \<le> n"
    by (rule reads_toI) (use stream.GetStr_avail that in blast)
  show "reads_to (FCGX_GetLine FillBuffProc n) bs (if bs = [] then None else Some (line_of (nat (n - 1)) bs @ [0]))
     (drop (length (line_of (nat (n - 1)) bs)) bs)" if "1 < n"
    by (rule reads_toI) (use stream.GetLine_avail that in blast)
  show "reads_to (FCGX_GetLine FillBuffProc n) bs (Some [0]) bs" if "n \<le> 1"
    using that by (simp add: reads_to_def FCGX_GetLine_def)
qed

lemma reads_to_map:
  "reads_to f bs x bs' \<Longrightarrow> reads_to (\<lambda>s r os. rbind (f s r os) (\<lambda>(n, s, r, os). Inr (g n, s, r, os))) bs (g x) bs'"
  unfolding reads_to_def by fastforce

lemma serve_ok:
  assumes acc: "accepted e i body kvs X r os" and ok: "writes_ok (ipcFd r) os" and i: "0 \<le> i" "i < 2 ^ 16"
    and l: "\<not> asyncIoInUse l" "0 \<le> ipcFd r" "descriptors l (ipcFd r) = Live" and ops: "\<forall>x \<in> set ops. \<not> app_closes x"
  shows "\<exists>r' l' os' wire recs. serve ops r l os = Inr (map app_result ops, Some r', l', os') \<and>
    sent (conns os' (ipcFd r)) = sent (conns os (ipcFd r)) @ wire \<and> parse_records wire = Some recs \<and>
    peer_finds r (concat (map out_data ops)) (concat (map err_data ops)) recs \<and>
    inS r' = None \<and> outS r' = None \<and> errS r' = None \<and> paramsPtr r' = None \<and> keepConnection r' = keepConnection r \<and>
    (if keepConnection r = 0
     then ipcFd r' = - 1 \<and> l' = l\<lparr>descriptors := (descriptors l)(ipcFd r := NotOpen), closed := closed l @ [ipcFd r]\<rparr>
     else ipcFd r' = ipcFd r \<and> l' = l \<and> arriving (ipcFd r) os' = arriving (ipcFd r) os)"
proof -
  obtain s where s: "inS r = Some s" "at_start s r os"
    and st: "outS r = Some (NewWriter (out_block e) 8192 6)" "errS r = Some (NewWriter (err_block e) 512 7)"
    "requestId r = i" "nWriters r = 2"
    using acc by (auto simp: accepted_def)
  obtain out err os1 rs where run:
    "app_run ops (NewWriter (out_block e) 8192 6) (NewWriter (err_block e) 512 7) r os = Inr (map app_result ops, out, err, r, os1)"
    "writes_ok (ipcFd r) os1"
    "session r os out err os1 rs (concat (map out_data ops)) (concat (map err_data ops))"
    using session_run [OF session_start [of r os "out_block e" 8192 "err_block e" 512] ops ok] by auto
  have ar: "arriving (ipcFd r) os1 = arriving (ipcFd r) os"
    using run(3) sends_arriving by (auto simp: session_def)
  let ?r = "r\<lparr>outS := Some out, errS := Some err\<rparr>"
  have e0: "FCGX_GetError s = 0" using s(2) by (simp add: at_start_def FCGX_GetError_def)
  have ses: "session ?r os out err os1 rs (concat (map out_data ops)) (concat (map err_data ops))"
    using run(3) by (simp add: session_cong)
  obtain l' os' where fin: "FCGX_Finish_r (Some ?r) l os1 = Inr (Some (?r\<lparr>nWriters := 0, inS := None, outS := None, errS := None,
      paramsPtr := None, ipcFd := if keepConnection r = 0 then - 1 else ipcFd r\<rparr>), l', os')"
    "sent (conns os' (ipcFd r)) = sent (conns os (ipcFd r)) @ wire_of i (rs @ final_records out err ?r)"
    "if keepConnection r = 0 then l' = l\<lparr>descriptors := (descriptors l)(ipcFd r := NotOpen), closed := closed l @ [ipcFd r]\<rparr>
     else l' = l \<and> arriving (ipcFd r) os' = arriving (ipcFd r) os1"
  proof -
    have ip: "ipcFd ?r = ipcFd r" "keepConnection ?r = keepConnection r" "requestId ?r = i" using st(3) by simp_all
    have f: "writes_ok (ipcFd ?r) os1" "nWriters ?r = 2" "inS ?r = Some s" "outS ?r = Some out" "errS ?r = Some err"
      "ipcFd ?r \<noteq> - 1" "descriptors l (ipcFd ?r) = Live"
      using run(2) st s(1) l by simp_all
    show ?thesis
      using Finish_r_ok [OF ses f(1-3) e0 f(4,5) l(1) f(6,7), unfolded ip] that by blast
  qed
  obtain recs where recs: "parse_records (wire_of i (rs @ final_records out err ?r)) = Some recs"
    "peer_finds r (concat (map out_data ops)) (concat (map err_data ops)) recs"
    using session_parsed [OF run(3)] i st(3) by (auto simp: session_cong)
  have "serve ops r l os = Inr (map app_result ops, Some (?r\<lparr>nWriters := 0, inS := None, outS := None, errS := None,
      paramsPtr := None, ipcFd := if keepConnection r = 0 then - 1 else ipcFd r\<rparr>), l', os')"
    using st run(1) fin(1) by (simp add: serve_def)
  then show ?thesis using fin(2,3) recs ar by (auto split: if_splits)
qed

text \<open>C2: serving a request end to end. After any calls on the output streams of an accepted request (but for closing them,
  which is left to the library) and
  \<^verbatim>\<open>FCGX_Finish_r\<close>, the peer finds in what was sent the output, the error output and the end of
  the request with its exit status; everything the request owned is released, and the connection is
  closed exactly when the web server did not ask to keep it.\<close>

theorem serve_and_finish:
  assumes acc: "accepted e i body kvs X r os" and ok: "writes_ok (ipcFd r) os" and i: "0 \<le> i" "i < 2 ^ 16"
    and l: "\<not> asyncIoInUse l" "0 \<le> ipcFd r" "descriptors l (ipcFd r) = Live" and ops: "\<forall>x \<in> set ops. \<not> app_closes x"
  shows "\<exists>r' l' os' wire recs. serve ops r l os = Inr (map app_result ops, Some r', l', os') \<and>
    sent (conns os' (ipcFd r)) = sent (conns os (ipcFd r)) @ wire \<and> parse_records wire = Some recs \<and>
    peer_finds r (concat (map out_data ops)) (concat (map err_data ops)) recs \<and>
    inS r' = None \<and> outS r' = None \<and> errS r' = None \<and> paramsPtr r' = None \<and>
    (if keepConnection r = 0
     then ipcFd r' = - 1 \<and> descriptors l' (ipcFd r) = NotOpen \<and> closed l' = closed l @ [ipcFd r]
     else ipcFd r' = ipcFd r \<and> l' = l \<and> arriving (ipcFd r) os' = arriving (ipcFd r) os)"
proof -
  obtain r' l' os' wire recs where 1: "serve ops r l os = Inr (map app_result ops, Some r', l', os')"
    "sent (conns os' (ipcFd r)) = sent (conns os (ipcFd r)) @ wire" "parse_records wire = Some recs"
    "peer_finds r (concat (map out_data ops)) (concat (map err_data ops)) recs"
    "inS r' = None" "outS r' = None" "errS r' = None" "paramsPtr r' = None"
    "if keepConnection r = 0
     then ipcFd r' = - 1 \<and> l' = l\<lparr>descriptors := (descriptors l)(ipcFd r := NotOpen), closed := closed l @ [ipcFd r]\<rparr>
     else ipcFd r' = ipcFd r \<and> l' = l \<and> arriving (ipcFd r) os' = arriving (ipcFd r) os"
    using serve_ok [OF assms] by blast
  show ?thesis
    by (rule exI [of _ r'], rule exI [of _ l'], rule exI [of _ os'], rule exI [of _ wire], rule exI [of _ recs])
      (use 1 in \<open>cases "keepConnection r = 0"; simp\<close>)
qed

lemma serve_and_finish_witness:
  "\<exists>r l os r' l' os' recs. serve [Out (PutStr [1, 2]), Err (PutChar 3)] (r :: FCGX_Request) l os = Inr ([2, 3], Some r', l', os') \<and>
    parse_records (sent (conns os' 5)) = Some recs \<and> concat (contents_of FCGI_STDOUT 1 recs) = [1, 2] \<and>
    inS r' = None \<and> closed l' = [5]"
proof -
  let ?r0 = "(snd (FCGX_InitRequest 0 0))\<lparr>ipcFd := 5\<rparr>"
  let ?l = "(os_start (\<lambda>_. Live) [])" and ?ops = "[Out (PutStr [1, 2]), Err (PutChar 3)]"
  obtain r os where acc: "accepted sample_env 1 sample_body [([65], [66])] [] r os" "ipcFd r = 5" "writes_ok 5 os"
    "sent (conns os 5) = sent (conns sample_input 5) @ answers 4 1 False sample_params"
    using accept_open [of 1 sample_body "[([65], [66])]" sample_params "[]" ?r0 sample_input sample_env globals_start 0 ?l]
      sample_begins [of 5] by auto
  have s0: "sent (conns os 5) = []" using acc(4) by (simp add: sample_input_def sample_params_def)
  have l: "\<not> asyncIoInUse ?l" "0 \<le> ipcFd r" "descriptors ?l (ipcFd r) = Live" "closed ?l = []"
    using acc(2) by (simp_all add: os_start_def)
  have k: "keepConnection r = 0" "requestId r = 1"
    using acc(1) by (simp_all add: accepted_def sample_body_def)
  obtain r' l' os' wire recs where 1: "serve ?ops r ?l os = Inr (map app_result ?ops, Some r', l', os')"
    "sent (conns os' (ipcFd r)) = sent (conns os (ipcFd r)) @ wire" "parse_records wire = Some recs"
    "peer_finds r (concat (map out_data ?ops)) (concat (map err_data ?ops)) recs" "inS r' = None"
    "closed l' = closed ?l @ [ipcFd r]"
    using serve_and_finish [OF acc(1) _ _ _ l(1-3), of ?ops] acc(2,3) k by auto
  moreover have "parse_records (sent (conns os' 5)) = Some recs" using 1(2,3) acc(2) s0 by simp
  moreover have "concat (contents_of FCGI_STDOUT 1 recs) = [1, 2]"
    using 1(4) k(2) by (auto simp: peer_finds_def)
  ultimately have "serve ?ops r ?l os = Inr ([2, 3], Some r', l', os') \<and> parse_records (sent (conns os' 5)) = Some recs \<and>
      concat (contents_of FCGI_STDOUT 1 recs) = [1, 2] \<and> inS r' = None \<and> closed l' = [5]"
    using l(4) acc(2) by simp
  then show ?thesis by blast
qed

section \<open>Filters\<close>

text \<open>C26: a filter whose peer is well-behaved (content in every record of another request, no management record but
  \<^verbatim>\<open>FCGI_GET_VALUES\<close>) and sends the record that ends \<^verbatim>\<open>FCGI_STDIN\<close> without padding. Once it has read
  \<^verbatim>\<open>FCGI_STDIN\<close> to its end, which gives it the contents of that stream's own records, \<^verbatim>\<open>FCGX_StartFilterData\<close> returns 0
  and any reads give it the contents of the \<^verbatim>\<open>FCGI_DATA\<close> records, byte for byte. Before that, or for another role,
  the call returns -1 and records \<^verbatim>\<open>FCGX_CALL_SEQ_ERROR\<close>. The code needs the restriction on padding, although its
  comment promises the start of \<^verbatim>\<open>FCGI_DATA\<close> without it: it would take the padding for a header.\<close>

theorem StartFilterData_sequence:
  assumes "at_start s r os" "stype s = FCGI_STDIN" "inp s r os = wire_all rs @ wire_all rs2 @ X"
    and "stream_ok FCGI_STDIN (requestId r) False rs" "last_pad rs = []"
    and "stream_ok FCGI_DATA (requestId r) False rs2" "well_behaved (requestId r) rs" "well_behaved (requestId r) rs2"
    and "int (length (own_content FCGI_STDIN (requestId r) rs)) < n"
  shows "(\<exists>s'. FCGX_StartFilterData s r = Inr (- 1, s') \<and> FCGX_GetError s' = FCGX_CALL_SEQ_ERROR) \<and>
    (\<exists>s1 os1. FCGX_GetStr FillBuffProc n s r os = Inr (own_content FCGI_STDIN (requestId r) rs, s1, r, os1) \<and>
      (if role r = FCGI_FILTER
       then \<exists>s2 s3 os3. FCGX_StartFilterData s1 r = Inr (0, s2) \<and> read_run FillBuffProc ops s2 r os1 =
         Inr (fst (list_run ops (own_content FCGI_DATA (requestId r) rs2)), s3, r, os3)
       else \<exists>s2. FCGX_StartFilterData s1 r = Inr (- 1, s2) \<and> FCGX_GetError s2 = FCGX_CALL_SEQ_ERROR))"
proof -
  have "requestId r \<noteq> 0" using assms(1) by (simp add: at_start_def)
  then have d: "delivered 5 (requestId r) False rs = own_content 5 (requestId r) rs"
    "delivered 8 (requestId r) False rs2 = own_content 8 (requestId r) rs2"
    using delivered_own_content [OF assms(7,4)] delivered_own_content [OF assms(8,6)] by simp_all
  have n: "0 \<le> n" using assms(9) by linarith
  have so: "stream_ok (stype s) (requestId r) False rs" using assms(2,4) by simp
  obtain s1 os1 where 1: "FCGX_GetStr FillBuffProc n s r os = Inr (own_content 5 (requestId r) rs, s1, r, os1)"
    "isClosed s1" "stream_ended r s [] (sent (conns os (ipcFd r)) @ answers 5 (requestId r) False rs)
       (wire_all rs2 @ X) s1 r os1"
    using stream_GetStr [OF assms(1,3) so n] assms(2,5,9) d(1) by auto
  obtain s2 where 2: "SetReaderType 8 s1 = Inr s2" "at_start s2 r os1" "inp s2 r os1 = wire_all rs2 @ X" "stype s2 = 8"
    using SetReaderType_at_start [OF 1(3) assms(1) _ 1(2), of 8] by auto
  have "isReader s1" "stype s1 = 5" "FCGI_errno s1 = 0"
    using 1(3) assms(1,2) by (simp_all add: stream_ended_def lp_ok_def same_reader_def at_start_def rbuf_ok_def)
  then have "FCGX_StartFilterData s1 r = (if role r = FCGI_FILTER then Inr (0, s2) else Inr (- 1, SetError (- 5) s1))"
    using 1(2) 2(1) by (simp add: FCGX_StartFilterData_def)
  moreover have "FCGX_StartFilterData s r = Inr (- 1, SetError (- 5) s)" "FCGI_errno s = 0"
    using assms(1) by (simp_all add: FCGX_StartFilterData_def at_start_def)
  ultimately show ?thesis
    using 1(1) read_run_list [OF 2(2,3), of ops] assms(6) \<open>FCGI_errno s1 = 0\<close>
    unfolding 2(4) d(2) by (auto simp: FCGX_GetError_def)
qed

lemma StartFilterData_sequence_witness:
  "\<exists>s1 os1 s2 s3 os3. FCGX_GetStr FillBuffProc 9 sample_reader (sample_request\<lparr>role := 3\<rparr>)
       (sample_os [Arrives (wire_all [(5, 1, [72], []), (5, 1, [], [])] @ wire_all [(8, 1, [33], []), (8, 1, [], [])])] []) =
      Inr ([72], s1, sample_request\<lparr>role := 3\<rparr>, os1) \<and>
    FCGX_StartFilterData s1 (sample_request\<lparr>role := 3\<rparr>) = Inr (0, s2) \<and>
    read_run FillBuffProc [GetChar, GetChar] s2 (sample_request\<lparr>role := 3\<rparr>) os1 =
      Inr ([Char 33, Char (- 1)], s3, sample_request\<lparr>role := 3\<rparr>, os3)"
proof -
  let ?rs = "[(5, 1, [72], []), (5, 1, [], [])] :: wrec list"
  let ?rs2 = "[(8, 1, [33], []), (8, 1, [], [])] :: wrec list"
  let ?os = "sample_os [Arrives (wire_all ?rs @ wire_all ?rs2)] []" and ?r = "sample_request\<lparr>role := 3\<rparr>"
  have ne: "wire_all ?rs \<noteq> []" by (simp add: wire_record_def)
  have at: "at_start sample_reader ?r ?os"
    unfolding sample_reader_def by (rule at_start_NewReader) (simp_all add: sample_writes_ok)
  have i: "inp sample_reader ?r ?os = wire_all ?rs @ wire_all ?rs2 @ []" and st: "stype sample_reader = 5"
    unfolding sample_reader_def NewReader_inp using ne by (simp_all add: arriving_def del: wire_all_simps)
  have "stream_ok 5 (requestId ?r) False ?rs" "last_pad ?rs = []" "stream_ok 8 (requestId ?r) False ?rs2"
    "well_behaved (requestId ?r) ?rs" "well_behaved (requestId ?r) ?rs2"
    by (simp_all add: rec_ok_def last_pad_def well_behaved_def)
  from StartFilterData_sequence [OF at st i this, of 9 "[GetChar, GetChar]"] show ?thesis
    by (simp add: own_content_def)
qed

end
