(* ===== verification/Sprintf.thy ===== *)
theory Sprintf
  imports Decimal
begin

text \<open>
  The C library's \<^verbatim>\<open>sprintf\<close> as far as \<^verbatim>\<open>FCGX_VFPrintF\<close> uses it: a format of one conversion
  specification and one argument. Integers, characters and strings are converted as the standard says;
  the digits of floating-point numbers and the text of a pointer are the library's, and a record holds
  what it does with them.
\<close>

section \<open>Arguments\<close>

text \<open>A variable argument, as promoted: \<open>VInt\<close> holds an \<^verbatim>\<open>int\<close> or \<^verbatim>\<open>unsigned\<close>, \<open>VLong\<close> a \<^verbatim>\<open>long\<close> or
  \<^verbatim>\<open>unsigned long\<close>, \<open>VString\<close> a \<^verbatim>\<open>char\<close> pointer; the last three point to cells that \<^verbatim>\<open>%n\<close> stores to.\<close>

datatype 'f va =
    VInt int | VLong int | VDouble 'f | VLongDouble 'f | VString "byte list option" | VPtr "64 word"
  | VIntPtr nat | VLongPtr nat | VShortPtr nat

text \<open>\<open>float_text op alt p x\<close> are the characters for the absolute value of \<open>x\<close>.\<close>

record 'f libc =
  frexp_exp :: "'f \<Rightarrow> int"
  to_double :: "'f \<Rightarrow> 'f"
  sign_bit :: "'f \<Rightarrow> bool"
  is_finite :: "'f \<Rightarrow> bool"
  float_text :: "byte \<Rightarrow> bool \<Rightarrow> nat \<Rightarrow> 'f \<Rightarrow> byte list"
  pointer_text :: "64 word \<Rightarrow> byte list"

section \<open>Conversions\<close>

definition is_flag :: "byte \<Rightarrow> bool" where
  "is_flag b \<longleftrightarrow> b = 0x2D \<or> b = 0x30 \<or> b = 0x2B \<or> b = 0x20 \<or> b = 0x23"

abbreviation (input) "ch_minus \<equiv> 0x2D :: byte"
abbreviation (input) "ch_zero \<equiv> 0x30 :: byte"
abbreviation (input) "ch_plus \<equiv> 0x2B :: byte"
abbreviation (input) "ch_space \<equiv> 0x20 :: byte"
abbreviation (input) "ch_hash \<equiv> 0x23 :: byte"
abbreviation (input) "ch_percent \<equiv> 0x25 :: byte"
abbreviation (input) "ch_star \<equiv> 0x2A :: byte"
abbreviation (input) "ch_dot \<equiv> 0x2E :: byte"
abbreviation (input) "ch_l \<equiv> 0x6C :: byte"
abbreviation (input) "ch_L \<equiv> 0x4C :: byte"
abbreviation (input) "ch_h \<equiv> 0x68 :: byte"
abbreviation (input) "ch_d \<equiv> 0x64 :: byte"
abbreviation (input) "ch_i \<equiv> 0x69 :: byte"
abbreviation (input) "ch_u \<equiv> 0x75 :: byte"
abbreviation (input) "ch_o \<equiv> 0x6F :: byte"
abbreviation (input) "ch_x \<equiv> 0x78 :: byte"
abbreviation (input) "ch_X \<equiv> 0x58 :: byte"
abbreviation (input) "ch_c \<equiv> 0x63 :: byte"
abbreviation (input) "ch_s \<equiv> 0x73 :: byte"
abbreviation (input) "ch_p \<equiv> 0x70 :: byte"
abbreviation (input) "ch_n \<equiv> 0x6E :: byte"
abbreviation (input) "ch_f \<equiv> 0x66 :: byte"
abbreviation (input) "ch_e \<equiv> 0x65 :: byte"
abbreviation (input) "ch_E \<equiv> 0x45 :: byte"
abbreviation (input) "ch_g \<equiv> 0x67 :: byte"
abbreviation (input) "ch_G \<equiv> 0x47 :: byte"

definition signed_op :: "byte \<Rightarrow> bool" where
  "signed_op op \<longleftrightarrow> op = ch_d \<or> op = ch_i"

definition unsigned_op :: "byte \<Rightarrow> bool" where
  "unsigned_op op \<longleftrightarrow> op = ch_u \<or> op = ch_o \<or> op = ch_x \<or> op = ch_X"

definition exponent_op :: "byte \<Rightarrow> bool" where
  "exponent_op op \<longleftrightarrow> op = ch_e \<or> op = ch_E \<or> op = ch_g \<or> op = ch_G"

definition size_char :: "byte \<Rightarrow> bool" where
  "size_char b \<longleftrightarrow> b = ch_l \<or> b = ch_L \<or> b = ch_h"

definition digit_char :: "bool \<Rightarrow> nat \<Rightarrow> byte" where
  "digit_char upper d = of_nat (if d < 10 then 48 + d else if upper then 55 + d else 87 + d)"

fun base_digits :: "nat \<Rightarrow> bool \<Rightarrow> nat \<Rightarrow> byte list" where
  "base_digits b upper n =
     (if n < b \<or> b \<le> 1 then [digit_char upper n] else base_digits b upper (n div b) @ [digit_char upper (n mod b)])"

declare base_digits.simps [simp del]

definition pad_field :: "byte list \<Rightarrow> bool \<Rightarrow> nat \<Rightarrow> byte list \<Rightarrow> byte list \<Rightarrow> byte list" where
  "pad_field fl zero w prefix body =
     (let n = w - (length prefix + length body) in
      if ch_minus \<in> set fl then prefix @ body @ replicate n ch_space
      else if zero \<and> ch_zero \<in> set fl then prefix @ replicate n ch_zero @ body
      else replicate n ch_space @ prefix @ body)"

definition sign_prefix :: "byte list \<Rightarrow> bool \<Rightarrow> byte list" where
  "sign_prefix fl neg =
     (if neg then [ch_minus] else if ch_plus \<in> set fl then [ch_plus]
      else if ch_space \<in> set fl then [ch_space] else [])"

text \<open>The digits of a number with at least the precision's many of them.\<close>

definition int_digits :: "nat \<Rightarrow> bool \<Rightarrow> nat option \<Rightarrow> nat \<Rightarrow> byte list" where
  "int_digits b upper p n =
     (let ds = (if p = Some 0 \<and> n = 0 then [] else base_digits b upper n)
      in replicate ((case p of None \<Rightarrow> 1 | Some k \<Rightarrow> k) - length ds) ch_zero @ ds)"

definition signed_text :: "byte list \<Rightarrow> nat \<Rightarrow> nat option \<Rightarrow> int \<Rightarrow> byte list" where
  "signed_text fl w p i = pad_field fl (p = None) w (sign_prefix fl (i < 0)) (int_digits 10 False p (nat \<bar>i\<bar>))"

definition unsigned_text :: "byte list \<Rightarrow> nat \<Rightarrow> nat option \<Rightarrow> byte \<Rightarrow> nat \<Rightarrow> byte list" where
  "unsigned_text fl w p op n =
     (let ds = int_digits (if op = ch_u then 10 else if op = ch_o then 8 else 16) (op = ch_X) p n;
          alt = (ch_hash \<in> set fl)
      in if alt \<and> op = ch_o \<and> (ds = [] \<or> hd ds \<noteq> ch_zero) then pad_field fl (p = None) w [] (ch_zero # ds)
         else if alt \<and> (op = ch_x \<or> op = ch_X) \<and> n \<noteq> 0 then pad_field fl (p = None) w [ch_zero, op] ds
         else pad_field fl (p = None) w [] ds)"

definition float_field :: "'f libc \<Rightarrow> byte list \<Rightarrow> nat \<Rightarrow> nat option \<Rightarrow> byte \<Rightarrow> 'f \<Rightarrow> byte list" where
  "float_field lib fl w p op x =
     pad_field fl (is_finite lib x) w (sign_prefix fl (sign_bit lib x))
       (float_text lib op (ch_hash \<in> set fl) (case p of None \<Rightarrow> 6 | Some k \<Rightarrow> k) x)"

text \<open>The text of one conversion. The size modifier is a space where there is none. A null string is not
  allowed.\<close>

definition conversion ::
  "'f libc \<Rightarrow> byte list \<Rightarrow> nat \<Rightarrow> nat option \<Rightarrow> byte \<Rightarrow> byte \<Rightarrow> 'f va \<Rightarrow> fault + byte list" where
  "conversion lib fl w p sz op v =
     (case v of
        VInt i \<Rightarrow>
          if signed_op op \<and> sz = ch_space then Inr (signed_text fl w p (wrap32 i))
          else if signed_op op \<and> sz = ch_h then Inr (signed_text fl w p (wrap16 i))
          else if unsigned_op op \<and> sz = ch_space then Inr (unsigned_text fl w p op (nat (i mod 2 ^ 32)))
          else if unsigned_op op \<and> sz = ch_h then Inr (unsigned_text fl w p op (nat (i mod 2 ^ 16)))
          else if op = ch_c \<and> sz = ch_space then Inr (pad_field fl False w [] [word_of_int i])
          else Inl WrongArgument
      | VLong i \<Rightarrow>
          if signed_op op \<and> sz = ch_l then Inr (signed_text fl w p (sint (word_of_int i :: 64 word)))
          else if unsigned_op op \<and> sz = ch_l then Inr (unsigned_text fl w p op (nat (i mod 2 ^ 64)))
          else Inl WrongArgument
      | VDouble x \<Rightarrow>
          if (op = ch_f \<or> exponent_op op) \<and> sz = ch_space then Inr (float_field lib fl w p op x)
          else Inl WrongArgument
      | VLongDouble x \<Rightarrow>
          if (op = ch_f \<or> exponent_op op) \<and> sz = ch_L then Inr (float_field lib fl w p op x)
          else Inl WrongArgument
      | VString None \<Rightarrow> if op = ch_s \<and> sz = ch_space then Inl NullDeref else Inl WrongArgument
      | VString (Some str) \<Rightarrow>
          if op = ch_s \<and> sz = ch_space
          then Inr (pad_field fl False w [] (case p of None \<Rightarrow> cstr str | Some k \<Rightarrow> take k (cstr str)))
          else Inl WrongArgument
      | VPtr a \<Rightarrow>
          if op = ch_p \<and> sz = ch_space then Inr (pad_field fl False w [] (pointer_text lib a))
          else Inl WrongArgument
      | _ \<Rightarrow> Inl WrongArgument)"

section \<open>Reading the specification\<close>

definition head :: "byte list \<Rightarrow> byte" where
  "head bs = (case bs of [] \<Rightarrow> 0 | b # _ \<Rightarrow> b)"

text \<open>The format after its \<^verbatim>\<open>%\<close>: flags, width, precision, size modifier, conversion.\<close>

definition sprintf :: "'f libc \<Rightarrow> byte list \<Rightarrow> 'f va \<Rightarrow> fault + byte list" where
  "sprintf lib fmt v =
     (let q = tl fmt;
          fl = takeWhile is_flag q; q = dropWhile is_flag q;
          w = nat (digits_value 0 q); q = dropWhile is_digit q;
          p = (if head q = ch_dot then Some (nat (digits_value 0 (tl q))) else None);
          q = (if head q = ch_dot then dropWhile is_digit (tl q) else q);
          sz = (if size_char (head q) then head q else ch_space);
          q = (if size_char (head q) then tl q else q)
      in conversion lib fl w p sz (head q) v)"

section \<open>Lengths\<close>

lemma length_pad_field: "length (pad_field fl z w prefix body) = max w (length prefix + length body)"
  by (auto simp: pad_field_def Let_def max_def)

lemma length_base_digits:
  assumes "1 < b" "n < b ^ k" "0 < k"
  shows "length (base_digits b u n) \<le> k"
  using assms(2,3)
proof (induction k arbitrary: n)
  case (Suc k)
  show ?case
  proof (cases "n < b")
    case False
    then have "k \<noteq> 0" using Suc.prems by (cases k) auto
    moreover have "n div b < b ^ k" using Suc.prems assms(1) by (simp add: less_mult_imp_div_less mult.commute)
    ultimately show ?thesis using Suc.IH [of "n div b"] False assms(1) by (subst base_digits.simps) simp
  qed (subst base_digits.simps, simp)
qed simp

lemma length_int_digits:
  assumes "8 \<le> b" "n < 2 ^ 64"
  shows "length (int_digits b u p n) \<le> max (case p of None \<Rightarrow> 1 | Some k \<Rightarrow> k) 22"
proof -
  have "(2 :: nat) ^ 64 \<le> 8 ^ 22" by simp
  also have "(8 :: nat) ^ 22 \<le> b ^ 22" using assms(1) by (rule power_mono) simp
  finally have "length (base_digits b u n) \<le> 22" using assms by (intro length_base_digits) linarith+
  then show ?thesis by (auto simp: int_digits_def Let_def max_def)
qed

lemma length_sign_prefix: "length (sign_prefix fl neg) \<le> 1"
  by (simp add: sign_prefix_def)

definition prec_of :: "nat option \<Rightarrow> nat" where
  "prec_of p = (case p of None \<Rightarrow> 1 | Some k \<Rightarrow> k)"

lemma length_signed_text:
  assumes "nat \<bar>i\<bar> < 2 ^ 64"
  shows "length (signed_text fl w p i) \<le> max w (max (prec_of p) 22 + 2)"
  using length_int_digits [of 10 "nat \<bar>i\<bar>" False p] length_sign_prefix [of fl "i < 0"] assms
  by (simp add: signed_text_def length_pad_field prec_of_def)

lemma length_unsigned_text:
  assumes "n < 2 ^ 64"
  shows "length (unsigned_text fl w p op n) \<le> max w (max (prec_of p) 22 + 2)"
  using assms length_int_digits [of "if op = ch_u then 10 else if op = ch_o then 8 else 16" n "op = ch_X" p]
  by (simp add: unsigned_text_def length_pad_field prec_of_def Let_def split del: if_split)
    (auto simp: length_pad_field)

text \<open>No field of an integer is longer than its width, or its precision or 22 digits and a prefix of
  two characters.\<close>

lemma length_int_conversion:
  assumes "conversion lib fl w p sz op v = Inr t" "signed_op op \<or> unsigned_op op"
  shows "length t \<le> max w (max (prec_of p) 22 + 2)"
proof -
  have op: "op \<noteq> ch_c" "op \<noteq> ch_s" "op \<noteq> ch_p" "op \<noteq> ch_f" "\<not> exponent_op op"
    using assms(2) by (auto simp: signed_op_def unsigned_op_def exponent_op_def)
  have 32: "nat \<bar>wrap32 i\<bar> < 2 ^ 64" "nat \<bar>wrap16 i\<bar> < 2 ^ 64" "nat (i mod 2 ^ 32) < 2 ^ 64"
    "nat (i mod 2 ^ 16) < 2 ^ 64" "nat (i mod 2 ^ 64) < 2 ^ 64" for i
    using wrap32_range [of i] wrap16_range [of i] pos_mod_bound [of "2 ^ 32" i] pos_mod_bound [of "2 ^ 16" i]
      pos_mod_bound [of "2 ^ 64" i]
    by (simp_all add: nat_less_iff abs_less_iff)
  have 64: "nat \<bar>sint (word_of_int i :: 64 word)\<bar> < 2 ^ 64" for i
    using sint_lt [of "word_of_int i :: 64 word"] sint_ge [of "word_of_int i :: 64 word"] by (simp add: nat_less_iff abs_if)
  show ?thesis
    using assms(1) op length_signed_text [OF 32(1)] length_signed_text [OF 32(2)] length_signed_text [OF 64]
      length_unsigned_text [OF 32(3)] length_unsigned_text [OF 32(4)] length_unsigned_text [OF 32(5)]
    by (auto simp: conversion_def split: va.splits option.splits if_splits intro: order_trans)
qed

end
