(* ===== verification/Printf.thy ===== *)
theory Printf
  imports WriterSession Sprintf
begin

text \<open>
  \<^verbatim>\<open>FCGX_VFPrintF\<close> of \<^verbatim>\<open>libfcgi/fcgiapp.c\<close>: formatted output to a stream. The text between conversion
  specifications is passed on; a specification is first taken optimistically to be a conversion without
  flags, width or precision (fast path), and otherwise scanned into \<^verbatim>\<open>fmtBuff\<close>, a buffer for its
  output is chosen from a bound on its length, and \<^verbatim>\<open>sprintf\<close> does the conversion (slow path).

  The format is the string up to its NUL, and the pointers into it are the rests of the string they
  point to. \<open>Inr None\<close> is \<^verbatim>\<open>goto ErrorReturn\<close>. Strings and outputs are shorter than \<open>2 ^ 31\<close> bytes, so
  that the counts kept in \<^verbatim>\<open>int\<close>s do not overflow.
\<close>

abbreviation (input) "PRINTF_BUFFLEN \<equiv> 100 :: int"
abbreviation (input) "FMT_BUFFLEN \<equiv> 25 :: nat"

section \<open>Arguments\<close>

definition va_int :: "'f va list \<Rightarrow> fault + int \<times> 'f va list" where
  "va_int arg = (case arg of VInt i # rest \<Rightarrow> Inr (wrap32 i, rest) | _ \<Rightarrow> Inl WrongArgument)"

definition va_unsigned :: "'f va list \<Rightarrow> fault + int \<times> 'f va list" where
  "va_unsigned arg = (case arg of VInt i # rest \<Rightarrow> Inr (i mod 2 ^ 32, rest) | _ \<Rightarrow> Inl WrongArgument)"

definition va_long :: "'f va list \<Rightarrow> fault + int \<times> 'f va list" where
  "va_long arg = (case arg of VLong i # rest \<Rightarrow> Inr (i, rest) | _ \<Rightarrow> Inl WrongArgument)"

definition va_double :: "'f va list \<Rightarrow> fault + 'f \<times> 'f va list" where
  "va_double arg = (case arg of VDouble x # rest \<Rightarrow> Inr (x, rest) | _ \<Rightarrow> Inl WrongArgument)"

definition va_long_double :: "'f va list \<Rightarrow> fault + 'f \<times> 'f va list" where
  "va_long_double arg = (case arg of VLongDouble x # rest \<Rightarrow> Inr (x, rest) | _ \<Rightarrow> Inl WrongArgument)"

definition va_string :: "'f va list \<Rightarrow> fault + byte list option \<times> 'f va list" where
  "va_string arg = (case arg of VString s # rest \<Rightarrow> Inr (s, rest) | _ \<Rightarrow> Inl WrongArgument)"

definition va_ptr :: "'f va list \<Rightarrow> fault + 64 word \<times> 'f va list" where
  "va_ptr arg = (case arg of VPtr a # rest \<Rightarrow> Inr (a, rest) | _ \<Rightarrow> Inl WrongArgument)"

text \<open>Steps that may give up as well as fault.\<close>

definition obind :: "fault + 'a option \<Rightarrow> ('a \<Rightarrow> fault + 'b option) \<Rightarrow> fault + 'b option" where
  "obind m f = rbind m (\<lambda>x. case x of None \<Rightarrow> Inr None | Some y \<Rightarrow> f y)"

lemma obind_simps [simp]:
  "obind (Inl e) f = Inl e" "obind (Inr None) f = Inr None" "obind (Inr (Some x)) f = f x"
  by (simp_all add: obind_def)

section \<open>Scanning a specification\<close>

text \<open>\<^verbatim>\<open>CopyAndAdvance\<close> and \<^verbatim>\<open>sprintf\<close> into \<^verbatim>\<open>fmtBuff\<close>: the bytes stored so far, with those added.\<close>

definition CopyAndAdvance :: "byte list \<Rightarrow> byte list \<Rightarrow> nat \<Rightarrow> fault + byte list \<times> byte list" where
  "CopyAndAdvance fmtBuff p n =
     (if length fmtBuff + n \<le> FMT_BUFFLEN
      then Inr (fmtBuff @ (if p = [] \<and> n = 1 then [0] else take n p), drop n p) else Inl BufferOverrun)"

definition sprintf_number :: "byte list \<Rightarrow> int \<Rightarrow> fault + byte list" where
  "sprintf_number fmtBuff n =
     (if length fmtBuff + length (dec_int n) + 1 \<le> FMT_BUFFLEN then Inr (fmtBuff @ dec_int n) else Inl BufferOverrun)"

definition scan_flags :: "byte list \<Rightarrow> byte list \<Rightarrow> fault + (byte list \<times> byte list) option" where
  "scan_flags fmtBuff p =
     (let n = length (takeWhile is_flag p) in
      if n > 5 then Inr None else rbind (CopyAndAdvance fmtBuff p n) (\<lambda>res. Inr (Some res)))"

text \<open>Width and precision, with the specification so far, the rest of the format and the arguments left.\<close>

definition scan_width ::
  "byte list \<Rightarrow> byte list \<Rightarrow> 'f va list \<Rightarrow> fault + (int \<times> byte list \<times> byte list \<times> 'f va list) option" where
  "scan_width fmtBuff p arg =
     (let n = length (takeWhile is_digit p) in
      if n = 0 then
        if head p = ch_star then
          rbind (va_int arg) (\<lambda>(minWidth, arg).
          if wrap32 \<bar>minWidth\<bar> > 999999 then Inr None
          else rbind (sprintf_number fmtBuff minWidth) (\<lambda>fmtBuff. Inr (Some (minWidth, fmtBuff, tl p, arg))))
        else Inr (Some (0, fmtBuff, p, arg))
      else if n \<le> 6 then
        rbind (CopyAndAdvance fmtBuff p n) (\<lambda>(fmtBuff, q). Inr (Some (digits_value 0 p, fmtBuff, q, arg)))
      else Inr None)"

definition scan_precision ::
  "byte list \<Rightarrow> byte list \<Rightarrow> 'f va list \<Rightarrow> fault + (int \<times> byte list \<times> byte list \<times> 'f va list) option" where
  "scan_precision fmtBuff p arg =
     (if head p = ch_dot then
        rbind (CopyAndAdvance fmtBuff p 1) (\<lambda>(fmtBuff, p).
        let n = length (takeWhile is_digit p) in
        if n = 0 then
          if head p = ch_star then
            rbind (va_int arg) (\<lambda>(precision, arg).
            let precision = (if precision < 0 then 0 else precision) in
            if precision > 999999 then Inr None
            else rbind (sprintf_number fmtBuff precision) (\<lambda>fmtBuff. Inr (Some (precision, fmtBuff, tl p, arg))))
          else Inr (Some (0, fmtBuff, p, arg))
        else if n \<le> 6 then
          rbind (CopyAndAdvance fmtBuff p n) (\<lambda>(fmtBuff, q). Inr (Some (digits_value 0 p, fmtBuff, q, arg)))
        else Inr None)
      else Inr (Some (- 1, fmtBuff, p, arg)))"

text \<open>The whole specification that \<open>f\<close> starts with: width, precision, size modifier, conversion, \<^verbatim>\<open>fmtBuff\<close>,
  its length and the arguments left.\<close>

definition scan_spec ::
  "byte list \<Rightarrow> 'f va list \<Rightarrow> fault + (int \<times> int \<times> byte \<times> byte \<times> byte list \<times> nat \<times> 'f va list) option" where
  "scan_spec f arg =
     obind (scan_flags [ch_percent] (tl f)) (\<lambda>(fmtBuff, p).
     obind (scan_width fmtBuff p arg) (\<lambda>(minWidth, fmtBuff, p, arg).
     obind (scan_precision fmtBuff p arg) (\<lambda>(precision, fmtBuff, p, arg).
     rbind (if size_char (head p)
            then rbind (CopyAndAdvance fmtBuff p 1) (\<lambda>(fmtBuff, q). Inr (head p, fmtBuff, q))
            else Inr (ch_space, fmtBuff, p)) (\<lambda>(sizeModifier, fmtBuff, p).
     let opc = head p in
     rbind (CopyAndAdvance fmtBuff p 1) (\<lambda>(fmtBuff, p).
     rbind (c_assert (length fmtBuff < FMT_BUFFLEN)) (\<lambda>_.
     Inr (Some (minWidth, precision, sizeModifier, opc, fmtBuff, length f - length p, arg))))))))"

section \<open>Choosing a buffer\<close>

text \<open>The bound on the output of a conversion, with the argument read for it if it had to be examined.\<close>

definition bound_buffer ::
  "'f libc \<Rightarrow> byte \<Rightarrow> byte \<Rightarrow> int \<Rightarrow> 'f va list \<Rightarrow> fault + (int \<times> 'f va option \<times> 'f va list) option" where
  "bound_buffer lib opc sizeModifier precision arg =
     (if signed_op opc \<or> unsigned_op opc \<or> opc = ch_c \<or> opc = ch_p then Inr (Some (max precision 46, None, arg))
      else if opc = ch_s then
        rbind (va_string arg) (\<lambda>(charPtrArg, arg).
        let str = (case charPtrArg of None \<Rightarrow> chars ''(null)'' | Some b \<Rightarrow> b);
            len = int (length (cstr str));
            buffReqd = (if precision = - 1 then len else if precision \<le> len then precision else len)
        in Inr (Some (buffReqd, Some (VString (Some str)), arg)))
      else if opc = ch_f then
        obind
          (if sizeModifier = ch_space
           then rbind (va_double arg) (\<lambda>(x, arg). Inr (Some (frexp_exp lib x, VDouble x, arg)))
           else if sizeModifier = ch_L
           then rbind (va_long_double arg) (\<lambda>(x, arg). Inr (Some (frexp_exp lib (to_double lib x), VLongDouble x, arg)))
           else Inr None)
          (\<lambda>(ex, v, arg).
             let precision = (if precision = - 1 then 6 else precision);
                 buffReqd = precision + 3 + (if ex > 0 then ex div 3 else 0)
             in Inr (Some (buffReqd, Some v, arg)))
      else if exponent_op opc then
        let precision = (if precision = - 1 then 6 else precision) in Inr (Some (precision + 8, None, arg))
      else Inr None)"

text \<open>The buffer: \<^verbatim>\<open>buff\<close>, or the one allocated, whose length \<open>aux\<close> remembers.\<close>

definition choose_buffer :: "int \<Rightarrow> int option \<Rightarrow> fault + int \<times> int option" where
  "choose_buffer buffReqd aux =
     (if buffReqd \<le> PRINTF_BUFFLEN then Inr (PRINTF_BUFFLEN, aux)
      else if (case aux of None \<Rightarrow> True | Some auxBuffLen \<Rightarrow> buffReqd > auxBuffLen)
      then rbind (Malloc buffReqd) (\<lambda>_. Inr (buffReqd, Some buffReqd))
      else Inr (the aux, aux))"

section \<open>Performing a conversion\<close>

text \<open>\<open>Performed text buffLen arg stores\<close>: the characters up to the first NUL, the length of the buffer they
  are in, the arguments left, and what \<^verbatim>\<open>%n\<close> stored.\<close>

datatype 'f effect = NotPerformed | Performed "byte list" int "'f va list" "(nat \<times> int) list"

definition sprintf_buff ::
  "'f libc \<Rightarrow> int \<Rightarrow> byte list \<Rightarrow> 'f va \<Rightarrow> 'f va list \<Rightarrow> fault + 'f effect option" where
  "sprintf_buff lib buffLen fmtBuff v arg =
     rbind (sprintf lib fmtBuff v) (\<lambda>t.
     if int (length t) + 1 \<le> buffLen then Inr (Some (Performed (cstr t) buffLen arg [])) else Inl BufferOverrun)"

definition perform ::
  "'f libc \<Rightarrow> bool \<Rightarrow> byte \<Rightarrow> byte \<Rightarrow> byte list \<Rightarrow> int \<Rightarrow> 'f va option \<Rightarrow> 'f va list \<Rightarrow> int \<Rightarrow> fault + 'f effect option"
where
  "perform lib fastPath opc sizeModifier fmtBuff buffLen held arg streamCount =
     (if signed_op opc then
        if sizeModifier = ch_space then rbind (va_int arg) (\<lambda>(i, arg). sprintf_buff lib buffLen fmtBuff (VInt i) arg)
        else if sizeModifier = ch_l then rbind (va_long arg) (\<lambda>(i, arg). sprintf_buff lib buffLen fmtBuff (VLong i) arg)
        else if sizeModifier = ch_h
        then rbind (va_int arg) (\<lambda>(i, arg). sprintf_buff lib buffLen fmtBuff (VInt (wrap16 i)) arg)
        else Inr None
      else if unsigned_op opc then
        if sizeModifier = ch_space
        then rbind (va_unsigned arg) (\<lambda>(i, arg). sprintf_buff lib buffLen fmtBuff (VInt i) arg)
        else if sizeModifier = ch_l then rbind (va_long arg) (\<lambda>(i, arg). sprintf_buff lib buffLen fmtBuff (VLong i) arg)
        else if sizeModifier = ch_h
        then rbind (va_int arg) (\<lambda>(i, arg). sprintf_buff lib buffLen fmtBuff (VInt (i mod 2 ^ 16)) arg)
        else Inr None
      else if opc = ch_c then
        if sizeModifier = ch_space then rbind (va_int arg) (\<lambda>(i, arg). sprintf_buff lib buffLen fmtBuff (VInt i) arg)
        else Inr None
      else if opc = ch_s then
        if sizeModifier = ch_space then
          if fastPath then
            rbind (va_string arg) (\<lambda>(s, arg).
            case s of None \<Rightarrow> Inl NullDeref
            | Some b \<Rightarrow> Inr (Some (Performed (cstr b) (int (length (cstr b)) + 1) arg [])))
          else sprintf_buff lib buffLen fmtBuff (the held) arg
        else Inr None
      else if opc = ch_p then
        if sizeModifier \<noteq> ch_space then Inr None
        else rbind (va_ptr arg) (\<lambda>(a, arg). sprintf_buff lib buffLen fmtBuff (VPtr a) arg)
      else if opc = ch_n then
        if sizeModifier = ch_space then
          (case arg of VIntPtr a # arg \<Rightarrow> Inr (Some (Performed [] buffLen arg [(a, streamCount)])) | _ \<Rightarrow> Inl WrongArgument)
        else if sizeModifier = ch_l then
          (case arg of VLongPtr a # arg \<Rightarrow> Inr (Some (Performed [] buffLen arg [(a, streamCount)])) | _ \<Rightarrow> Inl WrongArgument)
        else if sizeModifier = ch_h then
          (case arg of VShortPtr a # arg \<Rightarrow> Inr (Some (Performed [] buffLen arg [(a, wrap16 streamCount)]))
           | _ \<Rightarrow> Inl WrongArgument)
        else Inr None
      else if opc = ch_f then
        if fastPath then Inr (Some NotPerformed)
        else if sizeModifier = ch_space \<or> sizeModifier = ch_L then sprintf_buff lib buffLen fmtBuff (the held) arg
        else Inr None
      else if exponent_op opc then
        if sizeModifier = ch_space
        then rbind (va_double arg) (\<lambda>(x, arg). sprintf_buff lib buffLen fmtBuff (VDouble x) arg)
        else if sizeModifier = ch_L
        then rbind (va_long_double arg) (\<lambda>(x, arg). sprintf_buff lib buffLen fmtBuff (VLongDouble x) arg)
        else Inr None
      else if opc = ch_percent then
        if sizeModifier \<noteq> ch_space then Inr None else Inr (Some (Performed [ch_percent] buffLen arg []))
      else if opc = 0 then Inr None
      else Inr (Some NotPerformed))"

section \<open>One specification\<close>

text \<open>The two passes over a specification that \<open>f\<close> starts with: characters, length of their buffer, length
  of the specification, arguments left, stores, allocated buffer.\<close>

definition fast_spec :: "byte list \<Rightarrow> byte \<times> byte \<times> byte list \<times> nat" where
  "fast_spec f =
     (let opc = head (tl f) in
      if size_char opc then (opc, head (tl (tl f)), [ch_percent, opc, head (tl (tl f))], 3)
      else (ch_space, opc, [ch_percent, opc], 2))"

definition slow_path ::
  "'f libc \<Rightarrow> byte list \<Rightarrow> 'f va list \<Rightarrow> int \<Rightarrow> int option \<Rightarrow>
    fault + (byte list \<times> int \<times> nat \<times> 'f va list \<times> (nat \<times> int) list \<times> int option) option" where
  "slow_path lib f arg streamCount aux =
     obind (scan_spec f arg) (\<lambda>(minWidth, precision, sizeModifier, opc, fmtBuff, specifierLength, arg).
     obind (bound_buffer lib opc sizeModifier precision arg) (\<lambda>(buffReqd, held, arg).
     rbind (choose_buffer (max (buffReqd + 10) minWidth) aux) (\<lambda>(buffLen, aux).
     obind (perform lib False opc sizeModifier fmtBuff buffLen held arg streamCount) (\<lambda>res.
     case res of
       NotPerformed \<Rightarrow> Inr None
     | Performed t buffLen arg stores \<Rightarrow> Inr (Some (t, buffLen, specifierLength, arg, stores, aux))))))"

definition convert ::
  "'f libc \<Rightarrow> byte list \<Rightarrow> 'f va list \<Rightarrow> int \<Rightarrow> int option \<Rightarrow>
    fault + (byte list \<times> int \<times> nat \<times> 'f va list \<times> (nat \<times> int) list \<times> int option) option" where
  "convert lib f arg streamCount aux =
     (let (sizeModifier, opc, fmtBuff, specifierLength) = fast_spec f in
      obind (perform lib True opc sizeModifier fmtBuff PRINTF_BUFFLEN None arg streamCount) (\<lambda>res.
      case res of
        NotPerformed \<Rightarrow> slow_path lib f arg streamCount aux
      | Performed t buffLen arg stores \<Rightarrow> Inr (Some (t, buffLen, specifierLength, arg, stores, aux))))"

section \<open>The loop over the format\<close>

fun vfprintf_loop ::
  "(bool \<Rightarrow> 'z proc) \<Rightarrow> 'f libc \<Rightarrow> nat \<Rightarrow> byte list \<Rightarrow> 'f va list \<Rightarrow> int \<Rightarrow> int option \<Rightarrow> (nat \<times> int) list \<Rightarrow>
    strm \<Rightarrow> 'z reqdata_scheme \<Rightarrow> os_state \<Rightarrow> fault + int \<times> (nat \<times> int) list \<times> strm \<times> 'z reqdata_scheme \<times> os_state"
where
  "vfprintf_loop empt lib 0 f arg streamCount aux stores s r os = Inl OutOfFuel"
| "vfprintf_loop empt lib (Suc fuel) f arg streamCount aux stores s r os =
     (if f = [] then Inr (streamCount, stores, s, r, os)
      else
        let lit = takeWhile (\<lambda>b. b \<noteq> ch_percent) f in
        rbind (if lit = [] then Inr (0, s, r, os) else FCGX_PutStr empt lit s r os) (\<lambda>(rc, s, r, os).
        if rc < 0 then Inr (- 1, stores, s, r, os)
        else
          let streamCount = streamCount + int (length lit); f = drop (length lit) f in
          if f = [] then Inr (streamCount, stores, s, r, os)
          else rbind (convert lib f arg streamCount aux) (\<lambda>res.
            case res of
              None \<Rightarrow> Inr (- 1, stores, s, r, os)
            | Some (t, buffLen, specifierLength, arg, sts, aux) \<Rightarrow>
                let stores = stores @ sts; f = drop specifierLength f in
                rbind (c_assert (int (length t) < buffLen)) (\<lambda>_.
                if t = [] then vfprintf_loop empt lib fuel f arg streamCount aux stores s r os
                else rbind (FCGX_PutStr empt t s r os) (\<lambda>(rc, s, r, os).
                  if rc < 0 then Inr (- 1, stores, s, r, os)
                  else vfprintf_loop empt lib fuel f arg (streamCount + int (length t)) aux stores s r os)))))"

definition FCGX_VFPrintF ::
  "(bool \<Rightarrow> 'z proc) \<Rightarrow> 'f libc \<Rightarrow> byte list \<Rightarrow> 'f va list \<Rightarrow> strm \<Rightarrow> 'z reqdata_scheme \<Rightarrow> os_state \<Rightarrow>
    fault + int \<times> (nat \<times> int) list \<times> strm \<times> 'z reqdata_scheme \<times> os_state" where
  "FCGX_VFPrintF empt lib format arg s r os =
     (let f = cstr format in vfprintf_loop empt lib (length f + 1) f arg 0 None [] s r os)"

definition FCGX_FPrintF ::
  "(bool \<Rightarrow> 'z proc) \<Rightarrow> 'f libc \<Rightarrow> byte list \<Rightarrow> 'f va list \<Rightarrow> strm \<Rightarrow> 'z reqdata_scheme \<Rightarrow> os_state \<Rightarrow>
    fault + int \<times> (nat \<times> int) list \<times> strm \<times> 'z reqdata_scheme \<times> os_state" where
  "FCGX_FPrintF empt lib format arg s r os = FCGX_VFPrintF empt lib format arg s r os"

end
