(* ===== verification/PrintfSpec.thy ===== *)
theory PrintfSpec
  imports Printf
begin

text \<open>
  What \<^verbatim>\<open>FCGX_VFPrintF\<close> prints. A format is taken apart into its pieces; the C standard gives each
  conversion its text; and within the limits of the code (its buffers, five flags, six digits) the
  stream receives exactly these texts.
\<close>

section \<open>Formats\<close>

datatype amount = Absent | Digits "byte list" | Star

record cspec =
  sp_flags :: "byte list"
  sp_width :: amount
  sp_prec :: amount
  sp_size :: byte
  sp_op :: byte

datatype piece = Lit "byte list" | Percent | Conv cspec

fun render_amount :: "amount \<Rightarrow> byte list" where
  "render_amount Absent = []"
| "render_amount (Digits ds) = ds"
| "render_amount Star = [ch_star]"

definition render_tail :: "byte list \<Rightarrow> byte \<Rightarrow> byte \<Rightarrow> byte list" where
  "render_tail pr sz opc = pr @ (if sz = ch_space then [] else [sz]) @ [opc]"

definition prec_text :: "amount \<Rightarrow> byte list \<Rightarrow> byte list" where
  "prec_text a ds = (if a = Absent then [] else ch_dot # ds)"

definition render_spec :: "cspec \<Rightarrow> byte list" where
  "render_spec sp = ch_percent # sp_flags sp @ render_amount (sp_width sp) @
     render_tail (prec_text (sp_prec sp) (render_amount (sp_prec sp))) (sp_size sp) (sp_op sp)"

fun render_piece :: "piece \<Rightarrow> byte list" where
  "render_piece (Lit bs) = bs"
| "render_piece Percent = [ch_percent, ch_percent]"
| "render_piece (Conv sp) = render_spec sp"

definition render :: "piece list \<Rightarrow> byte list" where
  "render ps = concat (map render_piece ps)"

definition supported :: "byte \<Rightarrow> byte \<Rightarrow> bool" where
  "supported opc sz \<longleftrightarrow>
     (signed_op opc \<or> unsigned_op opc) \<and> (sz = ch_space \<or> sz = ch_l \<or> sz = ch_h) \<or>
     (opc = ch_c \<or> opc = ch_s \<or> opc = ch_p) \<and> sz = ch_space \<or>
     (opc = ch_f \<or> exponent_op opc) \<and> (sz = ch_space \<or> sz = ch_L)"

definition spec_ok :: "cspec \<Rightarrow> bool" where
  "spec_ok sp \<longleftrightarrow> (\<forall>b \<in> set (sp_flags sp). is_flag b) \<and> length (sp_flags sp) \<le> 5 \<and>
     (case sp_width sp of Digits ds \<Rightarrow> ds \<noteq> [] \<and> (\<forall>b \<in> set ds. is_digit b) \<and> hd ds \<noteq> ch_zero \<and> length ds \<le> 6 | _ \<Rightarrow> True) \<and>
     (case sp_prec sp of Digits ds \<Rightarrow> (\<forall>b \<in> set ds. is_digit b) \<and> length ds \<le> 6 | _ \<Rightarrow> True) \<and>
     supported (sp_op sp) (sp_size sp)"

section \<open>What the C standard prints\<close>

text \<open>Width and precision, and the arguments left. A negative precision counts as none.\<close>

fun width_arg :: "amount \<Rightarrow> 'f va list \<Rightarrow> (int \<times> 'f va list) option" where
  "width_arg Absent arg = Some (0, arg)"
| "width_arg (Digits ds) arg = Some (digits_value 0 ds, arg)"
| "width_arg Star (VInt i # arg) = Some (wrap32 i, arg)"
| "width_arg Star arg = None"

fun prec_arg :: "amount \<Rightarrow> 'f va list \<Rightarrow> (nat option \<times> 'f va list) option" where
  "prec_arg Absent arg = Some (None, arg)"
| "prec_arg (Digits ds) arg = Some (Some (nat (digits_value 0 ds)), arg)"
| "prec_arg Star (VInt i # arg) = Some (if wrap32 i < 0 then None else Some (nat (wrap32 i)), arg)"
| "prec_arg Star arg = None"

text \<open>A negative width is the flag \<open>-\<close> and a width.\<close>

definition field_flags :: "byte list \<Rightarrow> int \<Rightarrow> byte list" where
  "field_flags fl w = (if w < 0 then fl @ [ch_minus] else fl)"

definition spec_text :: "'f libc \<Rightarrow> cspec \<Rightarrow> 'f va list \<Rightarrow> (byte list \<times> 'f va list) option" where
  "spec_text lib sp arg =
     (case width_arg (sp_width sp) arg of None \<Rightarrow> None | Some (w, arg) \<Rightarrow>
      case prec_arg (sp_prec sp) arg of None \<Rightarrow> None | Some (p, arg) \<Rightarrow>
      case arg of [] \<Rightarrow> None | v # arg \<Rightarrow>
      case conversion lib (field_flags (sp_flags sp) w) (nat \<bar>w\<bar>) p (sp_size sp) (sp_op sp) v of
        Inl _ \<Rightarrow> None | Inr t \<Rightarrow> Some (t, arg))"

fun printed :: "'f libc \<Rightarrow> piece list \<Rightarrow> 'f va list \<Rightarrow> byte list option" where
  "printed lib [] arg = Some []"
| "printed lib (Lit bs # ps) arg = map_option ((@) bs) (printed lib ps arg)"
| "printed lib (Percent # ps) arg = map_option ((#) ch_percent) (printed lib ps arg)"
| "printed lib (Conv sp # ps) arg =
     (case spec_text lib sp arg of None \<Rightarrow> None | Some (t, arg) \<Rightarrow> map_option ((@) t) (printed lib ps arg))"

section \<open>The limits of the code\<close>

text \<open>The room the code reckons with for a conversion without its width.\<close>

definition reckoned :: "'f libc \<Rightarrow> byte \<Rightarrow> nat option \<Rightarrow> 'f va \<Rightarrow> int" where
  "reckoned lib opc p v =
     (let q = (case p of None \<Rightarrow> 6 | Some k \<Rightarrow> int k) in
      case v of
        VString (Some s) \<Rightarrow> (case p of None \<Rightarrow> int (length (cstr s)) | Some k \<Rightarrow> min (int k) (int (length (cstr s))))
      | VDouble x \<Rightarrow> if opc = ch_f then q + 3 + (if frexp_exp lib x > 0 then frexp_exp lib x div 3 else 0) else q + 8
      | VLongDouble x \<Rightarrow>
          if opc = ch_f then q + 3 + (if frexp_exp lib (to_double lib x) > 0 then frexp_exp lib (to_double lib x) div 3 else 0)
          else q + 8
      | _ \<Rightarrow> max (case p of None \<Rightarrow> - 1 | Some k \<Rightarrow> int k) 46)"

definition plain :: "cspec \<Rightarrow> bool" where
  "plain sp \<longleftrightarrow> sp_flags sp = [] \<and> sp_width sp = Absent \<and> sp_prec sp = Absent \<and> sp_op sp \<noteq> ch_f"

text \<open>A conversion is within the limits when its text has no NUL, the width or precision of a \<open>*\<close> has at
  most six digits, the precision is not negative, and the text fits: a plain one into 99 bytes (\<^verbatim>\<open>%s\<close> needs no
  room), another one into what the code reckons with.\<close>

definition star_ok :: "amount \<Rightarrow> 'f va list \<Rightarrow> bool \<Rightarrow> bool" where
  "star_ok a arg neg = (case (a, arg) of
     (Star, VInt i # _) \<Rightarrow> \<bar>wrap32 i\<bar> \<le> 999999 \<and> (neg \<or> 0 \<le> wrap32 i) | _ \<Rightarrow> True)"

definition fits :: "'f libc \<Rightarrow> cspec \<Rightarrow> 'f va list \<Rightarrow> bool" where
  "fits lib sp arg =
     (case width_arg (sp_width sp) arg of None \<Rightarrow> False | Some (w, arg1) \<Rightarrow>
      case prec_arg (sp_prec sp) arg1 of None \<Rightarrow> False | Some (p, arg2) \<Rightarrow>
      case spec_text lib sp arg of None \<Rightarrow> False | Some (t, _) \<Rightarrow>
        star_ok (sp_width sp) arg True \<and> star_ok (sp_prec sp) arg1 False \<and> 0 \<notin> set t \<and>
        (if plain sp then sp_op sp = ch_s \<or> length t < 100
         else int (length t) < max 100 (reckoned lib (sp_op sp) p (hd arg2) + 10)))"

fun within_limits :: "'f libc \<Rightarrow> piece list \<Rightarrow> 'f va list \<Rightarrow> bool" where
  "within_limits lib [] arg = True"
| "within_limits lib (Lit bs # ps) arg = (ch_percent \<notin> set bs \<and> 0 \<notin> set bs \<and> within_limits lib ps arg)"
| "within_limits lib (Percent # ps) arg = within_limits lib ps arg"
| "within_limits lib (Conv sp # ps) arg =
     (spec_ok sp \<and> fits lib sp arg \<and> (case spec_text lib sp arg of None \<Rightarrow> False | Some (t, arg) \<Rightarrow> within_limits lib ps arg))"

section \<open>Characters of a specification\<close>

lemma digit_not_flag: "is_digit b \<Longrightarrow> b \<noteq> 0x30 \<Longrightarrow> \<not> is_flag b"
  by (auto simp: is_digit_def is_flag_def)

lemma digit_not_zero: "is_digit b \<Longrightarrow> b \<noteq> 0 \<and> b \<noteq> 0x25 \<and> b \<noteq> 0x2A \<and> b \<noteq> 0x2E \<and> \<not> size_char b"
  by (auto simp: is_digit_def size_char_def)

lemma flag_not_zero: "is_flag b \<Longrightarrow> b \<noteq> 0 \<and> b \<noteq> 0x25"
  by (auto simp: is_flag_def)

lemma dot_not: "\<not> is_flag 0x2E" "\<not> is_digit 0x2E" "\<not> is_flag 0x2A" "\<not> is_digit 0x2A" "\<not> is_flag 0" "\<not> is_digit 0"
  by (simp_all add: is_flag_def is_digit_def)

lemma size_not: "size_char b \<Longrightarrow> \<not> is_flag b \<and> \<not> is_digit b \<and> b \<noteq> 0x2E \<and> b \<noteq> 0x2A \<and> b \<noteq> 0x20 \<and> b \<noteq> 0 \<and> b \<noteq> 0x25"
  by (auto simp: size_char_def is_flag_def is_digit_def)

lemma supported_op:
  "supported opc sz \<Longrightarrow> \<not> is_flag opc \<and> \<not> is_digit opc \<and> opc \<noteq> 0x2E \<and> opc \<noteq> 0x2A \<and> \<not> size_char opc \<and> opc \<noteq> 0 \<and>
    opc \<noteq> 0x25 \<and> opc \<noteq> 0x6E"
  by (auto simp: supported_def signed_op_def unsigned_op_def exponent_op_def is_flag_def is_digit_def size_char_def)

lemma supported_size: "supported opc sz \<Longrightarrow> sz \<noteq> 0x20 \<Longrightarrow> size_char sz"
  by (auto simp: supported_def size_char_def)

definition stops :: "(byte \<Rightarrow> bool) \<Rightarrow> byte list \<Rightarrow> bool" where
  "stops P q \<longleftrightarrow> \<not> P (head q)"

lemma take_drop_while:
  assumes "\<forall>b \<in> set xs. P b" "stops P q" "\<not> P 0"
  shows "takeWhile P (xs @ q) = xs" "dropWhile P (xs @ q) = q"
  using assms by (auto simp: stops_def head_def takeWhile_tail split: list.splits)

lemma head_simps [simp]: "head [] = 0" "head (b # bs) = b"
  by (simp_all add: head_def)

lemma head_append: "head (xs @ ys) = (if xs = [] then head ys else head xs)"
  by (cases xs) simp_all

lemma digits_value_head: "stops is_digit q \<Longrightarrow> digits_value acc q = acc"
  by (cases q) (auto simp: stops_def)

lemma digits_value_amount:
  "\<forall>b \<in> set ds. is_digit b \<Longrightarrow> stops is_digit q \<Longrightarrow> digits_value 0 (ds @ q) = digits_value 0 ds"
  by (simp add: digits_value_append digits_value_head)

section \<open>sprintf reads what the code assembles\<close>

lemma tail_head:
  assumes "supported opc sz"
  shows "stops is_flag (render_tail (prec_text a ds) sz opc @ rest)" "stops is_digit (render_tail (prec_text a ds) sz opc @ rest)"
    "head (render_tail (prec_text a ds) sz opc @ rest) \<noteq> ch_star"
    "head (render_tail (prec_text a ds) sz opc @ rest) = ch_dot \<longleftrightarrow> a \<noteq> Absent"
    "stops is_flag (render_tail [] sz opc @ rest)" "stops is_digit (render_tail [] sz opc @ rest)"
    "head (render_tail [] sz opc @ rest) \<noteq> ch_star" "head (render_tail [] sz opc @ rest) \<noteq> ch_dot"
  using supported_op [OF assms] supported_size [OF assms] size_not [of sz] dot_not
  by (auto simp: render_tail_def prec_text_def stops_def)

lemma sprintf_render:
  assumes fl: "\<forall>b \<in> set fl. is_flag b" and ws: "\<forall>b \<in> set ws. is_digit b" "ws \<noteq> [] \<longrightarrow> hd ws \<noteq> ch_zero"
    and ds: "\<forall>b \<in> set ds. is_digit b" and sup: "supported opc sz"
  shows "sprintf lib (ch_percent # fl @ ws @ render_tail (prec_text a ds) sz opc) v =
    conversion lib fl (nat (digits_value 0 ws)) (if a = Absent then None else Some (nat (digits_value 0 ds))) sz opc v"
proof -
  let ?T = "render_tail (prec_text a ds) sz opc" and ?U = "render_tail [] sz opc"
  note th = tail_head [OF sup, where rest = "[]", simplified]
  have wT: "stops is_flag (ws @ ?T)"
  proof (cases ws)
    case (Cons b bs)
    then show ?thesis using digit_not_flag ws by (simp add: stops_def)
  qed (use th in simp)
  note 1 = take_drop_while [OF fl wT dot_not(5)] and 2 = take_drop_while [OF ws(1) th(2) dot_not(6)]
    and 3 = take_drop_while [OF ds th(6) dot_not(6)]
  have T: "?T = prec_text a ds @ ?U" by (simp add: render_tail_def)
  have U: "head ?U = (if sz = ch_space then opc else sz)" "tl ?U = (if sz = ch_space then [] else [opc])"
    by (simp_all add: render_tail_def)
  have so: "\<not> size_char opc" "sz \<noteq> ch_space \<longrightarrow> size_char sz" "\<not> size_char ch_space"
    using supported_op [OF sup] supported_size [OF sup] by (auto simp: size_char_def)
  show ?thesis
  proof (cases "a = Absent")
    case True
    then have "?T = ?U" by (simp add: T prec_text_def)
    then show ?thesis
      using True th(8) so U digits_value_amount [OF ws(1) th(6)] 1 take_drop_while [OF ws(1) th(6) dot_not(6)]
      by (simp add: sprintf_def Let_def)
  next
    case False
    then have "?T = ch_dot # ds @ ?U" by (simp add: render_tail_def prec_text_def)
    then show ?thesis
      using False so U digits_value_amount [OF ws(1) th(2), of a ds] digits_value_amount [OF ds th(6)] 1 2 [of a ds] 3
      by (simp add: sprintf_def Let_def)
  qed
qed

text \<open>A width of zero makes flags about padding irrelevant.\<close>

lemma pad_zero_flag: "pad_field (fl @ [ch_zero]) z 0 pr body = pad_field fl z 0 pr body"
  by (simp add: pad_field_def)

lemma text_zero_flag:
  "signed_text (fl @ [ch_zero]) 0 p i = signed_text fl 0 p i"
  "unsigned_text (fl @ [ch_zero]) 0 p opc n = unsigned_text fl 0 p opc n"
  "float_field lib (fl @ [ch_zero]) 0 p opc x = float_field lib fl 0 p opc x"
  by (auto simp: signed_text_def unsigned_text_def float_field_def sign_prefix_def pad_zero_flag Let_def)

lemma conversion_zero_flag:
  "conversion lib (fl @ [ch_zero]) 0 p sz opc v = conversion lib fl 0 p sz opc v"
  unfolding conversion_def text_zero_flag pad_zero_flag ..

lemma sprintf_star:
  assumes fl: "\<forall>b \<in> set fl. is_flag b" and ds: "\<forall>b \<in> set ds. is_digit b" and sup: "supported opc sz"
  shows "sprintf lib (ch_percent # fl @ dec_int w @ render_tail (prec_text a ds) sz opc) v =
    conversion lib (field_flags fl w) (nat \<bar>w\<bar>) (if a = Absent then None else Some (nat (digits_value 0 ds))) sz opc v"
proof -
  let ?n = "nat \<bar>w\<bar>"
  have "is_flag ch_minus" "is_flag ch_zero" by (simp_all add: is_flag_def)
  then have fl': "\<forall>b \<in> set (fl @ [ch_minus]). is_flag b" "\<forall>b \<in> set (fl @ [ch_zero]). is_flag b" using fl by simp_all
  have pos: "\<forall>b \<in> set (dec_digits ?n). is_digit b" "w \<noteq> 0 \<Longrightarrow> dec_digits ?n \<noteq> [] \<longrightarrow> hd (dec_digits ?n) \<noteq> ch_zero"
    using dec_digits_all hd_dec_digits [of ?n] by simp_all
  consider "w < 0" | "w = 0" | "0 < w" by linarith
  then show ?thesis
  proof cases
    case 1
    then show ?thesis
      using sprintf_render [OF fl'(1) pos(1) pos(2) ds sup, of lib a v]
      by (simp add: dec_int_def field_flags_def digits_value_dec)
  next
    case 2
    have "dec_int w = [ch_zero]" using 2 by (simp add: dec_int_def dec_digits.simps)
    then show ?thesis
      using sprintf_render [OF fl'(2) _ _ ds sup, of "[]" lib a v] 2 by (simp add: field_flags_def conversion_zero_flag)
  next
    case 3
    then show ?thesis
      using sprintf_render [OF fl pos(1) pos(2) ds sup, of lib a v]
      by (simp add: dec_int_def field_flags_def digits_value_dec)
  qed
qed

section \<open>Scanning a rendered specification\<close>

text \<open>What the scan stores for a width or precision: the digits of the format, or those of the argument.\<close>

fun stored :: "amount \<Rightarrow> int \<Rightarrow> byte list" where
  "stored Absent n = []"
| "stored (Digits ds) n = ds"
| "stored Star n = dec_int n"

lemma CopyAndAdvance_append:
  assumes "length fmtBuff + length xs \<le> 25" "xs \<noteq> [] \<or> n = 0" "length xs = n"
  shows "CopyAndAdvance fmtBuff (xs @ q) n = Inr (fmtBuff @ xs, q)"
  using assms by (auto simp: CopyAndAdvance_def)

lemma CopyAndAdvance_one: "length fmtBuff < 25 \<Longrightarrow> CopyAndAdvance fmtBuff (b # q) 1 = Inr (fmtBuff @ [b], q)"
  by (simp add: CopyAndAdvance_def)

lemma scan_flags_ok:
  assumes "\<forall>b \<in> set fl. is_flag b" "length fl \<le> 5" "stops is_flag q"
  shows "scan_flags [ch_percent] (fl @ q) = Inr (Some (ch_percent # fl, q))"
  using assms CopyAndAdvance_append [of "[ch_percent]" fl "length fl" q] take_drop_while(1) [OF assms(1,3) dot_not(5)]
  by (simp add: scan_flags_def)

lemma length_stored:
  assumes "case a of Digits ds \<Rightarrow> length ds \<le> 6 | Star \<Rightarrow> \<bar>n\<bar> \<le> 999999 | _ \<Rightarrow> True"
  shows "length (stored a n) \<le> 7" "0 \<le> n \<Longrightarrow> length (stored a n) \<le> 6"
  using assms length_dec_int [of n 6] by (cases a; simp)+

lemma sprintf_number_ok: "length fmtBuff + length (dec_int n) < 25 \<Longrightarrow> sprintf_number fmtBuff n = Inr (fmtBuff @ dec_int n)"
  by (simp add: sprintf_number_def)

lemma scan_width_ok:
  assumes a: "case a of Digits ds \<Rightarrow> ds \<noteq> [] \<and> (\<forall>b \<in> set ds. is_digit b) \<and> length ds \<le> 6 | _ \<Rightarrow> True"
    and w: "width_arg a arg = Some (w, arg')" "star_ok a arg True"
    and q: "stops is_digit q" "head q \<noteq> ch_star" and len: "length fmtBuff \<le> 6"
  shows "scan_width fmtBuff (render_amount a @ q) arg = Inr (Some (w, fmtBuff @ stored a w, q, arg'))"
proof (cases a)
  case Absent
  then show ?thesis using w q take_drop_while(1) [of "[]" is_digit q] by (simp add: scan_width_def stops_def dot_not(6))
next
  case (Digits ds)
  then show ?thesis
    using a w len take_drop_while(1) [OF _ q(1) dot_not(6), of ds] digits_value_amount [OF _ q(1), of ds]
      CopyAndAdvance_append [of fmtBuff ds "length ds" q]
    by (simp add: scan_width_def)
next
  case Star
  then obtain i rest where arg: "arg = VInt i # rest" "w = wrap32 i" "arg' = rest"
    using w(1) by (cases arg) (auto elim: width_arg.elims)
  then have "\<bar>w\<bar> \<le> 999999" using w(2) Star by (simp add: star_ok_def)
  moreover from this have "length (dec_int w) \<le> 7" using length_dec_int(1) [of w 6] by simp
  ultimately show ?thesis
    using Star arg len sprintf_number_ok [of fmtBuff w] dot_not by (simp add: scan_width_def va_int_def)
qed

definition prec_int :: "nat option \<Rightarrow> int" where
  "prec_int p = (case p of None \<Rightarrow> - 1 | Some k \<Rightarrow> int k)"

lemma scan_precision_ok:
  assumes a: "case a of Digits ds \<Rightarrow> (\<forall>b \<in> set ds. is_digit b) \<and> length ds \<le> 6 | _ \<Rightarrow> True"
    and p: "prec_arg a arg = Some (p, arg')" "star_ok a arg False"
    and q: "stops is_digit q" "head q \<noteq> ch_star" "head q \<noteq> ch_dot" and len: "length fmtBuff \<le> 13"
  shows "scan_precision fmtBuff (prec_text a (render_amount a) @ q) arg =
    Inr (Some (prec_int p, fmtBuff @ prec_text a (stored a (prec_int p)), q, arg'))"
proof (cases a)
  case Absent
  then show ?thesis using p q by (auto simp: scan_precision_def prec_text_def prec_int_def)
next
  case (Digits ds)
  then show ?thesis
    using a p len take_drop_while(1) [OF _ q(1) dot_not(6), of ds] digits_value_amount [OF _ q(1), of ds]
      CopyAndAdvance_one [of fmtBuff ch_dot "ds @ q"] CopyAndAdvance_append [of "fmtBuff @ [ch_dot]" ds "length ds" q] q
      digits_value_nonneg [of 0 ds]
    by (cases "ds = []") (auto simp: scan_precision_def prec_text_def prec_int_def Let_def)
next
  case Star
  then obtain i rest where arg: "arg = VInt i # rest" "arg' = rest" "p = (if wrap32 i < 0 then None else Some (nat (wrap32 i)))"
    using p(1) by (cases arg) (auto elim: prec_arg.elims)
  then have i: "0 \<le> wrap32 i" "wrap32 i \<le> 999999" using p(2) Star by (auto simp: star_ok_def)
  then have "length (dec_int (wrap32 i)) \<le> 6" using length_dec_int(2) [of "wrap32 i" 6] by simp
  then show ?thesis
    using Star arg i len sprintf_number_ok [of "fmtBuff @ [ch_dot]" "wrap32 i"] CopyAndAdvance_one [of fmtBuff ch_dot "ch_star # q"] dot_not
    by (simp add: scan_precision_def va_int_def prec_text_def prec_int_def Let_def)
qed

lemma scan_spec_ok:
  assumes sp: "spec_ok sp" and w: "width_arg (sp_width sp) arg = Some (w, arg1)" "star_ok (sp_width sp) arg True"
    and p: "prec_arg (sp_prec sp) arg1 = Some (p, arg2)" "star_ok (sp_prec sp) arg1 False"
  shows "scan_spec (render_spec sp @ rest) arg =
    Inr (Some (w, prec_int p, sp_size sp, sp_op sp,
      ch_percent # sp_flags sp @ stored (sp_width sp) w @
        render_tail (prec_text (sp_prec sp) (stored (sp_prec sp) (prec_int p))) (sp_size sp) (sp_op sp),
      length (render_spec sp), arg2))"
proof -
  let ?fl = "sp_flags sp" and ?a = "sp_width sp" and ?b = "sp_prec sp" and ?sz = "sp_size sp" and ?op = "sp_op sp"
  let ?T = "render_tail (prec_text ?b (render_amount ?b)) ?sz ?op @ rest" and ?U = "render_tail [] ?sz ?op @ rest"
  have sup: "supported ?op ?sz" and fl: "\<forall>b \<in> set ?fl. is_flag b" "length ?fl \<le> 5" using sp by (simp_all add: spec_ok_def)
  have wd: "case ?a of Digits ds \<Rightarrow> ds \<noteq> [] \<and> (\<forall>b \<in> set ds. is_digit b) \<and> length ds \<le> 6 | _ \<Rightarrow> True"
    "case ?b of Digits ds \<Rightarrow> (\<forall>b \<in> set ds. is_digit b) \<and> length ds \<le> 6 | _ \<Rightarrow> True"
    using sp by (auto simp: spec_ok_def split: amount.splits)
  note th = tail_head [OF sup]
  have T: "?T = prec_text ?b (render_amount ?b) @ ?U" by (simp add: render_tail_def)
  have wT: "stops is_flag (render_amount ?a @ ?T)"
  proof (cases ?a)
    case (Digits ds)
    then obtain d ds' where "ds = d # ds'" "is_digit d" "d \<noteq> ch_zero" using sp by (cases ds) (auto simp: spec_ok_def)
    then show ?thesis using Digits digit_not_flag by (simp add: stops_def)
  qed (use th(1) dot_not in \<open>simp_all add: stops_def\<close>)
  have q: "stops is_digit ?T" "head ?T \<noteq> ch_star" "stops is_digit ?U" "head ?U \<noteq> ch_star" "head ?U \<noteq> ch_dot"
    using th by (simp_all add: render_tail_def)
  have lw: "length (stored ?a w) \<le> 7"
    using wd(1) w by (intro length_stored) (auto simp: star_ok_def split: amount.splits elim: width_arg.elims)
  have lp: "length (stored ?b (prec_int p)) \<le> 6"
  proof (cases ?b)
    case Star
    then obtain i rest where arg: "arg1 = VInt i # rest" "p = (if wrap32 i < 0 then None else Some (nat (wrap32 i)))"
      using p(1) by (cases arg1) (auto elim: prec_arg.elims)
    then have "0 \<le> wrap32 i" "wrap32 i \<le> 999999" using p(2) Star by (auto simp: star_ok_def)
    then show ?thesis using Star arg length_dec_int(2) [of "wrap32 i" 6] by (simp add: prec_int_def)
  qed (use wd(2) in simp_all)
  have lpt: "length (prec_text ?b (stored ?b (prec_int p))) \<le> 7" using lp by (simp add: prec_text_def)
  let ?F = "ch_percent # ?fl @ stored ?a w" and ?P = "prec_text ?b (stored ?b (prec_int p))"
  have tl: "tl (render_spec sp @ rest) = ?fl @ render_amount ?a @ ?T" by (simp add: render_spec_def)
  have 1: "scan_flags [ch_percent] (tl (render_spec sp @ rest)) = Inr (Some (ch_percent # ?fl, render_amount ?a @ ?T))"
    unfolding tl by (rule scan_flags_ok [OF fl wT])
  have 2: "scan_width (ch_percent # ?fl) (render_amount ?a @ ?T) arg = Inr (Some (w, ?F, ?T, arg1))"
    using scan_width_ok [OF wd(1) w q(1,2), of "ch_percent # ?fl"] fl(2) by simp
  have 3: "scan_precision ?F ?T arg1 = Inr (Some (prec_int p, ?F @ ?P, ?U, arg2))"
    unfolding T using scan_precision_ok [OF wd(2) p q(3-5), of ?F] fl(2) lw by simp
  have so: "\<not> size_char ?op" "?sz \<noteq> ch_space \<longrightarrow> size_char ?sz"
    using supported_op [OF sup] supported_size [OF sup] by auto
  have len: "length (?F @ ?P) \<le> 20" using fl(2) lw lpt by simp
  have cp: "CopyAndAdvance X (b # q) 1 = Inr (X @ [b], q)" if "length X < 25" for X b q
    using that by (rule CopyAndAdvance_one)
  have rs: "length (render_spec sp @ rest) - length rest = length (render_spec sp)" by simp
  show ?thesis
  proof (cases "?sz = ch_space")
    case True
    then have "?U = ?op # rest" by (simp add: render_tail_def)
    then show ?thesis
      unfolding scan_spec_def 1 obind_simps prod.case 2 3 using True so len cp [of "?F @ ?P" ?op rest] rs
      by (simp add: Let_def render_tail_def)
  next
    case False
    then have "?U = ?sz # ?op # rest" by (simp add: render_tail_def)
    then show ?thesis
      unfolding scan_spec_def 1 obind_simps prod.case 2 3
      using False so len cp [of "?F @ ?P" ?sz "?op # rest"] cp [of "?F @ ?P @ [?sz]" ?op rest] rs
      by (simp add: Let_def render_tail_def)
  qed
qed

section \<open>Buffer and conversion\<close>

lemma wrap32_wrap32 [simp]: "wrap32 (wrap32 i) = wrap32 i"
  using wrap32_range [of i] by simp

lemma wrap32_add: "\<exists>k. wrap32 i = i + k * 2 ^ 32"
proof -
  have "wrap32 i = i - (i + 2 ^ 31) div 2 ^ 32 * 2 ^ 32"
    using div_mult_mod_eq [of "i + 2 ^ 31" "2 ^ 32"] unfolding wrap32_mod by linarith
  then show ?thesis by (intro exI [of _ "- ((i + 2 ^ 31) div 2 ^ 32)"]) simp
qed

lemma wrap32_mod16: "wrap32 i mod 2 ^ 16 = i mod 2 ^ 16" "(wrap32 i + 2 ^ 15) mod 2 ^ 16 = (i + 2 ^ 15) mod 2 ^ 16"
proof -
  obtain k where k: "wrap32 i = i + k * 2 ^ 32" using wrap32_add by blast
  have "wrap32 i = i + (k * 2 ^ 16) * 2 ^ 16" "wrap32 i + 2 ^ 15 = i + 2 ^ 15 + (k * 2 ^ 16) * 2 ^ 16" by (simp_all add: k)
  then show "wrap32 i mod 2 ^ 16 = i mod 2 ^ 16" "(wrap32 i + 2 ^ 15) mod 2 ^ 16 = (i + 2 ^ 15) mod 2 ^ 16"
    by (metis mod_mult_self1)+
qed

lemma wrap16_wrap32: "wrap16 (wrap32 i) = wrap16 i"
  unfolding wrap16_def wrap32_mod16 ..

lemma wrap16_wrap16: "wrap16 (wrap16 i) = wrap16 i"
proof -
  have "(wrap16 i + 2 ^ 15) mod 2 ^ 16 = (i + 2 ^ 15) mod 2 ^ 16" by (simp add: wrap16_def)
  then show ?thesis by (simp add: wrap16_def)
qed

lemma byte_wrap32: "(word_of_int (wrap32 i) :: byte) = word_of_int i"
proof -
  obtain k where k: "wrap32 i = i + k * 2 ^ 32" using wrap32_add by blast
  have "wrap32 i = i + (k * 2 ^ 24) * 2 ^ 8" by (simp add: k)
  then have "wrap32 i mod 2 ^ 8 = i mod 2 ^ 8" by (metis mod_mult_self1)
  then show ?thesis by (intro word_of_int_eq_iff [THEN iffD2]) (simp add: take_bit_eq_mod)
qed

lemmas op_defs = signed_op_def unsigned_op_def exponent_op_def

lemma bound_buffer_ok:
  assumes "conversion lib fl w p sz opc v = Inr t"
  shows "bound_buffer lib opc sz (prec_int p) (v # rest) =
    Inr (Some (reckoned lib opc p v, if opc = ch_s \<or> opc = ch_f then Some v else None,
      if opc = ch_s \<or> opc = ch_f then rest else v # rest))"
proof (cases v)
  case (VInt i)
  then show ?thesis using assms by (auto simp: conversion_def bound_buffer_def reckoned_def prec_int_def op_defs split: if_splits)
next
  case (VLong i)
  then show ?thesis using assms by (auto simp: conversion_def bound_buffer_def reckoned_def prec_int_def op_defs split: if_splits)
next
  case (VDouble x)
  then have "(opc = ch_f \<or> exponent_op opc) \<and> sz = ch_space" using assms by (simp add: conversion_def split: if_splits)
  then show ?thesis using VDouble by (cases p) (auto simp: bound_buffer_def reckoned_def prec_int_def op_defs va_double_def Let_def)
next
  case (VLongDouble x)
  then have "(opc = ch_f \<or> exponent_op opc) \<and> sz = ch_L" using assms by (simp add: conversion_def split: if_splits)
  then show ?thesis using VLongDouble
    by (cases p) (auto simp: bound_buffer_def reckoned_def prec_int_def op_defs va_long_double_def Let_def)
next
  case (VString s)
  then obtain str where "s = Some str" "opc = ch_s" using assms by (cases s) (auto simp: conversion_def split: if_splits)
  then show ?thesis using VString by (cases p) (auto simp: bound_buffer_def reckoned_def prec_int_def op_defs va_string_def Let_def)
next
  case (VPtr a)
  then show ?thesis using assms by (auto simp: conversion_def bound_buffer_def reckoned_def prec_int_def op_defs split: if_splits)
qed (use assms in \<open>simp_all add: conversion_def\<close>)

text \<open>Promotion of an argument does not change what it is converted to.\<close>

lemma conversion_promoted:
  "signed_op opc \<Longrightarrow> conversion lib fl w p ch_space opc (VInt (wrap32 i)) = conversion lib fl w p ch_space opc (VInt i)"
  "signed_op opc \<Longrightarrow> conversion lib fl w p ch_h opc (VInt (wrap16 (wrap32 i))) = conversion lib fl w p ch_h opc (VInt i)"
  "unsigned_op opc \<Longrightarrow> conversion lib fl w p ch_space opc (VInt (i mod 2 ^ 32)) = conversion lib fl w p ch_space opc (VInt i)"
  "unsigned_op opc \<Longrightarrow> conversion lib fl w p ch_h opc (VInt (wrap32 i mod 2 ^ 16)) = conversion lib fl w p ch_h opc (VInt i)"
  "conversion lib fl w p ch_space ch_c (VInt (wrap32 i)) = conversion lib fl w p ch_space ch_c (VInt i)"
  using wrap32_mod16(1) [of i] wrap16_wrap16 [of i]
  by (auto simp: conversion_def op_defs wrap16_wrap32 byte_wrap32)

lemma perform_sprintf:
  assumes c: "conversion lib fl w p sz opc v = Inr t" and fast: "fast \<Longrightarrow> opc \<noteq> ch_f \<and> opc \<noteq> ch_s"
    and sb: "\<And>v'. conversion lib fl w p sz opc v' = Inr t \<Longrightarrow> sprintf_buff lib bl fmt v' rest = R"
  shows "perform lib fast opc sz fmt bl (if opc = ch_s \<or> opc = ch_f then Some v else None)
      (if opc = ch_s \<or> opc = ch_f then rest else v # rest) count = R"
proof -
  note cp = conversion_promoted(1-4) [where lib = lib and fl = fl and w = w and p = p and opc = opc]
  show ?thesis
  proof (cases v)
    case (VInt i)
    consider "signed_op opc" "sz = ch_space" | "signed_op opc" "sz = ch_h" | "unsigned_op opc" "sz = ch_space"
      | "unsigned_op opc" "sz = ch_h" | "opc = ch_c" "sz = ch_space"
      using c VInt by (auto simp: conversion_def split: if_splits)
    then show ?thesis
    proof cases
      case 1
      then show ?thesis using VInt c sb [of "VInt (wrap32 i)"] cp(1) [where i = i] by (auto simp: perform_def va_int_def op_defs)
    next
      case 2
      then show ?thesis using VInt c sb [of "VInt (wrap16 (wrap32 i))"] cp(2) [where i = i] by (auto simp: perform_def va_int_def op_defs)
    next
      case 3
      then show ?thesis using VInt c sb [of "VInt (i mod 2 ^ 32)"] cp(3) [where i = i] by (auto simp: perform_def va_unsigned_def op_defs)
    next
      case 4
      then show ?thesis using VInt c sb [of "VInt (wrap32 i mod 2 ^ 16)"] cp(4) [where i = i] by (auto simp: perform_def va_int_def op_defs)
    next
      case 5
      then show ?thesis using VInt c sb [of "VInt (wrap32 i)"] conversion_promoted(5) [where lib = lib and fl = fl and w = w and p = p and i = i]
        by (simp add: perform_def va_int_def op_defs)
    qed
  next
    case (VLong i)
    then show ?thesis using c sb [of v] by (auto simp: perform_def conversion_def va_long_def op_defs split: if_splits)
  next
    case (VDouble x)
    then show ?thesis using c fast sb [of v] by (auto simp: perform_def conversion_def va_double_def op_defs split: if_splits)
  next
    case (VLongDouble x)
    then show ?thesis using c fast sb [of v] by (auto simp: perform_def conversion_def va_long_double_def op_defs split: if_splits)
  next
    case (VString s)
    then show ?thesis using c fast sb [of v] by (cases s) (auto simp: perform_def conversion_def op_defs split: if_splits)
  next
    case (VPtr a)
    then show ?thesis using c sb [of v] by (auto simp: perform_def conversion_def va_ptr_def op_defs split: if_splits)
  qed (use c in \<open>simp_all add: conversion_def\<close>)
qed

lemma perform_eq:
  assumes "conversion lib fl w p sz opc v = Inr t" "\<And>v. sprintf lib fmt v = conversion lib fl w p sz opc v"
    and "fast \<Longrightarrow> opc \<noteq> ch_f \<and> opc \<noteq> ch_s"
  shows "perform lib fast opc sz fmt bl (if opc = ch_s \<or> opc = ch_f then Some v else None)
      (if opc = ch_s \<or> opc = ch_f then rest else v # rest) count =
    (if int (length t) + 1 \<le> bl then Inr (Some (Performed (cstr t) bl rest [])) else Inl BufferOverrun)"
  by (rule perform_sprintf [OF assms(1,3)]) (simp_all add: sprintf_buff_def assms(2))

lemma perform_other:
  assumes "is_flag c \<or> is_digit c \<or> c = ch_star \<or> c = ch_dot"
  shows "perform lib fast c sz fmt bl held arg count = Inr (Some NotPerformed)" "\<not> size_char c"
proof -
  have "c \<in> {0x2D, 0x30, 0x2B, 0x20, 0x23, 0x2A, 0x2E} \<or> is_digit c" using assms by (auto simp: is_flag_def)
  then have "\<not> signed_op c \<and> \<not> unsigned_op c \<and> \<not> exponent_op c \<and> c \<notin> {ch_c, ch_s, ch_p, ch_n, ch_f, ch_percent, 0} \<and> \<not> size_char c"
    by (auto simp: op_defs size_char_def is_digit_def)
  then show "perform lib fast c sz fmt bl held arg count = Inr (Some NotPerformed)" "\<not> size_char c"
    by (simp_all add: perform_def)
qed

lemma choose_buffer_ok:
  obtains bl aux' where "choose_buffer n aux = Inr (bl, aux')" "n \<le> bl" "100 \<le> bl"
  by (cases aux; cases "n \<le> 100") (fastforce simp: choose_buffer_def Malloc_def split: if_splits)+

lemma plain_fast:
  assumes "spec_ok sp" "sp_flags sp = []" "sp_width sp = Absent" "sp_prec sp = Absent"
  shows "fast_spec (render_spec sp @ rest) = (sp_size sp, sp_op sp, render_spec sp, length (render_spec sp))"
    "sprintf lib (render_spec sp) v = conversion lib [] 0 None (sp_size sp) (sp_op sp) v"
proof -
  have sup: "supported (sp_op sp) (sp_size sp)" using assms(1) by (simp add: spec_ok_def)
  have rs: "render_spec sp = ch_percent # render_tail [] (sp_size sp) (sp_op sp)"
    using assms by (simp add: render_spec_def prec_text_def)
  show "fast_spec (render_spec sp @ rest) = (sp_size sp, sp_op sp, render_spec sp, length (render_spec sp))"
    using supported_op [OF sup] supported_size [OF sup] by (auto simp: fast_spec_def Let_def rs render_tail_def)
  show "sprintf lib (render_spec sp) v = conversion lib [] 0 None (sp_size sp) (sp_op sp) v"
    using sprintf_render [OF _ _ _ _ sup, of "[]" "[]" "[]" lib Absent v] by (simp add: rs prec_text_def)
qed

lemma fast_not_performed:
  assumes ok: "spec_ok sp" and pl: "\<not> plain sp"
    and fs: "fast_spec (render_spec sp @ rest) = (sz, opc, fmt, n)"
  shows "perform lib True opc sz fmt 100 None arg count = Inr (Some NotPerformed)"
proof (cases "sp_flags sp = [] \<and> sp_width sp = Absent \<and> sp_prec sp = Absent")
  case True
  then have "opc = ch_f" using pl plain_fast(1) [OF ok, of rest] fs by (auto simp: plain_def)
  then show ?thesis by (simp add: perform_def op_defs)
next
  case False
  let ?c = "head (tl (render_spec sp @ rest))"
  have "is_flag ?c \<or> is_digit ?c \<or> ?c = ch_star \<or> ?c = ch_dot"
  proof (cases "sp_flags sp")
    case Nil
    show ?thesis
    proof (cases "sp_width sp")
      case (Digits ds)
      then show ?thesis using ok Nil by (cases ds) (auto simp: spec_ok_def render_spec_def)
    qed (use Nil False in \<open>auto simp: render_spec_def prec_text_def render_tail_def\<close>)
  qed (use ok in \<open>auto simp: spec_ok_def render_spec_def\<close>)
  then show ?thesis using fs perform_other [of ?c] by (auto simp: fast_spec_def Let_def)
qed

text \<open>What \<^verbatim>\<open>sprintf\<close> makes of the specification that was stored.\<close>

lemma sprintf_scanned:
  assumes sp: "spec_ok sp" and w: "width_arg (sp_width sp) arg = Some (w, arg1)"
    and p: "prec_arg (sp_prec sp) arg1 = Some (p, arg2)" "star_ok (sp_prec sp) arg1 False"
  shows "sprintf lib (ch_percent # sp_flags sp @ stored (sp_width sp) w @
      render_tail (prec_text (sp_prec sp) (stored (sp_prec sp) (prec_int p))) (sp_size sp) (sp_op sp)) v' =
    conversion lib (field_flags (sp_flags sp) w) (nat \<bar>w\<bar>) p (sp_size sp) (sp_op sp) v'"
proof -
  have sup: "supported (sp_op sp) (sp_size sp)" and fl: "\<forall>b \<in> set (sp_flags sp). is_flag b" using sp by (simp_all add: spec_ok_def)
  have pd: "(\<forall>b \<in> set (stored (sp_prec sp) (prec_int p)). is_digit b) \<and>
      p = (if sp_prec sp = Absent then None else Some (nat (digits_value 0 (stored (sp_prec sp) (prec_int p)))))"
  proof (cases "sp_prec sp")
    case Star
    then obtain i rest where arg: "arg1 = VInt i # rest" "p = (if wrap32 i < 0 then None else Some (nat (wrap32 i)))"
      using p(1) by (cases arg1) (auto elim: prec_arg.elims)
    then have "0 \<le> wrap32 i" using p(2) Star by (auto simp: star_ok_def)
    then show ?thesis using Star arg dec_digits_all by (simp add: prec_int_def dec_int_def digits_value_dec)
  qed (use sp p in \<open>auto simp: spec_ok_def\<close>)
  show ?thesis
  proof (cases "sp_width sp")
    case Absent
    then show ?thesis using sprintf_render [OF fl, of "[]" _ _ _ lib "sp_prec sp" v'] pd sup w by (simp add: field_flags_def)
  next
    case (Digits ds)
    then have "\<forall>b \<in> set ds. is_digit b" "ds \<noteq> [] \<longrightarrow> hd ds \<noteq> ch_zero" using sp by (simp_all add: spec_ok_def)
    then show ?thesis
      using sprintf_render [OF fl, of ds _ _ _ lib "sp_prec sp" v'] pd sup w Digits digits_value_nonneg [of 0 ds]
      by (simp add: field_flags_def)
  next
    case Star
    then show ?thesis using sprintf_star [OF fl _ sup, of _ lib w "sp_prec sp" v'] pd by simp
  qed
qed

text \<open>The slow path: the text, when the buffer that was chosen has room for it and a NUL.\<close>

lemma slow_path_eq:
  assumes sp: "spec_ok sp" and w: "width_arg (sp_width sp) arg = Some (w, arg1)" "star_ok (sp_width sp) arg True"
    and p: "prec_arg (sp_prec sp) arg1 = Some (p, v # arg2)" "star_ok (sp_prec sp) arg1 False"
    and c: "conversion lib (field_flags (sp_flags sp) w) (nat \<bar>w\<bar>) p (sp_size sp) (sp_op sp) v = Inr t"
    and bl: "choose_buffer (max (reckoned lib (sp_op sp) p v + 10) w) aux = Inr (bl, aux')"
  shows "slow_path lib (render_spec sp @ rest) arg count aux =
    (if int (length t) + 1 \<le> bl then Inr (Some (cstr t, bl, length (render_spec sp), arg2, [], aux')) else Inl BufferOverrun)"
proof -
  let ?fmt = "ch_percent # sp_flags sp @ stored (sp_width sp) w @
    render_tail (prec_text (sp_prec sp) (stored (sp_prec sp) (prec_int p))) (sp_size sp) (sp_op sp)"
  from perform_eq [OF c sprintf_scanned [OF sp w(1) p], of False bl arg2 count]
  have pf: "perform lib False (sp_op sp) (sp_size sp) ?fmt bl (if sp_op sp = ch_s \<or> sp_op sp = ch_f then Some v else None)
      (if sp_op sp = ch_s \<or> sp_op sp = ch_f then arg2 else v # arg2) count =
    (if int (length t) + 1 \<le> bl then Inr (Some (Performed (cstr t) bl arg2 [])) else Inl BufferOverrun)"
    by blast
  show ?thesis
    unfolding slow_path_def scan_spec_ok [OF sp w p] obind_simps prod.case bound_buffer_ok [OF c] bl rbind_simps pf
    by simp
qed

text \<open>One conversion within the limits.\<close>

lemma slow_path_ok:
  assumes sp: "spec_ok sp" and w: "width_arg (sp_width sp) arg = Some (w, arg1)" "star_ok (sp_width sp) arg True"
    and p: "prec_arg (sp_prec sp) arg1 = Some (p, v # arg2)" "star_ok (sp_prec sp) arg1 False"
    and c: "conversion lib (field_flags (sp_flags sp) w) (nat \<bar>w\<bar>) p (sp_size sp) (sp_op sp) v = Inr t"
    and len: "int (length t) < max 100 (reckoned lib (sp_op sp) p v + 10)"
  shows "\<exists>bl aux'. slow_path lib (render_spec sp @ rest) arg count aux =
    Inr (Some (cstr t, bl, length (render_spec sp), arg2, [], aux')) \<and> int (length t) < bl"
proof -
  obtain bl aux' where bl: "choose_buffer (max (reckoned lib (sp_op sp) p v + 10) w) aux = Inr (bl, aux')"
    "max (reckoned lib (sp_op sp) p v + 10) w \<le> bl" "100 \<le> bl"
    by (rule choose_buffer_ok)
  have lt: "int (length t) + 1 \<le> bl" using len bl(2,3) by linarith
  then show ?thesis using slow_path_eq [OF sp w p c bl(1), of rest count] by simp
qed

lemma convert_ok:
  assumes sp: "spec_ok sp" "fits lib sp arg" and t: "spec_text lib sp arg = Some (t, arg')"
  shows "\<exists>bl aux'. convert lib (render_spec sp @ rest) arg count aux =
    Inr (Some (t, bl, length (render_spec sp), arg', [], aux')) \<and> int (length t) < bl"
proof -
  obtain w arg1 p arg2 where w: "width_arg (sp_width sp) arg = Some (w, arg1)" and p: "prec_arg (sp_prec sp) arg1 = Some (p, arg2)"
    using t by (auto simp: spec_text_def split: option.splits)
  obtain v where v: "arg2 = v # arg'"
    "conversion lib (field_flags (sp_flags sp) w) (nat \<bar>w\<bar>) p (sp_size sp) (sp_op sp) v = Inr t"
    using t w p by (auto simp: spec_text_def split: list.splits sum.splits)
  have lim: "star_ok (sp_width sp) arg True" "star_ok (sp_prec sp) arg1 False" "0 \<notin> set t"
    "if plain sp then sp_op sp = ch_s \<or> length t < 100 else int (length t) < max 100 (reckoned lib (sp_op sp) p v + 10)"
    using sp(2) w p v t by (simp_all add: fits_def split: if_splits)
  have ct: "cstr t = t" using lim(3) by (rule cstr_id)
  show ?thesis
  proof (cases "plain sp")
    case False
    obtain sz opc fmt n where fs: "fast_spec (render_spec sp @ rest) = (sz, opc, fmt, n)" by (metis prod_cases4)
    show ?thesis
      using slow_path_ok [OF sp(1) w lim(1) p [unfolded v] lim(2) v(2), of rest count aux] lim(4) False ct
        fast_not_performed [OF sp(1) False fs, of lib arg count]
      by (simp add: convert_def fs)
  next
    case True
    then have pl: "sp_flags sp = []" "sp_width sp = Absent" "sp_prec sp = Absent" "sp_op sp \<noteq> ch_f" by (simp_all add: plain_def)
    then have wp: "w = 0" "p = None" "arg = v # arg'" using w p v by simp_all
    note pf = plain_fast [OF sp(1) pl(1-3)]
    have c: "conversion lib [] 0 None (sp_size sp) (sp_op sp) v = Inr t" using v(2) wp pl by (simp add: field_flags_def)
    show ?thesis
    proof (cases "sp_op sp = ch_s")
      case True
      then obtain str where "v = VString (Some str)" "sp_size sp = ch_space" "t = cstr str"
        using c by (auto simp: conversion_def op_defs pad_field_def split: va.splits option.splits if_splits)
      then show ?thesis using True wp by (simp add: convert_def pf(1) perform_def op_defs va_string_def)
    next
      case False
      then have "int (length t) + 1 \<le> 100" using lim(4) True by simp
      then show ?thesis
        using perform_eq [OF c pf(2), of True 100 arg' count] False pl(4) wp ct lim(4) True by (simp add: convert_def pf(1))
    qed
  qed
qed

lemma convert_percent: "convert lib (ch_percent # ch_percent # rest) arg count aux = Inr (Some ([ch_percent], 100, 2, arg, [], aux))"
  by (simp add: convert_def fast_spec_def perform_def op_defs size_char_def)

section \<open>The whole format\<close>

context byte_sink
begin

lemma PutStr_open:
  assumes "wbuf_ok s" "rawWrite s = raw" "\<not> isClosed s" "writes_ok (ipcFd r) os"
  obtains s' os' where "FCGX_PutStr empt str s r os = Inr (int (length str), s', r, os')"
    "emitted emits str s r os s' os'" "wbuf_ok s'" "rawWrite s' = raw" "\<not> isClosed s'" "writes_ok (ipcFd r) os'"
proof -
  obtain n' s' os' where 1: "FCGX_PutStr empt str s r os = Inr (n', s', r, os')"
    "(n' = int (length str) \<and> emitted emits str s r os s' os') \<or> (n' = - 1 \<and> (write_failed s r os s' os' \<or> rejected s os s' os'))"
    using PutStr_spec [OF assms(1,2), of str r os] by metis
  then have e: "n' = int (length str)" "emitted emits str s r os s' os'"
    using assms by (auto simp: write_failed_def rejected_def)
  have "wbuf_ok s'" "rawWrite s' = raw" "\<not> isClosed s'" "writes_ok (ipcFd r) os'"
    using e(2) assms emits_writes_ok by (auto simp: emitted_def same_writer_def)
  then show ?thesis using that 1 e by simp
qed

lemma put_text:
  assumes "wbuf_ok s" "rawWrite s = raw" "\<not> isClosed s" "writes_ok (ipcFd r) os"
  obtains s' os' where
    "(if str = [] then Inr (0, s, r, os) else FCGX_PutStr empt str s r os) = Inr (int (length str), s', r, os')"
    "emitted emits str s r os s' os'" "wbuf_ok s'" "rawWrite s' = raw" "\<not> isClosed s'" "writes_ok (ipcFd r) os'"
proof (cases "str = []")
  case True
  then show ?thesis using that [of s os] emitted_refl [OF assms(1)] assms by simp
next
  case False
  then show ?thesis using PutStr_open [OF assms, of str] that by metis
qed

lemma takeWhile_pre:
  "c \<notin> set pre \<Longrightarrow> takeWhile (\<lambda>b. b \<noteq> c) (pre @ c # rest) = pre" "c \<notin> set pre \<Longrightarrow> takeWhile (\<lambda>b. b \<noteq> c) pre = pre"
  by (auto simp: takeWhile_tail takeWhile_eq_all_conv)

text \<open>One turn of the loop: the text before a specification, and the specification.\<close>

lemma vfprintf_turn:
  assumes s: "wbuf_ok s" "rawWrite s = raw" "\<not> isClosed s" "writes_ok (ipcFd r) os" and pre: "ch_percent \<notin> set pre"
    and c: "\<And>count. \<exists>bl aux'. convert lib (spec @ rest) arg count aux = Inr (Some (t, bl, length spec, arg', [], aux')) \<and> int (length t) < bl"
    and spec: "spec \<noteq> []" "hd spec = ch_percent"
  obtains s' os' aux' where
    "vfprintf_loop empt lib (Suc fuel) (pre @ spec @ rest) arg count aux stores s r os =
      vfprintf_loop empt lib fuel rest arg' (count + int (length (pre @ t))) aux' stores s' r os'"
    "emitted emits (pre @ t) s r os s' os'" "wbuf_ok s'" "rawWrite s' = raw" "\<not> isClosed s'" "writes_ok (ipcFd r) os'"
proof -
  obtain s1 os1 where 1: "(if pre = [] then Inr (0, s, r, os) else FCGX_PutStr empt pre s r os) = Inr (int (length pre), s1, r, os1)"
    "emitted emits pre s r os s1 os1" "wbuf_ok s1" "rawWrite s1 = raw" "\<not> isClosed s1" "writes_ok (ipcFd r) os1"
    by (rule put_text [OF s])
  obtain s2 os2 where 2: "(if t = [] then Inr (0, s1, r, os1) else FCGX_PutStr empt t s1 r os1) = Inr (int (length t), s2, r, os2)"
    "emitted emits t s1 r os1 s2 os2" "wbuf_ok s2" "rawWrite s2 = raw" "\<not> isClosed s2" "writes_ok (ipcFd r) os2"
    by (rule put_text [OF 1(3-6)])
  obtain bl aux' where cv: "convert lib (spec @ rest) arg (count + int (length pre)) aux = Inr (Some (t, bl, length spec, arg', [], aux'))"
    "int (length t) < bl"
    using c by blast
  obtain sp where sp: "spec = ch_percent # sp" using spec by (cases spec) auto
  have tw: "takeWhile (\<lambda>b. b \<noteq> ch_percent) (pre @ spec @ rest) = pre" using takeWhile_pre(1) [OF pre] by (simp add: sp)
  have ne: "pre @ spec @ rest \<noteq> []" "spec @ rest \<noteq> []" using spec by simp_all
  have "vfprintf_loop empt lib (Suc fuel) (pre @ spec @ rest) arg count aux stores s r os =
      vfprintf_loop empt lib fuel rest arg' (count + int (length (pre @ t))) aux' stores s2 r os2"
  proof (cases "t = []")
    case True
    then have "s2 = s1" "os2 = os1" using 2(1) by simp_all
    then show ?thesis using ne spec(1) cv True by (simp add: tw Let_def 1(1))
  next
    case False
    then have "FCGX_PutStr empt t s1 r os1 = Inr (int (length t), s2, r, os2)" using 2(1) by simp
    then show ?thesis using ne spec(1) cv False by (simp add: tw Let_def 1(1) add.assoc)
  qed
  then show ?thesis using that emitted_trans [OF 1(2) 2(2)] 2(3-6) by blast
qed

lemma vfprintf_loop_ok:
  assumes "wbuf_ok s" "rawWrite s = raw" "\<not> isClosed s" "writes_ok (ipcFd r) os" "ch_percent \<notin> set pre"
    and "within_limits lib ps arg" "printed lib ps arg = Some out" "length (pre @ render ps) < fuel"
  shows "\<exists>s' os'. vfprintf_loop empt lib fuel (pre @ render ps) arg count aux stores s r os =
      Inr (count + int (length (pre @ out)), stores, s', r, os') \<and> emitted emits (pre @ out) s r os s' os'"
  using assms
proof (induction ps arbitrary: pre arg out count aux s os fuel)
  case Nil
  obtain k where k: "fuel = Suc k" using Nil.prems(8) by (cases fuel) auto
  obtain s1 os1 where 1: "(if pre = [] then Inr (0, s, r, os) else FCGX_PutStr empt pre s r os) = Inr (int (length pre), s1, r, os1)"
    "emitted emits pre s r os s1 os1"
    by (rule put_text [OF Nil.prems(1-4)])
  show ?case
  proof (cases "pre = []")
    case True
    then show ?thesis using k 1 Nil.prems(7) by (auto simp: render_def)
  next
    case False
    then show ?thesis
      using k 1 Nil.prems(7) by (auto simp: render_def Let_def takeWhile_pre(2) [OF Nil.prems(5)])
  qed
next
  case (Cons q ps)
  obtain k where k: "fuel = Suc k" using Cons.prems(8) by (cases fuel) auto
  show ?case
  proof (cases q)
    case (Lit bs)
    then obtain out' where "printed lib ps arg = Some out'" "out = bs @ out'" using Cons.prems(7) by auto
    then show ?thesis
      using Cons.IH [of s os "pre @ bs" arg out' fuel count aux] Cons.prems Lit by (simp add: render_def)
  next
    case Percent
    then obtain out' where t: "printed lib ps arg = Some out'" "out = ch_percent # out'" using Cons.prems(7) by auto
    have f: "pre @ render (q # ps) = pre @ [ch_percent, ch_percent] @ render ps" using Percent by (simp add: render_def)
    have c: "\<exists>bl aux'. convert lib ([ch_percent, ch_percent] @ render ps) arg count aux =
        Inr (Some ([ch_percent], bl, length [ch_percent, ch_percent], arg, [], aux')) \<and> int (length [ch_percent]) < bl" for count
      using convert_percent [of lib "render ps" arg count aux] by simp
    obtain s1 os1 aux1 where 1:
      "vfprintf_loop empt lib (Suc k) (pre @ [ch_percent, ch_percent] @ render ps) arg count aux stores s r os =
        vfprintf_loop empt lib k (render ps) arg (count + int (length (pre @ [ch_percent]))) aux1 stores s1 r os1"
      "emitted emits (pre @ [ch_percent]) s r os s1 os1"
      "wbuf_ok s1" "rawWrite s1 = raw" "\<not> isClosed s1" "writes_ok (ipcFd r) os1"
      by (rule vfprintf_turn [OF Cons.prems(1-5) c]) simp_all
    have lim: "within_limits lib ps arg" "length ([] @ render ps) < k" using Cons.prems(6,8) Percent k by (simp_all add: render_def)
    obtain s2 os2 where 2: "vfprintf_loop empt lib k ([] @ render ps) arg (count + int (length (pre @ [ch_percent]))) aux1 stores s1 r os1 =
        Inr (count + int (length (pre @ [ch_percent])) + int (length ([] @ out')), stores, s2, r, os2)"
      "emitted emits ([] @ out') s1 r os1 s2 os2"
      using Cons.IH [OF 1(3-6) _ lim(1) t(1) lim(2)] by fastforce
    show ?thesis
      unfolding f k using 1(1) 2 emitted_trans [OF 1(2) 2(2)] t(2) by (intro exI [of _ s2] exI [of _ os2]) simp
  next
    case (Conv sp)
    then obtain t arg' out' where t: "spec_text lib sp arg = Some (t, arg')" "printed lib ps arg' = Some out'" "out = t @ out'"
      using Cons.prems(7) by (auto split: option.splits)
    have ok: "spec_ok sp" "fits lib sp arg" "within_limits lib ps arg'" using Cons.prems(6) Conv t by simp_all
    have f: "pre @ render (q # ps) = pre @ render_spec sp @ render ps" using Conv by (simp add: render_def)
    have hd: "render_spec sp \<noteq> []" "hd (render_spec sp) = ch_percent" by (simp_all add: render_spec_def)
    obtain s1 os1 aux1 where 1:
      "vfprintf_loop empt lib (Suc k) (pre @ render_spec sp @ render ps) arg count aux stores s r os =
        vfprintf_loop empt lib k (render ps) arg' (count + int (length (pre @ t))) aux1 stores s1 r os1"
      "emitted emits (pre @ t) s r os s1 os1"
      "wbuf_ok s1" "rawWrite s1 = raw" "\<not> isClosed s1" "writes_ok (ipcFd r) os1"
      by (rule vfprintf_turn [OF Cons.prems(1-5) convert_ok [OF ok(1,2) t(1)] hd])
    have lim: "length ([] @ render ps) < k" using Cons.prems(8) f k hd(1) by (cases "render_spec sp") simp_all
    obtain s2 os2 where 2: "vfprintf_loop empt lib k ([] @ render ps) arg' (count + int (length (pre @ t))) aux1 stores s1 r os1 =
        Inr (count + int (length (pre @ t)) + int (length ([] @ out')), stores, s2, r, os2)"
      "emitted emits ([] @ out') s1 r os1 s2 os2"
      using Cons.IH [OF 1(3-6) _ ok(3) t(2) lim] by fastforce
    show ?thesis
      unfolding f k using 1(1) 2 emitted_trans [OF 1(2) 2(2)] t(3) by (intro exI [of _ s2] exI [of _ os2]) simp
  qed
qed

end

section \<open>Properties\<close>

lemma render_nonzero:
  "within_limits lib ps arg \<Longrightarrow> 0 \<notin> set (render ps)"
proof (induction ps arbitrary: arg)
  case (Cons q ps)
  show ?case
  proof (cases q)
    case (Conv sp)
    then obtain t arg' where sp: "spec_ok sp" "within_limits lib ps arg'" using Cons.prems by (auto split: option.splits)
    then have sup: "supported (sp_op sp) (sp_size sp)" by (simp add: spec_ok_def)
    have nz: "(0 :: byte) \<notin> set ds" if "\<forall>b \<in> set ds. is_digit b" for ds using that digit_not_zero by auto
    have "0 \<notin> set (render_amount (sp_width sp))" "0 \<notin> set (render_amount (sp_prec sp))"
      using sp(1) nz by (auto simp: spec_ok_def split: amount.splits elim!: render_amount.elims)
    moreover have "0 \<notin> set (sp_flags sp)" using sp(1) flag_not_zero by (auto simp: spec_ok_def)
    ultimately have "0 \<notin> set (render_spec sp)"
      using supported_op [OF sup] supported_size [OF sup] size_not
      by (auto simp: render_spec_def render_tail_def prec_text_def)
    then show ?thesis using Cons.IH [OF sp(2)] Conv by (simp add: render_def)
  qed (use Cons in \<open>auto simp: render_def\<close>)
qed (simp add: render_def)

lemma VFPrintF_emits:
  assumes "open_writer t s" "writes_ok (ipcFd r) os" "within_limits lib ps arg" "printed lib ps arg = Some out"
  obtains s' os' where "FCGX_VFPrintF EmptyBuffProc lib (render ps @ [0]) arg s r os = Inr (int (length out), [], s', r, os')"
    "emitted emits_framed out s r os s' os'"
proof -
  have s: "wbuf_ok s" "rawWrite s = False" "\<not> isClosed s" using assms(1) by (simp_all add: open_writer_def)
  have c: "cstr (render ps @ [0]) = render ps" using cstr_block [OF render_nonzero [OF assms(3)], of "[]"] by simp
  obtain s' os' where "vfprintf_loop EmptyBuffProc lib (length (render ps) + 1) ([] @ render ps) arg 0 None [] s r os =
      Inr (0 + int (length ([] @ out)), [], s', r, os')" "emitted emits_framed ([] @ out) s r os s' os'"
    using framed.vfprintf_loop_ok [OF s assms(2) _ assms(3,4), of "[]" "length (render ps) + 1" 0 None "[]"] by auto
  then show ?thesis using that by (simp add: FCGX_VFPrintF_def c Let_def)
qed

text \<open>C10: formatted output. For every format and arguments within the limits of the code,
  \<^verbatim>\<open>FCGX_VFPrintF\<close> on an open stream hands over exactly the text the C standard prescribes, returns its
  length, and neither overruns \<^verbatim>\<open>fmtBuff\<close> or a conversion buffer nor fails an assertion.\<close>

theorem VFPrintF_prints:
  assumes "open_writer t s" "writes_ok (ipcFd r) os" "within_limits lib ps arg" "printed lib ps arg = Some out"
  shows "\<exists>s' os'. FCGX_VFPrintF EmptyBuffProc lib (render ps @ [0]) arg s r os = Inr (int (length out), [], s', r, os') \<and>
    open_writer t s' \<and> emitted emits_framed out s r os s' os'"
  using VFPrintF_emits [OF assms] emitted_open [OF _ assms(1)] by metis

text \<open>A library to evaluate with, whose numbers are whole.\<close>

definition sample_libc :: "int libc" where
  "sample_libc = \<lparr> frexp_exp = (\<lambda>x. if x = 0 then 0 else int (length (base_digits 2 False (nat \<bar>x\<bar>)))), to_double = (\<lambda>x. x),
     sign_bit = (\<lambda>x. x < 0), is_finite = (\<lambda>_. True),
     float_text = (\<lambda>opc alt p x. dec_digits (nat \<bar>x\<bar>) @ (if p = 0 then [] else ch_dot # replicate p ch_zero)),
     pointer_text = (\<lambda>a. [ch_zero, ch_x] @ base_digits 16 False (nat (uint a))) \<rparr>"

definition sample_pieces :: "piece list" where
  "sample_pieces =
     [Lit (chars ''x=''), Conv \<lparr>sp_flags = [], sp_width = Digits (chars ''5''), sp_prec = Absent, sp_size = ch_space, sp_op = ch_d\<rparr>,
      Conv \<lparr>sp_flags = [ch_minus], sp_width = Star, sp_prec = Absent, sp_size = ch_space, sp_op = ch_s\<rparr>, Percent,
      Conv \<lparr>sp_flags = [], sp_width = Absent, sp_prec = Digits (chars ''2''), sp_size = ch_space, sp_op = ch_f\<rparr>]"

lemma VFPrintF_prints_witness:
  "\<exists>s' os'. FCGX_VFPrintF EmptyBuffProc sample_libc (chars ''x=%5d%-*s%%%.2f'' @ [0])
      [VInt (- 42), VInt 4, VString (Some (chars ''ab'' @ [0])), VDouble 7] (NewWriter 0 64 FCGI_STDOUT) sample_request
      (sample_os [] []) = Inr (16, [], s', sample_request, os') \<and>
    emitted emits_framed (chars ''x=  -42ab  %7.00'') (NewWriter 0 64 FCGI_STDOUT) sample_request (sample_os [] []) s' os'"
proof -
  let ?arg = "[VInt (- 42), VInt 4, VString (Some (chars ''ab'' @ [0])), VDouble 7]"
  have f: "chars ''x=%5d%-*s%%%.2f'' = render sample_pieces"
    by (simp add: sample_pieces_def render_def render_spec_def render_tail_def prec_text_def chars_def)
  have lim: "within_limits sample_libc sample_pieces ?arg" by code_simp
  have out: "printed sample_libc sample_pieces ?arg = Some (chars ''x=  -42ab  %7.00'')" by code_simp
  have ok: "writes_ok (ipcFd sample_request) (sample_os [] [])" by (simp add: writes_ok_def)
  have len: "int (length (chars ''x=  -42ab  %7.00'')) = 16" by (simp add: chars_def)
  show ?thesis
    using VFPrintF_prints [OF NewWriter_open [of FCGI_STDOUT 0 64] ok lim out] unfolding f len by blast
qed





text \<open>An integer conversion whose width is below 100, or below the precision by no more than 9, is within the
  limits; any wider one overruns the buffer chosen for it.\<close>

lemma int_op_other:
  "signed_op opc \<or> unsigned_op opc \<Longrightarrow> opc \<noteq> ch_c \<and> opc \<noteq> ch_s \<and> opc \<noteq> ch_p \<and> opc \<noteq> ch_f \<and> \<not> exponent_op opc"
  by (auto simp: op_defs)

lemma int_reckoned:
  "conversion lib fl w p sz opc v = Inr t \<Longrightarrow> signed_op opc \<or> unsigned_op opc \<Longrightarrow> reckoned lib opc p v = max (prec_int p) 46"
  using int_op_other [of opc]
  by (auto simp: conversion_def reckoned_def prec_int_def split: va.splits option.splits if_splits)

lemma int_text_wide:
  "conversion lib fl w p sz opc v = Inr t \<Longrightarrow> signed_op opc \<or> unsigned_op opc \<Longrightarrow> w \<le> length t"
  using int_op_other [of opc]
  by (auto simp: conversion_def signed_text_def unsigned_text_def length_pad_field Let_def split: va.splits option.splits if_splits)


lemma choose_buffer_None: "choose_buffer n None = Inr (max 100 n, if n \<le> 100 then None else Some n)"
  by (auto simp: choose_buffer_def Malloc_def)

lemma int_overruns:
  assumes "spec_ok sp" "signed_op (sp_op sp) \<or> unsigned_op (sp_op sp)" "spec_text lib sp arg = Some (t, arg')"
    and w: "width_arg (sp_width sp) arg = Some (w, arg1)" and p: "prec_arg (sp_prec sp) arg1 = Some (p, arg2)"
    and s: "star_ok (sp_width sp) arg True" "star_ok (sp_prec sp) arg1 False" and wide: "max 100 (prec_int p + 10) \<le> \<bar>w\<bar>"
  shows "convert lib (render_spec sp @ rest) arg count None = Inl BufferOverrun"
proof -
  obtain v where v: "arg2 = v # arg'"
    "conversion lib (field_flags (sp_flags sp) w) (nat \<bar>w\<bar>) p (sp_size sp) (sp_op sp) v = Inr t"
    using assms(3-5) by (auto simp: spec_text_def split: list.splits sum.splits)
  have len: "max 100 (max (reckoned lib (sp_op sp) p v + 10) w) < int (length t) + 1"
    using int_text_wide [OF v(2) assms(2)] int_reckoned [OF v(2) assms(2)] wide by auto
  have "\<not> plain sp" using w wide by (auto simp: plain_def)
  moreover obtain sz opc fmt n where fs: "fast_spec (render_spec sp @ rest) = (sz, opc, fmt, n)" by (metis prod_cases4)
  ultimately show ?thesis
    using slow_path_eq [OF assms(1) w s(1) p [unfolded v(1)] s(2) v(2) choose_buffer_None, of rest count] len
      fast_not_performed [OF assms(1) _ fs, of lib arg count]
    by (simp add: convert_def fs)
qed



lemma vfprintf_once:
  assumes "hd f = ch_percent" "f \<noteq> []" "0 \<notin> set f"
  shows "convert lib f arg 0 None = Inl e \<Longrightarrow> FCGX_VFPrintF empt lib (f @ [0]) arg s r os = Inl e"
    "convert lib f arg 0 None = Inr None \<Longrightarrow> FCGX_VFPrintF empt lib (f @ [0]) arg s r os = Inr (- 1, [], s, r, os)"
    "convert lib f arg 0 None = Inr (Some ([], bl, length f, arg', sts, aux)) \<Longrightarrow> 0 < bl \<Longrightarrow>
      FCGX_VFPrintF empt lib (f @ [0]) arg s r os = Inr (0, sts, s, r, os)"
proof -
  obtain g where g: "f = ch_percent # g" using assms(1,2) by (cases f) auto
  have c: "cstr (f @ [0]) = f" using cstr_block [OF assms(3), of "[]"] by simp
  show "convert lib f arg 0 None = Inl e \<Longrightarrow> FCGX_VFPrintF empt lib (f @ [0]) arg s r os = Inl e"
    "convert lib f arg 0 None = Inr None \<Longrightarrow> FCGX_VFPrintF empt lib (f @ [0]) arg s r os = Inr (- 1, [], s, r, os)"
    "convert lib f arg 0 None = Inr (Some ([], bl, length f, arg', sts, aux)) \<Longrightarrow> 0 < bl \<Longrightarrow>
      FCGX_VFPrintF empt lib (f @ [0]) arg s r os = Inr (0, sts, s, r, os)"
    unfolding FCGX_VFPrintF_def c by (simp_all add: g)
qed

lemma wide_field:
  assumes "sp_flags sp = []" "sp_prec sp = Absent" "sp_size sp = ch_space" "sp_op sp = ch_d" "spec_ok sp"
    and "width_arg (sp_width sp) arg = Some (w, VInt i # arg')" "star_ok (sp_width sp) arg True" "100 \<le> \<bar>w\<bar>"
  shows "convert lib (render_spec sp @ rest) arg count None = Inl BufferOverrun"
proof -
  have t: "spec_text lib sp arg = Some (signed_text (field_flags [] w) (nat \<bar>w\<bar>) None (wrap32 i), arg')"
    using assms(1-4,6) by (simp add: spec_text_def conversion_def op_defs)
  show ?thesis
    by (rule int_overruns [OF assms(5) _ t assms(6) _ assms(7), where p = None])
      (use assms in \<open>simp_all add: op_defs star_ok_def prec_int_def\<close>)
qed

text \<open>C37: a field of 100 characters or more overruns its buffer by at least the terminating NUL, when the text
  itself is shorter: for every width from 100 to 999999, given in the format or by a \<^verbatim>\<open>*\<close>, and for the
  negative widths of a \<^verbatim>\<open>*\<close>, which the bound on the buffer ignores.\<close>

theorem wide_fields_overrun:
  assumes "100 \<le> \<bar>w\<bar>" "\<bar>w\<bar> \<le> 999999"
  shows "FCGX_VFPrintF empt lib (chars ''%*d'' @ [0]) [VInt w, VInt i] s r os = Inl BufferOverrun \<and>
    (0 < w \<longrightarrow> FCGX_VFPrintF empt lib ((chars ''%'' @ dec_int w @ chars ''d'') @ [0]) [VInt i] s r os = Inl BufferOverrun)"
proof -
  let ?sp = "\<lambda>a. \<lparr>sp_flags = [], sp_width = a, sp_prec = Absent, sp_size = ch_space, sp_op = ch_d\<rparr>"
  have r: "render_spec (?sp a) = ch_percent # render_amount a @ [ch_d]" for a
    by (simp add: render_spec_def render_tail_def prec_text_def)
  have w32: "wrap32 w = w" using assms(2) by simp
  have 1: "convert lib (render_spec (?sp Star) @ []) [VInt w, VInt i] 0 None = Inl BufferOverrun"
    by (rule wide_field [where w = w and i = i and arg' = "[]"])
      (use assms w32 in \<open>simp_all add: spec_ok_def supported_def op_defs star_ok_def\<close>)
  have 2: "convert lib (render_spec (?sp (Digits (dec_digits (nat w)))) @ []) [VInt i] 0 None = Inl BufferOverrun" if "0 < w"
    by (rule wide_field [where w = w and i = i and arg' = "[]"])
      (use assms that in \<open>simp_all add: spec_ok_def supported_def op_defs star_ok_def dec_digits_ne dec_digits_all
        hd_dec_digits digits_value_dec length_dec_digits [of _ 6, simplified]\<close>)
  have nz: "0 \<notin> set (dec_digits (nat w))" using dec_digits_all digit_not_zero by blast
  show ?thesis
    using vfprintf_once(1) [OF _ _ _ 1, of empt s r os] vfprintf_once(1) [OF _ _ _ 2, of empt s r os] nz
    by (simp add: r chars_def dec_int_def)
qed

lemma wide_fields_overrun_witness:
  "FCGX_VFPrintF EmptyBuffProc sample_libc (chars ''%*d'' @ [0]) [VInt (- 200), VInt 7] (NewWriter 0 64 FCGI_STDOUT)
     sample_request (sample_os [] []) = Inl BufferOverrun"
  using wide_fields_overrun [of "- 200" EmptyBuffProc sample_libc 7] by simp

lemmas conversion_eval = convert_def slow_path_def fast_spec_def perform_def op_defs va_int_def va_string_def sprintf_buff_def
  sprintf_def size_char_def is_flag_def is_digit_def conversion_def pad_field_def cstr_def chars_def scan_spec_def scan_flags_def
  scan_width_def scan_precision_def CopyAndAdvance_def sprintf_number_def bound_buffer_def choose_buffer_def dec_int_def
  dec_digits.simps Let_def

lemma convert_plain_char: "convert lib (chars ''%c'') [VInt 0] n aux = Inr (Some ([], 100, 2, [], [], aux))"
  by (simp add: conversion_eval wrap32_def)

lemma convert_minus_prec:
  "convert lib (chars ''%.*s'') [VInt (- 1), VString (Some (chars ''abc'' @ [0]))] n None = Inr (Some ([], 100, 4, [], [], None))"
  by (simp add: conversion_eval wrap32_def)

lemma convert_null:
  "convert lib (chars ''%s'') [VString None] n aux = Inl NullDeref"
  "convert lib (chars ''%1s'') [VString None] n None = Inr (Some (chars ''(null)'', 100, 3, [], [], None))"
  by (simp_all add: conversion_eval)

lemma convert_long_long: "convert lib (chars ''%lld'') [VLong i] n aux = Inr None"
  by (simp add: conversion_eval)

text \<open>Where the code departs from the C standard within its limits: \<^verbatim>\<open>%c\<close> of a NUL character prints
  nothing and counts nothing, a negative precision of a \<^verbatim>\<open>*\<close> is taken as zero, \<^verbatim>\<open>%s\<close> of \<^verbatim>\<open>NULL\<close> crashes although
  \<^verbatim>\<open>%1s\<close> prints \<^verbatim>\<open>(null)\<close>, and \<^verbatim>\<open>%lld\<close> is refused.\<close>

theorem departures_from_C:
  "FCGX_VFPrintF empt lib (chars ''%c'' @ [0]) [VInt 0] s r os = Inr (0, [], s, r, os) \<and>
   FCGX_VFPrintF empt lib (chars ''%.*s'' @ [0]) [VInt (- 1), VString (Some (chars ''abc'' @ [0]))] s r os = Inr (0, [], s, r, os) \<and>
   FCGX_VFPrintF empt lib (chars ''%s'' @ [0]) [VString None] s r os = Inl NullDeref \<and>
   convert lib (chars ''%1s'') [VString None] 0 None = Inr (Some (chars ''(null)'', 100, 3, [], [], None)) \<and>
   FCGX_VFPrintF empt lib (chars ''%lld'' @ [0]) [VLong 1] s r os = Inr (- 1, [], s, r, os)"
proof (intro conjI)
  have f: "hd (chars (CHR ''%'' # f)) = ch_percent" "chars (CHR ''%'' # f) \<noteq> []" "length (chars f) = length f" for f
    by (simp_all add: chars_def)
  have nz: "0 \<notin> set (chars ''%c'')" "0 \<notin> set (chars ''%.*s'')" "0 \<notin> set (chars ''%s'')" "0 \<notin> set (chars ''%lld'')"
    by (simp_all add: chars_def)
  show "FCGX_VFPrintF empt lib (chars ''%c'' @ [0]) [VInt 0] s r os = Inr (0, [], s, r, os)"
    by (rule vfprintf_once(3) [OF f(1,2) nz(1), where bl = 100 and arg' = "[]" and aux = None]) (simp_all add: convert_plain_char f)
  show "FCGX_VFPrintF empt lib (chars ''%.*s'' @ [0]) [VInt (- 1), VString (Some (chars ''abc'' @ [0]))] s r os = Inr (0, [], s, r, os)"
    by (rule vfprintf_once(3) [OF f(1,2) nz(2), where bl = 100 and arg' = "[]" and aux = None]) (simp_all add: convert_minus_prec f)
  show "FCGX_VFPrintF empt lib (chars ''%s'' @ [0]) [VString None] s r os = Inl NullDeref"
    by (rule vfprintf_once(1) [OF f(1,2) nz(3)]) (rule convert_null)
  show "FCGX_VFPrintF empt lib (chars ''%lld'' @ [0]) [VLong 1] s r os = Inr (- 1, [], s, r, os)"
    by (rule vfprintf_once(2) [OF f(1,2) nz(4)]) (rule convert_long_long)
qed (rule convert_null)

end
