(* ===== verification/Stdio.thy ===== *)
theory Stdio
  imports Request Printf
begin

text \<open>
  \<^verbatim>\<open>libfcgi/fcgi_stdio.c\<close>: the \<^verbatim>\<open>stdio\<close> interface of the library. An \<^verbatim>\<open>FCGI_FILE\<close> holds a C stream or an
  \<^verbatim>\<open>FCGX_Stream\<close>, and every function calls the C library or the FastCGI library by which of the two it is.

  C streams are those of the C library, a parameter: a record of what its functions do with a stream
  (a number) in a state of their own. The streams of the static request are owned by the request; a
  pointer to one is a reference, and following it after the request was freed is a fault. The files are
  numbered: 0, 1 and 2 are \<^verbatim>\<open>_fcgi_sF\<close>, the others are allocated.
\<close>

section \<open>The C library\<close>

record ('w, 'f) stdio =
  c_fopen :: "byte list \<Rightarrow> byte list \<Rightarrow> 'w \<Rightarrow> nat option \<times> 'w"
  c_fdopen :: "int \<Rightarrow> byte list \<Rightarrow> 'w \<Rightarrow> nat option \<times> 'w"
  c_popen :: "byte list \<Rightarrow> byte list \<Rightarrow> 'w \<Rightarrow> nat option \<times> 'w"
  c_tmpfile :: "'w \<Rightarrow> nat option \<times> 'w"
  c_malloc :: "'w \<Rightarrow> bool"
  c_fclose :: "nat \<Rightarrow> 'w \<Rightarrow> int \<times> 'w"
  c_pclose :: "nat \<Rightarrow> 'w \<Rightarrow> int \<times> 'w"
  c_fflush :: "nat option \<Rightarrow> 'w \<Rightarrow> int \<times> 'w"
  c_freopen :: "byte list \<Rightarrow> byte list \<Rightarrow> nat \<Rightarrow> 'w \<Rightarrow> bool \<times> 'w"
  c_setvbuf :: "nat \<Rightarrow> byte list option \<Rightarrow> int \<Rightarrow> nat \<Rightarrow> 'w \<Rightarrow> int \<times> 'w"
  c_setbuf :: "nat \<Rightarrow> byte list option \<Rightarrow> 'w \<Rightarrow> 'w"
  c_fseek :: "nat \<Rightarrow> int \<Rightarrow> int \<Rightarrow> 'w \<Rightarrow> int \<times> 'w"
  c_ftell :: "nat \<Rightarrow> 'w \<Rightarrow> int \<times> 'w"
  c_rewind :: "nat \<Rightarrow> 'w \<Rightarrow> 'w"
  c_fgetpos :: "nat \<Rightarrow> 'w \<Rightarrow> (int \<times> int) \<times> 'w"
  c_fsetpos :: "nat \<Rightarrow> int \<Rightarrow> 'w \<Rightarrow> int \<times> 'w"
  c_fgetc :: "nat \<Rightarrow> 'w \<Rightarrow> int \<times> 'w"
  c_ungetc :: "int \<Rightarrow> nat \<Rightarrow> 'w \<Rightarrow> int \<times> 'w"
  c_fgets :: "int \<Rightarrow> nat \<Rightarrow> 'w \<Rightarrow> byte list option \<times> 'w"
  c_fputc :: "int \<Rightarrow> nat \<Rightarrow> 'w \<Rightarrow> int \<times> 'w"
  c_fputs :: "byte list \<Rightarrow> nat \<Rightarrow> 'w \<Rightarrow> int \<times> 'w"
  c_vfprintf :: "nat \<Rightarrow> byte list \<Rightarrow> 'f va list \<Rightarrow> 'w \<Rightarrow> (int \<times> (nat \<times> int) list) \<times> 'w"
  c_fread :: "nat \<Rightarrow> nat \<Rightarrow> nat \<Rightarrow> 'w \<Rightarrow> (nat \<times> byte list) \<times> 'w"
  c_fwrite :: "byte list \<Rightarrow> nat \<Rightarrow> nat \<Rightarrow> nat \<Rightarrow> 'w \<Rightarrow> nat \<times> 'w"
  c_feof :: "nat \<Rightarrow> 'w \<Rightarrow> int"
  c_ferror :: "nat \<Rightarrow> 'w \<Rightarrow> int"
  c_clearerr :: "nat \<Rightarrow> 'w \<Rightarrow> 'w"
  c_fileno :: "nat \<Rightarrow> 'w \<Rightarrow> int"
  c_strerror :: "int \<Rightarrow> byte list"

text \<open>\<^verbatim>\<open>stdin\<close>, \<^verbatim>\<open>stdout\<close>, \<^verbatim>\<open>stderr\<close> of the C library and of this one.\<close>

abbreviation (input) "c_stdin \<equiv> 0 :: nat"
abbreviation (input) "c_stdout \<equiv> 1 :: nat"
abbreviation (input) "c_stderr \<equiv> 2 :: nat"
abbreviation (input) "FCGI_stdin \<equiv> 0 :: nat"
abbreviation (input) "FCGI_stdout \<equiv> 1 :: nat"
abbreviation (input) "FCGI_stderr \<equiv> 2 :: nat"
abbreviation (input) "ESPIPE \<equiv> 29 :: int"

section \<open>State\<close>

record FCGI_FILE =
  stdio_stream :: "nat option"
  fcgx_stream :: "stream_ref option"

record 'w app =
  glob :: fcgx_globals
  oslib :: os_lib
  osst :: os_state
  acceptCalled :: bool
  isCGI :: bool
  files :: "nat \<Rightarrow> FCGI_FILE option"
  fresh_file :: nat
  environ :: "byte list option list option"
  at_exit :: nat
  world :: 'w

definition sF :: "nat \<Rightarrow> FCGI_FILE option" where
  "sF = (\<lambda>n. if n < 3 then Some \<lparr>stdio_stream = None, fcgx_stream = None\<rparr> else None)"

definition app_start :: "byte list option list option \<Rightarrow> os_lib \<Rightarrow> os_state \<Rightarrow> 'w \<Rightarrow> 'w app" where
  "app_start env l os w =
     \<lparr> glob = globals_start, oslib = l, osst = os, acceptCalled = False, isCGI = False, files = sF, fresh_file = 3,
       environ = env, at_exit = 0, world = w \<rparr>"

definition deref :: "nat \<Rightarrow> 'w app \<Rightarrow> fault + FCGI_FILE" where
  "deref fp a = (case files a fp of None \<Rightarrow> Inl NullDeref | Some f \<Rightarrow> Inr f)"

definition set_file :: "nat \<Rightarrow> FCGI_FILE \<Rightarrow> 'w app \<Rightarrow> 'w app" where
  "set_file fp f a = a\<lparr>files := (files a)(fp := Some f)\<rparr>"

text \<open>An operation of the FastCGI library on a stream of the static request.\<close>

definition on_stream ::
  "stream_ref \<Rightarrow> (strm \<Rightarrow> FCGX_Request \<Rightarrow> os_state \<Rightarrow> fault + 'a \<times> strm \<times> FCGX_Request \<times> os_state) \<Rightarrow>
    'w app \<Rightarrow> fault + 'a \<times> 'w app" where
  "on_stream ref f a =
     (let r = the_request (glob a) in
      case request_stream ref r of
        None \<Rightarrow> Inl NullDeref
      | Some s \<Rightarrow> rbind (f s r (osst a)) (\<lambda>(x, s, r, os).
          Inr (x, a\<lparr>glob := (glob a)\<lparr>the_request := put_stream ref (Some s) r\<rparr>, osst := os\<rparr>)))"

definition in_world :: "('w \<Rightarrow> 'a \<times> 'w) \<Rightarrow> 'w app \<Rightarrow> fault + 'a \<times> 'w app" where
  "in_world f a = (let (x, w) = f (world a) in Inr (x, a\<lparr>world := w\<rparr>))"

text \<open>The pattern of the wrappers: \<^verbatim>\<open>if(fp->stdio_stream) ... else if(fp->fcgx_stream) ... return none\<close>.\<close>

definition by_stream ::
  "nat \<Rightarrow> (nat \<Rightarrow> 'w app \<Rightarrow> fault + 'a \<times> 'w app) \<Rightarrow> (stream_ref \<Rightarrow> 'w app \<Rightarrow> fault + 'a \<times> 'w app) \<Rightarrow> 'a \<Rightarrow>
    'w app \<Rightarrow> fault + 'a \<times> 'w app" where
  "by_stream fp c x none a =
     rbind (deref fp a) (\<lambda>f.
     case stdio_stream f of
       Some h \<Rightarrow> c h a
     | None \<Rightarrow> (case fcgx_stream f of Some ref \<Rightarrow> x ref a | None \<Rightarrow> Inr (none, a)))"

section \<open>Requests\<close>

definition FCGI_Accept :: "environment \<Rightarrow> 'w app \<Rightarrow> fault + outcome \<times> 'w app" where
  "FCGI_Accept e a =
     (if acceptCalled a \<and> isCGI a then Inr (Returns EOF, a)
      else
        let (res, a) =
          (if \<not> acceptCalled a
           then let (cgi, g, l, os) = FCGX_IsCGI e (glob a) (oslib a) (osst a);
                    a = a\<lparr>glob := g, oslib := l, osst := os\<rparr>
                in (case cgi of Inl code \<Rightarrow> (Some code, a)
                    | Inr b \<Rightarrow> (None, a\<lparr>isCGI := b, acceptCalled := True, at_exit := at_exit a + 1\<rparr>))
           else (None, a))
        in case res of
          Some code \<Rightarrow> Inr (Exits code, a)
        | None \<Rightarrow>
            if isCGI a then
              let a = set_file FCGI_stdin \<lparr>stdio_stream = Some c_stdin, fcgx_stream = None\<rparr> a;
                  a = set_file FCGI_stdout \<lparr>stdio_stream = Some c_stdout, fcgx_stream = None\<rparr> a;
                  a = set_file FCGI_stderr \<lparr>stdio_stream = Some c_stderr, fcgx_stream = None\<rparr> a
              in Inr (Returns 0, a)
            else
              rbind (FCGX_Accept e (glob a) (oslib a) (osst a)) (\<lambda>((rc, ptrs), g, l, os).
              let a = a\<lparr>glob := g, oslib := l, osst := os\<rparr> in
              if rc < 0 then Inr (Returns rc, a)
              else case ptrs of
                None \<Rightarrow> Inl NullDeref
              | Some (_, _, _, env) \<Rightarrow>
                  let a = set_file FCGI_stdin \<lparr>stdio_stream = None, fcgx_stream = Some ReqIn\<rparr> a;
                      a = set_file FCGI_stdout \<lparr>stdio_stream = None, fcgx_stream = Some ReqOut\<rparr> a;
                      a = set_file FCGI_stderr \<lparr>stdio_stream = None, fcgx_stream = Some ReqErr\<rparr> a
                  in Inr (Returns 0, a\<lparr>environ := env\<rparr>)))"

definition FCGI_Finish :: "'w app \<Rightarrow> fault + 'w app" where
  "FCGI_Finish a =
     (if \<not> acceptCalled a \<or> isCGI a then Inr a
      else
        rbind (FCGX_Finish (glob a) (oslib a) (osst a)) (\<lambda>(g, l, os).
        let a = a\<lparr>glob := g, oslib := l, osst := os\<rparr> in
        rbind (deref FCGI_stdin a) (\<lambda>f. let a = set_file FCGI_stdin (f\<lparr>fcgx_stream := None\<rparr>) a in
        rbind (deref FCGI_stdout a) (\<lambda>f. let a = set_file FCGI_stdout (f\<lparr>fcgx_stream := None\<rparr>) a in
        rbind (deref FCGI_stderr a) (\<lambda>f. let a = set_file FCGI_stderr (f\<lparr>fcgx_stream := None\<rparr>) a in
        Inr (a\<lparr>environ := None\<rparr>))))))"

definition FCGI_StartFilterData :: "'w app \<Rightarrow> fault + int \<times> 'w app" where
  "FCGI_StartFilterData a =
     rbind (deref FCGI_stdin a) (\<lambda>f.
     case stdio_stream f of
       Some _ \<Rightarrow> Inr (- 1, a)
     | None \<Rightarrow> (case fcgx_stream f of None \<Rightarrow> Inl NullDeref
         | Some ref \<Rightarrow> on_stream ref (\<lambda>s r os. rbind (FCGX_StartFilterData s r) (\<lambda>(n, s). Inr (n, s, r, os))) a))"

definition FCGI_SetExitStatus :: "int \<Rightarrow> 'w app \<Rightarrow> fault + 'w app" where
  "FCGI_SetExitStatus status a =
     rbind (deref FCGI_stdin a) (\<lambda>f.
     case fcgx_stream f of
       None \<Rightarrow> Inr a
     | Some ref \<Rightarrow>
         rbind (on_stream ref (\<lambda>s r os. Inr ((), s, FCGX_SetExitStatus status r, os)) a) (\<lambda>(_, a). Inr a))"

section \<open>Opening and closing\<close>

definition FCGI_OpenFromFILE :: "('w, 'f) stdio \<Rightarrow> nat option \<Rightarrow> 'w app \<Rightarrow> nat option \<times> 'w app" where
  "FCGI_OpenFromFILE k stream a =
     (case stream of
        None \<Rightarrow> (None, a)
      | Some h \<Rightarrow>
          if c_malloc k (world a)
          then let fp = fresh_file a
               in (Some fp, set_file fp \<lparr>stdio_stream = Some h, fcgx_stream = None\<rparr> (a\<lparr>fresh_file := fp + 1\<rparr>))
          else (None, a))"

text \<open>\<^verbatim>\<open>FCGI_fopen\<close>, \<^verbatim>\<open>FCGI_tmpfile\<close>, \<^verbatim>\<open>FCGI_fdopen\<close> and \<^verbatim>\<open>FCGI_popen\<close> share their body: what is opened is
  closed again when no \<^verbatim>\<open>FCGI_FILE\<close> can be allocated for it.\<close>

definition open_with ::
  "('w, 'f) stdio \<Rightarrow> ('w \<Rightarrow> nat option \<times> 'w) \<Rightarrow> (nat \<Rightarrow> 'w \<Rightarrow> int \<times> 'w) \<Rightarrow> 'w app \<Rightarrow> nat option \<times> 'w app" where
  "open_with k opn cls a =
     (let (file, w) = opn (world a); a = a\<lparr>world := w\<rparr>;
          (fcgi_file, a) = FCGI_OpenFromFILE k file a
      in case (file, fcgi_file) of
           (Some h, None) \<Rightarrow> (None, a\<lparr>world := snd (cls h (world a))\<rparr>)
         | _ \<Rightarrow> (fcgi_file, a))"

definition FCGI_fopen :: "('w, 'f) stdio \<Rightarrow> byte list \<Rightarrow> byte list \<Rightarrow> 'w app \<Rightarrow> nat option \<times> 'w app" where
  "FCGI_fopen k path mode a = open_with k (c_fopen k path mode) (c_fclose k) a"

definition FCGI_tmpfile :: "('w, 'f) stdio \<Rightarrow> 'w app \<Rightarrow> nat option \<times> 'w app" where
  "FCGI_tmpfile k a = open_with k (c_tmpfile k) (c_fclose k) a"

definition FCGI_fdopen :: "('w, 'f) stdio \<Rightarrow> int \<Rightarrow> byte list \<Rightarrow> 'w app \<Rightarrow> nat option \<times> 'w app" where
  "FCGI_fdopen k fd mode a = open_with k (c_fdopen k fd mode) (c_fclose k) a"

definition FCGI_popen :: "('w, 'f) stdio \<Rightarrow> byte list \<Rightarrow> byte list \<Rightarrow> 'w app \<Rightarrow> nat option \<times> 'w app" where
  "FCGI_popen k cmd type a = open_with k (c_popen k cmd type) (c_pclose k) a"

definition close_stream :: "stream_ref \<Rightarrow> 'w app \<Rightarrow> fault + int \<times> 'w app" where
  "close_stream ref a =
     on_stream ref (\<lambda>s r os. rbind (FCGX_FClose EmptyBuffProc (Some s) r os) (\<lambda>(n, so, r, os). Inr (n, the so, r, os))) a"

definition free_file :: "nat \<Rightarrow> 'w app \<Rightarrow> 'w app" where
  "free_file fp a = (if fp < 3 then a else a\<lparr>files := (files a)(fp := None)\<rparr>)"

definition FCGI_fclose :: "('w, 'f) stdio \<Rightarrow> nat \<Rightarrow> 'w app \<Rightarrow> fault + int \<times> 'w app" where
  "FCGI_fclose k fp a =
     rbind (deref fp a) (\<lambda>f.
     rbind
       (case stdio_stream f of
          Some h \<Rightarrow> rbind (in_world (c_fclose k h) a) (\<lambda>(n, a). Inr (n, set_file fp (f\<lparr>stdio_stream := None\<rparr>) a))
        | None \<Rightarrow>
            (case fcgx_stream f of
               Some ref \<Rightarrow> rbind (close_stream ref a) (\<lambda>(n, a). Inr (n, set_file fp (f\<lparr>fcgx_stream := None\<rparr>) a))
             | None \<Rightarrow> Inr (EOF, a)))
       (\<lambda>(n, a). Inr (n, free_file fp a)))"

definition FCGI_pclose :: "('w, 'f) stdio \<Rightarrow> nat \<Rightarrow> 'w app \<Rightarrow> fault + int \<times> 'w app" where
  "FCGI_pclose k fp a =
     rbind (deref fp a) (\<lambda>f.
     case stdio_stream f of
       Some h \<Rightarrow>
         rbind (in_world (c_pclose k h) a) (\<lambda>(n, a). Inr (n, free_file fp (set_file fp (f\<lparr>stdio_stream := None\<rparr>) a)))
     | None \<Rightarrow> (case fcgx_stream f of Some _ \<Rightarrow> Inr (EOF, a) | None \<Rightarrow> Inr (EOF, free_file fp a)))"

definition FCGI_fflush :: "('w, 'f) stdio \<Rightarrow> nat option \<Rightarrow> 'w app \<Rightarrow> fault + int \<times> 'w app" where
  "FCGI_fflush k fpo a =
     (case fpo of
        None \<Rightarrow> in_world (c_fflush k None) a
      | Some fp \<Rightarrow> by_stream fp (\<lambda>h. in_world (c_fflush k (Some h))) (\<lambda>ref. on_stream ref (FCGX_FFlush EmptyBuffProc)) EOF a)"

definition FCGI_freopen ::
  "('w, 'f) stdio \<Rightarrow> byte list \<Rightarrow> byte list \<Rightarrow> nat \<Rightarrow> 'w app \<Rightarrow> fault + nat option \<times> 'w app" where
  "FCGI_freopen k path mode fp a =
     rbind (deref fp a) (\<lambda>f.
     case stdio_stream f of
       Some h \<Rightarrow> rbind (in_world (c_freopen k path mode h) a) (\<lambda>(ok, a). Inr (if ok then Some fp else None, a))
     | None \<Rightarrow>
         (case fcgx_stream f of
            Some ref \<Rightarrow>
              rbind (close_stream ref a) (\<lambda>(_, a).
              rbind (in_world (c_fopen k path mode) a) (\<lambda>(file, a).
              let f = f\<lparr>stdio_stream := file\<rparr>; a = set_file fp f a in
              if file = None then Inr (None, a) else Inr (Some fp, set_file fp (f\<lparr>fcgx_stream := None\<rparr>) a)))
          | None \<Rightarrow> Inr (None, a)))"

section \<open>Buffers and positions\<close>

definition set_errno :: "int \<Rightarrow> 'w app \<Rightarrow> 'w app" where
  "set_errno n a = a\<lparr>osst := (osst a)\<lparr>c_errno := n\<rparr>\<rparr>"

text \<open>These have no FastCGI side: an \<^verbatim>\<open>else\<close> for everything that is no C stream.\<close>

definition stdio_only :: "nat \<Rightarrow> (nat \<Rightarrow> 'w app \<Rightarrow> fault + 'a \<times> 'w app) \<Rightarrow> 'a \<times> 'w app \<Rightarrow> 'w app \<Rightarrow> fault + 'a \<times> 'w app" where
  "stdio_only fp c none a =
     rbind (deref fp a) (\<lambda>f. case stdio_stream f of Some h \<Rightarrow> c h a | None \<Rightarrow> Inr none)"

definition FCGI_setvbuf ::
  "('w, 'f) stdio \<Rightarrow> nat \<Rightarrow> byte list option \<Rightarrow> int \<Rightarrow> nat \<Rightarrow> 'w app \<Rightarrow> fault + int \<times> 'w app" where
  "FCGI_setvbuf k fp buf bufmode n a = stdio_only fp (\<lambda>h. in_world (c_setvbuf k h buf bufmode n)) (- 1, a) a"

definition FCGI_setbuf :: "('w, 'f) stdio \<Rightarrow> nat \<Rightarrow> byte list option \<Rightarrow> 'w app \<Rightarrow> fault + unit \<times> 'w app" where
  "FCGI_setbuf k fp buf a = stdio_only fp (\<lambda>h. in_world (\<lambda>w. ((), c_setbuf k h buf w))) ((), a) a"

definition FCGI_fseek :: "('w, 'f) stdio \<Rightarrow> nat \<Rightarrow> int \<Rightarrow> int \<Rightarrow> 'w app \<Rightarrow> fault + int \<times> 'w app" where
  "FCGI_fseek k fp offset whence a = stdio_only fp (\<lambda>h. in_world (c_fseek k h offset whence)) (- 1, set_errno ESPIPE a) a"

definition FCGI_ftell :: "('w, 'f) stdio \<Rightarrow> nat \<Rightarrow> 'w app \<Rightarrow> fault + int \<times> 'w app" where
  "FCGI_ftell k fp a =
     stdio_only fp (\<lambda>h. in_world (\<lambda>w. let (n, w) = c_ftell k h w in (wrap32 n, w))) (- 1, set_errno ESPIPE a) a"

definition FCGI_rewind :: "('w, 'f) stdio \<Rightarrow> nat \<Rightarrow> 'w app \<Rightarrow> fault + unit \<times> 'w app" where
  "FCGI_rewind k fp a = stdio_only fp (\<lambda>h. in_world (\<lambda>w. ((), c_rewind k h w))) ((), set_errno ESPIPE a) a"

definition FCGI_fgetpos :: "('w, 'f) stdio \<Rightarrow> nat \<Rightarrow> 'w app \<Rightarrow> fault + (int \<times> int option) \<times> 'w app" where
  "FCGI_fgetpos k fp a =
     stdio_only fp (\<lambda>h. in_world (\<lambda>w. let ((n, pos), w) = c_fgetpos k h w in ((n, Some pos), w)))
       ((- 1, None), set_errno ESPIPE a) a"

definition FCGI_fsetpos :: "('w, 'f) stdio \<Rightarrow> nat \<Rightarrow> int \<Rightarrow> 'w app \<Rightarrow> fault + int \<times> 'w app" where
  "FCGI_fsetpos k fp pos a = stdio_only fp (\<lambda>h. in_world (c_fsetpos k h pos)) (- 1, set_errno ESPIPE a) a"

section \<open>Reading\<close>

definition FCGI_fgetc :: "('w, 'f) stdio \<Rightarrow> nat \<Rightarrow> 'w app \<Rightarrow> fault + int \<times> 'w app" where
  "FCGI_fgetc k fp a =
     by_stream fp (\<lambda>h. in_world (c_fgetc k h)) (\<lambda>ref. on_stream ref (FCGX_GetChar FillBuffProc)) EOF a"

definition FCGI_getchar :: "('w, 'f) stdio \<Rightarrow> 'w app \<Rightarrow> fault + int \<times> 'w app" where
  "FCGI_getchar k a = FCGI_fgetc k FCGI_stdin a"

definition FCGI_ungetc :: "('w, 'f) stdio \<Rightarrow> int \<Rightarrow> nat \<Rightarrow> 'w app \<Rightarrow> fault + int \<times> 'w app" where
  "FCGI_ungetc k c fp a =
     by_stream fp (\<lambda>h. in_world (c_ungetc k c h))
       (\<lambda>ref. on_stream ref (\<lambda>s r os. rbind (FCGX_UnGetChar c s) (\<lambda>(n, s). Inr (n, s, r, os)))) EOF a"

definition FCGI_fgets :: "('w, 'f) stdio \<Rightarrow> int \<Rightarrow> nat \<Rightarrow> 'w app \<Rightarrow> fault + byte list option \<times> 'w app" where
  "FCGI_fgets k n fp a =
     by_stream fp (\<lambda>h. in_world (c_fgets k n h)) (\<lambda>ref. on_stream ref (FCGX_GetLine FillBuffProc n)) None a"

text \<open>\<^verbatim>\<open>FCGI_gets\<close> reads a line of any length: the bytes it stores, its NUL included. It may read for ever, so its
  result is optional.\<close>

partial_function (option) gets_loop ::
  "('w, 'f) stdio \<Rightarrow> byte list \<Rightarrow> 'w app \<Rightarrow> (fault + byte list option \<times> 'w app) option" where
  "gets_loop k acc a =
     (case FCGI_getchar k a of
        Inl e \<Rightarrow> Some (Inl e)
      | Inr (c, a) \<Rightarrow>
          if c = 10 then Some (Inr (Some (acc @ [0]), a))
          else if c = EOF then Some (Inr (if acc = [] then None else Some (acc @ [0]), a))
          else gets_loop k (acc @ [word_of_int c]) a)"

definition FCGI_gets :: "('w, 'f) stdio \<Rightarrow> 'w app \<Rightarrow> (fault + byte list option \<times> 'w app) option" where
  "FCGI_gets k a = gets_loop k [] a"

text \<open>\<^verbatim>\<open>size_t\<close> products, and an \<^verbatim>\<open>int\<close> divided as a \<^verbatim>\<open>size_t\<close>.\<close>

definition size_mult :: "nat \<Rightarrow> nat \<Rightarrow> nat" where
  "size_mult n m = n * m mod 2 ^ 64"

definition members :: "int \<Rightarrow> nat \<Rightarrow> nat" where
  "members n sz = nat (n mod 2 ^ 64) div sz"

definition FCGI_fread :: "('w, 'f) stdio \<Rightarrow> nat \<Rightarrow> nat \<Rightarrow> nat \<Rightarrow> 'w app \<Rightarrow> fault + (nat \<times> byte list) \<times> 'w app" where
  "FCGI_fread k sz nmemb fp a =
     by_stream fp (\<lambda>h. in_world (c_fread k sz nmemb h))
       (\<lambda>ref a.
          if size_mult sz nmemb = 0 then Inr ((0, []), a)
          else on_stream ref (\<lambda>s r os.
            rbind (FCGX_GetStr FillBuffProc (wrap32 (int (size_mult sz nmemb))) s r os) (\<lambda>(bs, s, r, os).
            Inr ((members (int (length bs)) sz, bs), s, r, os))) a)
       (2 ^ 64 - 1, []) a"

section \<open>Writing\<close>

definition FCGI_fputc :: "('w, 'f) stdio \<Rightarrow> int \<Rightarrow> nat \<Rightarrow> 'w app \<Rightarrow> fault + int \<times> 'w app" where
  "FCGI_fputc k c fp a =
     by_stream fp (\<lambda>h. in_world (c_fputc k c h)) (\<lambda>ref. on_stream ref (FCGX_PutChar EmptyBuffProc c)) EOF a"

definition FCGI_putchar :: "('w, 'f) stdio \<Rightarrow> int \<Rightarrow> 'w app \<Rightarrow> fault + int \<times> 'w app" where
  "FCGI_putchar k c a = FCGI_fputc k c FCGI_stdout a"

definition FCGI_fputs :: "('w, 'f) stdio \<Rightarrow> byte list \<Rightarrow> nat \<Rightarrow> 'w app \<Rightarrow> fault + int \<times> 'w app" where
  "FCGI_fputs k str fp a =
     by_stream fp (\<lambda>h. in_world (c_fputs k str h)) (\<lambda>ref. on_stream ref (FCGX_PutS EmptyBuffProc str)) EOF a"

definition FCGI_puts :: "('w, 'f) stdio \<Rightarrow> byte list \<Rightarrow> 'w app \<Rightarrow> fault + int \<times> 'w app" where
  "FCGI_puts k str a =
     by_stream FCGI_stdout
       (\<lambda>h a. rbind (in_world (c_fputs k str h) a) (\<lambda>(n, a). if n < 0 then Inr (n, a) else in_world (c_fputc k 10 h) a))
       (\<lambda>ref a. rbind (on_stream ref (FCGX_PutS EmptyBuffProc str) a) (\<lambda>(n, a).
          if n < 0 then Inr (n, a) else on_stream ref (FCGX_PutChar EmptyBuffProc 10) a))
       EOF a"

definition FCGI_perror :: "('w, 'f) stdio \<Rightarrow> byte list \<Rightarrow> 'w app \<Rightarrow> fault + 'w app" where
  "FCGI_perror k str a =
     rbind (FCGI_fputs k str FCGI_stderr a) (\<lambda>(_, a).
     rbind (FCGI_fputs k (chars '': '' @ [0]) FCGI_stderr a) (\<lambda>(_, a).
     rbind (FCGI_fputs k (c_strerror k (c_errno (osst a))) FCGI_stderr a) (\<lambda>(_, a). Inr a)))"

text \<open>The \<^verbatim>\<open>printf\<close> family: result and what \<^verbatim>\<open>%n\<close> stores.\<close>

definition FCGI_fprintf ::
  "('w, 'f) stdio \<Rightarrow> 'f libc \<Rightarrow> nat \<Rightarrow> byte list \<Rightarrow> 'f va list \<Rightarrow> 'w app \<Rightarrow> fault + (int \<times> (nat \<times> int) list) \<times> 'w app" where
  "FCGI_fprintf k lib fp format ap a =
     by_stream fp (\<lambda>h. in_world (c_vfprintf k h format ap))
       (\<lambda>ref. on_stream ref (\<lambda>s r os.
          rbind (FCGX_VFPrintF EmptyBuffProc lib format ap s r os) (\<lambda>(n, sts, s, r, os). Inr ((n, sts), s, r, os)))) (0, []) a"

definition FCGI_vfprintf ::
  "('w, 'f) stdio \<Rightarrow> 'f libc \<Rightarrow> nat \<Rightarrow> byte list \<Rightarrow> 'f va list \<Rightarrow> 'w app \<Rightarrow> fault + (int \<times> (nat \<times> int) list) \<times> 'w app" where
  "FCGI_vfprintf k lib fp format ap a =
     by_stream fp (\<lambda>h. in_world (c_vfprintf k h format ap))
       (\<lambda>ref. on_stream ref (\<lambda>s r os.
          rbind (FCGX_VFPrintF EmptyBuffProc lib format ap s r os) (\<lambda>(n, sts, s, r, os). Inr ((n, sts), s, r, os)))) (EOF, []) a"

definition FCGI_vprintf ::
  "('w, 'f) stdio \<Rightarrow> 'f libc \<Rightarrow> byte list \<Rightarrow> 'f va list \<Rightarrow> 'w app \<Rightarrow> fault + (int \<times> (nat \<times> int) list) \<times> 'w app" where
  "FCGI_vprintf k lib format ap a = FCGI_vfprintf k lib FCGI_stdout format ap a"

definition FCGI_printf ::
  "('w, 'f) stdio \<Rightarrow> 'f libc \<Rightarrow> byte list \<Rightarrow> 'f va list \<Rightarrow> 'w app \<Rightarrow> fault + (int \<times> (nat \<times> int) list) \<times> 'w app" where
  "FCGI_printf k lib format ap a = FCGI_vfprintf k lib FCGI_stdout format ap a"

text \<open>A negative count is a copy of nearly \<open>2 ^ 64\<close> bytes.\<close>

definition FCGI_fwrite :: "('w, 'f) stdio \<Rightarrow> byte list \<Rightarrow> nat \<Rightarrow> nat \<Rightarrow> nat \<Rightarrow> 'w app \<Rightarrow> fault + nat \<times> 'w app" where
  "FCGI_fwrite k ptr sz nmemb fp a =
     by_stream fp (\<lambda>h. in_world (c_fwrite k ptr sz nmemb h))
       (\<lambda>ref a.
          if size_mult sz nmemb = 0 then Inr (0, a)
          else
            let n = wrap32 (int (size_mult sz nmemb)) in
            if n < 0 \<or> int (length ptr) < n then Inl BufferOverrun
            else on_stream ref (\<lambda>s r os.
              rbind (FCGX_PutStr EmptyBuffProc (take (nat n) ptr) s r os) (\<lambda>(n, s, r, os). Inr (members n sz, s, r, os))) a)
       (2 ^ 64 - 1) a"

section \<open>Status\<close>

definition FCGI_feof :: "('w, 'f) stdio \<Rightarrow> nat \<Rightarrow> 'w app \<Rightarrow> fault + int \<times> 'w app" where
  "FCGI_feof k fp a =
     by_stream fp (\<lambda>h. in_world (\<lambda>w. (c_feof k h w, w))) (\<lambda>ref. on_stream ref (\<lambda>s r os. Inr (FCGX_HasSeenEOF s, s, r, os))) (- 1) a"

definition FCGI_ferror :: "('w, 'f) stdio \<Rightarrow> nat \<Rightarrow> 'w app \<Rightarrow> fault + int \<times> 'w app" where
  "FCGI_ferror k fp a =
     by_stream fp (\<lambda>h. in_world (\<lambda>w. (c_ferror k h w, w))) (\<lambda>ref. on_stream ref (\<lambda>s r os. Inr (FCGX_GetError s, s, r, os))) (- 1) a"

definition FCGI_clearerr :: "('w, 'f) stdio \<Rightarrow> nat \<Rightarrow> 'w app \<Rightarrow> fault + unit \<times> 'w app" where
  "FCGI_clearerr k fp a =
     by_stream fp (\<lambda>h. in_world (\<lambda>w. ((), c_clearerr k h w))) (\<lambda>ref. on_stream ref (\<lambda>s r os. Inr ((), FCGX_ClearError s, r, os))) () a"

definition FCGI_fileno :: "('w, 'f) stdio \<Rightarrow> nat \<Rightarrow> 'w app \<Rightarrow> fault + int \<times> 'w app" where
  "FCGI_fileno k fp a = stdio_only fp (\<lambda>h. in_world (\<lambda>w. (c_fileno k h w, w))) (- 1, a) a"

end
