(* ===== verification/StdioOut.thy ===== *)
theory StdioOut
  imports Stdio PrintfSpec
begin

text \<open>
  Output through the \<^verbatim>\<open>stdio\<close> interface of a FastCGI server: every call that writes, on either output
  file, extends what the web server will find by its data and returns what the C library would.
\<close>

section \<open>The calls\<close>

text \<open>The calls that write, on \<^verbatim>\<open>FCGI_stdout\<close> or \<^verbatim>\<open>FCGI_stderr\<close> (\<open>True\<close>) where they take a file.\<close>

datatype 'f out_op =
    Fputc int bool | Putchar int | Fputs "byte list" bool | Puts "byte list" | Fwrite "byte list" nat nat bool
  | Fprintf "piece list" "'f va list" bool | Printf "piece list" "'f va list" | Fflush bool

definition out_file :: "bool \<Rightarrow> nat" where
  "out_file err = (if err then FCGI_stderr else FCGI_stdout)"

fun out_step :: "('w, 'f) stdio \<Rightarrow> 'f libc \<Rightarrow> 'f out_op \<Rightarrow> 'w app \<Rightarrow> fault + int \<times> 'w app" where
  "out_step k lib (Fputc c err) a = FCGI_fputc k c (out_file err) a"
| "out_step k lib (Putchar c) a = FCGI_putchar k c a"
| "out_step k lib (Fputs str err) a = FCGI_fputs k str (out_file err) a"
| "out_step k lib (Puts str) a = FCGI_puts k str a"
| "out_step k lib (Fwrite ptr sz nmemb err) a =
     rbind (FCGI_fwrite k ptr sz nmemb (out_file err) a) (\<lambda>(n, a). Inr (int n, a))"
| "out_step k lib (Fprintf ps arg err) a =
     rbind (FCGI_fprintf k lib (out_file err) (render ps @ [0]) arg a) (\<lambda>((n, _), a). Inr (n, a))"
| "out_step k lib (Printf ps arg) a = rbind (FCGI_printf k lib (render ps @ [0]) arg a) (\<lambda>((n, _), a). Inr (n, a))"
| "out_step k lib (Fflush err) a = FCGI_fflush k (Some (out_file err)) a"

fun out_run :: "('w, 'f) stdio \<Rightarrow> 'f libc \<Rightarrow> 'f out_op list \<Rightarrow> 'w app \<Rightarrow> fault + int list \<times> 'w app" where
  "out_run k lib [] a = Inr ([], a)"
| "out_run k lib (x # xs) a =
     rbind (out_step k lib x a) (\<lambda>(n, a). rbind (out_run k lib xs a) (\<lambda>(ns, a). Inr (n # ns, a)))"

text \<open>The bytes a call is to write, the stream it writes them to, and what it returns.\<close>

fun call_data :: "'f libc \<Rightarrow> 'f out_op \<Rightarrow> byte list" where
  "call_data lib (Fputc c err) = [word_of_int c]"
| "call_data lib (Putchar c) = [word_of_int c]"
| "call_data lib (Fputs str err) = cstr str"
| "call_data lib (Puts str) = cstr str @ [10]"
| "call_data lib (Fwrite ptr sz nmemb err) = take (sz * nmemb) ptr"
| "call_data lib (Fprintf ps arg err) = the (printed lib ps arg)"
| "call_data lib (Printf ps arg) = the (printed lib ps arg)"
| "call_data lib (Fflush err) = []"

fun call_err :: "'f out_op \<Rightarrow> bool" where
  "call_err (Fputc c err) = err"
| "call_err (Fputs str err) = err"
| "call_err (Fwrite ptr sz nmemb err) = err"
| "call_err (Fprintf ps arg err) = err"
| "call_err (Fflush err) = err"
| "call_err _ = False"

fun call_result :: "'f libc \<Rightarrow> 'f out_op \<Rightarrow> int" where
  "call_result lib (Fputc c err) = uint (word_of_int c :: byte)"
| "call_result lib (Putchar c) = uint (word_of_int c :: byte)"
| "call_result lib (Fputs str err) = int (length (cstr str))"
| "call_result lib (Puts str) = 10"
| "call_result lib (Fwrite ptr sz nmemb err) = (if sz = 0 then 0 else int nmemb)"
| "call_result lib (Fprintf ps arg err) = int (length (the (printed lib ps arg)))"
| "call_result lib (Printf ps arg) = int (length (the (printed lib ps arg)))"
| "call_result lib (Fflush err) = 0"

text \<open>A call within the limits: \<^verbatim>\<open>fwrite\<close> of less than \<open>2 ^ 31\<close> bytes that are there; formats as \<^verbatim>\<open>FCGX_VFPrintF\<close>
  handles them.\<close>

fun call_ok :: "'f libc \<Rightarrow> 'f out_op \<Rightarrow> bool" where
  "call_ok lib (Fwrite ptr sz nmemb err) = (sz * nmemb < 2 ^ 31 \<and> sz * nmemb \<le> length ptr)"
| "call_ok lib (Fprintf ps arg err) = (within_limits lib ps arg \<and> printed lib ps arg \<noteq> None)"
| "call_ok lib (Printf ps arg) = (within_limits lib ps arg \<and> printed lib ps arg \<noteq> None)"
| "call_ok lib _ = True"

text \<open>The state of a program that serves a request: \<open>r\<close> is the request as accepted, \<open>d1\<close> and \<open>d2\<close> are the output
  and error output so far.\<close>

definition serving :: "FCGX_Request \<Rightarrow> os_state \<Rightarrow> os_lib \<Rightarrow> 'w \<Rightarrow> byte list \<Rightarrow> byte list \<Rightarrow> 'w app \<Rightarrow> bool" where
  "serving r os0 l w d1 d2 a \<longleftrightarrow>
     acceptCalled a \<and> \<not> isCGI a \<and> fcgx_globals.libInitialized (glob a) \<and> oslib a = l \<and> world a = w \<and>
     files a FCGI_stdin = Some \<lparr>stdio_stream = None, fcgx_stream = Some ReqIn\<rparr> \<and>
     files a FCGI_stdout = Some \<lparr>stdio_stream = None, fcgx_stream = Some ReqOut\<rparr> \<and>
     files a FCGI_stderr = Some \<lparr>stdio_stream = None, fcgx_stream = Some ReqErr\<rparr> \<and>
     (\<exists>out err rs. the_request (glob a) = r\<lparr>outS := Some out, errS := Some err\<rparr> \<and>
        session r os0 out err (osst a) rs d1 d2 \<and> writes_ok (ipcFd r) (osst a))"

lemma emits_as_printf:
  assumes "within_limits lib ps arg" "printed lib ps arg = Some out"
  shows "emits_as (\<lambda>s r os. rbind (FCGX_VFPrintF EmptyBuffProc lib (render ps @ [0]) arg s r os)
    (\<lambda>(n, sts, s, r, os). Inr ((n, sts), s, r, os))) (int (length out), []) out"
  unfolding emits_as_def
proof (intro allI impI)
  fix t s and r :: FCGX_Request and os
  assume s: "open_writer t s" "writes_ok (ipcFd r) os"
  obtain s' os' where "FCGX_VFPrintF EmptyBuffProc lib (render ps @ [0]) arg s r os = Inr (int (length out), [], s', r, os')"
    "emitted emits_framed out s r os s' os'"
    by (rule VFPrintF_emits [OF s assms])
  then show "\<exists>s' os'. rbind (FCGX_VFPrintF EmptyBuffProc lib (render ps @ [0]) arg s r os)
      (\<lambda>(n, sts, s, r, os). Inr ((n, sts), s, r, os)) = Inr ((int (length out), []), s', r, os') \<and>
    emitted emits_framed out s r os s' os'"
    by simp
qed

lemma on_stream_emits:
  assumes a: "serving r os0 l w d1 d2 a" and f: "emits_as f x bs"
  shows "\<exists>a'. on_stream ReqOut f a = Inr (x, a') \<and> serving r os0 l w (d1 @ bs) d2 a'"
    "\<exists>a'. on_stream ReqErr f a = Inr (x, a') \<and> serving r os0 l w d1 (d2 @ bs) a'"
proof -
  obtain out err rs where r: "the_request (glob a) = r\<lparr>outS := Some out, errS := Some err\<rparr>"
    "session r os0 out err (osst a) rs d1 d2" "writes_ok (ipcFd r) (osst a)"
    using a by (auto simp: serving_def)
  let ?r = "r\<lparr>outS := Some out, errS := Some err\<rparr>"
  have ses: "session ?r os0 out err (osst a) rs d1 d2" "writes_ok (ipcFd ?r) (osst a)" using r by (simp_all add: session_cong)
  have o: "open_writer 6 out" "open_writer 7 err" using r(2) by (simp_all add: session_def)
  obtain s1 os1 where 1: "f out ?r (osst a) = Inr (x, s1, ?r, os1)" "emitted emits_framed bs out ?r (osst a) s1 os1"
    using f o(1) ses(2) unfolding emits_as_def by blast
  obtain rs1 where "session ?r os0 s1 err os1 rs1 (d1 @ bs) d2" "writes_ok (ipcFd ?r) os1"
    by (rule session_emit_out [OF ses(1) 1(2) ses(2)])
  then show "\<exists>a'. on_stream ReqOut f a = Inr (x, a') \<and> serving r os0 l w (d1 @ bs) d2 a'"
    using a 1(1) unfolding on_stream_def r(1) by (auto simp: serving_def session_cong simp del: put_stream.simps)
  obtain s2 os2 where 2: "f err ?r (osst a) = Inr (x, s2, ?r, os2)" "emitted emits_framed bs err ?r (osst a) s2 os2"
    using f o(2) ses(2) unfolding emits_as_def by blast
  obtain rs2 where "session ?r os0 out s2 os2 rs2 d1 (d2 @ bs)" "writes_ok (ipcFd ?r) os2"
    by (rule session_emit_err [OF ses(1) 2(2) ses(2)])
  then show "\<exists>a'. on_stream ReqErr f a = Inr (x, a') \<and> serving r os0 l w d1 (d2 @ bs) a'"
    using a 2(1) unfolding on_stream_def r(1) by (auto simp: serving_def session_cong simp del: put_stream.simps)
qed

lemma by_stream_emits:
  assumes a: "serving r os0 l w d1 d2 a" and f: "emits_as f x bs"
  shows "\<exists>a'. by_stream (out_file b) c (\<lambda>ref. on_stream ref f) none a = Inr (x, a') \<and>
    serving r os0 l w (d1 @ (if b then [] else bs)) (d2 @ (if b then bs else [])) a'"
  using on_stream_emits [OF a f] a by (cases b) (auto simp: by_stream_def deref_def out_file_def serving_def)

text \<open>Each call within the limits extends the output by its data.\<close>

lemma int_less_power: "(n :: nat) < 2 ^ k \<Longrightarrow> int n < 2 ^ k"
  by (metis of_nat_less_iff of_nat_numeral of_nat_power)

lemma size_mult_small: "n * m < 2 ^ 31 \<Longrightarrow> size_mult n m = n * m \<and> wrap32 (int (size_mult n m)) = int (n * m)"
proof -
  assume a: "n * m < 2 ^ 31"
  then have "n * m < 2 ^ 64" by (rule less_le_trans) simp
  then have "size_mult n m = n * m" by (simp add: size_mult_def)
  moreover have "0 \<le> int (n * m)" by (rule of_nat_0_le_iff)
  then have "wrap32 (int (n * m)) = int (n * m)" using int_less_power [OF a] by (intro wrap32_id) linarith+
  ultimately show ?thesis by simp
qed

lemma members_mult: "0 < sz \<Longrightarrow> sz * m < 2 ^ 64 \<Longrightarrow> members (int (sz * m)) sz = m"
proof -
  assume a: "0 < sz" "sz * m < 2 ^ 64"
  have "int (sz * m) mod 2 ^ 64 = int (sz * m)" using int_less_power [OF a(2)] by (intro mod_pos_pos_trivial) simp_all
  then have "members (int (sz * m)) sz = nat (int (sz * m)) div sz" unfolding members_def by (rule arg_cong)
  then show ?thesis using a(1) by (simp only: nat_int nonzero_mult_div_cancel_left)
qed

lemma out_step_serving:
  assumes a: "serving r os0 l w d1 d2 a" and ok: "call_ok lib x"
  shows "\<exists>a'. out_step k lib x a = Inr (call_result lib x, a') \<and>
    serving r os0 l w (d1 @ (if call_err x then [] else call_data lib x)) (d2 @ (if call_err x then call_data lib x else [])) a'"
proof -
  note put = by_stream_emits [OF a]
  have std: "out_file False = FCGI_stdout" by (simp add: out_file_def)
  note out = put [where b = False, unfolded std if_False append_Nil2]
  show ?thesis
  proof (cases x)
    case (Fputc c err)
    show ?thesis unfolding Fputc out_step.simps FCGI_fputc_def call_result.simps call_err.simps call_data.simps
      by (rule put [OF emits_as_writer(1)])
  next
    case (Putchar c)
    show ?thesis
      unfolding Putchar out_step.simps FCGI_putchar_def FCGI_fputc_def call_result.simps call_err.simps call_data.simps if_False append_Nil2
      by (rule out [OF emits_as_writer(1)])
  next
    case (Fputs str err)
    show ?thesis unfolding Fputs out_step.simps FCGI_fputs_def call_result.simps call_err.simps call_data.simps
      by (rule put [OF emits_as_writer(3)])
  next
    case (Puts str)
    obtain a1 where 1: "on_stream ReqOut (FCGX_PutS EmptyBuffProc str) a = Inr (int (length (cstr str)), a1)"
      "serving r os0 l w (d1 @ cstr str) d2 a1"
      using on_stream_emits(1) [OF a emits_as_writer(3)] by blast
    obtain a2 where 2: "on_stream ReqOut (FCGX_PutChar EmptyBuffProc 10) a1 = Inr (10, a2)"
      "serving r os0 l w ((d1 @ cstr str) @ [10]) d2 a2"
      using on_stream_emits(1) [OF 1(2) emits_as_writer(1), of 10] by auto
    show ?thesis
      using Puts a 1 2 by (simp add: FCGI_puts_def by_stream_def deref_def serving_def)
  next
    case (Fwrite ptr sz nmemb err)
    note m = size_mult_small [of sz nmemb]
    have lim: "sz * nmemb < 2 ^ 31" "sz * nmemb \<le> length ptr" using ok Fwrite by simp_all
    show ?thesis
    proof (cases "sz * nmemb = 0")
      case True
      then have z: "size_mult sz nmemb = 0" by (simp only: size_mult_def mod_0)
      have "FCGI_fwrite k ptr sz nmemb (out_file err) a = Inr (0, a)"
        using a z by (cases err) (simp_all add: FCGI_fwrite_def by_stream_def deref_def serving_def out_file_def)
      moreover have "call_result lib x = 0" "call_data lib x = []" using Fwrite True by auto
      moreover have "out_step k lib x a = Inr (0, a)" using Fwrite calculation(1) by simp
      ultimately show ?thesis using a by (simp only: append_Nil2 if_cancel) blast
    next
      case False
      have n: "nat (int (sz * nmemb)) = sz * nmemb" by (rule nat_int)
      have ln: "length (take (sz * nmemb) ptr) = sz * nmemb" using lim(2) by simp
      have mem: "members (int (sz * nmemb)) sz = nmemb" using False lim(1) by (intro members_mult) simp_all
      let ?f = "\<lambda>s r os. rbind (FCGX_PutStr EmptyBuffProc (take (sz * nmemb) ptr) s r os) (\<lambda>(n, s, r, os). Inr (members n sz, s, r, os))"
      have f: "emits_as ?f nmemb (take (sz * nmemb) ptr)"
        using emits_as_map [OF emits_as_writer(2) [of "take (sz * nmemb) ptr"], where g = "\<lambda>n. members n sz"] by (simp only: ln mem)
      have "FCGI_fwrite k ptr sz nmemb (out_file err) a =
          by_stream (out_file err) (\<lambda>h. in_world (c_fwrite k ptr sz nmemb h)) (\<lambda>ref. on_stream ref ?f) (2 ^ 64 - 1) a"
        using False lim m unfolding FCGI_fwrite_def by (simp add: n del: of_nat_mult)
      moreover obtain a' where "by_stream (out_file err) (\<lambda>h. in_world (c_fwrite k ptr sz nmemb h)) (\<lambda>ref. on_stream ref ?f) (2 ^ 64 - 1) a =
          Inr (nmemb, a')" "serving r os0 l w (d1 @ (if err then [] else take (sz * nmemb) ptr))
          (d2 @ (if err then take (sz * nmemb) ptr else [])) a'"
        using put [OF f] by blast
      ultimately show ?thesis using Fwrite False by (cases err) auto
    qed
  next
    case (Fprintf ps arg err)
    then obtain out where "printed lib ps arg = Some out" "within_limits lib ps arg" using ok by auto
    then obtain a' where "FCGI_fprintf k lib (out_file err) (render ps @ [0]) arg a = Inr ((int (length out), []), a')"
      "serving r os0 l w (d1 @ (if err then [] else out)) (d2 @ (if err then out else [])) a'"
      using put [OF emits_as_printf, of lib ps arg out err] unfolding FCGI_fprintf_def by blast
    then show ?thesis using Fprintf \<open>printed lib ps arg = Some out\<close> by (cases err) auto
  next
    case (Printf ps arg)
    then obtain out where p: "printed lib ps arg = Some out" "within_limits lib ps arg" using ok by auto
    obtain a' where "FCGI_vfprintf k lib FCGI_stdout (render ps @ [0]) arg a = Inr ((int (length out), []), a')"
      "serving r os0 l w (d1 @ out) d2 a'"
      using out [OF emits_as_printf [OF p(2,1)]] unfolding FCGI_vfprintf_def by blast
    then show ?thesis using Printf p by (simp add: FCGI_printf_def)
  next
    case (Fflush err)
    show ?thesis unfolding Fflush out_step.simps FCGI_fflush_def option.case call_result.simps call_err.simps call_data.simps
      by (rule put [OF emits_as_writer(4)])
  qed
qed

lemma out_run_serving:
  assumes "serving r os0 l w d1 d2 a" "\<forall>x \<in> set xs. call_ok lib x"
  shows "\<exists>a'. out_run k lib xs a = Inr (map (call_result lib) xs, a') \<and>
    serving r os0 l w (d1 @ concat (map (\<lambda>x. if call_err x then [] else call_data lib x) xs))
      (d2 @ concat (map (\<lambda>x. if call_err x then call_data lib x else []) xs)) a'"
  using assms
proof (induction xs arbitrary: d1 d2 a)
  case (Cons x xs)
  obtain a1 where 1: "out_step k lib x a = Inr (call_result lib x, a1)"
    "serving r os0 l w (d1 @ (if call_err x then [] else call_data lib x)) (d2 @ (if call_err x then call_data lib x else [])) a1"
    using out_step_serving [OF Cons.prems(1), of lib x k] Cons.prems(2) by auto
  show ?case using Cons.IH [OF 1(2)] Cons.prems(2) 1(1) by fastforce
qed simp

end
