(* ===== verification/StdioServe.thy ===== *)
theory StdioServe
  imports StdioOut
begin

text \<open>
  The life of a program written against the \<^verbatim>\<open>stdio\<close> interface: its first \<^verbatim>\<open>FCGI_Accept\<close> decides between CGI
  and FastCGI; a FastCGI server accepts, writes and finishes requests; a CGI program gets the C library.
\<close>

section \<open>Accepting\<close>

text \<open>A server that has no request: before its first one has been accepted but after the library was set up, or
  after one whose connection was closed.\<close>

definition idle :: "'w app \<Rightarrow> bool" where
  "idle a \<longleftrightarrow> acceptCalled a \<and> \<not> isCGI a \<and> fcgx_globals.libInitialized (glob a) \<and> inS (the_request (glob a)) = None \<and>
     ipcFd (the_request (glob a)) = - 1"

text \<open>A process at its start, whose standard input is a listening socket.\<close>

definition fresh_server :: "environment \<Rightarrow> 'w app \<Rightarrow> bool" where
  "fresh_server e a \<longleftrightarrow> memory e \<and> peername e = 107 \<and>
     (\<exists>env ds evs os. a = app_start env (os_start ds evs) os (world a))"

text \<open>The addresses a server approves of, and whether an interrupted \<^verbatim>\<open>accept\<close> is an error to it.\<close>

definition approves :: "environment \<Rightarrow> 'w app \<Rightarrow> accept_event \<Rightarrow> verdict" where
  "approves e a =
     (if acceptCalled a then verdict_of (inet_addr e) (flags (the_request (glob a)) AND 1 \<noteq> 0) (webServerAddressList (glob a))
      else verdict_of (inet_addr e) False (map_option StringCopy (web_server_addrs e)))"

lemma IsCGI_server:
  assumes "memory e" "peername e = 107"
  shows "\<exists>l. FCGX_IsCGI e globals_start (os_start ds evs) os =
      (Inr False, \<lparr> libInitialized = True, isFastCGI = 1, webServerAddressList = map_option StringCopy (web_server_addrs e),
         the_request = snd (FCGX_InitRequest 0 0) \<rparr>, l, os\<lparr>c_errno := 107\<rparr>) \<and>
    accepts l = evs \<and> \<not> shutdownPending l \<and> \<not> asyncIoInUse l \<and> descriptors l = ds \<and> closed l = []"
  using assms
  by (simp add: FCGX_IsCGI_def FCGX_Init_def OS_LibInit_def OS_InstallSignalHandlers_def OS_IsFcgi_def globals_start_def
      os_start_def Let_def)

lemma first_accept:
  assumes "fresh_server e a"
  obtains a' where "FCGI_Accept e a = FCGI_Accept e a'" "idle a'" "accepts (oslib a') = accepts (oslib a)"
    "\<not> shutdownPending (oslib a')" "\<not> asyncIoInUse (oslib a')" "closed (oslib a') = closed (oslib a)" "conns (osst a') = conns (osst a)"
    "shutdownNow (osst a') = shutdownNow (osst a)" "world a' = world a" "approves e a' = approves e a"
    "appStatus (the_request (glob a')) = appStatus (the_request (glob a))"
proof -
  obtain env ds evs os where a: "a = app_start env (os_start ds evs) os (world a)" and e: "memory e" "peername e = 107"
    using assms unfolding fresh_server_def by blast
  obtain l where l: "FCGX_IsCGI e globals_start (os_start ds evs) os =
      (Inr False, \<lparr> libInitialized = True, isFastCGI = 1, webServerAddressList = map_option StringCopy (web_server_addrs e),
         the_request = snd (FCGX_InitRequest 0 0) \<rparr>, l, os\<lparr>c_errno := 107\<rparr>)"
    "accepts l = evs" "\<not> shutdownPending l" "\<not> asyncIoInUse l" "closed l = []"
    using IsCGI_server [OF e] by blast
  have f: "acceptCalled a = False" "isCGI a = False" "glob a = globals_start" "oslib a = os_start ds evs" "osst a = os"
    by (subst a, simp add: app_start_def)+
  let ?g = "\<lparr> libInitialized = True, isFastCGI = 1, webServerAddressList = map_option StringCopy (web_server_addrs e),
         the_request = snd (FCGX_InitRequest 0 0) \<rparr>"
  let ?a = "a\<lparr>glob := ?g, oslib := l, osst := os\<lparr>c_errno := 107\<rparr>, isCGI := False, acceptCalled := True, at_exit := at_exit a + 1\<rparr>"
  have "FCGI_Accept e a = FCGI_Accept e ?a"
    unfolding FCGI_Accept_def f l(1) by simp
  then show ?thesis
    using l by (intro that [of ?a]) (simp_all add: f idle_def approves_def FCGX_InitRequest_def zero_request_def
        os_start_def globals_start_def)
qed

text \<open>The next connection of a server that will be accepted.\<close>

definition next_client :: "environment \<Rightarrow> 'w app \<Rightarrow> accept_event list \<Rightarrow> accept_event \<Rightarrow> accept_event list \<Rightarrow> int \<Rightarrow> bool" where
  "next_client e a pre ev post fd \<longleftrightarrow>
     accepts (oslib a) = pre @ ev # post \<and> \<not> shutdownPending (oslib a) \<and> \<not> asyncIoInUse (oslib a) \<and>
     (\<forall>x \<in> set pre. calm x \<and> (\<forall>c. approves e a x \<noteq> Result c)) \<and> calm ev \<and> approves e a ev = Result fd \<and> 0 \<le> fd"

lemma accept_idle:
  assumes a: "idle a" and c: "next_client e a pre ev post fd" and b: "begins i body kvs rs X fd (osst a)"
  obtains a' where "FCGI_Accept e a = Inr (Returns 0, a')"
    "accepted e i body kvs X (the_request (glob a')) (osst a')" "ipcFd (the_request (glob a')) = fd"
    "appStatus (the_request (glob a')) = appStatus (the_request (glob a))"
    "environ a' = envp (the_request (glob a'))" "accepts (oslib a') = post" "descriptors (oslib a') fd = Live" "\<not> asyncIoInUse (oslib a')"
    "\<not> shutdownPending (oslib a')" "closed (oslib a') = closed (oslib a) @ refused (map (approves e a) pre)"
    "sent (conns (osst a') fd) = sent (conns (osst a) fd) @ answers FCGI_PARAMS i False rs"
    "serving (the_request (glob a')) (osst a') (oslib a') (world a) [] [] a'"
proof -
  let ?r = "the_request (glob a)"
  have g: "fcgx_globals.libInitialized (glob a)" "inS ?r = None" "ipcFd ?r = - 1" "acceptCalled a" "\<not> isCGI a" using a by (simp_all add: idle_def)
  have v: "approves e a = verdict_of (inet_addr e) (flags ?r AND 1 \<noteq> 0) (webServerAddressList (glob a))"
    using g(4) by (simp add: approves_def)
  note c = c [unfolded next_client_def v]
  obtain r' ds os' l' where 1: "FCGX_Accept_r e (glob a) ?r (oslib a) (osst a) = Inr (0, r', l', os')"
    "l' = (oslib a)\<lparr>accepts := post, descriptors := ds, closed := closed (oslib a) @ refused (map (approves e a) pre)\<rparr>"
    "ds fd = Live" "accepted e i body kvs X r' os'" "ipcFd r' = fd" "appStatus r' = appStatus ?r"
    "sent (conns os' fd) = sent (conns (osst a) fd) @ answers FCGI_PARAMS i False rs" "writes_ok fd os'"
    using Accept_r_ok [OF g(1-3), of "oslib a" pre ev post e fd i body kvs rs X "osst a"] c b unfolding v by blast
  let ?f = "\<lambda>ref. \<lparr>stdio_stream = None, fcgx_stream = Some ref\<rparr>"
  let ?a = "set_file FCGI_stderr (?f ReqErr) (set_file FCGI_stdout (?f ReqOut) (set_file FCGI_stdin (?f ReqIn)
      (a\<lparr>glob := (glob a)\<lparr>the_request := r'\<rparr>, oslib := l', osst := os'\<rparr>)))\<lparr>environ := envp r'\<rparr>"
  have acc: "FCGI_Accept e a = Inr (Returns 0, ?a)"
    using g 1(1) by (simp add: FCGI_Accept_def FCGX_Accept_def Let_def)
  have st: "outS r' = Some (NewWriter (out_block e) 8192 6)" "errS r' = Some (NewWriter (err_block e) 512 7)"
    using 1(4) by (simp_all add: accepted_def)
  have "r' = r'\<lparr>outS := Some (NewWriter (out_block e) 8192 6), errS := Some (NewWriter (err_block e) 512 7)\<rparr>"
    using st by (cases r') simp
  then have "\<exists>out err rs. r' = r'\<lparr>outS := Some out, errS := Some err\<rparr> \<and> session r' os' out err os' rs [] [] \<and> writes_ok (ipcFd r') os'"
    using session_start 1(5,8) by blast
  then have "serving r' os' l' (world a) [] [] ?a"
    unfolding serving_def using g by (simp add: set_file_def)
  then show ?thesis
    using 1 c by (intro that [OF acc]) (simp_all add: set_file_def)
qed

text \<open>The first call or a later one.\<close>

lemma start_idle:
  assumes "idle a \<or> fresh_server e a" "next_client e a pre ev post fd" "begins i body kvs rs X fd (osst a)"
  obtains a0 where "FCGI_Accept e a = FCGI_Accept e a0" "idle a0" "next_client e a0 pre ev post fd"
    "begins i body kvs rs X fd (osst a0)" "conns (osst a0) = conns (osst a)" "closed (oslib a0) = closed (oslib a)" "world a0 = world a"
    "approves e a0 = approves e a"
proof (cases "idle a")
  case True
  then show ?thesis using that [of a] assms(2,3) by simp
next
  case False
  then obtain a' where 1: "FCGI_Accept e a = FCGI_Accept e a'" "idle a'" "accepts (oslib a') = accepts (oslib a)"
    "\<not> shutdownPending (oslib a')" "\<not> asyncIoInUse (oslib a')" "closed (oslib a') = closed (oslib a)" "conns (osst a') = conns (osst a)"
    "shutdownNow (osst a') = shutdownNow (osst a)" "world a' = world a" "approves e a' = approves e a"
    using first_accept [of e a] assms(1) by blast
  show ?thesis
    using 1 assms(2,3) begins_cong [OF 1(7,8), of i body kvs rs X fd] by (intro that [of a']) (simp_all add: next_client_def)
qed

section \<open>Finishing\<close>

lemma finish_serving:
  assumes a: "serving r os0 l w d1 d2 a" and r: "inS r = Some s" "FCGX_GetError s = 0" "nWriters r = 2"
    "0 \<le> requestId r" "requestId r < 2 ^ 16"
    and l: "\<not> asyncIoInUse l" "0 \<le> ipcFd r" "descriptors l (ipcFd r) = Live"
  obtains r' l' os' wire recs where "FCGX_Finish_r (Some (the_request (glob a))) l (osst a) = Inr (Some r', l', os')"
    "FCGX_Finish_r (Some r') l' os' = Inr (Some r', l', os')"
    "sent (conns os' (ipcFd r)) = sent (conns os0 (ipcFd r)) @ wire" "parse_records wire = Some recs"
    "peer_finds r d1 d2 recs" "inS r' = None" "outS r' = None" "errS r' = None"
    "if keepConnection r = 0
     then ipcFd r' = - 1 \<and> l' = l\<lparr>descriptors := (descriptors l)(ipcFd r := NotOpen), closed := closed l @ [ipcFd r]\<rparr>
     else ipcFd r' = ipcFd r \<and> l' = l"
proof -
  obtain out err rs where q: "the_request (glob a) = r\<lparr>outS := Some out, errS := Some err\<rparr>"
    "session r os0 out err (osst a) rs d1 d2" "writes_ok (ipcFd r) (osst a)"
    using a by (auto simp: serving_def)
  let ?r = "r\<lparr>outS := Some out, errS := Some err\<rparr>"
  let ?r1 = "?r\<lparr>nWriters := 0, inS := None, outS := None, errS := None, paramsPtr := None,
      ipcFd := if keepConnection r = 0 then - 1 else ipcFd r\<rparr>"
  have ip: "ipcFd ?r = ipcFd r" "keepConnection ?r = keepConnection r" "requestId ?r = requestId r" by simp_all
  have ses: "session ?r os0 out err (osst a) rs d1 d2" using q(2) by (simp add: session_cong)
  have f: "writes_ok (ipcFd ?r) (osst a)" "nWriters ?r = 2" "inS ?r = Some s" "outS ?r = Some out" "errS ?r = Some err"
    "ipcFd ?r \<noteq> - 1" "descriptors l (ipcFd ?r) = Live" using q(3) r l by simp_all
  obtain l' os' where fin: "FCGX_Finish_r (Some ?r) l (osst a) = Inr (Some ?r1, l', os')"
    "sent (conns os' (ipcFd r)) = sent (conns os0 (ipcFd r)) @ wire_of (requestId r) (rs @ final_records out err ?r)"
    "if keepConnection r = 0 then l' = l\<lparr>descriptors := (descriptors l)(ipcFd r := NotOpen), closed := closed l @ [ipcFd r]\<rparr>
     else l' = l \<and> arriving (ipcFd r) os' = arriving (ipcFd r) (osst a)"
    using Finish_r_ok [OF ses f(1-3) r(2) f(4,5) l(1) f(6,7), unfolded ip] by blast
  obtain recs where recs: "parse_records (wire_of (requestId r) (rs @ final_records out err ?r)) = Some recs"
    "peer_finds r d1 d2 recs"
    using session_parsed [OF q(2) r(4,5)] by (auto simp: session_cong)
  have "FCGX_Finish_r (Some ?r1) l' os' = Inr (Some ?r1, l', os')"
    by (cases "keepConnection r = 0")
      (simp_all add: FCGX_Finish_r_def FCGX_Free_def FCGX_FreeStream_def FreeParams_def OS_IpcClose_def OS_Close_def Let_def)
  then show ?thesis
    using fin recs by (intro that [of ?r1 l' os']) (simp_all add: q(1) split: if_splits)
qed

definition no_file :: FCGI_FILE where
  "no_file = \<lparr>stdio_stream = None, fcgx_stream = None\<rparr>"

definition finished :: "FCGX_Request \<Rightarrow> os_lib \<Rightarrow> os_state \<Rightarrow> 'w app \<Rightarrow> 'w app" where
  "finished r l os a = a\<lparr>glob := (glob a)\<lparr>the_request := r\<rparr>, oslib := l, osst := os,
     files := (files a)(FCGI_stdin := Some no_file, FCGI_stdout := Some no_file, FCGI_stderr := Some no_file), environ := None\<rparr>"

lemma FCGI_Finish_serving:
  assumes "serving r os0 l w d1 d2 a" "FCGX_Finish_r (Some (the_request (glob a))) l (osst a) = Inr (Some r', l', os')"
  shows "FCGI_Finish a = Inr (finished r' l' os' a)"
proof -
  have "\<exists>f. FCGI_Finish a = Inr (f (a\<lparr>glob := (glob a)\<lparr>the_request := r'\<rparr>, oslib := l', osst := os'\<rparr>))
      \<and> (\<forall>b. files b = files a \<longrightarrow> f b = b\<lparr>files := (files b)(FCGI_stdin := Some no_file, FCGI_stdout := Some no_file,
        FCGI_stderr := Some no_file), environ := None\<rparr>)"
    using assms
    by (intro exI [of _ "\<lambda>b. b\<lparr>files := (files b)(FCGI_stdin := Some no_file, FCGI_stdout := Some no_file,
        FCGI_stderr := Some no_file), environ := None\<rparr>"])
      (simp add: FCGI_Finish_def FCGX_Finish_def serving_def deref_def set_file_def no_file_def Let_def)
  then show ?thesis by (auto simp: finished_def)
qed

section \<open>A request from its acceptance to its end\<close>

text \<open>What the calls write on one of the two files.\<close>

definition written :: "'f libc \<Rightarrow> bool \<Rightarrow> 'f out_op list \<Rightarrow> byte list" where
  "written lib err xs = concat (map (\<lambda>x. if call_err x = err then call_data lib x else []) xs)"

lemma written_run: "written lib False xs = concat (map (\<lambda>x. if call_err x then [] else call_data lib x) xs)"
  "written lib True xs = concat (map (\<lambda>x. if call_err x then call_data lib x else []) xs)"
  by (simp_all add: written_def cong: if_cong) (metis (no_types, lifting))

text \<open>C3: a request from its acceptance to its end, for a program written against the \<^verbatim>\<open>stdio\<close> interface: whether it
  is its first or a later one, \<^verbatim>\<open>FCGI_Accept\<close> returns 0 with the environment of the request; calls of
  \<^verbatim>\<open>FCGI_putchar\<close>, \<^verbatim>\<open>FCGI_fputc\<close>, \<^verbatim>\<open>FCGI_fputs\<close>, \<^verbatim>\<open>FCGI_puts\<close>, \<^verbatim>\<open>FCGI_fwrite\<close>, \<^verbatim>\<open>FCGI_fprintf\<close>,
  \<^verbatim>\<open>FCGI_printf\<close> and \<^verbatim>\<open>FCGI_fflush\<close> return what the C library's would; and after \<^verbatim>\<open>FCGI_Finish\<close> the web server
  finds the output, the error output and the exit status in what it was sent, and the process can
  accept the next request.\<close>

theorem stdio_request:
  assumes "idle a \<or> fresh_server e a" "next_client e a pre ev post fd" "begins i body kvs rs X fd (osst a)"
    and "\<forall>x \<in> set xs. call_ok lib x"
  shows "\<exists>a1 a2 a3 wire recs. FCGI_Accept e a = Inr (Returns 0, a1) \<and>
    (\<forall>n. 0x3D \<notin> set n \<longrightarrow> 0 \<notin> set n \<longrightarrow> FCGX_GetParam (Some (n @ [0])) (environ a1) =
        Inr (map_option (\<lambda>v. v @ [0]) (map_of ((chars ''FCGI_ROLE'', role_name (body_role body)) # kvs) n))) \<and>
    out_run k lib xs a1 = Inr (map (call_result lib) xs, a2) \<and> FCGI_Finish a2 = Inr a3 \<and>
    sent (conns (osst a3) fd) = sent (conns (osst a) fd) @ answers FCGI_PARAMS i False rs @ wire \<and>
    parse_records wire = Some recs \<and> requestId (the_request (glob a1)) = i \<and>
    peer_finds (the_request (glob a1)) (written lib False xs) (written lib True xs) recs \<and>
    environ a3 = None \<and> world a3 = world a \<and> accepts (oslib a3) = post \<and>
    (let before = closed (oslib a) @ refused (map (approves e a) pre) in
     if uint (body ! 2) AND FCGI_KEEP_CONN = 0 then idle a3 \<and> closed (oslib a3) = before @ [fd]
     else ipcFd (the_request (glob a3)) = fd \<and> closed (oslib a3) = before)"
proof -
  obtain a0 where 0: "FCGI_Accept e a = FCGI_Accept e a0" "idle a0" "next_client e a0 pre ev post fd"
    "begins i body kvs rs X fd (osst a0)" "conns (osst a0) = conns (osst a)" "closed (oslib a0) = closed (oslib a)" "world a0 = world a"
    "approves e a0 = approves e a"
    by (rule start_idle [OF assms(1-3)])
  obtain a1 where 1: "FCGI_Accept e a0 = Inr (Returns 0, a1)"
    "accepted e i body kvs X (the_request (glob a1)) (osst a1)" "ipcFd (the_request (glob a1)) = fd"
    "environ a1 = envp (the_request (glob a1))" "accepts (oslib a1) = post" "descriptors (oslib a1) fd = Live" "\<not> asyncIoInUse (oslib a1)"
    "closed (oslib a1) = closed (oslib a0) @ refused (map (approves e a0) pre)"
    "sent (conns (osst a1) fd) = sent (conns (osst a0) fd) @ answers FCGI_PARAMS i False rs"
    "serving (the_request (glob a1)) (osst a1) (oslib a1) (world a0) [] [] a1"
    by (rule accept_idle [OF 0(2-4)]) blast
  obtain a2 where 2: "out_run k lib xs a1 = Inr (map (call_result lib) xs, a2)"
    "serving (the_request (glob a1)) (osst a1) (oslib a1) (world a0) (written lib False xs) (written lib True xs) a2"
    using out_run_serving [OF 1(10) assms(4), of k] by (auto simp: written_run)
  let ?r = "the_request (glob a1)"
  obtain s where s: "inS ?r = Some s" "FCGX_GetError s = 0" "nWriters ?r = 2" "requestId ?r = i"
    "keepConnection ?r = uint (body ! 2) AND FCGI_KEEP_CONN"
    using 1(2) by (auto simp: accepted_def at_start_def FCGX_GetError_def)
  have i: "0 \<le> requestId ?r" "requestId ?r < 2 ^ 16" and fd: "0 \<le> fd"
    using assms(2,3) s(4) by (simp_all add: begins_def rec_ok_def next_client_def)
  obtain r' l' os' wire recs where 3: "FCGX_Finish_r (Some (the_request (glob a2))) (oslib a1) (osst a2) = Inr (Some r', l', os')"
    "sent (conns os' (ipcFd ?r)) = sent (conns (osst a1) (ipcFd ?r)) @ wire" "parse_records wire = Some recs"
    "peer_finds ?r (written lib False xs) (written lib True xs) recs" "inS r' = None"
    "if keepConnection ?r = 0
     then ipcFd r' = - 1 \<and> l' = (oslib a1)\<lparr>descriptors := (descriptors (oslib a1))(ipcFd ?r := NotOpen), closed := closed (oslib a1) @ [ipcFd ?r]\<rparr>
     else ipcFd r' = ipcFd ?r \<and> l' = oslib a1"
    using 1(3,6,7) fd by (elim finish_serving [OF 2(2) s(1-3) i]) auto
  have fin: "FCGI_Finish a2 = Inr (finished r' l' os' a2)" by (rule FCGI_Finish_serving [OF 2(2) 3(1)])
  have a2: "acceptCalled a2" "\<not> isCGI a2" "fcgx_globals.libInitialized (glob a2)" "world a2 = world a0" using 2(2) by (simp_all add: serving_def)
  have par: "\<forall>n. 0x3D \<notin> set n \<longrightarrow> 0 \<notin> set n \<longrightarrow> FCGX_GetParam (Some (n @ [0])) (environ a1) =
        Inr (map_option (\<lambda>v. v @ [0]) (map_of ((chars ''FCGI_ROLE'', role_name (body_role body)) # kvs) n))"
    using 1(2,4) by (simp add: accepted_def)
  have post: "accepts l' = post" using 3(6) 1(5) by (simp split: if_splits)
  show ?thesis
    by (rule exI [of _ a1], rule exI [of _ a2], rule exI [of _ "finished r' l' os' a2"], rule exI [of _ wire],
        rule exI [of _ recs], intro conjI par)
      (use 0 1 2(1) 3 fin a2 s post in \<open>simp_all add: finished_def idle_def Let_def\<close>)
qed

definition sample_client :: "accept_event list \<Rightarrow> unit app" where
  "sample_client evs = app_start None (os_start (\<lambda>_. NotOpen) (AcceptFails 4 False # Accepted 5 OtherFamily False # evs)) sample_input ()"

lemma sample_client:
  "fresh_server sample_env (sample_client evs)"
  "next_client sample_env (sample_client evs) [AcceptFails 4 False] (Accepted 5 OtherFamily False) evs 5"
  "begins 1 sample_body [([65], [66])] sample_params [] 5 (osst (sample_client evs))"
proof -
  show "fresh_server sample_env (sample_client evs)"
    by (auto simp: fresh_server_def sample_client_def app_start_def sample_env_def)
  show "next_client sample_env (sample_client evs) [AcceptFails 4 False] (Accepted 5 OtherFamily False) evs 5"
    by (simp add: next_client_def sample_client_def app_start_def os_start_def approves_def verdict_of_def)
  show "begins 1 sample_body [([65], [66])] sample_params [] 5 (osst (sample_client evs))"
    using sample_begins by (simp add: sample_client_def app_start_def)
qed

lemma stdio_request_witness:
  "\<forall>k. \<exists>a1 a2 a3 recs. FCGI_Accept sample_env (sample_client []) = Inr (Returns 0, a1) \<and>
    FCGX_GetParam (Some [65, 0]) (environ a1) = Inr (Some [66, 0]) \<and>
    out_run k sample_libc [Puts [72, 105, 0], Fputc 33 True, Fwrite [1, 2, 3] 1 2 False] a1 = Inr ([10, 33, 2], a2) \<and>
    FCGI_Finish a2 = Inr a3 \<and> parse_records (sent (conns (osst a3) 5)) = Some recs \<and>
    concat (contents_of FCGI_STDOUT 1 recs) = [72, 105, 10, 1, 2] \<and> closed (oslib a3) = [5]"
proof
  fix k :: "(unit, int) stdio"
  let ?xs = "[Puts [72, 105, 0], Fputc 33 True, Fwrite [1, 2, 3] 1 2 False]"
  have ok: "\<forall>x \<in> set ?xs. call_ok sample_libc x" by simp
  have w: "written sample_libc False ?xs = [72, 105, 10, 1, 2]" "map (call_result sample_libc) ?xs = [10, 33, 2]"
    by (simp_all add: written_def cstr_def)
  have mo: "map_of ((chars ''FCGI_ROLE'', role_name (body_role sample_body)) # [([65], [66])]) [65] = Some [66]"
    by (simp add: chars_def)
  have s0: "closed (oslib (sample_client [])) = []" "sent (conns (osst (sample_client [])) 5) = []" "answers 4 1 False sample_params = []"
    "uint (sample_body ! 2) AND 1 = 0" "refused (map (approves sample_env (sample_client [])) [AcceptFails 4 False]) = []"
    by (simp_all add: sample_client_def app_start_def os_start_def sample_input_def sample_params_def sample_body_def approves_def
        verdict_of_def)
  obtain a1 a2 a3 wire recs where "FCGI_Accept sample_env (sample_client []) = Inr (Returns 0, a1)"
    "\<forall>n. 0x3D \<notin> set n \<longrightarrow> 0 \<notin> set n \<longrightarrow> FCGX_GetParam (Some (n @ [0])) (environ a1) =
        Inr (map_option (\<lambda>v. v @ [0]) (map_of ((chars ''FCGI_ROLE'', role_name (body_role sample_body)) # [([65], [66])]) n))"
    "out_run k sample_libc ?xs a1 = Inr ([10, 33, 2], a2)" "FCGI_Finish a2 = Inr a3" "sent (conns (osst a3) 5) = wire"
    "parse_records wire = Some recs" "requestId (the_request (glob a1)) = 1"
    "peer_finds (the_request (glob a1)) [72, 105, 10, 1, 2] (written sample_libc True ?xs) recs" "closed (oslib a3) = [5]"
    using stdio_request [OF disjI2 [OF sample_client(1)] sample_client(2,3) [of "[]"] ok, where k = k] unfolding w s0 Let_def
    by (simp only: append_Nil append_Nil2 simp_thms if_True) blast
  moreover from this(2) have "FCGX_GetParam (Some ([65] @ [0])) (environ a1) = Inr (map_option (\<lambda>v. v @ [0]) (Some [66]))"
    unfolding mo [symmetric] by (elim allE [of _ "[65]"]) simp
  ultimately show "\<exists>a1 a2 a3 recs. FCGI_Accept sample_env (sample_client []) = Inr (Returns 0, a1) \<and>
    FCGX_GetParam (Some [65, 0]) (environ a1) = Inr (Some [66, 0]) \<and> out_run k sample_libc ?xs a1 = Inr ([10, 33, 2], a2) \<and>
    FCGI_Finish a2 = Inr a3 \<and> parse_records (sent (conns (osst a3) 5)) = Some recs \<and>
    concat (contents_of FCGI_STDOUT 1 recs) = [72, 105, 10, 1, 2] \<and> closed (oslib a3) = [5]"
    by (auto simp: peer_finds_def)
qed

section \<open>Accepting while a request is in progress\<close>

definition in_progress :: "'w app \<Rightarrow> bool" where
  "in_progress a \<longleftrightarrow> (\<exists>r os0 w d1 d2 s. serving r os0 (oslib a) w d1 d2 a \<and> inS r = Some s \<and> FCGX_GetError s = 0 \<and> nWriters r = 2 \<and>
     0 \<le> requestId r \<and> requestId r < 2 ^ 16 \<and> \<not> asyncIoInUse (oslib a) \<and> 0 \<le> ipcFd r \<and> descriptors (oslib a) (ipcFd r) = Live)"

lemma in_progress_finish:
  assumes "in_progress a"
  obtains r l os where "FCGI_Finish a = Inr (finished r l os a)"
    "FCGX_Finish_r (Some (the_request (glob a))) (oslib a) (osst a) = Inr (Some r, l, os)"
    "FCGX_Finish_r (Some r) l os = Inr (Some r, l, os)" "inS r = None" "outS r = None" "errS r = None"
    "accepts l = accepts (oslib a)" "shutdownPending l = shutdownPending (oslib a)"
    "keepConnection (the_request (glob a)) = 0 \<Longrightarrow> ipcFd r = - 1"
proof -
  obtain r0 os0 w d1 d2 s where s: "serving r0 os0 (oslib a) w d1 d2 a" "inS r0 = Some s" "FCGX_GetError s = 0" "nWriters r0 = 2"
    "0 \<le> requestId r0" "requestId r0 < 2 ^ 16" "\<not> asyncIoInUse (oslib a)" "0 \<le> ipcFd r0" "descriptors (oslib a) (ipcFd r0) = Live"
    using assms unfolding in_progress_def by blast
  obtain r l os where "FCGX_Finish_r (Some (the_request (glob a))) (oslib a) (osst a) = Inr (Some r, l, os)"
    "FCGX_Finish_r (Some r) l os = Inr (Some r, l, os)" "inS r = None" "outS r = None" "errS r = None"
    "accepts l = accepts (oslib a)" "shutdownPending l = shutdownPending (oslib a)" "keepConnection r0 = 0 \<longrightarrow> ipcFd r = - 1"
    by (rule finish_serving [OF s]) (auto split: if_splits)
  moreover have "keepConnection (the_request (glob a)) = keepConnection r0" using s(1) by (auto simp: serving_def)
  ultimately show ?thesis using that FCGI_Finish_serving [OF s(1)] by auto
qed

text \<open>What \<^verbatim>\<open>FCGI_Accept\<close> does in a server that is set up.\<close>

definition accept_files :: "'w app \<Rightarrow> 'w app" where
  "accept_files a =
     (let f = (\<lambda>ref. \<lparr>stdio_stream = None, fcgx_stream = Some ref\<rparr>)
      in a\<lparr>files := (files a)(FCGI_stdin \<mapsto> f ReqIn, FCGI_stdout \<mapsto> f ReqOut, FCGI_stderr \<mapsto> f ReqErr),
           environ := envp (the_request (glob a))\<rparr>)"

lemma FCGI_Accept_server:
  assumes "acceptCalled a" "\<not> isCGI a" "fcgx_globals.libInitialized (glob a)"
  shows "FCGI_Accept e a =
    rbind (FCGX_Accept_r e (glob a) (the_request (glob a)) (oslib a) (osst a)) (\<lambda>(rc, r, l, os).
      let a = a\<lparr>glob := (glob a)\<lparr>the_request := r\<rparr>, oslib := l, osst := os\<rparr> in
      if rc < 0 then Inr (Returns rc, a) else Inr (Returns 0, accept_files a))"
  using assms
  by (cases "FCGX_Accept_r e (glob a) (the_request (glob a)) (oslib a) (osst a)")
    (simp_all add: FCGI_Accept_def FCGX_Accept_def accept_files_def set_file_def Let_def split: prod.splits)

text \<open>C20: \<^verbatim>\<open>FCGI_Accept\<close> with a request in progress is \<^verbatim>\<open>FCGI_Finish\<close> followed by \<^verbatim>\<open>FCGI_Accept\<close>, as its comment
  promises, when it succeeds. When it fails the files and the environment are those of the request that was
  finished, which \<^verbatim>\<open>FCGI_Finish\<close> would have cleared.\<close>

theorem Accept_finishes_first:
  assumes "in_progress a"
  shows "\<exists>b. FCGI_Finish a = Inr b \<and>
    FCGI_Accept e a = rbind (FCGI_Accept e b) (\<lambda>(res, c).
      Inr (res, if res = Returns 0 then c else c\<lparr>files := files a, environ := environ a\<rparr>))"
proof -
  obtain r l os where 1: "FCGI_Finish a = Inr (finished r l os a)"
    "FCGX_Finish_r (Some (the_request (glob a))) (oslib a) (osst a) = Inr (Some r, l, os)"
    "FCGX_Finish_r (Some r) l os = Inr (Some r, l, os)"
    by (rule in_progress_finish [OF assms])
  have a: "acceptCalled a" "\<not> isCGI a" "fcgx_globals.libInitialized (glob a)"
    using assms by (auto simp: in_progress_def serving_def)
  let ?b = "finished r l os a"
  have b: "acceptCalled ?b" "\<not> isCGI ?b" "fcgx_globals.libInitialized (glob ?b)" "the_request (glob ?b) = r" "oslib ?b = l" "osst ?b = os"
    using a by (simp_all add: finished_def)
  have g: "accept_requests e (glob ?b) n r l os = accept_requests e (glob a) n r l os" for n
    by (rule accept_requests_cong) (simp add: finished_def)
  have "FCGX_Accept_r e (glob ?b) r l os = FCGX_Accept_r e (glob a) (the_request (glob a)) (oslib a) (osst a)"
    using a(3) b(3) 1(2,3) by (simp add: FCGX_Accept_r_def g del: accept_requests.simps)
  then have "FCGI_Accept e a = rbind (FCGI_Accept e ?b) (\<lambda>(res, c).
      Inr (res, if res = Returns 0 then c else c\<lparr>files := files a, environ := environ a\<rparr>))"
    unfolding FCGI_Accept_server [OF a] FCGI_Accept_server [OF b(1-3)] b(4-6)
    by (cases "FCGX_Accept_r e (glob a) (the_request (glob a)) (oslib a) (osst a)")
      (simp_all add: finished_def accept_files_def Let_def split: prod.splits)
  then show ?thesis using 1(1) by blast
qed

lemma accepted_in_progress:
  assumes "accepted e i body kvs X (the_request (glob a)) os" "serving (the_request (glob a)) os0 (oslib a) w d1 d2 a"
    and "0 \<le> i" "i < 2 ^ 16" "\<not> asyncIoInUse (oslib a)" "0 \<le> ipcFd (the_request (glob a))"
    "descriptors (oslib a) (ipcFd (the_request (glob a))) = Live"
  shows "in_progress a"
proof -
  obtain s where "inS (the_request (glob a)) = Some s" "FCGX_GetError s = 0" "nWriters (the_request (glob a)) = 2"
    "requestId (the_request (glob a)) = i"
    using assms(1) by (auto simp: accepted_def at_start_def FCGX_GetError_def)
  then show ?thesis unfolding in_progress_def using assms by blast
qed

lemma sample_accepted:
  obtains a where "FCGI_Accept sample_env (sample_client evs) = Inr (Returns 0, a)" "in_progress a" "accepts (oslib a) = evs"
    "\<not> shutdownPending (oslib a)" "keepConnection (the_request (glob a)) = 0"
proof -
  obtain a0 where 0: "FCGI_Accept sample_env (sample_client evs) = FCGI_Accept sample_env a0" "idle a0"
    "next_client sample_env a0 [AcceptFails 4 False] (Accepted 5 OtherFamily False) evs 5"
    "begins 1 sample_body [([65], [66])] sample_params [] 5 (osst a0)"
    by (rule start_idle [OF disjI2 [OF sample_client(1)] sample_client(2,3)])
  obtain a where 1: "FCGI_Accept sample_env a0 = Inr (Returns 0, a)"
    "accepted sample_env 1 sample_body [([65], [66])] [] (the_request (glob a)) (osst a)" "ipcFd (the_request (glob a)) = 5"
    "accepts (oslib a) = evs" "descriptors (oslib a) 5 = Live" "\<not> asyncIoInUse (oslib a)" "\<not> shutdownPending (oslib a)"
    "serving (the_request (glob a)) (osst a) (oslib a) (world a0) [] [] a"
    by (rule accept_idle [OF 0(2-4)]) blast
  have "in_progress a" using 1(3,5,6) by (intro accepted_in_progress [OF 1(2,8)]) simp_all
  moreover have "keepConnection (the_request (glob a)) = 0" using 1(2) by (simp add: accepted_def sample_body_def)
  ultimately show ?thesis using that 0(1) 1(1,4,7) by simp
qed

lemma Accept_finishes_first_witness:
  "\<exists>a b. FCGI_Accept sample_env (sample_client []) = Inr (Returns 0, a) \<and> FCGI_Finish a = Inr b \<and>
    FCGI_Accept sample_env a = rbind (FCGI_Accept sample_env b) (\<lambda>(res, c).
      Inr (res, if res = Returns 0 then c else c\<lparr>files := files a, environ := environ a\<rparr>))"
proof -
  obtain a where a: "FCGI_Accept sample_env (sample_client []) = Inr (Returns 0, a)" "in_progress a"
    by (rule sample_accepted)
  show ?thesis using a(1) Accept_finishes_first [OF a(2), of sample_env] by blast
qed

text \<open>C40: when \<^verbatim>\<open>FCGI_Accept\<close> fails after a request has been served, the three files still point to the streams of that
  request, which have been freed: the next call of \<^verbatim>\<open>FCGI_puts\<close>, \<^verbatim>\<open>FCGI_getchar\<close> or \<^verbatim>\<open>FCGI_fputs\<close> to the error
  output follows a dangling pointer.\<close>

theorem files_dangle_after_failed_accept:
  assumes "in_progress a" "FCGI_Accept e a = Inr (Returns rc, a')" "rc \<noteq> 0"
  shows "files a' = files a \<and> FCGI_puts k str a' = Inl NullDeref \<and> FCGI_getchar k a' = Inl NullDeref \<and>
    FCGI_fputs k str FCGI_stderr a' = Inl NullDeref"
proof -
  obtain r l os where 1: "FCGX_Finish_r (Some (the_request (glob a))) (oslib a) (osst a) = Inr (Some r, l, os)"
    "inS r = None" "outS r = None" "errS r = None"
    by (rule in_progress_finish [OF assms(1)])
  have a: "acceptCalled a" "\<not> isCGI a" "fcgx_globals.libInitialized (glob a)"
    "files a FCGI_stdin = Some \<lparr>stdio_stream = None, fcgx_stream = Some ReqIn\<rparr>"
    "files a FCGI_stdout = Some \<lparr>stdio_stream = None, fcgx_stream = Some ReqOut\<rparr>"
    "files a FCGI_stderr = Some \<lparr>stdio_stream = None, fcgx_stream = Some ReqErr\<rparr>"
    using assms(1) by (auto simp: in_progress_def serving_def)
  obtain r' l' os' where 2: "accept_requests e (glob a) (length (accepts l) + 2) r l os = Inr (rc, r', l', os')"
    "a' = a\<lparr>glob := (glob a)\<lparr>the_request := r'\<rparr>, oslib := l', osst := os'\<rparr>"
    using assms(2,3) 1(1) a(3) unfolding FCGI_Accept_server [OF a(1-3)]
    by (auto simp: FCGX_Accept_r_def Let_def simp del: accept_requests.simps elim!: rbind_InrE split: if_splits)
  have "inS r' = None \<and> outS r' = None \<and> errS r' = None" by (rule accept_requests_fails [OF 2(1) assms(3) 1(2-4)])
  then show ?thesis
    using a(4-6) unfolding 2(2)
    by (simp add: FCGI_puts_def FCGI_getchar_def FCGI_fgetc_def FCGI_fputs_def by_stream_def deref_def on_stream_def)
qed

lemma FCGI_Accept_fails:
  assumes "in_progress a" "keepConnection (the_request (glob a)) = 0" "accepts (oslib a) = AcceptFails n False # post"
    "\<not> shutdownPending (oslib a)" "0 < n" "n \<noteq> EINTR" "\<not> is_reasonable_accept_errno n"
  shows "\<exists>a'. FCGI_Accept e a = Inr (Returns (- n), a')"
proof -
  obtain r l os where 1: "FCGX_Finish_r (Some (the_request (glob a))) (oslib a) (osst a) = Inr (Some r, l, os)"
    "accepts l = accepts (oslib a)" "shutdownPending l = shutdownPending (oslib a)" "ipcFd r = - 1"
    using in_progress_finish [OF assms(1)] assms(2) by metis
  have a: "acceptCalled a" "\<not> isCGI a" "fcgx_globals.libInitialized (glob a)"
    using assms(1) by (auto simp: in_progress_def serving_def)
  have "accepts l = [] @ AcceptFails n False # post" "\<not> shutdownPending l" using 1 assms by simp_all
  from OS_Accept_passes [OF this, of "inet_addr e" "flags r AND 1 \<noteq> 0" "webServerAddressList (glob a)" "- 1" "listen_sock r" os]
  obtain ds os' where 2: "OS_Accept (inet_addr e) (listen_sock r) (flags r AND 1 \<noteq> 0) (webServerAddressList (glob a)) l os =
      Inr (- 1, l\<lparr>accepts := post, descriptors := ds, closed := closed l @ []\<rparr>, os')" "c_errno os' = n"
    using assms(5-7) by (auto simp: verdict_of_def)
  have "accept_connection e (glob a) r l os = Inr (Inl (- n), r, l\<lparr>accepts := post, descriptors := ds, closed := closed l @ []\<rparr>, os')"
    using 1(4) 2 assms(5) by (cases r) (simp add: accept_connection_def Let_def)
  then have "FCGX_Accept_r e (glob a) (the_request (glob a)) (oslib a) (osst a) =
      Inr (- n, r, l\<lparr>accepts := post, descriptors := ds, closed := closed l @ []\<rparr>, os')"
    using a(3) 1(1) by (simp add: FCGX_Accept_r_def)
  then show ?thesis using assms(5) by (simp add: FCGI_Accept_server [OF a] Let_def)
qed

lemma files_dangle_after_failed_accept_witness:
  "\<exists>a a'. FCGI_Accept sample_env (sample_client [AcceptFails 9 False]) = Inr (Returns 0, a) \<and>
    FCGI_Accept sample_env a = Inr (Returns (- 9), a') \<and> (\<forall>k :: (unit, int) stdio. FCGI_puts k [72, 0] a' = Inl NullDeref)"
proof -
  obtain a where a: "FCGI_Accept sample_env (sample_client [AcceptFails 9 False]) = Inr (Returns 0, a)" "in_progress a"
    "accepts (oslib a) = [AcceptFails 9 False]" "\<not> shutdownPending (oslib a)" "keepConnection (the_request (glob a)) = 0"
    by (rule sample_accepted)
  obtain a' where a': "FCGI_Accept sample_env a = Inr (Returns (- 9), a')"
    using FCGI_Accept_fails [OF a(2,5,3,4)] by (auto simp: is_reasonable_accept_errno_def)
  have "FCGI_puts k [72, 0] a' = Inl NullDeref" for k :: "(unit, int) stdio"
    using files_dangle_after_failed_accept [OF a(2) a', of k "[72, 0]"] by simp
  then show ?thesis using a(1) a' by blast
qed

section \<open>CGI programs\<close>

text \<open>The same calls on the C library.\<close>

definition c_file :: "bool \<Rightarrow> nat" where
  "c_file err = (if err then c_stderr else c_stdout)"

fun c_step :: "('w, 'f) stdio \<Rightarrow> 'f out_op \<Rightarrow> 'w \<Rightarrow> int \<times> 'w" where
  "c_step k (Fputc c err) w = c_fputc k c (c_file err) w"
| "c_step k (Putchar c) w = c_fputc k c c_stdout w"
| "c_step k (Fputs str err) w = c_fputs k str (c_file err) w"
| "c_step k (Puts str) w = (let (n, w) = c_fputs k str c_stdout w in if n < 0 then (n, w) else c_fputc k 10 c_stdout w)"
| "c_step k (Fwrite ptr sz nmemb err) w = (let (n, w) = c_fwrite k ptr sz nmemb (c_file err) w in (int n, w))"
| "c_step k (Fprintf ps arg err) w = (let ((n, _), w) = c_vfprintf k (c_file err) (render ps @ [0]) arg w in (n, w))"
| "c_step k (Printf ps arg) w = (let ((n, _), w) = c_vfprintf k c_stdout (render ps @ [0]) arg w in (n, w))"
| "c_step k (Fflush err) w = c_fflush k (Some (c_file err)) w"

fun c_run :: "('w, 'f) stdio \<Rightarrow> 'f out_op list \<Rightarrow> 'w \<Rightarrow> int list \<times> 'w" where
  "c_run k [] w = ([], w)"
| "c_run k (x # xs) w = (let (n, w) = c_step k x w; (ns, w) = c_run k xs w in (n # ns, w))"

definition cgi_program :: "'w app \<Rightarrow> bool" where
  "cgi_program a \<longleftrightarrow> acceptCalled a \<and> isCGI a \<and>
     files a FCGI_stdin = Some \<lparr>stdio_stream = Some c_stdin, fcgx_stream = None\<rparr> \<and>
     files a FCGI_stdout = Some \<lparr>stdio_stream = Some c_stdout, fcgx_stream = None\<rparr> \<and>
     files a FCGI_stderr = Some \<lparr>stdio_stream = Some c_stderr, fcgx_stream = None\<rparr>"

lemma out_step_cgi:
  assumes "cgi_program a"
  shows "out_step k lib x a = (let (n, w) = c_step k x (world a) in Inr (n, a\<lparr>world := w\<rparr>))"
  using assms
  by (cases x) (auto simp: cgi_program_def FCGI_putchar_def FCGI_fputc_def FCGI_fputs_def FCGI_puts_def FCGI_fwrite_def
      FCGI_fprintf_def FCGI_printf_def FCGI_vfprintf_def FCGI_fflush_def by_stream_def deref_def in_world_def out_file_def c_file_def
      Let_def split: prod.splits)

lemma out_run_cgi:
  assumes "cgi_program a"
  shows "out_run k lib xs a = (let (ns, w) = c_run k xs (world a) in Inr (ns, a\<lparr>world := w\<rparr>))"
  using assms
proof (induction xs arbitrary: a)
  case (Cons x xs)
  obtain n w where 1: "c_step k x (world a) = (n, w)" by fastforce
  have "cgi_program (a\<lparr>world := w\<rparr>)" using Cons.prems by (simp add: cgi_program_def)
  from Cons.IH [OF this] show ?case using Cons.prems 1 by (simp add: out_step_cgi Let_def split: prod.splits)
qed simp

text \<open>C21: a program that was not started as a FastCGI server (its standard input is no listening socket) is a CGI
  program: its first \<^verbatim>\<open>FCGI_Accept\<close> returns 0, every call that writes is the C library's, whatever its
  arguments and results, \<^verbatim>\<open>FCGI_Finish\<close> does nothing, and the second \<^verbatim>\<open>FCGI_Accept\<close> returns \<^verbatim>\<open>EOF\<close>, so that
  the loop of a FastCGI program runs once.\<close>

theorem cgi_program_runs_once:
  assumes "memory e" "peername e \<noteq> 107"
  shows "\<exists>a1. FCGI_Accept e (app_start env (os_start ds evs) os w) = Inr (Returns 0, a1) \<and> world a1 = w \<and> environ a1 = env \<and>
    (let (ns, w') = c_run k xs w; a2 = a1\<lparr>world := w'\<rparr>
     in out_run k lib xs a1 = Inr (ns, a2) \<and> FCGI_Finish a2 = Inr a2 \<and> FCGI_Accept e a2 = Inr (Returns EOF, a2))"
proof -
  let ?a = "app_start env (os_start ds evs) os w"
  obtain g l os' where cgi: "FCGX_IsCGI e globals_start (os_start ds evs) os = (Inr True, g, l, os')"
    using assms by (auto simp: FCGX_IsCGI_def FCGX_Init_def OS_LibInit_def OS_InstallSignalHandlers_def OS_IsFcgi_def
        globals_start_def os_start_def Let_def)
  let ?f = "\<lambda>h. \<lparr>stdio_stream = Some h, fcgx_stream = None\<rparr>"
  let ?a1 = "set_file FCGI_stderr (?f c_stderr) (set_file FCGI_stdout (?f c_stdout) (set_file FCGI_stdin (?f c_stdin)
      (?a\<lparr>glob := g, oslib := l, osst := os', isCGI := True, acceptCalled := True, at_exit := at_exit ?a + 1\<rparr>)))"
  have s: "acceptCalled ?a = False" "isCGI ?a = False" "glob ?a = globals_start" "oslib ?a = os_start ds evs" "osst ?a = os"
    by (simp_all add: app_start_def)
  have "FCGI_Accept e ?a = Inr (Returns 0, ?a1)"
    unfolding FCGI_Accept_def s cgi by (simp add: Let_def)
  moreover have "cgi_program ?a1" "world ?a1 = w" "environ ?a1 = env" by (simp_all add: cgi_program_def set_file_def app_start_def)
  moreover have "FCGI_Finish b = Inr b \<and> FCGI_Accept e b = Inr (Returns EOF, b)" if "cgi_program b" for b :: "'a app"
    using that by (simp add: FCGI_Finish_def FCGI_Accept_def cgi_program_def)
  moreover have "cgi_program (?a1\<lparr>world := w'\<rparr>)" for w' using calculation(2) by (simp add: cgi_program_def)
  ultimately show ?thesis
    by (intro exI [of _ ?a1]) (simp add: out_run_cgi Let_def split: prod.splits)
qed

text \<open>A C library that counts what is written to it.\<close>

definition sample_stdio :: "(nat, 'f) stdio" where
  "sample_stdio = \<lparr> c_fopen = (\<lambda>_ _ w. (None, w)), c_fdopen = (\<lambda>_ _ w. (None, w)), c_popen = (\<lambda>_ _ w. (None, w)),
     c_tmpfile = (\<lambda>w. (None, w)), c_malloc = (\<lambda>_. True), c_fclose = (\<lambda>_ w. (0, w)), c_pclose = (\<lambda>_ w. (0, w)),
     c_fflush = (\<lambda>_ w. (0, w)), c_freopen = (\<lambda>_ _ _ w. (False, w)), c_setvbuf = (\<lambda>_ _ _ _ w. (0, w)),
     c_setbuf = (\<lambda>_ _ w. w), c_fseek = (\<lambda>_ _ _ w. (0, w)), c_ftell = (\<lambda>_ w. (int w, w)), c_rewind = (\<lambda>_ w. w),
     c_fgetpos = (\<lambda>_ w. ((0, int w), w)), c_fsetpos = (\<lambda>_ _ w. (0, w)), c_fgetc = (\<lambda>_ w. (- 1, w)),
     c_ungetc = (\<lambda>c _ w. (c, w)), c_fgets = (\<lambda>_ _ w. (None, w)), c_fputc = (\<lambda>c _ w. (c, w + 1)),
     c_fputs = (\<lambda>str _ w. (1, w + length (cstr str))), c_vfprintf = (\<lambda>_ _ _ w. ((0, []), w)),
     c_fread = (\<lambda>_ _ _ w. ((0, []), w)), c_fwrite = (\<lambda>ptr sz n _ w. (n, w + sz * n)), c_feof = (\<lambda>_ _. 0), c_ferror = (\<lambda>_ _. 0),
     c_clearerr = (\<lambda>_ w. w), c_fileno = (\<lambda>h _. int h), c_strerror = (\<lambda>_. [0]) \<rparr>"

lemma cgi_program_runs_once_witness:
  "\<exists>a1. FCGI_Accept (sample_env\<lparr>peername := 88\<rparr>) (app_start None (os_start (\<lambda>_. NotOpen) []) quiet_os 0) = Inr (Returns 0, a1) \<and>
    out_run (sample_stdio :: (nat, int) stdio) sample_libc [Puts [72, 105, 0], Fwrite [1, 2] 2 1 True] a1 = Inr ([10, 1], a1\<lparr>world := 5\<rparr>) \<and>
    FCGI_Accept (sample_env\<lparr>peername := 88\<rparr>) (a1\<lparr>world := 5\<rparr>) = Inr (Returns (- 1), a1\<lparr>world := 5\<rparr>)"
proof -
  have e: "memory (sample_env\<lparr>peername := 88\<rparr>)" "peername (sample_env\<lparr>peername := 88\<rparr>) \<noteq> 107" by (simp_all add: sample_env_def)
  have r: "c_run (sample_stdio :: (nat, int) stdio) [Puts [72, 105, 0], Fwrite [1, 2] 2 1 True] 0 = ([10, 1], 5)"
    by (simp add: sample_stdio_def cstr_def)
  show ?thesis
    using cgi_program_runs_once [OF e, of None "\<lambda>_. NotOpen" "[]" quiet_os 0 sample_stdio "[Puts [72, 105, 0], Fwrite [1, 2] 2 1 True]"
        sample_libc]
    unfolding r by (simp only: case_prod_conv Let_def) blast
qed

section \<open>A write that fails\<close>

text \<open>When the stream refuses the bytes, \<^verbatim>\<open>FCGI_fwrite\<close> divides the \<^verbatim>\<open>EOF\<close> of \<^verbatim>\<open>FCGX_PutStr\<close> as a
  \<^verbatim>\<open>size_t\<close>: for members of a byte it returns \<open>2 ^ 64 - 1\<close>, and always a count larger than the one asked for,
  where C's \<^verbatim>\<open>fwrite\<close> returns a smaller one to show the failure.\<close>

theorem fwrite_failure_count:
  assumes "files a fp = Some \<lparr>stdio_stream = None, fcgx_stream = Some ref\<rparr>" "request_stream ref (the_request (glob a)) = Some s"
    and "0 < sz * nmemb" "sz * nmemb < 2 ^ 31" "sz * nmemb \<le> length ptr"
    and "FCGX_PutStr EmptyBuffProc (take (sz * nmemb) ptr) s (the_request (glob a)) (osst a) = Inr (- 1, s', r', os')"
  shows "(\<exists>a'. FCGI_fwrite k ptr sz nmemb fp a = Inr ((2 ^ 64 - 1) div sz, a')) \<and> nmemb < (2 ^ 64 - 1) div sz"
proof
  note sm = size_mult_small [OF assms(4)]
  have m: "wrap32 (int (size_mult sz nmemb)) = int (sz * nmemb)" "size_mult sz nmemb \<noteq> 0" "nat (int (sz * nmemb)) = sz * nmemb"
    using sm [THEN conjunct2] sm [THEN conjunct1] assms(3) nat_int [of "sz * nmemb"] by (blast, simp, blast)
  have "members (- 1) sz = (2 ^ 64 - 1) div sz" by (simp add: members_def)
  then show "\<exists>a'. FCGI_fwrite k ptr sz nmemb fp a = Inr ((2 ^ 64 - 1) div sz, a')"
    using assms(1,2,5,6) m
    by (simp add: FCGI_fwrite_def by_stream_def deref_def on_stream_def Let_def del: of_nat_mult)
  have "sz * (nmemb + 1) \<le> 2 ^ 64 - 1"
  proof -
    have "sz * 1 \<le> sz * nmemb" using assms(3) by (intro mult_le_mono2) auto
    moreover have "sz * (nmemb + 1) = sz * nmemb + sz * 1" by (rule distrib_left)
    moreover have "(2 :: nat) ^ 32 = 2 ^ 31 + 2 ^ 31" by simp
    ultimately have "sz * (nmemb + 1) < 2 ^ 32" using assms(4) by linarith
    moreover have "(2 :: nat) ^ 32 \<le> 2 ^ 64 - 1" by simp
    ultimately show ?thesis by linarith
  qed
  then have "nmemb + 1 \<le> (2 ^ 64 - 1) div sz" using assms(3) by (simp add: less_eq_div_iff_mult_less_eq mult.commute)
  then show "nmemb < (2 ^ 64 - 1) div sz" by simp
qed

lemma fwrite_failure_count_witness:
  "\<exists>a'. FCGI_fwrite (sample_stdio :: (nat, int) stdio) [1, 2] 1 2 FCGI_stdout
     ((app_start None (os_start (\<lambda>_. NotOpen) []) quiet_os 0)\<lparr>
        glob := globals_start\<lparr>the_request := zero_request\<lparr>outS := Some ((NewWriter 0 512 6)\<lparr>wrNext := 512, stop := 512, isClosed := True\<rparr>)\<rparr>\<rparr>,
        files := sF(FCGI_stdout \<mapsto> \<lparr>stdio_stream = None, fcgx_stream = Some ReqOut\<rparr>)\<rparr>) = Inr (18446744073709551615, a')"
proof -
  let ?s = "(NewWriter 0 512 6)\<lparr>wrNext := 512, stop := 512, isClosed := True\<rparr>"
  let ?r = "zero_request\<lparr>outS := Some ?s\<rparr>"
  let ?a = "(app_start None (os_start (\<lambda>_. NotOpen) []) quiet_os 0)\<lparr>glob := globals_start\<lparr>the_request := ?r\<rparr>,
        files := sF(FCGI_stdout \<mapsto> \<lparr>stdio_stream = None, fcgx_stream = Some ReqOut\<rparr>)\<rparr>"
  have a: "files ?a FCGI_stdout = Some \<lparr>stdio_stream = None, fcgx_stream = Some ReqOut\<rparr>" "the_request (glob ?a) = ?r" "osst ?a = quiet_os"
    "request_stream ReqOut ?r = Some ?s"
    by (simp_all add: app_start_def)
  have p: "FCGX_PutStr EmptyBuffProc [1, 2] ?s ?r quiet_os = Inr (- 1, ?s, ?r, quiet_os)"
    by (simp add: FCGX_PutStr_def put_some_def memcpy_to_def NewWriter_def NewStream_def Let_def)
  show ?thesis
    using fwrite_failure_count [of ?a FCGI_stdout ReqOut ?s 1 2 "[1, 2]" ?s ?r quiet_os "sample_stdio :: (nat, int) stdio"] a p
    by (simp add: app_start_def)
qed

end
