(* ===== verification/StdioIn.thy ===== *)
theory StdioIn
  imports StdioServe
begin

text \<open>
  Input through the \<^verbatim>\<open>stdio\<close> interface of a FastCGI server: the calls that read from \<^verbatim>\<open>FCGI_stdin\<close> return what
  they would on a file that holds the content of the request's \<^verbatim>\<open>FCGI_STDIN\<close> stream, and all of them return.
\<close>

section \<open>The calls\<close>

datatype in_op = Fgetc | Getchar | Fgets int | Fread nat nat | Gets

datatype in_result = Ch int | Bytes nat "byte list" | Text "byte list option"

fun in_step :: "('w, 'f) stdio \<Rightarrow> in_op \<Rightarrow> 'w app \<Rightarrow> (fault + in_result \<times> 'w app) option" where
  "in_step k Fgetc a = Some (rbind (FCGI_fgetc k FCGI_stdin a) (\<lambda>(c, a). Inr (Ch c, a)))"
| "in_step k Getchar a = Some (rbind (FCGI_getchar k a) (\<lambda>(c, a). Inr (Ch c, a)))"
| "in_step k (Fgets n) a = Some (rbind (FCGI_fgets k n FCGI_stdin a) (\<lambda>(l, a). Inr (Text l, a)))"
| "in_step k (Fread sz nmemb) a = Some (rbind (FCGI_fread k sz nmemb FCGI_stdin a) (\<lambda>((n, bs), a). Inr (Bytes n bs, a)))"
| "in_step k Gets a = map_option (\<lambda>m. rbind m (\<lambda>(l, a). Inr (Text l, a))) (FCGI_gets k a)"

fun in_run :: "('w, 'f) stdio \<Rightarrow> in_op list \<Rightarrow> 'w app \<Rightarrow> (fault + in_result list \<times> 'w app) option" where
  "in_run k [] a = Some (Inr ([], a))"
| "in_run k (x # xs) a =
     (case in_step k x a of
        None \<Rightarrow> None
      | Some (Inl e) \<Rightarrow> Some (Inl e)
      | Some (Inr (y, a)) \<Rightarrow> map_option (\<lambda>m. rbind m (\<lambda>(ys, a). Inr (y # ys, a))) (in_run k xs a))"

text \<open>The same calls on a list of bytes, with what they leave.\<close>

definition upto_newline :: "byte list \<Rightarrow> byte list" where
  "upto_newline bs = takeWhile (\<lambda>b. b \<noteq> 10) bs"

fun file_step :: "in_op \<Rightarrow> byte list \<Rightarrow> in_result \<times> byte list" where
  "file_step Fgetc bs = (Ch (if bs = [] then EOF else uint (hd bs)), tl bs)"
| "file_step Getchar bs = (Ch (if bs = [] then EOF else uint (hd bs)), tl bs)"
| "file_step (Fgets n) bs =
     (if n \<le> 1 then (Text (Some [0]), bs)
      else (Text (if bs = [] then None else Some (line_of (nat (n - 1)) bs @ [0])),
            drop (length (line_of (nat (n - 1)) bs)) bs))"
| "file_step (Fread sz nmemb) bs =
     (Bytes (length (take (sz * nmemb) bs) div sz) (take (sz * nmemb) bs), drop (sz * nmemb) bs)"
| "file_step Gets bs =
     (Text (if bs = [] then None else Some (upto_newline bs @ [0])), drop (length (upto_newline bs) + 1) bs)"

fun file_run :: "in_op list \<Rightarrow> byte list \<Rightarrow> in_result list \<times> byte list" where
  "file_run [] bs = ([], bs)"
| "file_run (x # xs) bs = (let (y, bs) = file_step x bs; (ys, bs) = file_run xs bs in (y # ys, bs))"

fun in_ok :: "in_op \<Rightarrow> bool" where
  "in_ok (Fread sz nmemb) = (sz * nmemb < 2 ^ 31)"
| "in_ok _ = True"

section \<open>Reading from the stream of the request\<close>

text \<open>A program whose standard input still has \<open>bs\<close>.\<close>

definition receiving :: "byte list \<Rightarrow> 'w app \<Rightarrow> bool" where
  "receiving bs a \<longleftrightarrow> files a FCGI_stdin = Some \<lparr>stdio_stream = None, fcgx_stream = Some ReqIn\<rparr> \<and>
     (\<exists>s s0 P T X. inS (the_request (glob a)) = Some s \<and>
        stream.avail (the_request (glob a)) s0 P T X bs s (the_request (glob a)) (osst a))"

lemma receiving_call:
  assumes "receiving bs a" "reads_to f bs x bs'"
  shows "\<exists>a'. by_stream FCGI_stdin c (\<lambda>ref. on_stream ref f) none a = Inr (x, a') \<and> receiving bs' a'"
proof -
  let ?r = "the_request (glob a)"
  obtain s s0 P T X where s: "inS ?r = Some s" "stream.avail ?r s0 P T X bs s ?r (osst a)"
    and f: "files a FCGI_stdin = Some \<lparr>stdio_stream = None, fcgx_stream = Some ReqIn\<rparr>"
    using assms(1) unfolding receiving_def by blast
  obtain s' os' where 1: "f s ?r (osst a) = Inr (x, s', ?r, os')" "stream.avail ?r s0 P T X bs' s' ?r os'"
    using assms(2) s(2) unfolding reads_to_def by blast
  let ?a = "a\<lparr>glob := (glob a)\<lparr>the_request := ?r\<lparr>inS := Some s'\<rparr>\<rparr>, osst := os'\<rparr>"
  have "by_stream FCGI_stdin c (\<lambda>ref. on_stream ref f) none a = Inr (x, ?a)"
    using f s(1) 1(1) by (simp add: by_stream_def deref_def on_stream_def)
  moreover have "receiving bs' ?a" unfolding receiving_def using f avail_inS [OF 1(2), of "Some s'"] by auto
  ultimately show ?thesis by blast
qed

lemma getchar_receiving:
  "receiving bs a \<Longrightarrow> \<exists>a'. FCGI_getchar k a = Inr (if bs = [] then EOF else uint (hd bs), a') \<and> receiving (tl bs) a'"
  unfolding FCGI_getchar_def FCGI_fgetc_def by (rule receiving_call [OF _ reads_to_calls(1)])

lemma gets_loop_receiving:
  "receiving bs a \<Longrightarrow> \<exists>a'. gets_loop k acc a =
    Some (Inr (if acc = [] \<and> bs = [] then None else Some (acc @ upto_newline bs @ [0]), a')) \<and>
    receiving (drop (length (upto_newline bs) + 1) bs) a'"
proof (induction bs arbitrary: acc a)
  case Nil
  obtain a' where "FCGI_getchar k a = Inr (- 1, a')" "receiving [] a'" using getchar_receiving [OF Nil, of k] by auto
  then show ?case by (subst gets_loop.simps) (auto simp: upto_newline_def)
next
  case (Cons b bs)
  obtain a' where 1: "FCGI_getchar k a = Inr (uint b, a')" "receiving bs a'" using getchar_receiving [OF Cons.prems, of k] by auto
  have e: "uint b \<noteq> - 1" using uint_ge_0 [of b] by linarith
  show ?case
  proof (cases "b = 10")
    case True
    then show ?thesis using 1 by (subst gets_loop.simps) (auto simp: upto_newline_def)
  next
    case False
    then show ?thesis using 1 e Cons.IH [OF 1(2), of "acc @ [b]"] by (subst gets_loop.simps) (auto simp: upto_newline_def)
  qed
qed

lemma in_step_receiving:
  assumes a: "receiving bs a" and ok: "in_ok x"
  shows "\<exists>a'. in_step k x a = Some (Inr (fst (file_step x bs), a')) \<and> receiving (snd (file_step x bs)) a'"
proof (cases x)
  case Fgetc
  obtain a' where "FCGI_fgetc k FCGI_stdin a = Inr (if bs = [] then EOF else uint (hd bs), a')" "receiving (tl bs) a'"
    using receiving_call [OF a reads_to_calls(1)] unfolding FCGI_fgetc_def by blast
  then show ?thesis using Fgetc by simp
next
  case Getchar
  then show ?thesis using getchar_receiving [OF a, of k] by fastforce
next
  case (Fgets n)
  show ?thesis
  proof (cases "n \<le> 1")
    case True
    obtain a' where "FCGI_fgets k n FCGI_stdin a = Inr (Some [0], a')" "receiving bs a'"
      using receiving_call [OF a reads_to_calls(4) [OF True]] unfolding FCGI_fgets_def by blast
    then show ?thesis using Fgets True by simp
  next
    case False
    then have n: "1 < n" by simp
    obtain a' where "FCGI_fgets k n FCGI_stdin a = Inr (if bs = [] then None else Some (line_of (nat (n - 1)) bs @ [0]), a')"
      "receiving (drop (length (line_of (nat (n - 1)) bs)) bs) a'"
      using receiving_call [OF a reads_to_calls(3) [OF n]] unfolding FCGI_fgets_def by blast
    then show ?thesis using Fgets False by simp
  qed
next
  case (Fread sz nmemb)
  then have lim: "sz * nmemb < 2 ^ 31" using ok by simp
  have m: "size_mult sz nmemb = sz * nmemb" by (rule size_mult_small [OF lim, THEN conjunct1])
  have w: "wrap32 (int (sz * nmemb)) = int (sz * nmemb)" using size_mult_small [OF lim] unfolding m by (rule conjunct2)
  show ?thesis
  proof (cases "sz * nmemb = 0")
    case True
    then have z: "size_mult sz nmemb = 0" by (simp only: size_mult_def mod_0)
    have "FCGI_fread k sz nmemb FCGI_stdin a = Inr ((0, []), a)"
      using a z by (simp add: FCGI_fread_def by_stream_def deref_def receiving_def)
    then show ?thesis using Fread a True by auto
  next
    case False
    have n: "nat (int (sz * nmemb)) = sz * nmemb" by (rule nat_int)
    have mem: "members (int (length (take (sz * nmemb) bs))) sz = length (take (sz * nmemb) bs) div sz"
    proof -
      have "length (take (sz * nmemb) bs) < 2 ^ 64" using lim by simp
      from int_less_power [OF this] show ?thesis by (simp add: members_def)
    qed
    let ?f = "\<lambda>s r os. rbind (FCGX_GetStr FillBuffProc (int (sz * nmemb)) s r os)
      (\<lambda>(bs, s, r, os). Inr ((members (int (length bs)) sz, bs), s, r, os))"
    have f: "reads_to ?f bs (length (take (sz * nmemb) bs) div sz, take (sz * nmemb) bs) (drop (sz * nmemb) bs)"
      using reads_to_map [OF reads_to_calls(2) [of "int (sz * nmemb)" bs], of "\<lambda>bs. (members (int (length bs)) sz, bs)"]
      unfolding n mem by simp
    have e: "FCGI_fread k sz nmemb FCGI_stdin a =
        by_stream FCGI_stdin (\<lambda>h. in_world (c_fread k sz nmemb h)) (\<lambda>ref. on_stream ref ?f) (2 ^ 64 - 1, []) a"
      using False unfolding FCGI_fread_def m w by (simp only: if_False)
    obtain a' where "FCGI_fread k sz nmemb FCGI_stdin a =
        Inr ((length (take (sz * nmemb) bs) div sz, take (sz * nmemb) bs), a')" "receiving (drop (sz * nmemb) bs) a'"
      using receiving_call [OF a f] unfolding e by blast
    then show ?thesis using Fread by simp
  qed
next
  case Gets
  then show ?thesis using gets_loop_receiving [OF a, of k "[]"] by (auto simp: FCGI_gets_def)
qed

lemma in_run_receiving:
  assumes "receiving bs a" "\<forall>x \<in> set xs. in_ok x"
  shows "\<exists>a'. in_run k xs a = Some (Inr (fst (file_run xs bs), a')) \<and> receiving (snd (file_run xs bs)) a'"
  using assms
proof (induction xs arbitrary: bs a)
  case (Cons x xs)
  obtain a1 where 1: "in_step k x a = Some (Inr (fst (file_step x bs), a1))" "receiving (snd (file_step x bs)) a1"
    using in_step_receiving [OF Cons.prems(1), of x k] Cons.prems(2) by auto
  obtain a2 where "in_run k xs a1 = Some (Inr (fst (file_run xs (snd (file_step x bs))), a2))"
    "receiving (snd (file_run xs (snd (file_step x bs)))) a2"
    using Cons.IH [OF 1(2)] Cons.prems(2) by auto
  then show ?case using 1(1) by (simp add: case_prod_beta)
qed simp

section \<open>Input of an accepted request\<close>

lemma accepted_receiving:
  assumes "accepted e i body kvs (wire_all rs @ X) (the_request (glob a)) (osst a)" "stream_ok FCGI_STDIN i False rs"
    and "files a FCGI_stdin = Some \<lparr>stdio_stream = None, fcgx_stream = Some ReqIn\<rparr>"
  shows "receiving (delivered FCGI_STDIN i False rs) a"
proof -
  obtain s where s: "inS (the_request (glob a)) = Some s" "at_start s (the_request (glob a)) (osst a)" "stype s = 5"
    "inp s (the_request (glob a)) (osst a) = wire_all rs @ X" "requestId (the_request (glob a)) = i"
    using assms(1) by (auto simp: accepted_def)
  have "stream_ok (stype s) (requestId (the_request (glob a))) False rs" using assms(2) s(3,5) by simp
  from stream_enter [OF s(2,4) this] show ?thesis
    using assms(3) s(1) unfolding receiving_def s(3,5) by blast
qed

text \<open>C9: what a server reads from a well-behaved peer (one that sends content in every record of another request and no
  management record but \<^verbatim>\<open>FCGI_GET_VALUES\<close>). After \<^verbatim>\<open>FCGI_Accept\<close>, any calls of \<^verbatim>\<open>FCGI_fgetc\<close>, \<^verbatim>\<open>FCGI_getchar\<close>,
  \<^verbatim>\<open>FCGI_fgets\<close>, \<^verbatim>\<open>FCGI_fread\<close> and \<^verbatim>\<open>FCGI_gets\<close> on \<^verbatim>\<open>FCGI_stdin\<close> return what they would on a file that holds the
  contents of the request's own \<^verbatim>\<open>FCGI_STDIN\<close> records, however these are cut and read; each of them returns,
  \<^verbatim>\<open>FCGI_gets\<close>, whose loop has no bound, included.\<close>

theorem stdin_reads_as_file:
  assumes "idle a \<or> fresh_server e a" "next_client e a pre ev post fd"
    and "begins i body kvs rs (wire_all irs @ X) fd (osst a)" "stream_ok FCGI_STDIN i False irs" "well_behaved i irs"
    and "\<forall>x \<in> set xs. in_ok x"
  shows "\<exists>a1 a2. FCGI_Accept e a = Inr (Returns 0, a1) \<and>
    in_run k xs a1 = Some (Inr (fst (file_run xs (own_content FCGI_STDIN i irs)), a2))"
proof -
  obtain a0 where 0: "FCGI_Accept e a = FCGI_Accept e a0" "idle a0" "next_client e a0 pre ev post fd"
    "begins i body kvs rs (wire_all irs @ X) fd (osst a0)"
    by (rule start_idle [OF assms(1-3)])
  obtain a1 where 1: "FCGI_Accept e a0 = Inr (Returns 0, a1)"
    "accepted e i body kvs (wire_all irs @ X) (the_request (glob a1)) (osst a1)"
    "serving (the_request (glob a1)) (osst a1) (oslib a1) (world a0) [] [] a1"
    by (rule accept_idle [OF 0(2-4)]) blast
  have "files a1 FCGI_stdin = Some \<lparr>stdio_stream = None, fcgx_stream = Some ReqIn\<rparr>" using 1(3) by (simp add: serving_def)
  from accepted_receiving [OF 1(2) assms(4) this] have "receiving (own_content FCGI_STDIN i irs) a1"
    using delivered_own_content [OF assms(5,4)] assms(3) by (simp add: begins_def)
  from in_run_receiving [OF this assms(6)] 0(1) 1(1) show ?thesis by auto
qed

definition sample_posted :: "unit app" where
  "sample_posted = app_start None (os_start (\<lambda>_. NotOpen) [Accepted 5 OtherFamily False])
     (sample_os [Arrives (wire_record 1 1 sample_body []), Arrives (wire_all sample_params),
                 Arrives (wire_all [(5, 1, [72, 10, 65], [0]), (5, 1, [66], []), (5, 1, [], [])])] []) ()"

lemma stdin_reads_as_file_witness:
  "\<forall>k :: (unit, int) stdio. \<exists>a1 a2. FCGI_Accept sample_env sample_posted = Inr (Returns 0, a1) \<and>
    in_run k [Gets, Fread 1 5, Getchar] a1 = Some (Inr ([Text (Some [72, 0]), Bytes 2 [65, 66], Ch (- 1)], a2))"
proof
  fix k :: "(unit, int) stdio"
  let ?rs = "[(5, 1, [72, 10, 65], [0]), (5, 1, [66], []), (5, 1, [], [])] :: wrec list"
  have f: "fresh_server sample_env sample_posted"
    by (auto simp: fresh_server_def sample_posted_def app_start_def sample_env_def)
  have n: "next_client sample_env sample_posted [] (Accepted 5 OtherFamily False) [] 5"
    by (simp add: next_client_def sample_posted_def app_start_def os_start_def approves_def verdict_of_def)
  have ne: "wire_all sample_params \<noteq> []" "wire_record 1 1 sample_body [] \<noteq> []" "wire_all ?rs \<noteq> []"
    by (simp_all add: sample_params_def wire_record_def)
  have "arriving 5 (osst sample_posted) = wire_record 1 1 sample_body [] @ wire_all sample_params @ wire_all ?rs @ []"
    using ne by (simp add: arriving_def sample_posted_def app_start_def del: wire_all_simps)
  moreover have "writes_ok 5 (osst sample_posted)" by (simp add: sample_posted_def app_start_def sample_writes_ok)
  ultimately have b: "begins 1 sample_body [([65], [66])] sample_params (wire_all ?rs @ []) 5 (osst sample_posted)"
    by (simp add: begins_def del: wire_all_simps) (simp add: rec_ok_def sample_body_def sample_params_def last_pad_def enc_len_def)
  have so: "stream_ok 5 1 False ?rs" by (simp add: rec_ok_def)
  have r: "fst (file_run [Gets, Fread 1 5, Getchar] (own_content 5 1 ?rs)) = [Text (Some [72, 0]), Bytes 2 [65, 66], Ch (- 1)]"
    by (simp add: upto_newline_def own_content_def)
  have wb: "well_behaved 1 ?rs" by (simp add: well_behaved_def)
  have ok: "\<forall>x \<in> set [Gets, Fread 1 5, Getchar]. in_ok x" by simp
  show "\<exists>a1 a2. FCGI_Accept sample_env sample_posted = Inr (Returns 0, a1) \<and>
    in_run k [Gets, Fread 1 5, Getchar] a1 = Some (Inr ([Text (Some [72, 0]), Bytes 2 [65, 66], Ch (- 1)], a2))"
    using stdin_reads_as_file [OF disjI2 [OF f] n b so wb ok, of k] unfolding r .
qed

end
