(* ===== verification/Streambuf.thy ===== *)
theory Streambuf
  imports WriterSession Delivery
begin

text \<open>
  \<^verbatim>\<open>libfcgi/fcgio.cpp\<close>: \<^verbatim>\<open>fcgi_streambuf\<close>, the buffer class that puts C++ streams on an \<^verbatim>\<open>FCGX_Stream\<close>, with
  what it inherits from \<^verbatim>\<open>std::streambuf\<close> of the standard library: the pointers of the get and put areas,
  \<^verbatim>\<open>sputc\<close>, \<^verbatim>\<open>sgetc\<close>, \<^verbatim>\<open>sbumpc\<close>, and \<^verbatim>\<open>xsputn\<close> and \<^verbatim>\<open>xsgetn\<close>, which repeat them.

  A buffer is the caller's memory, a list of bytes; pointers into it are offsets (those of an object without
  a buffer are null, and 0). The two areas share it. \<^verbatim>\<open>fcgx\<close> says whether there is a stream, which every
  operation gets and returns with its request.
\<close>

section \<open>State\<close>

record fcgi_streambuf =
  fcgx :: bool
  sb_buf :: "byte list"
  bufsize :: int
  eback :: nat
  gptr :: nat
  egptr :: nat
  pbase :: nat
  pptr :: nat
  epptr :: nat

definition setg :: "nat \<Rightarrow> nat \<Rightarrow> nat \<Rightarrow> fcgi_streambuf \<Rightarrow> fcgi_streambuf" where
  "setg b g e sb = sb\<lparr>eback := b, gptr := g, egptr := e\<rparr>"

definition setp :: "nat \<Rightarrow> nat \<Rightarrow> fcgi_streambuf \<Rightarrow> fcgi_streambuf" where
  "setp b e sb = sb\<lparr>pbase := b, pptr := b, epptr := e\<rparr>"

definition in_avail :: "fcgi_streambuf \<Rightarrow> nat" where
  "in_avail sb = (if gptr sb < egptr sb then egptr sb - gptr sb else 0)"

text \<open>A call of the library on the stream, with a null pointer if there is none.\<close>

definition on_fcgx ::
  "(strm \<Rightarrow> 'z reqdata_scheme \<Rightarrow> os_state \<Rightarrow> fault + 'a \<times> strm \<times> 'z reqdata_scheme \<times> os_state) \<Rightarrow>
    fcgi_streambuf \<Rightarrow> strm \<Rightarrow> 'z reqdata_scheme \<Rightarrow> os_state \<Rightarrow> fault + 'a \<times> strm \<times> 'z reqdata_scheme \<times> os_state" where
  "on_fcgx f sb s r os = (if fcgx sb then f s r os else Inl NullDeref)"

section \<open>Setting up\<close>

definition reset :: "fcgi_streambuf \<Rightarrow> fcgi_streambuf" where
  "reset sb = setp 0 (nat (bufsize sb)) (setg 0 0 0 sb)"

text \<open>\<^verbatim>\<open>setbuf\<close> returns 0, here \<open>False\<close>, when there is a buffer already.\<close>

definition setbuf :: "byte list \<Rightarrow> int \<Rightarrow> fcgi_streambuf \<Rightarrow> bool \<times> fcgi_streambuf" where
  "setbuf b bs sb =
     (if bufsize sb \<noteq> 0 then (False, sb)
      else (True, reset (sb\<lparr>sb_buf := b, bufsize := bs\<rparr>)))"

definition init_streambuf :: "bool \<Rightarrow> byte list \<Rightarrow> int \<Rightarrow> fcgi_streambuf" where
  "init_streambuf fs b bs =
     snd (setbuf b bs \<lparr> fcgx = fs, sb_buf = [], bufsize = 0, eback = 0, gptr = 0, egptr = 0, pbase = 0, pptr = 0, epptr = 0 \<rparr>)"

definition fcgi_streambuf_buffered :: "bool \<Rightarrow> byte list \<Rightarrow> int \<Rightarrow> fcgi_streambuf" where
  "fcgi_streambuf_buffered fs b bs = init_streambuf fs b bs"

definition fcgi_streambuf_detached :: "byte list \<Rightarrow> int \<Rightarrow> fcgi_streambuf" where
  "fcgi_streambuf_detached b bs = init_streambuf False b bs"

definition fcgi_streambuf_plain :: "bool \<Rightarrow> fcgi_streambuf" where
  "fcgi_streambuf_plain fs = init_streambuf fs [] 0"

definition attach :: "bool \<Rightarrow> fcgi_streambuf \<Rightarrow> int \<times> fcgi_streambuf" where
  "attach fs sb =
     (let sb = sb\<lparr>fcgx := fs\<rparr>
      in (0, if bufsize sb \<noteq> 0 then reset sb else sb))"

text \<open>\<^verbatim>\<open>fcgi_istream\<close> and \<^verbatim>\<open>fcgi_ostream\<close> are streams on a member without a buffer.\<close>

definition fcgi_istream :: "bool \<Rightarrow> fcgi_streambuf" where
  "fcgi_istream fs = snd (attach fs (fcgi_streambuf_plain False))"

definition fcgi_ostream :: "bool \<Rightarrow> fcgi_streambuf" where
  "fcgi_ostream fs = snd (attach fs (fcgi_streambuf_plain False))"

section \<open>Output\<close>

type_synonym 'z sb_result = "fault + int \<times> fcgi_streambuf \<times> strm \<times> 'z reqdata_scheme \<times> os_state"

text \<open>The put area goes to \<^verbatim>\<open>FCGX_PutStr\<close>; the flag is a failure.\<close>

definition consume_put_area ::
  "fcgi_streambuf \<Rightarrow> strm \<Rightarrow> 'z reqdata_scheme \<Rightarrow> os_state \<Rightarrow>
    fault + bool \<times> fcgi_streambuf \<times> strm \<times> 'z reqdata_scheme \<times> os_state" where
  "consume_put_area sb s r os =
     (let plen = wrap32 (int (pptr sb) - int (pbase sb)) in
      if plen = 0 then Inr (False, sb, s, r, os)
      else if plen < 0 then Inl BufferOverrun
      else rbind (on_fcgx (FCGX_PutStr EmptyBuffProc (take (nat plen) (slice (pbase sb) (pptr sb) (sb_buf sb)))) sb s r os)
             (\<lambda>(n, s, r, os).
              if n \<noteq> plen then Inr (True, sb, s, r, os)
              else Inr (False, sb\<lparr>pptr := nat (int (pptr sb) - plen)\<rparr>, s, r, os)))"

definition overflow :: "int \<Rightarrow> fcgi_streambuf \<Rightarrow> strm \<Rightarrow> 'z reqdata_scheme \<Rightarrow> os_state \<Rightarrow> 'z sb_result" where
  "overflow c sb s r os =
     rbind (if bufsize sb \<noteq> 0 then consume_put_area sb s r os else Inr (False, sb, s, r, os)) (\<lambda>(failed, sb, s, r, os).
     if failed then Inr (EOF, sb, s, r, os)
     else if c \<noteq> EOF then
       rbind (on_fcgx (FCGX_PutChar EmptyBuffProc c) sb s r os) (\<lambda>(n, s, r, os).
       if n \<noteq> c then Inr (EOF, sb, s, r, os) else Inr (0, sb, s, r, os))
     else Inr (0, sb, s, r, os))"

definition sync :: "fcgi_streambuf \<Rightarrow> strm \<Rightarrow> 'z reqdata_scheme \<Rightarrow> os_state \<Rightarrow> 'z sb_result" where
  "sync sb s r os =
     rbind (overflow EOF sb s r os) (\<lambda>(n, sb, s, r, os).
     if n \<noteq> 0 then Inr (EOF, sb, s, r, os)
     else rbind (on_fcgx (FCGX_FFlush EmptyBuffProc) sb s r os) (\<lambda>(n, s, r, os).
          Inr (if n \<noteq> 0 then EOF else 0, sb, s, r, os)))"

text \<open>The destructor.\<close>

definition destroy_streambuf :: "fcgi_streambuf \<Rightarrow> strm \<Rightarrow> 'z reqdata_scheme \<Rightarrow> os_state \<Rightarrow> fault + strm \<times> 'z reqdata_scheme \<times> os_state" where
  "destroy_streambuf sb s r os = rbind (overflow EOF sb s r os) (\<lambda>(_, _, s, r, os). Inr (s, r, os))"

text \<open>\<^verbatim>\<open>std::streambuf::sputc\<close> and \<^verbatim>\<open>xsputn\<close>.\<close>

definition sputc :: "byte \<Rightarrow> fcgi_streambuf \<Rightarrow> strm \<Rightarrow> 'z reqdata_scheme \<Rightarrow> os_state \<Rightarrow> 'z sb_result" where
  "sputc c sb s r os =
     (if pptr sb < epptr sb then
        rbind (memcpy_to (sb_buf sb) (pptr sb) [c]) (\<lambda>b. Inr (uint c, sb\<lparr>sb_buf := b, pptr := pptr sb + 1\<rparr>, s, r, os))
      else overflow (uint c) sb s r os)"

fun base_xsputn :: "byte list \<Rightarrow> int \<Rightarrow> fcgi_streambuf \<Rightarrow> strm \<Rightarrow> 'z reqdata_scheme \<Rightarrow> os_state \<Rightarrow> 'z sb_result" where
  "base_xsputn [] n sb s r os = Inr (n, sb, s, r, os)"
| "base_xsputn (c # cs) n sb s r os =
     rbind (sputc c sb s r os) (\<lambda>(m, sb, s, r, os).
     if m = EOF then Inr (n, sb, s, r, os) else base_xsputn cs (n + 1) sb s r os)"

abbreviation (input) "INT_MAX \<equiv> 2147483647 :: int"

definition xsputn :: "byte list \<Rightarrow> fcgi_streambuf \<Rightarrow> strm \<Rightarrow> 'z reqdata_scheme \<Rightarrow> os_state \<Rightarrow> 'z sb_result" where
  "xsputn str sb s r os =
     (if int (length str) > INT_MAX then Inr (0, sb, s, r, os)
      else if bufsize sb \<noteq> 0 then base_xsputn str 0 sb s r os
      else rbind (on_fcgx (FCGX_PutStr EmptyBuffProc str) sb s r os) (\<lambda>(n, s, r, os). Inr (n, sb, s, r, os)))"

section \<open>Input\<close>

definition fetch :: "fcgi_streambuf \<Rightarrow> fault + int" where
  "fetch sb = (if gptr sb < length (sb_buf sb) then Inr (uint (sb_buf sb ! gptr sb)) else Inl BufferOverrun)"

definition underflow :: "fcgi_streambuf \<Rightarrow> strm \<Rightarrow> 'z reqdata_scheme \<Rightarrow> os_state \<Rightarrow> 'z sb_result" where
  "underflow sb s r os =
     (if bufsize sb \<noteq> 0 then
        if in_avail sb = 0 then
          rbind (on_fcgx (FCGX_GetStr FillBuffProc (wrap32 (bufsize sb))) sb s r os) (\<lambda>(bs, s, r, os).
          rbind (memcpy_to (sb_buf sb) (eback sb) bs) (\<lambda>b.
          let sb = sb\<lparr>sb_buf := b\<rparr> in
          if length bs = 0 then Inr (EOF, sb, s, r, os)
          else let sb = setg (eback sb) (eback sb) (eback sb + length bs) sb
               in rbind (fetch sb) (\<lambda>c. Inr (c, sb, s, r, os))))
        else rbind (fetch sb) (\<lambda>c. Inr (c, sb, s, r, os))
      else rbind (on_fcgx (FCGX_GetChar FillBuffProc) sb s r os) (\<lambda>(c, s, r, os). Inr (c, sb, s, r, os)))"

definition uflow :: "fcgi_streambuf \<Rightarrow> strm \<Rightarrow> 'z reqdata_scheme \<Rightarrow> os_state \<Rightarrow> 'z sb_result" where
  "uflow sb s r os =
     rbind (underflow sb s r os) (\<lambda>(rv, sb, s, r, os).
     Inr (rv, if bufsize sb \<noteq> 0 then sb\<lparr>gptr := gptr sb + 1\<rparr> else sb, s, r, os))"

text \<open>\<^verbatim>\<open>std::streambuf::sgetc\<close>, \<^verbatim>\<open>sbumpc\<close> and \<^verbatim>\<open>xsgetn\<close>.\<close>

definition sgetc :: "fcgi_streambuf \<Rightarrow> strm \<Rightarrow> 'z reqdata_scheme \<Rightarrow> os_state \<Rightarrow> 'z sb_result" where
  "sgetc sb s r os =
     (if gptr sb < egptr sb then rbind (fetch sb) (\<lambda>c. Inr (c, sb, s, r, os)) else underflow sb s r os)"

definition sbumpc :: "fcgi_streambuf \<Rightarrow> strm \<Rightarrow> 'z reqdata_scheme \<Rightarrow> os_state \<Rightarrow> 'z sb_result" where
  "sbumpc sb s r os =
     (if gptr sb < egptr sb then rbind (fetch sb) (\<lambda>c. Inr (c, sb\<lparr>gptr := gptr sb + 1\<rparr>, s, r, os)) else uflow sb s r os)"

fun base_xsgetn ::
  "nat \<Rightarrow> byte list \<Rightarrow> fcgi_streambuf \<Rightarrow> strm \<Rightarrow> 'z reqdata_scheme \<Rightarrow> os_state \<Rightarrow>
    fault + byte list \<times> fcgi_streambuf \<times> strm \<times> 'z reqdata_scheme \<times> os_state" where
  "base_xsgetn 0 acc sb s r os = Inr (acc, sb, s, r, os)"
| "base_xsgetn (Suc n) acc sb s r os =
     rbind (sbumpc sb s r os) (\<lambda>(c, sb, s, r, os).
     if c = EOF then Inr (acc, sb, s, r, os) else base_xsgetn n (acc @ [word_of_int c]) sb s r os)"

definition xsgetn ::
  "int \<Rightarrow> fcgi_streambuf \<Rightarrow> strm \<Rightarrow> 'z reqdata_scheme \<Rightarrow> os_state \<Rightarrow>
    fault + byte list \<times> fcgi_streambuf \<times> strm \<times> 'z reqdata_scheme \<times> os_state" where
  "xsgetn n sb s r os =
     (if n > INT_MAX then Inr ([], sb, s, r, os)
      else if bufsize sb \<noteq> 0 then base_xsgetn (nat n) [] sb s r os
      else rbind (on_fcgx (FCGX_GetStr FillBuffProc n) sb s r os) (\<lambda>(bs, s, r, os). Inr (bs, sb, s, r, os)))"

end
