(* ===== verification/StreambufSpec.thy ===== *)
theory StreambufSpec
  imports Streambuf
begin

text \<open>
  A C++ stream on an \<^verbatim>\<open>FCGX_Stream\<close> is that stream: whatever the size of the buffer, even none, what is put
  arrives in order and what is got is the stream's content. What the interface does not give: looking ahead
  without a buffer.
\<close>

section \<open>Output\<close>

text \<open>A stream buffer used for output, which holds what is between \<^verbatim>\<open>pbase\<close> and \<^verbatim>\<open>pptr\<close>.\<close>

definition put_ok :: "fcgi_streambuf \<Rightarrow> bool" where
  "put_ok sb \<longleftrightarrow> fcgx sb \<and> pbase sb = 0 \<and> pptr sb \<le> epptr sb \<and> int (epptr sb) = bufsize sb \<and> bufsize sb < 2 ^ 31 \<and>
     epptr sb \<le> length (sb_buf sb)"

definition held :: "fcgi_streambuf \<Rightarrow> byte list" where
  "held sb = slice 0 (pptr sb) (sb_buf sb)"

lemma put_ok_new: "int (length b) < 2 ^ 31 \<Longrightarrow> put_ok (fcgi_streambuf_buffered True b (int (length b))) \<and>
    held (fcgi_streambuf_buffered True b (int (length b))) = []"
  by (simp add: put_ok_def held_def fcgi_streambuf_buffered_def init_streambuf_def setbuf_def reset_def setp_def setg_def)

text \<open>What has been put: some of it was handed to the library, the rest is held.\<close>

definition putting ::
  "int \<Rightarrow> strm \<Rightarrow> os_state \<Rightarrow> byte list \<Rightarrow> fcgi_streambuf \<Rightarrow> strm \<Rightarrow> 'z reqdata_scheme \<Rightarrow> os_state \<Rightarrow> bool" where
  "putting t s0 os0 d sb s r os \<longleftrightarrow> put_ok sb \<and> open_writer t s \<and> writes_ok (ipcFd r) os \<and>
     (\<exists>e. emitted emits_framed e s0 r os0 s os \<and> d = e @ held sb)"

lemma putting_emits:
  assumes "putting t s0 os0 d sb s r os" "q \<noteq> writer_op.Close"
  obtains s' os' e where "writer_step q s r os = Inr (op_result q, s', r, os')" "open_writer t s'" "writes_ok (ipcFd r) os'"
    "d = e @ held sb" "emitted emits_framed (e @ op_data q) s0 r os0 s' os'"
proof -
  have o: "open_writer t s" "writes_ok (ipcFd r) os" using assms(1) by (simp_all add: putting_def)
  obtain e where e: "emitted emits_framed e s0 r os0 s os" "d = e @ held sb" using assms(1) by (auto simp: putting_def)
  obtain s' os' where 1: "writer_step q s r os = Inr (op_result q, s', r, os')" "emitted emits_framed (op_data q) s r os s' os'"
    by (rule writer_step_emits [OF o(1) assms(2) o(2)])
  obtain cs where "sends (ipcFd r) (wire_of (requestId r) (map (Pair t) cs)) os os'"
    by (rule emitted_records [OF o(1) 1(2)])
  then have "writes_ok (ipcFd r) os'" using sends_writes_ok o(2) by blast
  then show ?thesis using that [OF 1(1) emitted_open [OF 1(2) o(1)]] e framed.emitted_trans [OF e(1) 1(2)] by blast
qed

lemma take_length_slice: "take n (slice 0 n xs) = slice 0 n xs"
  by (simp add: slice_def)

lemma consume_put_area_ok:
  assumes p: "putting t s0 os0 d sb s r os"
  obtains s' os' where "consume_put_area sb s r os = Inr (False, sb\<lparr>pptr := 0\<rparr>, s', r, os')"
    "putting t s0 os0 d (sb\<lparr>pptr := 0\<rparr>) s' r os'"
proof -
  note ok = p [unfolded putting_def put_ok_def]
  have w: "wrap32 (int (pptr sb) - int (pbase sb)) = int (pptr sb)"
    using ok by (intro trans [OF wrap32_id]) auto
  have ok0: "put_ok (sb\<lparr>pptr := 0\<rparr>)" "held (sb\<lparr>pptr := 0\<rparr>) = []" using ok by (simp_all add: put_ok_def held_def)
  show ?thesis
  proof (cases "pptr sb = 0")
    case True
    then have e: "sb\<lparr>pptr := 0\<rparr> = sb" by (cases sb) simp
    have "consume_put_area sb s r os = Inr (False, sb, s, r, os)" using w True by (simp add: consume_put_area_def)
    then show ?thesis using p by (intro that [of s os, unfolded e])
  next
    case False
    have len: "length (held sb) = pptr sb" using ok by (simp add: held_def)
    obtain s' os' e where 1: "writer_step (PutStr (held sb)) s r os = Inr (op_result (PutStr (held sb)), s', r, os')" "open_writer t s'"
      "writes_ok (ipcFd r) os'" "d = e @ held sb" "emitted emits_framed (e @ op_data (PutStr (held sb))) s0 r os0 s' os'"
      by (rule putting_emits [OF p, of "PutStr (held sb)"]) auto
    have f: "fcgx sb" "pbase sb = 0" using ok by simp_all
    have "FCGX_PutStr EmptyBuffProc (slice 0 (pptr sb) (sb_buf sb)) s r os = Inr (int (pptr sb), s', r, os')"
      using 1(1) len by (simp add: held_def)
    then have "consume_put_area sb s r os = Inr (False, sb\<lparr>pptr := 0\<rparr>, s', r, os')"
      using False w unfolding consume_put_area_def w by (simp add: f on_fcgx_def take_length_slice del: take_slice)
    moreover have "putting t s0 os0 d (sb\<lparr>pptr := 0\<rparr>) s' r os'"
      using 1(2-5) ok0 unfolding putting_def by auto
    ultimately show ?thesis by (rule that)
  qed
qed

lemma putting_bufsize: "putting t s0 os0 d sb s r os \<Longrightarrow> bufsize sb = 0 \<Longrightarrow> held sb = []"
  by (simp add: putting_def put_ok_def held_def)

lemma overflow_ok:
  assumes p: "putting t s0 os0 d sb s r os"
  shows "\<exists>sb' s' os'. overflow EOF sb s r os = Inr (0, sb', s', r, os') \<and> putting t s0 os0 d sb' s' r os' \<and> held sb' = []"
    "\<exists>sb' s' os'. overflow (uint c) sb s r os = Inr (0, sb', s', r, os') \<and> putting t s0 os0 (d @ [c :: byte]) sb' s' r os'"
proof -
  let ?first = "if bufsize sb \<noteq> 0 then consume_put_area sb s r os else Inr (False, sb, s, r, os)"
  obtain sb1 s1 os1 where 1: "?first = Inr (False, sb1, s1, r, os1)" "putting t s0 os0 d sb1 s1 r os1" "held sb1 = []"
  proof (cases "bufsize sb = 0")
    case True
    then show ?thesis using that [of sb s os] p putting_bufsize [OF p] by simp
  next
    case False
    obtain s' os' where "consume_put_area sb s r os = Inr (False, sb\<lparr>pptr := 0\<rparr>, s', r, os')"
      "putting t s0 os0 d (sb\<lparr>pptr := 0\<rparr>) s' r os'"
      by (rule consume_put_area_ok [OF p])
    then show ?thesis using that [of "sb\<lparr>pptr := 0\<rparr>" s' os'] False by (simp add: held_def)
  qed
  have "overflow EOF sb s r os = Inr (0, sb1, s1, r, os1)" unfolding overflow_def 1(1) by simp
  then show "\<exists>sb' s' os'. overflow EOF sb s r os = Inr (0, sb', s', r, os') \<and> putting t s0 os0 d sb' s' r os' \<and> held sb' = []"
    using 1(2,3) by blast
  obtain s2 os2 e where 2: "writer_step (PutChar (uint c)) s1 r os1 = Inr (op_result (PutChar (uint c)), s2, r, os2)" "open_writer t s2"
    "writes_ok (ipcFd r) os2" "d = e @ held sb1" "emitted emits_framed (e @ op_data (PutChar (uint c))) s0 r os0 s2 os2"
    by (rule putting_emits [OF 1(2), of "PutChar (uint c)"]) auto
  have f: "fcgx sb1" "put_ok sb1" using 1(2) by (simp_all add: putting_def put_ok_def)
  have "FCGX_PutChar EmptyBuffProc (uint c) s1 r os1 = Inr (uint c, s2, r, os2)" using 2(1) by simp
  moreover have "uint c \<noteq> - 1" using uint_ge_0 [of c] by linarith
  ultimately have "overflow (uint c) sb s r os = Inr (0, sb1, s2, r, os2)"
    unfolding overflow_def 1(1) by (simp add: on_fcgx_def f)
  moreover have "putting t s0 os0 (d @ [c]) sb1 s2 r os2"
    using 2(2-5) 1(3) f(2) unfolding putting_def by auto
  ultimately show "\<exists>sb' s' os'. overflow (uint c) sb s r os = Inr (0, sb', s', r, os') \<and> putting t s0 os0 (d @ [c]) sb' s' r os'"
    by blast
qed

lemma sputc_ok:
  assumes p: "putting t s0 os0 d sb s r os"
  shows "\<exists>n sb' s' os'. sputc c sb s r os = Inr (n, sb', s', r, os') \<and> n \<noteq> EOF \<and> putting t s0 os0 (d @ [c]) sb' s' r os'"
proof (cases "pptr sb < epptr sb")
  case True
  then have lt: "pptr sb < length (sb_buf sb)" using p by (auto simp: putting_def put_ok_def)
  let ?sb = "sb\<lparr>sb_buf := poke (sb_buf sb) (pptr sb) [c], pptr := pptr sb + 1\<rparr>"
  have "sputc c sb s r os = Inr (uint c, ?sb, s, r, os)" using True lt by (simp add: sputc_def memcpy_to_def)
  moreover have "held ?sb = held sb @ [c]"
    using slice_poke_right [of "pptr sb" "[c]" "sb_buf sb" 0] lt by (simp add: held_def)
  then have "putting t s0 os0 (d @ [c]) ?sb s r os"
    using p True lt by (auto simp: putting_def put_ok_def)
  moreover have "uint c \<noteq> - 1" using uint_ge_0 [of c] by linarith
  ultimately show ?thesis by blast
next
  case False
  then show ?thesis using overflow_ok(2) [OF p, of c] by (fastforce simp: sputc_def)
qed

lemma base_xsputn_ok:
  "putting t s0 os0 d sb s r os \<Longrightarrow> \<exists>sb' s' os'. base_xsputn cs n sb s r os = Inr (n + int (length cs), sb', s', r, os') \<and>
    putting t s0 os0 (d @ cs) sb' s' r os'"
proof (induction cs arbitrary: n d sb s os)
  case (Cons c cs)
  obtain m sb1 s1 os1 where 1: "sputc c sb s r os = Inr (m, sb1, s1, r, os1)" "m \<noteq> - 1" "putting t s0 os0 (d @ [c]) sb1 s1 r os1"
    using sputc_ok [OF Cons.prems] by blast
  show ?case using Cons.IH [OF 1(3), of "n + 1"] 1(1,2) by (auto simp: algebra_simps)
qed simp

text \<open>The calls on a C++ output stream's buffer.\<close>

datatype put_op = Sputc byte | Sputn "byte list" | Pubsync

fun put_step :: "put_op \<Rightarrow> fcgi_streambuf \<Rightarrow> strm \<Rightarrow> 'z reqdata_scheme \<Rightarrow> os_state \<Rightarrow> 'z sb_result" where
  "put_step (Sputc c) = sputc c"
| "put_step (Sputn str) = xsputn str"
| "put_step Pubsync = sync"

fun put_run ::
  "put_op list \<Rightarrow> fcgi_streambuf \<Rightarrow> strm \<Rightarrow> 'z reqdata_scheme \<Rightarrow> os_state \<Rightarrow>
    fault + int list \<times> fcgi_streambuf \<times> strm \<times> 'z reqdata_scheme \<times> os_state" where
  "put_run [] sb s r os = Inr ([], sb, s, r, os)"
| "put_run (x # xs) sb s r os =
     rbind (put_step x sb s r os) (\<lambda>(n, sb, s, r, os).
     rbind (put_run xs sb s r os) (\<lambda>(ns, sb, s, r, os). Inr (n # ns, sb, s, r, os)))"

fun put_data :: "put_op \<Rightarrow> byte list" where
  "put_data (Sputc c) = [c]"
| "put_data (Sputn str) = str"
| "put_data Pubsync = []"

fun put_result_ok :: "put_op \<Rightarrow> int \<Rightarrow> bool" where
  "put_result_ok (Sputc c) n = (n \<noteq> EOF)"
| "put_result_ok (Sputn str) n = (n = int (length str))"
| "put_result_ok Pubsync n = (n = 0)"

lemma put_step_ok:
  assumes p: "putting t s0 os0 d sb s r os" and len: "int (length (put_data x)) < 2 ^ 31"
  shows "\<exists>n sb' s' os'. put_step x sb s r os = Inr (n, sb', s', r, os') \<and> put_result_ok x n \<and>
    putting t s0 os0 (d @ put_data x) sb' s' r os'"
proof (cases x)
  case (Sputc c)
  then show ?thesis using sputc_ok [OF p, of c] by auto
next
  case (Sputn str)
  have len: "\<not> int (length str) > INT_MAX" using len Sputn by simp
  show ?thesis
  proof (cases "bufsize sb = 0")
    case True
    obtain s' os' e where 1: "writer_step (PutStr str) s r os = Inr (op_result (PutStr str), s', r, os')" "open_writer t s'"
      "writes_ok (ipcFd r) os'" "d = e @ held sb" "emitted emits_framed (e @ op_data (PutStr str)) s0 r os0 s' os'"
      by (rule putting_emits [OF p, of "PutStr str"]) auto
    have f: "fcgx sb" "put_ok sb" using p by (simp_all add: putting_def put_ok_def)
    have "xsputn str sb s r os = Inr (int (length str), sb, s', r, os')"
      using 1(1) len True f(1) by (simp add: xsputn_def on_fcgx_def)
    moreover have "putting t s0 os0 (d @ str) sb s' r os'"
      using 1(2-5) f(2) putting_bufsize [OF p True] unfolding putting_def by auto
    ultimately show ?thesis using Sputn by auto
  next
    case False
    then show ?thesis using base_xsputn_ok [OF p, of str 0] len Sputn by (auto simp: xsputn_def)
  qed
next
  case Pubsync
  obtain sb1 s1 os1 where 1: "overflow EOF sb s r os = Inr (0, sb1, s1, r, os1)" "putting t s0 os0 d sb1 s1 r os1" "held sb1 = []"
    using overflow_ok(1) [OF p] by blast
  obtain s2 os2 e where 2: "writer_step Flush s1 r os1 = Inr (op_result Flush, s2, r, os2)" "open_writer t s2"
    "writes_ok (ipcFd r) os2" "d = e @ held sb1" "emitted emits_framed (e @ op_data Flush) s0 r os0 s2 os2"
    by (rule putting_emits [OF 1(2), of Flush]) auto
  have f: "fcgx sb1" "put_ok sb1" using 1(2) by (simp_all add: putting_def put_ok_def)
  have "sync sb s r os = Inr (0, sb1, s2, r, os2)" using 1(1) 2(1) by (simp add: sync_def on_fcgx_def f)
  moreover have "putting t s0 os0 d sb1 s2 r os2" using 2(2-5) f(2) unfolding putting_def by auto
  ultimately show ?thesis using Pubsync by auto
qed

lemma put_run_ok:
  assumes "putting t s0 os0 d sb s r os" "\<forall>x \<in> set xs. int (length (put_data x)) < 2 ^ 31"
  shows "\<exists>ns sb' s' os'. put_run xs sb s r os = Inr (ns, sb', s', r, os') \<and> list_all2 put_result_ok xs ns \<and>
    putting t s0 os0 (d @ concat (map put_data xs)) sb' s' r os'"
  using assms
proof (induction xs arbitrary: d sb s os)
  case (Cons x xs)
  obtain n sb1 s1 os1 where 1: "put_step x sb s r os = Inr (n, sb1, s1, r, os1)" "put_result_ok x n"
    "putting t s0 os0 (d @ put_data x) sb1 s1 r os1"
    using put_step_ok [OF Cons.prems(1), of x] Cons.prems(2) by auto
  obtain ns sb2 s2 os2 where "put_run xs sb1 s1 r os1 = Inr (ns, sb2, s2, r, os2)" "list_all2 put_result_ok xs ns"
    "putting t s0 os0 ((d @ put_data x) @ concat (map put_data xs)) sb2 s2 r os2"
    using Cons.IH [OF 1(3)] Cons.prems(2) by auto
  then show ?case using 1 by auto
qed simp

lemma putting_start:
  assumes "open_writer t s" "writes_ok (ipcFd r) os" "int (length b) < 2 ^ 31"
  shows "putting t s os [] (fcgi_streambuf_buffered True b (int (length b))) s r os"
proof -
  have "emitted emits_framed [] s r os s os"
    using assms(1) by (auto simp: emitted_def open_writer_def same_writer_def intro!: exI [of _ "[]"] framed.emits_refl)
  then show ?thesis using put_ok_new [OF assms(3)] assms(1,2) unfolding putting_def by auto
qed

text \<open>C11: C++ output. Characters and strings put through an \<^verbatim>\<open>fcgi_streambuf\<close> with a buffer of any size, or none,
  reach the \<^verbatim>\<open>FCGX_Stream\<close> in order and whole once the buffer object is destroyed, no store leaves the buffer,
  and every call reports success.\<close>

theorem streambuf_output:
  assumes "open_writer t s" "writes_ok (ipcFd r) os" "int (length b) < 2 ^ 31"
    and "\<forall>x \<in> set xs. int (length (put_data x)) < 2 ^ 31"
  shows "\<exists>ns sb s1 os1 s2 os2. put_run xs (fcgi_streambuf_buffered True b (int (length b))) s r os = Inr (ns, sb, s1, r, os1) \<and>
    list_all2 put_result_ok xs ns \<and> destroy_streambuf sb s1 r os1 = Inr (s2, r, os2) \<and> open_writer t s2 \<and>
    emitted emits_framed (concat (map put_data xs)) s r os s2 os2"
proof -
  obtain ns sb1 s1 os1 where 1: "put_run xs (fcgi_streambuf_buffered True b (int (length b))) s r os = Inr (ns, sb1, s1, r, os1)"
    "list_all2 put_result_ok xs ns" "putting t s os (concat (map put_data xs)) sb1 s1 r os1"
    using put_run_ok [OF putting_start [OF assms(1-3)] assms(4)] by auto
  obtain sb2 s2 os2 where 2: "overflow EOF sb1 s1 r os1 = Inr (0, sb2, s2, r, os2)"
    "putting t s os (concat (map put_data xs)) sb2 s2 r os2" "held sb2 = []"
    using overflow_ok(1) [OF 1(3)] by blast
  have "destroy_streambuf sb1 s1 r os1 = Inr (s2, r, os2)" using 2(1) by (simp add: destroy_streambuf_def)
  then show ?thesis using 1(1,2) 2(2,3) by (auto simp: putting_def)
qed

lemma streambuf_output_witness:
  "\<exists>ns sb s1 os1 s2 os2. put_run [Sputn [1, 2, 3], Sputc 4, Pubsync, Sputc 5] (fcgi_streambuf_buffered True [0, 0] 2)
      (NewWriter 0 64 FCGI_STDOUT) sample_request (sample_os [] []) = Inr (ns, sb, s1, sample_request, os1) \<and>
    destroy_streambuf sb s1 sample_request os1 = Inr (s2, sample_request, os2) \<and>
    emitted emits_framed [1, 2, 3, 4, 5] (NewWriter 0 64 FCGI_STDOUT) sample_request (sample_os [] []) s2 os2"
  using streambuf_output [OF NewWriter_open [of FCGI_STDOUT 0 64] sample_writes_ok, where r = sample_request and b = "[0, 0]"
      and xs = "[Sputn [1, 2, 3], Sputc 4, Pubsync, Sputc 5]"]
  by fastforce

section \<open>Input\<close>

text \<open>A stream buffer used for input, with \<open>bs\<close> still to come from its get area and the stream.\<close>

definition get_ok :: "fcgi_streambuf \<Rightarrow> bool" where
  "get_ok sb \<longleftrightarrow> fcgx sb \<and> eback sb = 0 \<and> 0 \<le> bufsize sb \<and> bufsize sb < 2 ^ 31 \<and> bufsize sb \<le> int (length (sb_buf sb)) \<and>
     egptr sb \<le> length (sb_buf sb) \<and> (bufsize sb = 0 \<longrightarrow> egptr sb = 0)"

definition getting ::
  "strm \<Rightarrow> byte list \<Rightarrow> byte list \<Rightarrow> byte list \<Rightarrow> byte list \<Rightarrow> fcgi_streambuf \<Rightarrow> strm \<Rightarrow> 'z reqdata_scheme \<Rightarrow> os_state \<Rightarrow> bool" where
  "getting s0 P T X bs sb s r os \<longleftrightarrow> get_ok sb \<and>
     (\<exists>cs. bs = slice (gptr sb) (egptr sb) (sb_buf sb) @ cs \<and> stream.avail r s0 P T X cs s r os)"

lemma fetch_ok: "get_ok sb \<Longrightarrow> gptr sb < egptr sb \<Longrightarrow> fetch sb = Inr (uint (sb_buf sb ! gptr sb))"
  by (simp add: fetch_def get_ok_def)

lemma slice_get: "gptr sb < egptr sb \<Longrightarrow> get_ok sb \<Longrightarrow>
    slice (gptr sb) (egptr sb) (sb_buf sb) = sb_buf sb ! gptr sb # slice (gptr sb + 1) (egptr sb) (sb_buf sb)"
  by (simp add: slice_Cons get_ok_def)

lemma take_length_poke: "take (length cs) (poke mem 0 cs) = cs"
  by (simp add: poke_def)

lemma nth_poke: "cs \<noteq> [] \<Longrightarrow> poke mem 0 cs ! 0 = hd cs"
  by (simp add: poke_def nth_append hd_conv_nth)

lemma underflow_refill:
  assumes "FCGX_GetStr FillBuffProc (wrap32 (bufsize sb)) s r os = Inr (cs, s', r', os')" "memcpy_to (sb_buf sb) 0 cs = Inr b"
    and "fcgx sb" "eback sb = 0" "in_avail sb = 0" "bufsize sb \<noteq> 0" "cs \<noteq> []"
    and "fetch (setg 0 0 (length cs) (sb\<lparr>sb_buf := b\<rparr>)) = Inr c"
  shows "underflow sb s r os = Inr (c, setg 0 0 (length cs) (sb\<lparr>sb_buf := b\<rparr>), s', r', os')"
  using assms by (simp add: underflow_def on_fcgx_def)

text \<open>\<^verbatim>\<open>underflow\<close> with an empty get area: with a buffer it refills it and takes nothing, without one it takes a byte.\<close>

lemma underflow_ok:
  assumes g: "getting s0 P T X bs sb s r os" and e: "\<not> gptr sb < egptr sb"
  shows "\<exists>sb' s' os'. underflow sb s r os = Inr (if bs = [] then EOF else uint (hd bs), sb', s', r, os') \<and>
    bufsize sb' = bufsize sb \<and> getting s0 P T X (if bufsize sb = 0 then tl bs else bs) sb' s' r os' \<and>
    (bufsize sb \<noteq> 0 \<longrightarrow> (gptr sb' < egptr sb') = (bs \<noteq> []))"
proof -
  have av: "stream.avail r s0 P T X bs s r os" and ok: "get_ok sb" using g e by (auto simp: getting_def)
  show ?thesis
  proof (cases "bufsize sb = 0")
    case True
    obtain s' os' where 1: "FCGX_GetChar FillBuffProc s r os = Inr (if bs = [] then EOF else uint (hd bs), s', r, os')"
      "stream.avail r s0 P T X (tl bs) s' r os'"
      using stream.GetChar_avail [OF av] avail_same_request by blast
    have "underflow sb s r os = Inr (if bs = [] then EOF else uint (hd bs), sb, s', r, os')"
      using True ok 1(1) by (simp add: underflow_def on_fcgx_def get_ok_def)
    moreover have "getting s0 P T X (tl bs) sb s' r os'" using 1(2) ok e by (auto simp: getting_def)
    ultimately show ?thesis using True by auto
  next
    case False
    have n: "0 \<le> bufsize sb" "wrap32 (bufsize sb) = bufsize sb" using ok by (auto simp: get_ok_def)
    obtain s' os' where 1: "FCGX_GetStr FillBuffProc (bufsize sb) s r os = Inr (take (nat (bufsize sb)) bs, s', r, os')"
      "stream.avail r s0 P T X (drop (nat (bufsize sb)) bs) s' r os'"
      using stream.GetStr_avail [OF av n(1)] avail_same_request by blast
    let ?bs = "take (nat (bufsize sb)) bs"
    have fits: "length ?bs \<le> length (sb_buf sb)" using ok by (auto simp: get_ok_def)
    have ne: "?bs = [] \<longleftrightarrow> bs = []" using False n(1) by auto
    let ?b = "poke (sb_buf sb) 0 ?bs"
    have gs: "FCGX_GetStr FillBuffProc (wrap32 (bufsize sb)) s r os = Inr (?bs, s', r, os')"
      "memcpy_to (sb_buf sb) 0 ?bs = Inr ?b" "fcgx sb" "eback sb = 0" "in_avail sb = 0"
      using 1(1) n fits ok e by (simp_all add: memcpy_to_def get_ok_def in_avail_def)
    have lb: "length ?b = length (sb_buf sb)" "take (length ?bs) ?b = ?bs" by (use fits in \<open>simp add: poke_def\<close>, rule take_length_poke)
    show ?thesis
    proof (cases "bs = []")
      case True
      have "underflow sb s r os = Inr (EOF, sb\<lparr>sb_buf := ?b\<rparr>, s', r, os')"
        using False True gs by (simp add: underflow_def on_fcgx_def)
      moreover have "getting s0 P T X bs (sb\<lparr>sb_buf := ?b\<rparr>) s' r os'"
        using True 1(2) ok e lb(1) by (auto simp: getting_def get_ok_def)
      ultimately show ?thesis using True False e by auto
    next
      case ne: False
      let ?sb = "(sb\<lparr>sb_buf := ?b\<rparr>)\<lparr>gptr := 0, egptr := length ?bs\<rparr>"
      have pos: "0 < length ?bs" using ne False n(1) by auto
      have h: "?b ! 0 = hd bs"
        using nth_poke [of ?bs "sb_buf sb"] ne False n(1) by simp
      have e: "eback sb = 0" by (rule gs(4))
      have sg: "setg 0 0 (length ?bs) (sb\<lparr>sb_buf := ?b\<rparr>) = ?sb" using e by (cases sb) (simp add: setg_def)
      have "0 < length (sb_buf sb)" using pos fits by linarith
      then have "fetch ?sb = Inr (uint (hd bs))" using lb(1) h by (simp add: fetch_def)
      then have "underflow sb s r os = Inr (uint (hd bs), ?sb, s', r, os')"
        using underflow_refill [OF gs False, of "uint (hd bs)"] ne False n(1) unfolding sg by simp
      moreover have "get_ok ?sb" using ok fits lb(1) False by (auto simp: get_ok_def)
      then have "getting s0 P T X bs ?sb s' r os'"
        using 1(2) lb(2)
        by (auto simp: getting_def slice_def simp del: length_take intro!: exI [of _ "drop (nat (bufsize sb)) bs"])
      ultimately show ?thesis using ne False pos by auto
    qed
  qed
qed

text \<open>Taking a byte, with any buffer, and looking at one, with a buffer.\<close>

lemma sbumpc_ok:
  assumes g: "getting s0 P T X bs sb s r os"
  shows "\<exists>sb' s' os'. sbumpc sb s r os = Inr (if bs = [] then EOF else uint (hd bs), sb', s', r, os') \<and>
    bufsize sb' = bufsize sb \<and> getting s0 P T X (tl bs) sb' s' r os'"
proof (cases "gptr sb < egptr sb")
  case True
  then show ?thesis using g fetch_ok slice_get [OF True] by (auto simp: sbumpc_def getting_def get_ok_def)
next
  case False
  obtain sb1 s1 os1 where 1: "underflow sb s r os = Inr (if bs = [] then EOF else uint (hd bs), sb1, s1, r, os1)"
    "bufsize sb1 = bufsize sb" "getting s0 P T X (if bufsize sb = 0 then tl bs else bs) sb1 s1 r os1"
    "bufsize sb \<noteq> 0 \<longrightarrow> (gptr sb1 < egptr sb1) = (bs \<noteq> [])"
    using underflow_ok [OF g False] by blast
  let ?sb = "if bufsize sb1 \<noteq> 0 then sb1\<lparr>gptr := gptr sb1 + 1\<rparr> else sb1"
  have "getting s0 P T X (tl bs) ?sb s1 r os1"
  proof (cases "bufsize sb = 0")
    case True
    then show ?thesis using 1(2,3) by simp
  next
    case nz: False
    have ok: "get_ok sb1" using 1(3) by (simp add: getting_def)
    show ?thesis
    proof (cases "bs = []")
      case True
      then show ?thesis using 1 nz ok by (auto simp: getting_def get_ok_def)
    next
      case False
      then have "gptr sb1 < egptr sb1" using 1(4) nz by simp
      then show ?thesis using 1(2,3) nz ok slice_get [of sb1] by (auto simp: getting_def get_ok_def)
    qed
  qed
  then show ?thesis using 1(1,2) False by (auto simp: sbumpc_def uflow_def)
qed

lemma sgetc_ok:
  assumes g: "getting s0 P T X bs sb s r os" and b: "bufsize sb \<noteq> 0"
  shows "\<exists>sb' s' os'. sgetc sb s r os = Inr (if bs = [] then EOF else uint (hd bs), sb', s', r, os') \<and>
    bufsize sb' = bufsize sb \<and> getting s0 P T X bs sb' s' r os'"
proof (cases "gptr sb < egptr sb")
  case True
  then show ?thesis using g fetch_ok slice_get [OF True] by (auto simp: sgetc_def getting_def get_ok_def)
next
  case False
  then show ?thesis using underflow_ok [OF g False] b by (auto simp: sgetc_def)
qed

lemma base_xsgetn_ok:
  "getting s0 P T X bs sb s r os \<Longrightarrow> \<exists>sb' s' os'. base_xsgetn n acc sb s r os = Inr (acc @ take n bs, sb', s', r, os') \<and>
    bufsize sb' = bufsize sb \<and> getting s0 P T X (drop n bs) sb' s' r os'"
proof (induction n arbitrary: acc bs sb s os)
  case (Suc n)
  obtain sb1 s1 os1 where 1: "sbumpc sb s r os = Inr (if bs = [] then EOF else uint (hd bs), sb1, s1, r, os1)"
    "bufsize sb1 = bufsize sb" "getting s0 P T X (tl bs) sb1 s1 r os1"
    using sbumpc_ok [OF Suc.prems] by blast
  show ?case
  proof (cases bs)
    case Nil
    then show ?thesis using 1 by auto
  next
    case (Cons b cs)
    have "uint b \<noteq> - 1" using uint_ge_0 [of b] by linarith
    then show ?thesis using 1 Cons Suc.IH [OF 1(3), of "acc @ [b]"] by auto
  qed
qed auto

text \<open>The calls on a C++ input stream's buffer, and the same on a list of bytes.\<close>

datatype get_op = Sbumpc | Sgetc | Sgetn int

datatype get_result = Got int | Some_bytes "byte list"

fun get_step ::
  "get_op \<Rightarrow> fcgi_streambuf \<Rightarrow> strm \<Rightarrow> 'z reqdata_scheme \<Rightarrow> os_state \<Rightarrow>
    fault + get_result \<times> fcgi_streambuf \<times> strm \<times> 'z reqdata_scheme \<times> os_state" where
  "get_step Sbumpc sb s r os = rbind (sbumpc sb s r os) (\<lambda>(c, t). Inr (Got c, t))"
| "get_step Sgetc sb s r os = rbind (sgetc sb s r os) (\<lambda>(c, t). Inr (Got c, t))"
| "get_step (Sgetn n) sb s r os = rbind (xsgetn n sb s r os) (\<lambda>(bs, t). Inr (Some_bytes bs, t))"

fun get_run ::
  "get_op list \<Rightarrow> fcgi_streambuf \<Rightarrow> strm \<Rightarrow> 'z reqdata_scheme \<Rightarrow> os_state \<Rightarrow>
    fault + get_result list \<times> fcgi_streambuf \<times> strm \<times> 'z reqdata_scheme \<times> os_state" where
  "get_run [] sb s r os = Inr ([], sb, s, r, os)"
| "get_run (x # xs) sb s r os =
     rbind (get_step x sb s r os) (\<lambda>(y, sb, s, r, os).
     rbind (get_run xs sb s r os) (\<lambda>(ys, t). Inr (y # ys, t)))"

fun get_list :: "get_op \<Rightarrow> byte list \<Rightarrow> get_result \<times> byte list" where
  "get_list Sbumpc bs = (Got (if bs = [] then EOF else uint (hd bs)), tl bs)"
| "get_list Sgetc bs = (Got (if bs = [] then EOF else uint (hd bs)), bs)"
| "get_list (Sgetn n) bs = (Some_bytes (take (nat n) bs), drop (nat n) bs)"

fun get_lists :: "get_op list \<Rightarrow> byte list \<Rightarrow> get_result list" where
  "get_lists [] bs = []"
| "get_lists (x # xs) bs = (let (y, bs) = get_list x bs in y # get_lists xs bs)"

definition get_op_ok :: "int \<Rightarrow> get_op \<Rightarrow> bool" where
  "get_op_ok n x \<longleftrightarrow> (case x of Sbumpc \<Rightarrow> True | Sgetc \<Rightarrow> n \<noteq> 0 | Sgetn m \<Rightarrow> 0 \<le> m \<and> m < 2 ^ 31)"

lemma get_step_ok:
  assumes g: "getting s0 P T X bs sb s r os" and x: "get_op_ok (bufsize sb) x"
  shows "\<exists>sb' s' os'. get_step x sb s r os = Inr (fst (get_list x bs), sb', s', r, os') \<and>
    bufsize sb' = bufsize sb \<and> getting s0 P T X (snd (get_list x bs)) sb' s' r os'"
proof (cases x)
  case Sbumpc
  then show ?thesis using sbumpc_ok [OF g] by auto
next
  case Sgetc
  then show ?thesis using sgetc_ok [OF g] x by (auto simp: get_op_ok_def)
next
  case (Sgetn n)
  then have n: "0 \<le> n" "\<not> n > INT_MAX" using x by (auto simp: get_op_ok_def)
  show ?thesis
  proof (cases "bufsize sb = 0")
    case True
    have e: "\<not> gptr sb < egptr sb" and ok: "get_ok sb" using g True by (auto simp: getting_def get_ok_def)
    have av: "stream.avail r s0 P T X bs s r os" using g e by (auto simp: getting_def)
    obtain s' os' where 1: "FCGX_GetStr FillBuffProc n s r os = Inr (take (nat n) bs, s', r, os')"
      "stream.avail r s0 P T X (drop (nat n) bs) s' r os'"
      using stream.GetStr_avail [OF av n(1)] avail_same_request by blast
    have "xsgetn n sb s r os = Inr (take (nat n) bs, sb, s', r, os')"
      using n True 1(1) ok by (simp add: xsgetn_def on_fcgx_def get_ok_def)
    moreover have "getting s0 P T X (drop (nat n) bs) sb s' r os'" using 1(2) ok e by (auto simp: getting_def)
    ultimately show ?thesis using Sgetn by auto
  next
    case False
    then show ?thesis using base_xsgetn_ok [OF g, of "nat n" "[]"] n Sgetn by (auto simp: xsgetn_def)
  qed
qed

lemma get_run_ok:
  assumes "getting s0 P T X bs sb s r os" "\<forall>x \<in> set xs. get_op_ok (bufsize sb) x"
  shows "\<exists>sb' s' os'. get_run xs sb s r os = Inr (get_lists xs bs, sb', s', r, os')"
  using assms
proof (induction xs arbitrary: bs sb s os)
  case (Cons x xs)
  obtain sb1 s1 os1 where 1: "get_step x sb s r os = Inr (fst (get_list x bs), sb1, s1, r, os1)"
    "bufsize sb1 = bufsize sb" "getting s0 P T X (snd (get_list x bs)) sb1 s1 r os1"
    using get_step_ok [OF Cons.prems(1), of x] Cons.prems(2) by auto
  then show ?case using Cons.IH [OF 1(3)] Cons.prems(2) by (auto simp: case_prod_beta)
qed simp

text \<open>C12: C++ input. Calls on the buffer of a C++ stream, with a buffer of any size or none, get the content of the
  \<^verbatim>\<open>FCGX_Stream\<close> in order and then \<^verbatim>\<open>EOF\<close>, and no access leaves the buffer; looking ahead with
  \<^verbatim>\<open>sgetc\<close> needs a buffer.\<close>

theorem streambuf_input:
  assumes "at_start s r os" "inp s r os = wire_all rs @ X" "stream_ok (stype s) (requestId r) False rs"
    and "int (length b) < 2 ^ 31" "\<forall>x \<in> set xs. get_op_ok (int (length b)) x"
  shows "\<exists>sb' s' os'. get_run xs (fcgi_streambuf_buffered True b (int (length b))) s r os =
    Inr (get_lists xs (delivered (stype s) (requestId r) False rs), sb', s', r, os')"
proof -
  let ?sb = "fcgi_streambuf_buffered True b (int (length b))"
  have sb: "get_ok ?sb" "gptr ?sb = 0" "egptr ?sb = 0" "bufsize ?sb = int (length b)"
    using assms(4)
    by (simp_all add: get_ok_def fcgi_streambuf_buffered_def init_streambuf_def setbuf_def reset_def setp_def setg_def)
  have "getting s (last_pad rs) (sent (conns os (ipcFd r)) @ answers (stype s) (requestId r) False rs) X
      (delivered (stype s) (requestId r) False rs) ?sb s r os"
    using stream_enter [OF assms(1-3)] sb by (simp add: getting_def)
  then show ?thesis using get_run_ok assms(5) sb(4) by metis
qed

lemma streambuf_input_witness:
  "\<exists>sb s' os'. get_run [Sgetc, Sbumpc, Sgetn 2, Sbumpc] (fcgi_streambuf_buffered True [0, 0] 2) sample_reader sample_request
     (sample_os [Arrives (wire_all [(5, 1, [72, 105, 10], [0]), (5, 1, [], [])])] []) =
   Inr ([Got 72, Got 72, Some_bytes [105, 10], Got (- 1)], sb, s', sample_request, os')"
proof -
  let ?rs = "[(5, 1, [72, 105, 10], [0]), (5, 1, [], [])] :: wrec list"
  let ?os = "sample_os [Arrives (wire_all ?rs)] []"
  have "?rs \<noteq> []" by simp
  note st = sample_reader_start(3) [OF this] and at = sample_reader_start(1) [OF this] and i = sample_reader_start(2) [OF this]
  have so: "stream_ok (stype sample_reader) (requestId sample_request) False ?rs" unfolding st by (simp add: rec_ok_def)
  have ok: "\<forall>x \<in> set [Sgetc, Sbumpc, Sgetn 2, Sbumpc]. get_op_ok (int (length [0, 0 :: byte])) x" by (simp add: get_op_ok_def)
  have d: "get_lists [Sgetc, Sbumpc, Sgetn 2, Sbumpc] (delivered (stype sample_reader) (requestId sample_request) False ?rs) =
      [Got 72, Got 72, Some_bytes [105, 10], Got (- 1)]"
    unfolding st by simp
  show ?thesis using streambuf_input [OF at i so _ ok] unfolding d by simp
qed

section \<open>What the interface does not give\<close>

text \<open>At the end of the content \<^verbatim>\<open>uflow\<close> moves \<^verbatim>\<open>gptr\<close> beyond \<^verbatim>\<open>egptr\<close>.\<close>

lemma uflow_passes_end:
  assumes "underflow sb s r os = Inr (EOF, sb', s', r, os')" "bufsize sb' \<noteq> 0" "egptr sb' \<le> gptr sb'"
  shows "\<exists>sb2. uflow sb s r os = Inr (EOF, sb2, s', r, os') \<and> egptr sb2 < gptr sb2"
  using assms by (simp add: uflow_def)

text \<open>Without a buffer \<^verbatim>\<open>sgetc\<close> takes the byte it is to look at, so that what was looked at is lost to the next call;
  without a stream attached every operation that needs one follows the null pointer.\<close>

theorem streambuf_limits:
  assumes "at_start s r os" "inp s r os = wire_all rs @ X" "stream_ok (stype s) (requestId r) False rs"
    and "delivered (stype s) (requestId r) False rs = x # y # zs"
  shows "(\<exists>sb' s' os'. get_run [Sgetc, Sbumpc] (fcgi_streambuf_plain True) s r os = Inr ([Got (uint x), Got (uint y)], sb', s', r, os')) \<and>
    sgetc (fcgi_istream False) s r os = Inl NullDeref \<and> sputc c (fcgi_ostream False) s r os = Inl NullDeref"
proof -
  let ?sb = "fcgi_streambuf_plain True"
  have n: "fcgi_streambuf_plain fs = \<lparr> fcgx = fs, sb_buf = [], bufsize = 0, eback = 0, gptr = 0, egptr = 0, pbase = 0, pptr = 0, epptr = 0 \<rparr>" for fs
    by (simp add: fcgi_streambuf_plain_def init_streambuf_def setbuf_def reset_def setp_def setg_def)
  note av = stream_enter [OF assms(1-3), unfolded assms(4)]
  obtain s1 os1 where 1: "FCGX_GetChar FillBuffProc s r os = Inr (uint x, s1, r, os1)"
    "stream.avail r s (last_pad rs) (sent (conns os (ipcFd r)) @ answers (stype s) (requestId r) False rs) X (y # zs) s1 r os1"
    using stream.GetChar_avail [OF av] avail_same_request by fastforce
  obtain s2 os2 where 2: "FCGX_GetChar FillBuffProc s1 r os1 = Inr (uint y, s2, r, os2)"
    using stream.GetChar_avail [OF 1(2)] avail_same_request by fastforce
  have "get_run [Sgetc, Sbumpc] ?sb s r os = Inr ([Got (uint x), Got (uint y)], ?sb, s2, r, os2)"
    using 1(1) 2 by (simp add: n sgetc_def sbumpc_def uflow_def underflow_def on_fcgx_def)
  moreover have "uint c \<noteq> - 1" using uint_ge_0 [of c] by linarith
  then have "sgetc (fcgi_istream False) s r os = Inl NullDeref \<and> sputc c (fcgi_ostream False) s r os = Inl NullDeref"
    by (simp add: fcgi_istream_def fcgi_ostream_def attach_def n sgetc_def sputc_def underflow_def overflow_def on_fcgx_def Let_def)
  ultimately show ?thesis by blast
qed

lemma streambuf_limits_witness:
  "\<exists>sb' s' os'. get_run [Sgetc, Sbumpc] (fcgi_streambuf_plain True) sample_reader sample_request
     (sample_os [Arrives (wire_all [(5, 1, [72, 105], []), (5, 1, [], [])])] []) =
   Inr ([Got 72, Got 105], sb', s', sample_request, os')"
proof -
  let ?rs = "[(5, 1, [72, 105], []), (5, 1, [], [])] :: wrec list"
  let ?os = "sample_os [Arrives (wire_all ?rs)] []"
  have "?rs \<noteq> []" by simp
  note st = sample_reader_start(3) [OF this] and at = sample_reader_start(1) [OF this] and i = sample_reader_start(2) [OF this]
  have so: "stream_ok (stype sample_reader) (requestId sample_request) False ?rs" unfolding st by (simp add: rec_ok_def)
  have d: "delivered (stype sample_reader) (requestId sample_request) False ?rs = 72 # 105 # []" unfolding st by simp
  show ?thesis using streambuf_limits [OF at i so d] by simp
qed

end
