(* ===== verification/Worker.thy ===== *)
theory Worker
  imports Request
begin

text \<open>
  \<^verbatim>\<open>main.cpp\<close>: the loop of a worker thread (\<^verbatim>\<open>cry\<close>), which answers every request with one page. The page is
  built with Qt's \<^verbatim>\<open>QByteArray\<close>, whose \<^verbatim>\<open>append\<close> concatenates; \<^verbatim>\<open>number\<close>, the decimal text of the request counter, is
  an argument.
\<close>

section \<open>The loop\<close>

definition boom :: "(int \<Rightarrow> byte list) \<Rightarrow> int \<Rightarrow> byte list" where
  "boom number rq =
     chars ''Status:200'' @ [13, 10] @ chars ''Content-Type:text/html; charset=utf-8'' @ [13, 10, 13, 10] @
     chars ''SRLY!!! '' @ [10] @ number rq"

text \<open>One turn of the loop: the flag is whether there is another; \<open>rq\<close> is the counter shared by the workers.\<close>

definition cry_turn ::
  "(int \<Rightarrow> byte list) \<Rightarrow> environment \<Rightarrow> fcgx_globals \<Rightarrow> int \<Rightarrow> FCGX_Request \<Rightarrow> os_lib \<Rightarrow> os_state \<Rightarrow>
    fault + bool \<times> int \<times> FCGX_Request \<times> os_lib \<times> os_state" where
  "cry_turn number e g rq r l os =
     (let rq = wrap32 (rq + 1) in
      rbind (FCGX_Accept_r e g r l os) (\<lambda>(rc, r, l, os).
      if rc = - 1 then Inr (False, rq, r, l, os)
      else
        rbind (FCGX_GetParam (Some (chars ''SCHEME'' @ [0])) (envp r)) (\<lambda>http_protocol.
        rbind (FCGX_GetParam (Some (chars ''QUERY_STRING'' @ [0])) (envp r)) (\<lambda>uri.
        rbind (FCGX_GetParam (Some (chars ''REMOTE_ADDR'' @ [0])) (envp r)) (\<lambda>remote_ip.
        case outS r of
          None \<Rightarrow> Inl NullDeref
        | Some out \<Rightarrow>
            rbind (FCGX_PutStr EmptyBuffProc (boom number rq) out r os) (\<lambda>(_, out, r, os).
            rbind (FCGX_Finish_r (Some (r\<lparr>outS := Some out\<rparr>)) l os) (\<lambda>(ro, l, os).
            Inr (True, rq, the ro, l, os))))))))"

text \<open>The thread: it may run for ever, so its result is optional.\<close>

partial_function (option) cry_loop ::
  "(int \<Rightarrow> byte list) \<Rightarrow> environment \<Rightarrow> fcgx_globals \<Rightarrow> int \<Rightarrow> FCGX_Request \<Rightarrow> os_lib \<Rightarrow> os_state \<Rightarrow>
    (fault + int \<times> os_lib \<times> os_state) option" where
  "cry_loop number e g rq r l os =
     (case cry_turn number e g rq r l os of
        Inl f \<Rightarrow> Some (Inl f)
      | Inr (again, rq, r, l, os) \<Rightarrow> if again then cry_loop number e g rq r l os else Some (Inr (rq, l, os)))"

definition cry ::
  "(int \<Rightarrow> byte list) \<Rightarrow> environment \<Rightarrow> fcgx_globals \<Rightarrow> int \<Rightarrow> int \<Rightarrow> os_lib \<Rightarrow> os_state \<Rightarrow> (fault + int \<times> os_lib \<times> os_state) option" where
  "cry number e g rq socketId l os =
     (let (rc, r) = FCGX_InitRequest socketId 0
      in if rc \<noteq> 0 then Some (Inr (rq, l, os)) else cry_loop number e g rq r l os)"

section \<open>The program\<close>

text \<open>\<^verbatim>\<open>main\<close>, of \<^verbatim>\<open>main.cpp\<close>. The result of the second \<^verbatim>\<open>prlimit\<close> and those of the 1500 calls of \<^verbatim>\<open>open\<close> on
  \<^verbatim>\<open>/dev/null\<close> are arguments. Its value is the status it ends with, the arguments of the threads it starts
  (each of which runs \<^verbatim>\<open>cry\<close>) and the calls of the network layer; what it prints is left out.\<close>

fun spare_descriptors :: "(nat \<Rightarrow> int) \<Rightarrow> nat \<Rightarrow> nat \<Rightarrow> bool" where
  "spare_descriptors opened x 0 = True"
| "spare_descriptors opened x (Suc n) = (if opened x < 0 then False else spare_descriptors opened (x + 1) n)"

definition main_program ::
  "int \<Rightarrow> (nat \<Rightarrow> int) \<Rightarrow> netsys \<Rightarrow> environment \<Rightarrow> fcgx_globals \<Rightarrow> os_lib \<Rightarrow> os_state \<Rightarrow>
    fault + outcome \<times> int list \<times> net_call list \<times> fcgx_globals \<times> os_lib \<times> os_state" where
  "main_program res opened k e g l os =
     (if res = - 1 then Inr (Returns 1, [], [], g, l, os)
      else if \<not> spare_descriptors opened 0 1500 then Inr (Returns 0, [], [], g, l, os)
      else
        let (rc, g, l, os) = FCGX_Init e g l os in
        rbind (FCGX_OpenSocket k (chars ''../sock'' @ [0]) 1480 g) (\<lambda>(sock, calls, g).
        case sock of
          Exits code \<Rightarrow> Inr (Exits code, [], calls, g, l, os)
        | Returns socketId \<Rightarrow>
            if socketId < 0 then Inr (Returns 0, [], calls, g, l, os)
            else Inr (Returns 0, replicate 4 socketId, calls, g, l, os)))"

section \<open>What a turn does\<close>

text \<open>A worker between requests.\<close>

definition waiting :: "fcgx_globals \<Rightarrow> FCGX_Request \<Rightarrow> os_lib \<Rightarrow> bool" where
  "waiting g r l \<longleftrightarrow> fcgx_globals.libInitialized g \<and> inS r = None \<and> ipcFd r = - 1 \<and> \<not> shutdownPending l \<and> \<not> asyncIoInUse l"

text \<open>A worker between two requests of a connection that the web server keeps.\<close>

definition kept :: "int \<Rightarrow> fcgx_globals \<Rightarrow> FCGX_Request \<Rightarrow> os_lib \<Rightarrow> bool" where
  "kept fd g r l \<longleftrightarrow> fcgx_globals.libInitialized g \<and> inS r = None \<and> ipcFd r = fd \<and> keepConnection r \<noteq> 0 \<and>
     0 \<le> fd \<and> \<not> asyncIoInUse l \<and> descriptors l fd = Live"

lemma Finish_kept:
  "inS r = None \<Longrightarrow> keepConnection r \<noteq> 0 \<Longrightarrow> FCGX_Finish_r (Some r) l os =
     Inr (Some (r\<lparr>inS := None, outS := None, errS := None, paramsPtr := None\<rparr>), l, os)"
  by (cases r) (simp add: FCGX_Finish_r_def FCGX_Free_def FCGX_FreeStream_def FreeParams_def Let_def split: option.splits)

lemma param_names:
  "0x3D \<notin> set (chars ''SCHEME'')" "0 \<notin> set (chars ''SCHEME'')" "0x3D \<notin> set (chars ''QUERY_STRING'')"
  "0 \<notin> set (chars ''QUERY_STRING'')" "0x3D \<notin> set (chars ''REMOTE_ADDR'')" "0 \<notin> set (chars ''REMOTE_ADDR'')"
  by (simp_all add: chars_def)

text \<open>Serving with one call, taken apart.\<close>

lemma serve_put:
  assumes "serve [Out (PutStr bs)] r l os = Inr (ns, Some r', l', os')" "writes_ok (ipcFd r) os" "accepted e i body kvs X r os"
  obtains out out' os1 where "outS r = Some out" "FCGX_PutStr EmptyBuffProc bs out r os = Inr (int (length bs), out', r, os1)"
    "FCGX_Finish_r (Some (r\<lparr>outS := Some out'\<rparr>)) l os1 = Inr (Some r', l', os')"
proof -
  obtain out err where st: "outS r = Some out" "errS r = Some err" "open_writer FCGI_STDOUT out"
    using assms(3) by (auto simp: accepted_def NewWriter_open)
  obtain out' os1 where put: "FCGX_PutStr EmptyBuffProc bs out r os = Inr (int (length bs), out', r, os1)"
    by (rule writer_step_emits [OF st(3) _ assms(2), of "PutStr bs"]) auto
  have e: "r\<lparr>outS := Some out', errS := Some err\<rparr> = r\<lparr>outS := Some out'\<rparr>" using st(2) by (cases r) simp
  have "FCGX_Finish_r (Some (r\<lparr>outS := Some out', errS := Some err\<rparr>)) l os1 = Inr (Some r', l', os')"
    using assms(1) st put by (auto simp: serve_def elim!: rbind_InrE)
  then show ?thesis unfolding e by (rule that [OF st(1) put])
qed

lemma turn_body:
  assumes acc: "FCGX_Accept_r e g r l os = Inr (0, r1, l1, os1)" "accepted e i body kvs X r1 os1" "ipcFd r1 = fd"
    and l1: "\<not> asyncIoInUse l1" "0 \<le> fd" "descriptors l1 fd = Live" "writes_ok fd os1" and i: "0 \<le> i" "i < 2 ^ 16"
  obtains r' l' os' wire recs where "cry_turn number e g rq r l os = Inr (True, wrap32 (rq + 1), r', l', os')"
    "sent (conns os' fd) = sent (conns os1 fd) @ wire" "parse_records wire = Some recs"
    "peer_finds r1 (boom number (wrap32 (rq + 1))) [] recs" "inS r' = None" "keepConnection r' = keepConnection r1"
    "if uint (body ! 2) AND FCGI_KEEP_CONN = 0
     then ipcFd r' = - 1 \<and> l' = l1\<lparr>descriptors := (descriptors l1)(fd := NotOpen), closed := closed l1 @ [fd]\<rparr>
     else ipcFd r' = fd \<and> l' = l1"
    "flags r' = flags r1" "shutdownNow os' = shutdownNow os1" "\<forall>x. x \<noteq> fd \<longrightarrow> conns os' x = conns os1 x"
proof -
  let ?boom = "boom number (wrap32 (rq + 1))"
  have k: "keepConnection r1 = uint (body ! 2) AND FCGI_KEEP_CONN" using acc(2) by (simp add: accepted_def)
  have fd: "0 \<le> ipcFd r1" "descriptors l1 (ipcFd r1) = Live" "writes_ok (ipcFd r1) os1" using acc(3) l1 by simp_all
  obtain r' l' os' wire recs where 2: "serve [Out (PutStr ?boom)] r1 l1 os1 = Inr ([int (length ?boom)], Some r', l', os')"
    "sent (conns os' fd) = sent (conns os1 fd) @ wire" "parse_records wire = Some recs" "peer_finds r1 ?boom [] recs" "inS r' = None"
    "keepConnection r' = keepConnection r1"
    "if keepConnection r1 = 0
     then ipcFd r' = - 1 \<and> l' = l1\<lparr>descriptors := (descriptors l1)(fd := NotOpen), closed := closed l1 @ [fd]\<rparr>
     else ipcFd r' = fd \<and> l' = l1"
    using serve_ok [OF acc(2) fd(3) i l1(1) fd(1,2), of "[Out (PutStr ?boom)]"] acc(3) by auto
  have p: "\<exists>v. FCGX_GetParam (Some (n @ [0])) (envp r1) = Inr v" if "0x3D \<notin> set n" "0 \<notin> set n" for n
    using acc(2) that by (auto simp: accepted_def)
  obtain v1 v2 v3 where v: "FCGX_GetParam (Some (chars ''SCHEME'' @ [0])) (envp r1) = Inr v1"
    "FCGX_GetParam (Some (chars ''QUERY_STRING'' @ [0])) (envp r1) = Inr v2"
    "FCGX_GetParam (Some (chars ''REMOTE_ADDR'' @ [0])) (envp r1) = Inr v3"
    using p [OF param_names(1,2)] p [OF param_names(3,4)] p [OF param_names(5,6)] by blast
  obtain out out' os2 where put: "outS r1 = Some out" "FCGX_PutStr EmptyBuffProc ?boom out r1 os1 = Inr (int (length ?boom), out', r1, os2)"
    "FCGX_Finish_r (Some (r1\<lparr>outS := Some out'\<rparr>)) l1 os2 = Inr (Some r', l', os')"
    by (elim serve_put [OF 2(1) fd(3) acc(2)])
  from put have turn: "cry_turn number e g rq r l os = Inr (True, wrap32 (rq + 1), r', l', os')"
    using acc(1) v by (simp add: cry_turn_def Let_def)
  have "released (r1\<lparr>outS := Some out'\<rparr>) os2 r' os'" using Finish_r_released [OF put(3)] by auto
  then have own: "flags r' = flags r1" "shutdownNow os' = shutdownNow os1" "\<forall>x. x \<noteq> fd \<longrightarrow> conns os' x = conns os1 x"
    using acc(3) framed_records.PutStr_confined [OF put(2)] by (simp_all add: released_def confined_def)
  show ?thesis by (rule that [OF turn 2(2-6) 2(7) [unfolded k] own])
qed

lemma turn_answers:
  assumes "waiting g r l" "accepts l = pre @ ev # post"
    and "\<forall>x \<in> set pre. calm x \<and>
      (\<forall>c. verdict_of (inet_addr e) (flags r AND 1 \<noteq> 0) (webServerAddressList g) x \<noteq> Result c)"
    and "calm ev" "verdict_of (inet_addr e) (flags r AND 1 \<noteq> 0) (webServerAddressList g) ev = Result fd" "0 \<le> fd"
    and "begins i body kvs rs X fd os"
  shows "\<exists>(r1 :: FCGX_Request) r' l' os' wire recs. cry_turn number e g rq r l os = Inr (True, wrap32 (rq + 1), r', l', os') \<and>
    requestId r1 = i \<and> appStatus r1 = appStatus r \<and>
    sent (conns os' fd) = sent (conns os fd) @ answers FCGI_PARAMS i False rs @ wire \<and> parse_records wire = Some recs \<and>
    peer_finds r1 (boom number (wrap32 (rq + 1))) [] recs \<and> accepts l' = post \<and>
    (if uint (body ! 2) AND FCGI_KEEP_CONN = 0 then waiting g r' l'
     else kept fd g r' l') \<and>
    flags r' = flags r \<and> shutdownNow os' = shutdownNow os \<and> (\<forall>x. x \<noteq> fd \<longrightarrow> conns os' x = conns os x)"
proof -
  have w: "fcgx_globals.libInitialized g" "inS r = None" "ipcFd r = - 1" "\<not> shutdownPending l" "\<not> asyncIoInUse l"
    using assms(1) by (simp_all add: waiting_def)
  obtain r1 ds os1 l1 where 1: "FCGX_Accept_r e g r l os = Inr (0, r1, l1, os1)"
    "l1 = l\<lparr>accepts := post, descriptors := ds,
        closed := closed l @ refused (map (verdict_of (inet_addr e) (flags r AND 1 \<noteq> 0) (webServerAddressList g)) pre)\<rparr>"
    "ds fd = Live" "accepted e i body kvs X r1 os1" "ipcFd r1 = fd" "appStatus r1 = appStatus r"
    "sent (conns os1 fd) = sent (conns os fd) @ answers FCGI_PARAMS i False rs" "writes_ok fd os1"
    "on_own_conn (r\<lparr>ipcFd := fd\<rparr>) os r1 os1"
    using Accept_r_ok [OF w(1-3) assms(2) w(4) assms(3-7)] by blast
  have i: "0 \<le> i" "i < 2 ^ 16" using assms(7) by (simp_all add: begins_def rec_ok_def)
  have l1: "\<not> asyncIoInUse l1" "descriptors l1 fd = Live" using w 1 by simp_all
  have k: "keepConnection r1 = uint (body ! 2) AND FCGI_KEEP_CONN" "requestId r1 = i" using 1(4) by (simp_all add: accepted_def)
  obtain r' l' os' wire recs where 2: "cry_turn number e g rq r l os = Inr (True, wrap32 (rq + 1), r', l', os')"
    "sent (conns os' fd) = sent (conns os1 fd) @ wire" "parse_records wire = Some recs"
    "peer_finds r1 (boom number (wrap32 (rq + 1))) [] recs" "inS r' = None" "keepConnection r' = keepConnection r1"
    "if uint (body ! 2) AND FCGI_KEEP_CONN = 0
     then ipcFd r' = - 1 \<and> l' = l1\<lparr>descriptors := (descriptors l1)(fd := NotOpen), closed := closed l1 @ [fd]\<rparr>
     else ipcFd r' = fd \<and> l' = l1"
    "flags r' = flags r1" "shutdownNow os' = shutdownNow os1" "\<forall>x. x \<noteq> fd \<longrightarrow> conns os' x = conns os1 x"
    by (rule turn_body [OF 1(1,4,5) l1(1) assms(6) l1(2) 1(8) i])
  have fin: "if uint (body ! 2) AND FCGI_KEEP_CONN = 0 then waiting g r' l'
      else kept fd g r' l'" "accepts l' = post"
    using 2(5,6,7) w 1(2,3) assms(6) k by (simp_all add: waiting_def kept_def split: if_splits)
  have own: "flags r' = flags r \<and> shutdownNow os' = shutdownNow os \<and> (\<forall>x. x \<noteq> fd \<longrightarrow> conns os' x = conns os x)"
    using 1(9) 2(8-10) by (simp add: on_own_conn_def)
  show ?thesis
    by (rule_tac exI [of _ r1], rule_tac exI [of _ r'], rule_tac exI [of _ l'], rule_tac exI [of _ os'], rule_tac exI [of _ wire],
        rule_tac exI [of _ recs]) (use 1(6,7) 2(1-4) fin own k(2) in simp)
qed

text \<open>A connection that the web server keeps: the worker's next turn reads from it, and leaves the queue of
  connections as it is, until a request comes without the flag.\<close>

lemma kept_turn:
  assumes "kept fd g r l" "begins i body kvs rs X fd os"
  shows "\<exists>(r1 :: FCGX_Request) r' l' os' wire recs. cry_turn number e g rq r l os = Inr (True, wrap32 (rq + 1), r', l', os') \<and>
    requestId r1 = i \<and> sent (conns os' fd) = sent (conns os fd) @ answers FCGI_PARAMS i False rs @ wire \<and>
    parse_records wire = Some recs \<and> peer_finds r1 (boom number (wrap32 (rq + 1))) [] recs \<and> accepts l' = accepts l \<and>
    (uint (body ! 2) AND FCGI_KEEP_CONN \<noteq> 0 \<longrightarrow> kept fd g r' l')"
proof -
  let ?r = "r\<lparr>inS := None, outS := None, errS := None, paramsPtr := None\<rparr>"
  have k: "fcgx_globals.libInitialized g" "inS r = None" "ipcFd r = fd" "keepConnection r \<noteq> 0" "0 \<le> fd" "\<not> asyncIoInUse l" "descriptors l fd = Live"
    using assms(1) by (simp_all add: kept_def)
  have b: "begins i body kvs rs X (ipcFd ?r) os" "0 \<le> ipcFd ?r" using assms(2) k(3,5) by simp_all
  obtain r1 os1 where 1: "accept_requests e g (Suc (length (accepts l) + 1)) ?r l os = Inr (0, r1, l, os1)" "accepted e i body kvs X r1 os1"
    "ipcFd r1 = fd" "writes_ok fd os1" "sent (conns os1 fd) = sent (conns os fd) @ answers FCGI_PARAMS i False rs"
    using accept_open [OF b, of e g "length (accepts l) + 1" l] k(3) by auto
  have acc: "FCGX_Accept_r e g r l os = Inr (0, r1, l, os1)"
    using 1(1) k(1) Finish_kept [OF k(2,4), of l os] by (simp add: FCGX_Accept_r_def del: accept_requests.simps)
  have i: "0 \<le> i" "i < 2 ^ 16" using assms(2) by (simp_all add: begins_def rec_ok_def)
  have k1: "keepConnection r1 = uint (body ! 2) AND FCGI_KEEP_CONN" "requestId r1 = i" using 1(2) by (simp_all add: accepted_def)
  obtain r' l' os' wire recs where 2: "cry_turn number e g rq r l os = Inr (True, wrap32 (rq + 1), r', l', os')"
    "sent (conns os' fd) = sent (conns os1 fd) @ wire" "parse_records wire = Some recs"
    "peer_finds r1 (boom number (wrap32 (rq + 1))) [] recs" "inS r' = None" "keepConnection r' = keepConnection r1"
    "if uint (body ! 2) AND FCGI_KEEP_CONN = 0
     then ipcFd r' = - 1 \<and> l' = l\<lparr>descriptors := (descriptors l)(fd := NotOpen), closed := closed l @ [fd]\<rparr>
     else ipcFd r' = fd \<and> l' = l"
    by (rule turn_body [OF acc 1(2,3) k(6,5,7) 1(4) i])
  have fin: "accepts l' = accepts l" "uint (body ! 2) AND FCGI_KEEP_CONN \<noteq> 0 \<longrightarrow> kept fd g r' l'"
    using 2(5-7) k k1(1) by (simp_all add: kept_def split: if_splits)
  show ?thesis
    by (rule_tac exI [of _ r1], rule_tac exI [of _ r'], rule_tac exI [of _ l'], rule_tac exI [of _ os'], rule_tac exI [of _ wire],
        rule_tac exI [of _ recs]) (use 1(5) 2(1-4) fin k1(2) in simp)
qed

text \<open>A turn of the worker. The next client that is approved and sends a well-formed request gets the page, with
  the count of this turn, as the whole output of its request; what the request owned is released, and unless the
  web server keeps the connection the worker is ready for the next one.\<close>

theorem cry_answers:
  assumes "waiting g r l" "accepts l = pre @ ev # post"
    and "\<forall>x \<in> set pre. calm x \<and>
      (\<forall>c. verdict_of (inet_addr e) (flags r AND 1 \<noteq> 0) (webServerAddressList g) x \<noteq> Result c)"
    and "calm ev" "verdict_of (inet_addr e) (flags r AND 1 \<noteq> 0) (webServerAddressList g) ev = Result fd" "0 \<le> fd"
    and "begins i body kvs rs X fd os"
  shows "\<exists>(r1 :: FCGX_Request) r' l' os' wire recs. cry_turn number e g rq r l os = Inr (True, wrap32 (rq + 1), r', l', os') \<and>
    requestId r1 = i \<and> appStatus r1 = appStatus r \<and>
    sent (conns os' fd) = sent (conns os fd) @ answers FCGI_PARAMS i False rs @ wire \<and> parse_records wire = Some recs \<and>
    peer_finds r1 (boom number (wrap32 (rq + 1))) [] recs \<and> accepts l' = post \<and>
    (if uint (body ! 2) AND FCGI_KEEP_CONN = 0 then waiting g r' l' else kept fd g r' l')"
proof -
  obtain r1 :: FCGX_Request and r' l' os' wire recs where "cry_turn number e g rq r l os = Inr (True, wrap32 (rq + 1), r', l', os')"
    "requestId r1 = i" "appStatus r1 = appStatus r"
    "sent (conns os' fd) = sent (conns os fd) @ answers FCGI_PARAMS i False rs @ wire" "parse_records wire = Some recs"
    "peer_finds r1 (boom number (wrap32 (rq + 1))) [] recs" "accepts l' = post"
    "if uint (body ! 2) AND FCGI_KEEP_CONN = 0 then waiting g r' l' else kept fd g r' l'"
    using turn_answers [OF assms] by blast
  then show ?thesis by blast
qed

lemma cry_answers_witness:
  "\<exists>r' l' os' recs. cry_turn dec_int sample_env (globals_start\<lparr>libInitialized := True\<rparr>) 41 (snd (FCGX_InitRequest 0 0))
      (os_start (\<lambda>_. NotOpen) [Accepted 5 OtherFamily False]) sample_input = Inr (True, 42, r', l', os') \<and>
    parse_records (sent (conns os' 5)) = Some recs \<and> concat (contents_of FCGI_STDOUT 1 recs) = boom dec_int 42"
proof -
  let ?g = "globals_start\<lparr>libInitialized := True\<rparr>" and ?r = "snd (FCGX_InitRequest 0 0)"
  let ?l = "os_start (\<lambda>_. NotOpen) [Accepted 5 OtherFamily False]"
  have w: "waiting ?g ?r ?l" by (simp add: waiting_def FCGX_InitRequest_def zero_request_def os_start_def)
  have a: "accepts ?l = [] @ Accepted 5 OtherFamily False # []" by (simp add: os_start_def)
  have v: "verdict_of (inet_addr sample_env) (flags ?r AND 1 \<noteq> 0) (webServerAddressList ?g) (Accepted 5 OtherFamily False) = Result 5"
    by (simp add: verdict_of_def)
  have s0: "sent (conns sample_input 5) = []" "answers 4 1 False sample_params = []" "wrap32 (41 + 1) = 42"
    by (simp_all add: sample_input_def sample_params_def wrap32_id)
  from cry_answers [OF w a _ _ v _ sample_begins, of dec_int 41] obtain r1 :: FCGX_Request and r' l' os' recs where
    "cry_turn dec_int sample_env ?g 41 ?r ?l sample_input = Inr (True, 42, r', l', os')" "requestId r1 = 1"
    "parse_records (sent (conns os' 5)) = Some recs" "peer_finds r1 (boom dec_int 42) [] recs"
    unfolding s0 by auto
  then show ?thesis by (auto simp: peer_finds_def)
qed

text \<open>C38: a worker that cannot accept does not notice. \<^verbatim>\<open>FCGX_Accept_r\<close> reports an error \<open>n\<close> of \<^verbatim>\<open>accept\<close> as \<open>- n\<close>, and
  \<^verbatim>\<open>cry\<close> compares its result with -1 only; for any other error it goes on and writes its page to the output
  stream that it does not have.\<close>

theorem cry_misses_failure:
  assumes "waiting g r l" "outS r = None" "errS r = None" "envp r = None"
    and "accepts l = AcceptFails n False # post" "1 < n" "n \<noteq> EINTR" "\<not> is_reasonable_accept_errno n"
  shows "(\<exists>r' l' os'. FCGX_Accept_r e g r l os = Inr (- n, r', l', os')) \<and> cry_turn number e g rq r l os = Inl NullDeref"
proof -
  note w = assms(1) [unfolded waiting_def]
  let ?r = "r\<lparr>inS := None, outS := None, errS := None, paramsPtr := None\<rparr>"
  have "accepts l = [] @ AcceptFails n False # post" "\<not> shutdownPending l" using w assms by simp_all
  from OS_Accept_passes [OF this, of "inet_addr e" "flags r AND 1 \<noteq> 0" "webServerAddressList g" "- 1" "listen_sock r" os]
  obtain ds os' l' where 2: "OS_Accept (inet_addr e) (listen_sock r) (flags r AND 1 \<noteq> 0) (webServerAddressList g) l os =
      Inr (- 1, l', os')" "c_errno os' = n"
    using assms(6-8) by (auto simp: verdict_of_def)
  have "accept_connection e g ?r l os = Inr (Inl (- n), ?r\<lparr>ipcFd := - 1\<rparr>, l', os')"
    using w 2 assms(6) by (simp add: accept_connection_def Let_def)
  then have acc: "FCGX_Accept_r e g r l os = Inr (- n, ?r\<lparr>ipcFd := - 1\<rparr>, l', os')"
    using w Finish_fresh [of r l os] by (simp add: FCGX_Accept_r_def)
  then have "cry_turn number e g rq r l os = Inl NullDeref"
    using assms(4,6) by (simp add: cry_turn_def FCGX_GetParam_def Let_def)
  then show ?thesis using acc by blast
qed

lemma cry_misses_failure_witness:
  "cry dec_int sample_env (globals_start\<lparr>libInitialized := True\<rparr>) 0 0 (os_start (\<lambda>_. NotOpen) [AcceptFails 9 False]) quiet_os =
    Some (Inl NullDeref)"
proof -
  let ?g = "globals_start\<lparr>libInitialized := True\<rparr>" and ?r = "snd (FCGX_InitRequest 0 0)"
  let ?l = "os_start (\<lambda>_. NotOpen) [AcceptFails 9 False]"
  have w: "waiting ?g ?r ?l" "outS ?r = None" "errS ?r = None" "envp ?r = None" "accepts ?l = AcceptFails 9 False # []"
    by (simp_all add: waiting_def FCGX_InitRequest_def zero_request_def os_start_def)
  have "cry_turn dec_int sample_env ?g 0 ?r ?l quiet_os = Inl NullDeref"
    using cry_misses_failure [OF w, of sample_env quiet_os dec_int 0] by (simp add: is_reasonable_accept_errno_def)
  then show ?thesis by (simp add: cry_def cry_loop.simps FCGX_InitRequest_def)
qed

section \<open>Every client in the queue\<close>

text \<open>A client in the queue of connections: the events passed over before it, its own, the connection
  it gets, and the request on it.\<close>

record queued =
  passed :: "accept_event list"
  arrival :: accept_event
  conn_fd :: int
  req_id :: int
  req_begin :: "byte list"
  req_env :: "(byte list \<times> byte list) list"
  req_params :: "wrec list"
  req_rest :: "byte list"

definition queue_of :: "queued list \<Rightarrow> accept_event list" where
  "queue_of cs = concat (map (\<lambda>c. passed c @ [arrival c]) cs)"

definition served_by :: "environment \<Rightarrow> fcgx_globals \<Rightarrow> int \<Rightarrow> os_state \<Rightarrow> queued \<Rightarrow> bool" where
  "served_by e g fl os c \<longleftrightarrow>
     (let v = verdict_of (inet_addr e) (fl AND 1 \<noteq> 0) (webServerAddressList g) in
      (\<forall>x \<in> set (passed c). calm x \<and> (\<forall>n. v x \<noteq> Result n)) \<and> calm (arrival c) \<and>
      v (arrival c) = Result (conn_fd c) \<and> 0 \<le> conn_fd c \<and>
      begins (req_id c) (req_begin c) (req_env c) (req_params c) (req_rest c) (conn_fd c) os)"

text \<open>It asks the application to leave the connection open.\<close>

definition keeps :: "queued \<Rightarrow> bool" where
  "keeps c \<longleftrightarrow> uint (req_begin c ! 2) AND FCGI_KEEP_CONN \<noteq> 0"

text \<open>The worker after a client: ready for the next, or bound to the connection.\<close>

definition after_client :: "fcgx_globals \<Rightarrow> queued \<Rightarrow> FCGX_Request \<Rightarrow> os_lib \<Rightarrow> bool" where
  "after_client g c r l \<longleftrightarrow> (if keeps c then kept (conn_fd c) g r l else waiting g r l)"

definition next_count :: "int \<Rightarrow> int" where
  "next_count rq = wrap32 (rq + 1)"

text \<open>The client found the page, with this count, on its connection.\<close>

definition answered :: "(int \<Rightarrow> byte list) \<Rightarrow> int \<Rightarrow> os_state \<Rightarrow> os_state \<Rightarrow> queued \<Rightarrow> bool" where
  "answered number rq os os' c \<longleftrightarrow>
     (\<exists>(r1 :: FCGX_Request) wire recs. requestId r1 = req_id c \<and>
        sent (conns os' (conn_fd c)) = sent (conns os (conn_fd c)) @ answers FCGI_PARAMS (req_id c) False (req_params c) @ wire \<and>
        parse_records wire = Some recs \<and> peer_finds r1 (boom number rq) [] recs)"

lemma served_by_cong:
  "conns os' (conn_fd c) = conns os (conn_fd c) \<Longrightarrow> shutdownNow os' = shutdownNow os \<Longrightarrow>
    served_by e g fl os' c = served_by e g fl os c"
  by (simp add: served_by_def begins_def arriving_def writes_ok_def Let_def)

lemma answered_cong:
  "conns os1 (conn_fd c) = conns os2 (conn_fd c) \<Longrightarrow> answered number rq os1 os' c = answered number rq os2 os' c"
  "conns os1 (conn_fd c) = conns os2 (conn_fd c) \<Longrightarrow> answered number rq os os1 c = answered number rq os os2 c"
  by (simp_all add: answered_def)

lemma turn_serves:
  assumes "waiting g r l" "accepts l = passed c @ arrival c # post" "served_by e g (flags r) os c"
  obtains r' l' os' where "cry_turn number e g rq r l os = Inr (True, next_count rq, r', l', os')"
    "accepts l' = post" "after_client g c r' l'" "flags r' = flags r" "shutdownNow os' = shutdownNow os"
    "\<forall>x. x \<noteq> conn_fd c \<longrightarrow> conns os' x = conns os x" "answered number (next_count rq) os os' c"
proof -
  let ?v = "verdict_of (inet_addr e) (flags r AND 1 \<noteq> 0) (webServerAddressList g)"
  have p: "\<forall>x \<in> set (passed c). calm x \<and> (\<forall>n. ?v x \<noteq> Result n)" "calm (arrival c)" "?v (arrival c) = Result (conn_fd c)"
    "0 \<le> conn_fd c" "begins (req_id c) (req_begin c) (req_env c) (req_params c) (req_rest c) (conn_fd c) os"
    using assms(3) unfolding served_by_def Let_def by simp_all
  obtain r1 :: FCGX_Request and r' l' os' wire recs where 1: "cry_turn number e g rq r l os = Inr (True, next_count rq, r', l', os')"
    "accepts l' = post" "if uint (req_begin c ! 2) AND FCGI_KEEP_CONN = 0 then waiting g r' l' else kept (conn_fd c) g r' l'" "flags r' = flags r"
    "shutdownNow os' = shutdownNow os" "\<forall>x. x \<noteq> conn_fd c \<longrightarrow> conns os' x = conns os x"
    and ans: "requestId r1 = req_id c" "parse_records wire = Some recs" "peer_finds r1 (boom number (next_count rq)) [] recs"
    "sent (conns os' (conn_fd c)) = sent (conns os (conn_fd c)) @ answers 4 (req_id c) False (req_params c) @ wire"
    using turn_answers [OF assms(1,2) p, of number rq, folded next_count_def]
    by (elim exE conjE) (rule that; assumption)
  have "answered number (next_count rq) os os' c" using ans unfolding answered_def by blast
  moreover have "after_client g c r' l'" using 1(3) by (simp add: after_client_def keeps_def split: if_splits)
  ultimately show ?thesis using that 1(1,2,4-6) by blast
qed

lemma answered_later:
  assumes "answered number (next_count rq) os os1 c"
    and "\<forall>k < length cs. answered number ((next_count ^^ Suc k) (next_count rq)) os1 os2 (cs ! k)"
    and "\<forall>x. x \<notin> conn_fd ` set cs \<longrightarrow> conns os2 x = conns os1 x" "conn_fd c \<notin> conn_fd ` set cs"
    and "\<And>d. d \<in> set cs \<Longrightarrow> conns os1 (conn_fd d) = conns os (conn_fd d)" "k < length (c # cs)"
  shows "answered number ((next_count ^^ Suc k) rq) os os2 ((c # cs) ! k)"
proof (cases k)
  case 0
  have "conns os2 (conn_fd c) = conns os1 (conn_fd c)" using assms(3,4) by blast
  from answered_cong(2) [OF this] show ?thesis using assms(1) 0 by simp
next
  case (Suc j)
  then have j: "answered number ((next_count ^^ Suc j) (next_count rq)) os1 os2 (cs ! j)" "cs ! j \<in> set cs"
    using assms(2,6) by simp_all
  have "(next_count ^^ Suc j) (next_count rq) = (next_count ^^ Suc k) rq" by (metis Suc comp_apply funpow_Suc_right)
  then show ?thesis using j(1) answered_cong(1) [OF assms(5) [OF j(2)]] unfolding Suc by simp
qed

text \<open>C16: a worker and its queue. Clients that the worker approves wait in the queue, each on a descriptor of its own and
  with a well-formed request, between events that the worker passes over; none but the last may ask for
  \<^verbatim>\<open>FCGI_KEEP_CONN\<close>. Then the worker's loop comes to a state in which each of them has been answered, in the order of the
  queue and with the count of its turn, and no other connection was touched. If the last one did not ask to keep its
  connection, the worker is ready for what follows in the queue; if it did, the worker is bound to that connection, and
  what follows in the queue is still there.\<close>

theorem cry_serves_all:
  assumes "waiting g r l" "accepts l = queue_of cs @ post" "\<forall>c \<in> set cs. served_by e g (flags r) os c" "distinct (map conn_fd cs)"
    and "\<forall>c \<in> set (butlast cs). \<not> keeps c"
  shows "\<exists>r' l' os'. cry_loop number e g rq r l os = cry_loop number e g ((next_count ^^ length cs) rq) r' l' os' \<and>
    (if cs = [] then waiting g r' l' else after_client g (last cs) r' l') \<and> accepts l' = post \<and>
    (\<forall>k < length cs. answered number ((next_count ^^ Suc k) rq) os os' (cs ! k)) \<and>
    (\<forall>x. x \<notin> conn_fd ` set cs \<longrightarrow> conns os' x = conns os x)"
  using assms
proof (induction cs arbitrary: rq r l os)
  case Nil
  then show ?case by (auto simp: queue_of_def)
next
  case (Cons c cs)
  have q: "accepts l = passed c @ arrival c # (queue_of cs @ post)" using Cons.prems(2) by (simp add: queue_of_def)
  have c: "served_by e g (flags r) os c" using Cons.prems(3) by simp
  obtain r' l' os' where 1: "cry_turn number e g rq r l os = Inr (True, next_count rq, r', l', os')"
    "accepts l' = queue_of cs @ post" "after_client g c r' l'" "flags r' = flags r"
    "shutdownNow os' = shutdownNow os" "\<forall>x. x \<noteq> conn_fd c \<longrightarrow> conns os' x = conns os x"
    and a1: "answered number (next_count rq) os os' c"
    by (rule turn_serves [OF Cons.prems(1) q c])
  have turn: "cry_loop number e g rq r l os = cry_loop number e g (next_count rq) r' l' os'"
    using 1(1) by (simp add: cry_loop.simps [of number e g rq])
  show ?case
  proof (cases "cs = []")
    case True
    then show ?thesis
      using 1(2,3,6) a1 turn by (intro exI [of _ r'] exI [of _ l'] exI [of _ os']) (simp add: queue_of_def)
  next
    case False
    then have w: "waiting g r' l'" and nk: "\<forall>c \<in> set (butlast cs). \<not> keeps c"
      using 1(3) Cons.prems(5) by (simp_all add: after_client_def)
    have new: "conn_fd c \<notin> conn_fd ` set cs" "distinct (map conn_fd cs)" using Cons.prems(4) by auto
    have other: "conns os' (conn_fd d) = conns os (conn_fd d)" if "d \<in> set cs" for d
      using 1(6) new(1) that by (metis image_eqI)
    have "\<forall>d \<in> set cs. served_by e g (flags r') os' d"
      using Cons.prems(3) served_by_cong [OF other 1(5)] 1(4) by simp
    from Cons.IH [OF w 1(2) this new(2) nk, of "next_count rq"] False obtain r2 l2 os2 where
      2: "cry_loop number e g (next_count rq) r' l' os' = cry_loop number e g ((next_count ^^ length cs) (next_count rq)) r2 l2 os2"
      "after_client g (last cs) r2 l2" "accepts l2 = post"
      "\<forall>k < length cs. answered number ((next_count ^^ Suc k) (next_count rq)) os' os2 (cs ! k)"
      "\<forall>x. x \<notin> conn_fd ` set cs \<longrightarrow> conns os2 x = conns os' x"
      by (simp only: if_False) (elim exE conjE, rule that; assumption)
    have "answered number ((next_count ^^ Suc k) rq) os os2 ((c # cs) ! k)" if "k < length (c # cs)" for k
      by (rule answered_later [OF a1 2(4,5) new(1) other that])
    moreover have "cry_loop number e g rq r l os = cry_loop number e g ((next_count ^^ length (c # cs)) rq) r2 l2 os2"
      using 2(1) funpow_Suc_right [of "length cs" next_count] by (simp add: turn)
    moreover have "\<forall>x. x \<notin> conn_fd ` set (c # cs) \<longrightarrow> conns os2 x = conns os x" using 2(5) 1(6) by simp
    ultimately show ?thesis using 2(2,3) False by (intro exI [of _ r2] exI [of _ l2] exI [of _ os2]) simp
  qed
qed

text \<open>Three clients wait; the second keeps its connection, and the third stays in the queue.\<close>

definition sample_begin :: "int \<Rightarrow> byte list" where
  "sample_begin fd = [0, 1, (if fd = 6 then 1 else 0), 0, 0, 0, 0, 0]"

definition sample_client :: "int \<Rightarrow> queued" where
  "sample_client fd = \<lparr>passed = [], arrival = Accepted fd OtherFamily False, conn_fd = fd, req_id = 1,
     req_begin = sample_begin fd, req_env = [([65], [66])], req_params = sample_params, req_rest = []\<rparr>"

definition sample_clients_os :: os_state where
  "sample_clients_os = \<lparr>conns = (\<lambda>fd. \<lparr>inbox = [Arrives (wire_record 1 1 (sample_begin fd) []), Arrives (wire_all sample_params)],
     outcomes = [], sent = []\<rparr>), c_errno = 0, shutdownNow = False\<rparr>"

lemma sample_client_served:
  "served_by sample_env (globals_start\<lparr>libInitialized := True\<rparr>) 0 sample_clients_os (sample_client fd)" if "0 \<le> fd"
proof -
  have ne: "wire_all sample_params \<noteq> []" "wire_record 1 1 (sample_begin fd) [] \<noteq> []"
    by (simp_all add: sample_params_def wire_record_def)
  have "arriving fd sample_clients_os = wire_record 1 1 (sample_begin fd) [] @ wire_all sample_params @ []"
    using ne by (simp add: arriving_def sample_clients_os_def)
  moreover have "writes_ok fd sample_clients_os" using sample_writes_ok [of fd] by (simp add: writes_ok_def sample_clients_os_def sample_os_def)
  ultimately have "begins 1 (sample_begin fd) [([65], [66])] sample_params [] fd sample_clients_os"
    by (simp add: begins_def) (simp add: rec_ok_def sample_begin_def sample_params_def last_pad_def enc_len_def)
  then show ?thesis using that by (simp add: served_by_def sample_client_def verdict_of_def)
qed

lemma cry_serves_all_witness:
  "\<exists>r' l' os' recs1 recs2. cry_loop dec_int sample_env (globals_start\<lparr>libInitialized := True\<rparr>) 41 (snd (FCGX_InitRequest 0 0))
      (os_start (\<lambda>_. NotOpen) [Accepted 5 OtherFamily False, Accepted 6 OtherFamily False, Accepted 7 OtherFamily False]) sample_clients_os =
    cry_loop dec_int sample_env (globals_start\<lparr>libInitialized := True\<rparr>) 43 r' l' os' \<and>
    parse_records (sent (conns os' 5)) = Some recs1 \<and> concat (contents_of FCGI_STDOUT 1 recs1) = boom dec_int 42 \<and>
    parse_records (sent (conns os' 6)) = Some recs2 \<and> concat (contents_of FCGI_STDOUT 1 recs2) = boom dec_int 43 \<and>
    ipcFd r' = 6 \<and> accepts l' = [Accepted 7 OtherFamily False]"
proof -
  let ?g = "globals_start\<lparr>libInitialized := True\<rparr>" and ?r = "snd (FCGX_InitRequest 0 0)"
  let ?post = "[Accepted 7 OtherFamily False]" and ?cs = "[sample_client 5, sample_client 6]"
  let ?l = "os_start (\<lambda>_. NotOpen) [Accepted 5 OtherFamily False, Accepted 6 OtherFamily False, Accepted 7 OtherFamily False]"
  have s0: "sent (conns sample_clients_os fd) = []" "answers 4 1 False sample_params = []" for fd
    by (simp_all add: sample_clients_os_def sample_params_def)
  have n: "next_count 41 = 42" "next_count 42 = 43" by (simp_all add: next_count_def wrap32_id)
  have "waiting ?g ?r ?l" by (simp add: waiting_def FCGX_InitRequest_def zero_request_def os_start_def)
  moreover have "accepts ?l = queue_of ?cs @ ?post" by (simp add: os_start_def queue_of_def sample_client_def)
  moreover have "\<forall>c \<in> set ?cs. served_by sample_env ?g (flags ?r) sample_clients_os c"
    using sample_client_served [of 5] sample_client_served [of 6] by (simp add: FCGX_InitRequest_def)
  moreover have "distinct (map conn_fd ?cs)" "\<forall>c \<in> set (butlast ?cs). \<not> keeps c"
    by (simp_all add: keeps_def sample_client_def sample_begin_def)
  ultimately obtain r' l' os' where 1: "cry_loop dec_int sample_env ?g 41 ?r ?l sample_clients_os =
      cry_loop dec_int sample_env ?g ((next_count ^^ length ?cs) 41) r' l' os'"
    "after_client ?g (last ?cs) r' l'" "accepts l' = ?post"
    "\<forall>k < length ?cs. answered dec_int ((next_count ^^ Suc k) 41) sample_clients_os os' (?cs ! k)"
    using cry_serves_all [of ?g ?r ?l ?cs ?post sample_env sample_clients_os dec_int 41] by auto
  have "answered dec_int 42 sample_clients_os os' (sample_client 5)" "answered dec_int 43 sample_clients_os os' (sample_client 6)"
    using 1(4) [rule_format, of 0] 1(4) [rule_format, of 1] by (simp_all add: n)
  then obtain recs1 recs2 where 2: "parse_records (sent (conns os' 5)) = Some recs1" "concat (contents_of FCGI_STDOUT 1 recs1) = boom dec_int 42"
    "parse_records (sent (conns os' 6)) = Some recs2" "concat (contents_of FCGI_STDOUT 1 recs2) = boom dec_int 43"
    by (auto simp: answered_def peer_finds_def s0 sample_client_def)
  have 3: "cry_loop dec_int sample_env ?g 41 ?r ?l sample_clients_os = cry_loop dec_int sample_env ?g 43 r' l' os'"
    using 1(1) by (simp add: n)
  have 4: "ipcFd r' = 6" using 1(2) by (simp add: after_client_def keeps_def kept_def sample_client_def sample_begin_def)
  show ?thesis
    by (rule exI [of _ r'], rule exI [of _ l'], rule exI [of _ os'], rule exI [of _ recs1], rule exI [of _ recs2]) (intro conjI 2 3 4 1(3))
qed

section \<open>A library that could not be set up\<close>

text \<open>C39: \<^verbatim>\<open>main\<close> ignores what \<^verbatim>\<open>FCGX_Init\<close> returns. When that fails for want of memory and the socket can be
  opened, four workers are started all the same; \<^verbatim>\<open>FCGX_Accept_r\<close> returns -9998 to each of them, which is not
  -1, and each goes on to write to an output stream that it does not have.\<close>

theorem main_ignores_failed_init:
  assumes "res \<noteq> - 1" "spare_descriptors opened 0 1500" "\<not> fcgx_globals.libInitialized g" "\<not> os_lib.libInitialized l" "\<not> memory e"
    and "FCGX_OpenSocket k (chars ''../sock'' @ [0]) 1480 (g\<lparr>the_request := snd (FCGX_InitRequest 0 0)\<rparr>) = Inr (Returns sock, calls, g')"
      "0 \<le> sock" "\<not> fcgx_globals.libInitialized g'"
  shows "\<exists>l' os'. main_program res opened k e g l os = Inr (Returns 0, [sock, sock, sock, sock], calls, g', l', os') \<and>
    (\<forall>number rq. cry number e g' rq sock l' os' = Some (Inl NullDeref))"
proof -
  let ?l = "l\<lparr>asyncIoTable := None\<rparr>" and ?os = "os\<lparr>c_errno := 12\<rparr>"
  have "FCGX_Init e g l os = (12, g\<lparr>the_request := snd (FCGX_InitRequest 0 0)\<rparr>, ?l, ?os)"
    using assms(3-5) by (simp add: FCGX_Init_def OS_LibInit_def Let_def)
  then have "main_program res opened k e g l os = Inr (Returns 0, [sock, sock, sock, sock], calls, g', ?l, ?os)"
    using assms(1,2,6,7) by (simp add: main_program_def numeral_eq_Suc)
  moreover have "cry number e g' rq sock ?l ?os = Some (Inl NullDeref)" for number rq
    using assms(8)
    by (simp add: cry_def cry_loop.simps cry_turn_def FCGX_Accept_r_def FCGX_GetParam_def FCGX_InitRequest_def zero_request_def Let_def)
  ultimately show ?thesis by blast
qed

lemma main_ignores_failed_init_witness:
  "\<exists>calls g' l' os'. main_program 0 (\<lambda>x. int x + 3) sample_net (sample_env\<lparr>memory := False\<rparr>) globals_start
      (os_start (\<lambda>_. NotOpen) []) quiet_os = Inr (Returns 0, [3, 3, 3, 3], calls, g', l', os') \<and>
    cry dec_int (sample_env\<lparr>memory := False\<rparr>) g' 0 3 l' os' = Some (Inl NullDeref)"
proof -
  have sp: "spare_descriptors (\<lambda>x. int x + 3) x n" for x n by (induction n arbitrary: x) simp_all
  let ?g = "globals_start\<lparr>the_request := snd (FCGX_InitRequest 0 0)\<rparr>"
  obtain calls where "FCGX_OpenSocket sample_net (chars ''../sock'' @ [0]) 1480 ?g = Inr (Returns 3, calls, ?g)"
    by (simp add: FCGX_OpenSocket_def OS_CreateLocalIpcFd_def sample_net_def chars_def bind_target_eq cstr_def
        OS_BuildSockAddrUn_def bind_listen_def Let_def globals_start_def)
  then show ?thesis
    using main_ignores_failed_init [of 0 "\<lambda>x. int x + 3" globals_start "os_start (\<lambda>_. NotOpen) []" "sample_env\<lparr>memory := False\<rparr>"
        sample_net 3 calls ?g quiet_os] sp
    by (force simp: globals_start_def os_start_def)
qed

end
