(* ===== verification/Perl.thy ===== *)
theory Perl
  imports Request
begin

text \<open>
  \<^verbatim>\<open>perl/FCGI.c\<close>: the Perl module \<^verbatim>\<open>FCGI\<close>, in the build without \<^verbatim>\<open>sfio\<close> and with \<^verbatim>\<open>PERLIO\<close>. A request object holds an
  \<^verbatim>\<open>FCGX_Request\<close>; while a request is in progress three file handles of the script are tied to objects of the
  class \<^verbatim>\<open>FCGI::Stream\<close>, whose methods call the library, and a hash of the script holds the environment.

  The interpreter is not under \<^verbatim>\<open>src/\<close>. A scalar is what the accessor macros of the Perl API say of it (record \<open>SV\<close>), and
  what the code has the interpreter do is a list of calls (\<open>perl_call\<close>); reference counts and the \<^verbatim>\<open>IO\<close> slots of globs,
  on which the code itself acts and branches, are part of the state. Growing the buffer of a scalar is
  a parameter. A macro whose magic would run code of the script is beyond the model.
\<close>

section \<open>The interpreter as the code sees it\<close>

text \<open>Where the number held by a blessed scalar points to: a request object, one of the streams of the
  \<^verbatim>\<open>FCGX_Request\<close> it owns, or something else.\<close>

datatype pointer = RequestAt nat | StreamOf nat stream_ref | Elsewhere

record SV =
  SvROK :: bool
  rv_gv :: "nat option"
  rv_hv :: "nat option"
  rv_ptr :: pointer
  sv_derived_from :: "string \<Rightarrow> bool"
  SvIV :: int
  SvPV :: "byte list"
  SvOK :: bool
  SvTRUE :: bool
  SvPVX :: "byte list"

text \<open>\<open>rv_gv\<close>, \<open>rv_hv\<close> and \<open>rv_ptr\<close> speak of the referent: the glob or the hash it is, if it is one, and
  \<^verbatim>\<open>INT2PTR\<close> of its \<^verbatim>\<open>SvIV\<close>. \<open>SvPVX\<close> is the whole buffer of the scalar, \<^verbatim>\<open>SvLEN\<close> its length.\<close>

text \<open>The object of a stream: a scalar that holds the address of a stream, once \<^verbatim>\<open>sv_setiv\<close> has put it there.\<close>

type_synonym stream_object = "stream_ref option"

datatype perl_call =
    NewIO nat | Sv_magic nat "stream_object option" | Sv_unmagic nat | Hv_clear nat | Hv_store nat "byte list" "byte list"

record interpreter =
  gv_refcnt :: "nat \<Rightarrow> nat"
  hv_refcnt :: "nat \<Rightarrow> nat"
  GvIOp :: "nat \<Rightarrow> bool"
  calls :: "perl_call list"

text \<open>What a method returns to Perl: nothing or values, or a new value for its buffer argument and values; or it dies
  with a message, or the process exits.\<close>

datatype sval = Undef | IV int | CharOf int | Truth bool | RvGV nat | RvHV nat | NewObject nat

datatype xs_result = Croaks string | Leaves int | Gives "sval list" | OutOfMemory | Fills "byte list" "sval list"

section \<open>State\<close>

record FCGP_Request =
  is_accepted :: bool
  bound :: bool
  svin :: "stream_object option"
  svout :: "stream_object option"
  sverr :: "stream_object option"
  gv :: "nat list"
  hvEnv :: nat
  requestPtr :: FCGX_Request

text \<open>The process: the library's state, the static variables of this file, the request objects by their
  address (freed ones are gone), the interpreter.\<close>

record process =
  p_glob :: fcgx_globals
  p_lib :: os_lib
  p_os :: os_state
  been_here :: bool
  static_isCGI :: int
  requests :: "nat \<Rightarrow> FCGP_Request option"
  next_request :: nat
  interp :: interpreter
  net_calls :: "net_call list"

record perl_host =
  env :: environment
  net :: netsys
  autoflush :: "SV option"
  SvGROW :: "byte list \<Rightarrow> nat \<Rightarrow> byte list option"

text \<open>\<open>autoflush\<close> is the variable \<^verbatim>\<open>$|\<close>, if there is one; \<open>SvGROW\<close> is \<open>None\<close> when the interpreter runs out of memory, which ends
  the script.\<close>

definition perl_does :: "perl_call list \<Rightarrow> process \<Rightarrow> process" where
  "perl_does cs w = w\<lparr>interp := (interp w)\<lparr>calls := calls (interp w) @ cs\<rparr>\<rparr>"

section \<open>Binding the handles\<close>

text \<open>Following a stream pointer: an operation of the library on the stream of this request it refers to.\<close>

definition on_ref ::
  "stream_ref \<Rightarrow> (strm \<Rightarrow> FCGX_Request \<Rightarrow> os_state \<Rightarrow> fault + 'a \<times> strm \<times> FCGX_Request \<times> os_state) \<Rightarrow>
    FCGP_Request \<Rightarrow> process \<Rightarrow> fault + 'a \<times> FCGP_Request \<times> process" where
  "on_ref ref f q w =
     (case request_stream ref (requestPtr q) of
        None \<Rightarrow> Inl NullDeref
      | Some s \<Rightarrow> rbind (f s (requestPtr q) (p_os w)) (\<lambda>(x, s, r, os).
          Inr (x, q\<lparr>requestPtr := put_stream ref (Some s) r\<rparr>, w\<lparr>p_os := os\<rparr>)))"

text \<open>\<^verbatim>\<open>SvIV(SvRV(sv))\<close> of a stream object, or of a null pointer.\<close>

definition object_iv :: "stream_object option \<Rightarrow> fault + stream_ref" where
  "object_iv sv = (case sv of Some (Some ref) \<Rightarrow> Inr ref | _ \<Rightarrow> Inl NullDeref)"

definition FCGI_Flush :: "FCGP_Request \<Rightarrow> process \<Rightarrow> fault + FCGP_Request \<times> process" where
  "FCGI_Flush q w =
     (if \<not> bound q then Inr (q, w)
      else
        rbind (object_iv (svout q)) (\<lambda>ref. rbind (on_ref ref (FCGX_FFlush EmptyBuffProc) q w) (\<lambda>(_, q, w).
        rbind (object_iv (sverr q)) (\<lambda>ref. rbind (on_ref ref (FCGX_FFlush EmptyBuffProc) q w) (\<lambda>(_, q, w).
        Inr (q, w))))))"

text \<open>The handle \<open>i\<close> of a request: its glob, if it has not been freed.\<close>

definition handle :: "FCGP_Request \<Rightarrow> nat \<Rightarrow> process \<Rightarrow> fault + nat" where
  "handle q i w = (if gv_refcnt (interp w) (gv q ! i) = 0 then Inl NullDeref else Inr (gv q ! i))"

definition unmagic :: "FCGP_Request \<Rightarrow> nat \<Rightarrow> process \<Rightarrow> fault + process" where
  "unmagic q i w =
     rbind (handle q i w) (\<lambda>g. if GvIOp (interp w) g then Inr (perl_does [Sv_unmagic g] w) else Inl NullDeref)"

definition FCGI_UndoBinding :: "FCGP_Request \<Rightarrow> process \<Rightarrow> fault + FCGP_Request \<times> process" where
  "FCGI_UndoBinding q w =
     rbind (unmagic q 0 w) (\<lambda>w. rbind (unmagic q 1 w) (\<lambda>w. rbind (unmagic q 2 w) (\<lambda>w.
     Inr (q\<lparr>bound := False\<rparr>, w))))"

definition give_io :: "FCGP_Request \<Rightarrow> nat \<Rightarrow> process \<Rightarrow> fault + process" where
  "give_io q i w =
     rbind (handle q i w) (\<lambda>g.
     if GvIOp (interp w) g then Inr w
     else Inr (perl_does [NewIO g] (w\<lparr>interp := (interp w)\<lparr>GvIOp := (GvIOp (interp w))(g := True)\<rparr>\<rparr>)))"

definition FCGI_Bind :: "FCGP_Request \<Rightarrow> process \<Rightarrow> fault + FCGP_Request \<times> process" where
  "FCGI_Bind q w =
     rbind (give_io q 1 w) (\<lambda>w. rbind (give_io q 2 w) (\<lambda>w. rbind (give_io q 0 w) (\<lambda>w.
     let w = perl_does [Sv_magic (gv q ! 1) (svout q)] w;
         w = perl_does [Sv_magic (gv q ! 2) (sverr q)] w;
         w = perl_does [Sv_magic (gv q ! 0) (svin q)] w
     in Inr (q\<lparr>bound := True\<rparr>, w))))"

section \<open>The environment\<close>

fun populate_loop :: "nat \<Rightarrow> byte list option list \<Rightarrow> fault + perl_call list" where
  "populate_loop hv [] = Inl BufferOverrun"
| "populate_loop hv (None # ps) = Inr []"
| "populate_loop hv (Some p # ps) =
     (if 0x3D \<notin> set (cstr p) then Inl AssertFailed
      else
        let n = length (takeWhile (\<lambda>b. b \<noteq> 0x3D) (cstr p))
        in rbind (populate_loop hv ps) (\<lambda>cs. Inr (Hv_store hv (take n p) (cstr (drop (n + 1) p)) # cs)))"

definition populate_env :: "byte list option list option \<Rightarrow> nat \<Rightarrow> process \<Rightarrow> fault + process" where
  "populate_env vecp hv w =
     (if hv_refcnt (interp w) hv = 0 then Inl NullDeref
      else case vecp of
        None \<Rightarrow> Inl NullDeref
      | Some ps \<Rightarrow> rbind (populate_loop hv ps) (\<lambda>cs. Inr (perl_does (Hv_clear hv # cs) w)))"

section \<open>Requests\<close>

definition FCGI_IsFastCGI :: "environment \<Rightarrow> FCGP_Request \<Rightarrow> process \<Rightarrow> outcome \<times> process" where
  "FCGI_IsFastCGI e q w =
     (if listen_sock (requestPtr q) = FCGI_LISTENSOCK_FILENO then
        if static_isCGI w = - 1 then
          let (cgi, g, l, os) = FCGX_IsCGI e (p_glob w) (p_lib w) (p_os w);
              w = w\<lparr>p_glob := g, p_lib := l, p_os := os\<rparr>
          in (case cgi of
                Inl code \<Rightarrow> (Exits code, w)
              | Inr b \<Rightarrow> (Returns (if b then 0 else 1), w\<lparr>static_isCGI := (if b then 1 else 0)\<rparr>))
        else (Returns (if static_isCGI w = 0 then 1 else 0), w)
      else (Returns 1, w))"

text \<open>\<^verbatim>\<open>FCGI_Finish\<close>, \<^verbatim>\<open>FCGI_Accept\<close> and \<^verbatim>\<open>FCGI_StartFilterData\<close> of this file.\<close>

definition perl_Finish :: "FCGP_Request \<Rightarrow> process \<Rightarrow> fault + FCGP_Request \<times> process" where
  "perl_Finish q w =
     (if \<not> is_accepted q then Inr (q, w)
      else
        let was_bound = bound q in
        rbind (if was_bound then FCGI_UndoBinding q w else Inr (q, w)) (\<lambda>(q, w).
        rbind (if was_bound then FCGX_Finish_r (Some (requestPtr q)) (p_lib w) (p_os w)
               else FCGX_Free (Some (requestPtr q)) True (p_lib w) (p_os w)) (\<lambda>(ro, l, os).
        Inr (q\<lparr>requestPtr := the ro, is_accepted := False\<rparr>, w\<lparr>p_lib := l, p_os := os\<rparr>))))"

definition set_object :: "stream_object option \<Rightarrow> stream_ref \<Rightarrow> fault + stream_object option" where
  "set_object sv ref = (case sv of None \<Rightarrow> Inl NullDeref | Some _ \<Rightarrow> Inr (Some (Some ref)))"

definition aim_objects :: "FCGP_Request \<Rightarrow> fault + FCGP_Request" where
  "aim_objects q =
     (let q = (if svout q = None then q\<lparr>svout := Some None, sverr := Some None, svin := Some None\<rparr> else q) in
      rbind (set_object (svout q) ReqOut) (\<lambda>ob. let q = q\<lparr>svout := ob\<rparr> in
      rbind (set_object (sverr q) ReqErr) (\<lambda>ob. let q = q\<lparr>sverr := ob\<rparr> in
      rbind (set_object (svin q) ReqIn) (\<lambda>ob. Inr (q\<lparr>svin := ob\<rparr>)))))"

definition perl_Accept :: "environment \<Rightarrow> FCGP_Request \<Rightarrow> process \<Rightarrow> fault + outcome \<times> FCGP_Request \<times> process" where
  "perl_Accept e q w =
     (case FCGI_IsFastCGI e q w of
        (Exits code, w) \<Rightarrow> Inr (Exits code, q, w)
      | (Returns fcgi, w) \<Rightarrow>
          if fcgi = 0 then
            if been_here w then Inr (Returns EOF, q, w) else Inr (Returns 0, q, w\<lparr>been_here := True\<rparr>)
          else
            rbind (perl_Finish q w) (\<lambda>(q, w).
            rbind (FCGX_Accept_r e (p_glob w) (requestPtr q) (p_lib w) (p_os w)) (\<lambda>(rc, r, l, os).
            let q = q\<lparr>requestPtr := r\<rparr>; w = w\<lparr>p_lib := l, p_os := os\<rparr> in
            if rc < 0 then Inr (Returns rc, q, w)
            else
              rbind (populate_env (envp (requestPtr q)) (hvEnv q) w) (\<lambda>w.
              rbind (aim_objects q) (\<lambda>q.
              rbind (FCGI_Bind q w) (\<lambda>(q, w).
              Inr (Returns 0, q\<lparr>is_accepted := True\<rparr>, w)))))))"

definition perl_StartFilterData :: "FCGP_Request \<Rightarrow> process \<Rightarrow> fault + int \<times> FCGP_Request \<times> process" where
  "perl_StartFilterData q w =
     (case inS (requestPtr q) of
        None \<Rightarrow> Inr (- 1, q, w)
      | Some s \<Rightarrow> rbind (FCGX_StartFilterData s (requestPtr q)) (\<lambda>(rc, s).
          Inr (rc, q\<lparr>requestPtr := (requestPtr q)\<lparr>inS := Some s\<rparr>\<rparr>, w)))"

definition inc_gv :: "nat \<Rightarrow> process \<Rightarrow> process" where
  "inc_gv g w = w\<lparr>interp := (interp w)\<lparr>gv_refcnt := (gv_refcnt (interp w))(g := gv_refcnt (interp w) g + 1)\<rparr>\<rparr>"

definition inc_hv :: "nat \<Rightarrow> process \<Rightarrow> process" where
  "inc_hv h w = w\<lparr>interp := (interp w)\<lparr>hv_refcnt := (hv_refcnt (interp w))(h := hv_refcnt (interp w) h + 1)\<rparr>\<rparr>"

definition dec_gv :: "nat \<Rightarrow> process \<Rightarrow> process" where
  "dec_gv g w = w\<lparr>interp := (interp w)\<lparr>gv_refcnt := (gv_refcnt (interp w))(g := gv_refcnt (interp w) g - 1)\<rparr>\<rparr>"

definition dec_hv :: "nat \<Rightarrow> process \<Rightarrow> process" where
  "dec_hv h w = w\<lparr>interp := (interp w)\<lparr>hv_refcnt := (hv_refcnt (interp w))(h := hv_refcnt (interp w) h - 1)\<rparr>\<rparr>"

definition FCGI_Request ::
  "nat \<Rightarrow> nat \<Rightarrow> nat \<Rightarrow> nat \<Rightarrow> int \<Rightarrow> int \<Rightarrow> process \<Rightarrow> FCGP_Request \<times> process" where
  "FCGI_Request gin gout gerr hv sock fl w =
     (let (_, fcgx_req) = FCGX_InitRequest sock fl;
          q = \<lparr>is_accepted = False, bound = False, svin = None, svout = None, sverr = None, gv = [], hvEnv = 0,
               requestPtr = fcgx_req\<rparr>;
          w = inc_hv hv (inc_gv gerr (inc_gv gout (inc_gv gin w)))
      in (q\<lparr>gv := [gin, gout, gerr], hvEnv := hv\<rparr>, w))"

text \<open>Both blocks are freed at the end: nothing of the request is left.\<close>

definition FCGI_Release_Request :: "FCGP_Request \<Rightarrow> process \<Rightarrow> fault + process" where
  "FCGI_Release_Request q w =
     (let w = dec_gv (gv q ! 0) w; w = dec_gv (gv q ! 1) w; w = dec_gv (gv q ! 2) w; w = dec_hv (hvEnv q) w
      in rbind (perl_Finish q w) (\<lambda>(_, w). Inr w))"

definition FCGI_Init :: "environment \<Rightarrow> process \<Rightarrow> process" where
  "FCGI_Init e w =
     (let (_, g, l, os) = FCGX_Init e (p_glob w) (p_lib w) (p_os w)
      in w\<lparr>p_glob := g, p_lib := l, p_os := os\<rparr>)"

section \<open>The calling convention\<close>

text \<open>The subroutine that was called, for the message of \<^verbatim>\<open>croak_xs_usage\<close>: its glob's package, if it has one, and name, and
  its address in hexadecimal.\<close>

record CV =
  CvGV :: "(string option \<times> string) option"
  cv_hex :: string

definition S_croak_xs_usage :: "CV \<Rightarrow> string \<Rightarrow> string" where
  "S_croak_xs_usage cv params =
     (case CvGV cv of
        Some (Some hvname, gvname) \<Rightarrow> ''Usage: '' @ hvname @ ''::'' @ gvname @ ''('' @ params @ '')''
      | Some (None, gvname) \<Rightarrow> ''Usage: '' @ gvname @ ''('' @ params @ '')''
      | None \<Rightarrow> ''Usage: CODE(0x'' @ cv_hex cv @ '')('' @ params @ '')'')"

type_synonym xsub = "perl_host \<Rightarrow> CV \<Rightarrow> SV list \<Rightarrow> process \<Rightarrow> fault + xs_result \<times> process"

text \<open>The typemaps: an argument that is an object of the class, or the message of the croak.\<close>

definition object_arg :: "string \<Rightarrow> string \<Rightarrow> string \<Rightarrow> SV \<Rightarrow> string + pointer" where
  "object_arg sub var class_name sv =
     (if SvROK sv \<and> sv_derived_from sv class_name then Inr (rv_ptr sv)
      else Inl (sub @ '': '' @ var @ '' is not of type '' @ class_name))"

text \<open>A function of this file on the request a pointer points to, and an operation of the library on a stream.\<close>

definition with_request ::
  "pointer \<Rightarrow> (FCGP_Request \<Rightarrow> process \<Rightarrow> fault + 'a \<times> FCGP_Request \<times> process) \<Rightarrow> process \<Rightarrow> fault + 'a \<times> process" where
  "with_request ptr f w =
     (case ptr of
        RequestAt p \<Rightarrow>
          (case requests w p of
             None \<Rightarrow> Inl NullDeref
           | Some q \<Rightarrow> rbind (f q w) (\<lambda>(x, q, w). Inr (x, w\<lparr>requests := (requests w)(p := Some q)\<rparr>)))
      | _ \<Rightarrow> Inl NullDeref)"

definition with_stream ::
  "pointer \<Rightarrow> (strm \<Rightarrow> FCGX_Request \<Rightarrow> os_state \<Rightarrow> fault + 'a \<times> strm \<times> FCGX_Request \<times> os_state) \<Rightarrow>
    process \<Rightarrow> fault + 'a \<times> process" where
  "with_stream ptr f w =
     (case ptr of
        StreamOf p ref \<Rightarrow> with_request (RequestAt p) (on_ref ref f) w
      | _ \<Rightarrow> Inl NullDeref)"

text \<open>A method with a request as its only argument.\<close>

definition request_method ::
  "string \<Rightarrow> (FCGP_Request \<Rightarrow> process \<Rightarrow> fault + xs_result \<times> FCGP_Request \<times> process) \<Rightarrow>
    CV \<Rightarrow> SV list \<Rightarrow> process \<Rightarrow> fault + xs_result \<times> process" where
  "request_method sub f cv st w =
     (if length st \<noteq> 1 then Inr (Croaks (S_croak_xs_usage cv ''request''), w)
      else case object_arg sub ''request'' ''FCGI'' (st ! 0) of
        Inl msg \<Rightarrow> Inr (Croaks msg, w)
      | Inr ptr \<Rightarrow> with_request ptr f w)"

fun outcome_iv :: "outcome \<Rightarrow> xs_result" where
  "outcome_iv (Returns n) = Gives [IV n]"
| "outcome_iv (Exits code) = Leaves code"

section \<open>The methods of FCGI\<close>

definition XS_FCGI_RequestX :: xsub where
  "XS_FCGI_RequestX h cv st w =
     (if length st \<noteq> 6 then Inr (Croaks (S_croak_xs_usage cv ''in, out, err, env, socket, flags''), w)
      else
        let sock = wrap32 (SvIV (st ! 4)); fl = wrap32 (SvIV (st ! 5));
            glob = (\<lambda>sv. if SvROK sv then rv_gv sv else None);
            hash = (\<lambda>sv. if SvROK sv then rv_hv sv else None)
        in case glob (st ! 0) of None \<Rightarrow> Inr (Croaks ''in is not a GLOB reference'', w)
         | Some gin \<Rightarrow> (case glob (st ! 1) of None \<Rightarrow> Inr (Croaks ''out is not a GLOB reference'', w)
         | Some gout \<Rightarrow> (case glob (st ! 2) of None \<Rightarrow> Inr (Croaks ''err is not a GLOB reference'', w)
         | Some gerr \<Rightarrow> (case hash (st ! 3) of None \<Rightarrow> Inr (Croaks ''env is not a reference to a hash'', w)
         | Some hv \<Rightarrow>
             let (q, w) = FCGI_Request gin gout gerr hv sock fl w; p = next_request w
             in Inr (Gives [NewObject p], w\<lparr>requests := (requests w)(p := Some q), next_request := p + 1\<rparr>)))))"

definition XS_FCGI_OpenSocket :: xsub where
  "XS_FCGI_OpenSocket h cv st w =
     (if length st \<noteq> 2 then Inr (Croaks (S_croak_xs_usage cv ''path, backlog''), w)
      else
        rbind (FCGX_OpenSocket (net h) (SvPV (st ! 0) @ [0]) (wrap32 (SvIV (st ! 1))) (p_glob w)) (\<lambda>(res, cs, g).
        Inr (outcome_iv res, w\<lparr>p_glob := g, net_calls := net_calls w @ cs\<rparr>)))"

definition XS_FCGI_CloseSocket :: xsub where
  "XS_FCGI_CloseSocket h cv st w =
     (if length st \<noteq> 1 then Inr (Croaks (S_croak_xs_usage cv ''socket''), w)
      else
        let (_, l, os) = sys_close (wrap32 (SvIV (st ! 0))) (p_lib w) (p_os w)
        in Inr (Gives [], w\<lparr>p_lib := l, p_os := os\<rparr>))"

definition XS_FCGI_Accept :: xsub where
  "XS_FCGI_Accept h = request_method ''FCGI::Accept'' (\<lambda>q w.
     rbind (perl_Accept (env h) q w) (\<lambda>(res, q, w). Inr (outcome_iv res, q, w)))"

definition XS_FCGI_Finish :: xsub where
  "XS_FCGI_Finish h = request_method ''FCGI::Finish'' (\<lambda>q w.
     rbind (perl_Finish q w) (\<lambda>(q, w). Inr (Gives [], q, w)))"

definition XS_FCGI_Flush :: xsub where
  "XS_FCGI_Flush h = request_method ''FCGI::Flush'' (\<lambda>q w.
     rbind (FCGI_Flush q w) (\<lambda>(q, w). Inr (Gives [], q, w)))"

text \<open>A new reference counts; a freed hash or glob is not referred to.\<close>

definition XS_FCGI_GetEnvironment :: xsub where
  "XS_FCGI_GetEnvironment h = request_method ''FCGI::GetEnvironment'' (\<lambda>q w.
     if hv_refcnt (interp w) (hvEnv q) = 0 then Inl NullDeref
     else Inr (Gives [RvHV (hvEnv q)], q, inc_hv (hvEnv q) w))"

fun push_handles :: "FCGP_Request \<Rightarrow> nat list \<Rightarrow> process \<Rightarrow> fault + sval list \<times> process" where
  "push_handles q [] w = Inr ([], w)"
| "push_handles q (i # is) w =
     rbind (handle q i w) (\<lambda>g. rbind (push_handles q is (inc_gv g w)) (\<lambda>(vs, w). Inr (RvGV g # vs, w)))"

definition XS_FCGI_GetHandles :: xsub where
  "XS_FCGI_GetHandles h = request_method ''FCGI::GetHandles'' (\<lambda>q w.
     rbind (push_handles q [0, 1, 2] w) (\<lambda>(vs, w). Inr (Gives vs, q, w)))"

definition XS_FCGI_IsFastCGI :: xsub where
  "XS_FCGI_IsFastCGI h = request_method ''FCGI::IsFastCGI'' (\<lambda>q w.
     let (res, w) = FCGI_IsFastCGI (env h) q w in Inr (outcome_iv res, q, w))"

definition XS_FCGI_Detach :: xsub where
  "XS_FCGI_Detach h = request_method ''FCGI::Detach'' (\<lambda>q w.
     rbind (if is_accepted q \<and> bound q then FCGI_UndoBinding q w else Inr (q, w)) (\<lambda>(q, w). Inr (Gives [], q, w)))"

definition XS_FCGI_Attach :: xsub where
  "XS_FCGI_Attach h = request_method ''FCGI::Attach'' (\<lambda>q w.
     rbind (if is_accepted q \<and> \<not> bound q then FCGI_Bind q w else Inr (q, w)) (\<lambda>(q, w). Inr (Gives [], q, w)))"

definition XS_FCGI_LastCall :: xsub where
  "XS_FCGI_LastCall h = request_method ''FCGI::LastCall'' (\<lambda>q w.
     Inr (Gives [], q, w\<lparr>p_lib := FCGX_ShutdownPending (p_lib w)\<rparr>))"

definition XS_FCGI_StartFilterData :: xsub where
  "XS_FCGI_StartFilterData h = request_method ''FCGI::StartFilterData'' (\<lambda>q w.
     rbind (perl_StartFilterData q w) (\<lambda>(rc, q, w). Inr (Gives [IV rc], q, w)))"

definition XS_FCGI_DESTROY :: xsub where
  "XS_FCGI_DESTROY h cv st w =
     (if length st \<noteq> 1 then Inr (Croaks (S_croak_xs_usage cv ''request''), w)
      else if \<not> SvROK (st ! 0) then Inr (Croaks ''FCGI::DESTROY: request is not a reference'', w)
      else case rv_ptr (st ! 0) of
        RequestAt p \<Rightarrow>
          (case requests w p of
             None \<Rightarrow> Inl NullDeref
           | Some q \<Rightarrow> rbind (FCGI_Release_Request q w) (\<lambda>w. Inr (Gives [], w\<lparr>requests := (requests w)(p := None)\<rparr>)))
      | _ \<Rightarrow> Inl NullDeref)"

section \<open>The methods of FCGI::Stream\<close>

fun print_all :: "SV list \<Rightarrow> strm \<Rightarrow> FCGX_Request \<Rightarrow> os_state \<Rightarrow> fault + unit \<times> strm \<times> FCGX_Request \<times> os_state" where
  "print_all [] s r os = Inr ((), s, r, os)"
| "print_all (sv # svs) s r os =
     rbind (FCGX_PutStr EmptyBuffProc (SvPV sv) s r os) (\<lambda>(_, s, r, os). print_all svs s r os)"

definition flushing :: "perl_host \<Rightarrow> bool" where
  "flushing h = (case autoflush h of None \<Rightarrow> False | Some sv \<Rightarrow> SvTRUE sv)"

definition XS_FCGI_Stream_PRINT :: xsub where
  "XS_FCGI_Stream_PRINT h cv st w =
     (if length st < 1 then Inr (Croaks (S_croak_xs_usage cv ''stream, ...''), w)
      else case object_arg ''FCGI::Stream::PRINT'' ''stream'' ''FCGI::Stream'' (st ! 0) of
        Inl msg \<Rightarrow> Inr (Croaks msg, w)
      | Inr ptr \<Rightarrow>
          if tl st = [] \<and> \<not> flushing h then Inr (Gives [], w)
          else rbind (with_stream ptr (\<lambda>s r os.
            rbind (print_all (tl st) s r os) (\<lambda>(_, s, r, os).
            if flushing h then rbind (FCGX_FFlush EmptyBuffProc s r os) (\<lambda>(_, s, r, os). Inr ((), s, r, os))
            else Inr ((), s, r, os))) w) (\<lambda>(_, w).
          Inr (Gives [], w)))"

text \<open>\<^verbatim>\<open>STRLEN\<close> is an unsigned type of 64 bits, to which an \<^verbatim>\<open>int\<close> compared with it is converted.\<close>

definition strlen_of :: "int \<Rightarrow> int" where
  "strlen_of n = n mod 2 ^ 64"

text \<open>The part of the buffer \<^verbatim>\<open>WRITE\<close> writes, by its \<open>offset\<close> and \<open>len\<close>; \<open>None\<close> is the offset outside of it. A length
  that is still negative makes \<^verbatim>\<open>FCGX_PutStr\<close> copy without end.\<close>

definition write_part :: "byte list \<Rightarrow> int \<Rightarrow> int \<Rightarrow> fault + byte list option" where
  "write_part buf len offset =
     (let blen = int (length buf);
          offset = (if offset < 0 then wrap32 (offset + blen) else offset);
          len = (if strlen_of len > strlen_of (blen - offset) then wrap32 (blen - offset) else len)
      in if offset < 0 \<or> strlen_of offset \<ge> blen then Inr None
         else if len < 0 then Inl BufferOverrun
         else Inr (Some (take (nat len) (drop (nat offset) buf))))"

definition XS_FCGI_Stream_WRITE :: xsub where
  "XS_FCGI_Stream_WRITE h cv st w =
     (if length st < 3 then Inr (Croaks (S_croak_xs_usage cv ''stream, bufsv, len, ...''), w)
      else case object_arg ''FCGI::Stream::WRITE'' ''stream'' ''FCGI::Stream'' (st ! 0) of
        Inl msg \<Rightarrow> Inr (Croaks msg, w)
      | Inr ptr \<Rightarrow>
          let len = wrap32 (SvIV (st ! 2)); offset = (if length st = 4 then wrap32 (SvIV (st ! 3)) else 0)
          in rbind (write_part (SvPV (st ! 1)) len offset) (\<lambda>part.
             case part of
               None \<Rightarrow> Inr (Gives [Undef], w)
             | Some bs \<Rightarrow>
                 rbind (with_stream ptr (FCGX_PutStr EmptyBuffProc bs) w) (\<lambda>(n, w).
                 Inr (Gives [if n < 0 then Undef else CharOf n], w))))"

text \<open>\<^verbatim>\<open>READ\<close> into the buffer of a scalar: where the bytes go, and the NUL after them, may be outside of it.\<close>

definition store_at :: "byte list \<Rightarrow> int \<Rightarrow> byte list \<Rightarrow> fault + byte list" where
  "store_at buf offset bs =
     (if bs = [] then Inr buf
      else if offset < 0 then Inl BufferOverrun
      else memcpy_to buf (nat offset) bs)"

definition XS_FCGI_Stream_READ :: xsub where
  "XS_FCGI_Stream_READ h cv st w =
     (if length st < 3 then Inr (Croaks (S_croak_xs_usage cv ''stream, bufsv, len, ...''), w)
      else case object_arg ''FCGI::Stream::READ'' ''stream'' ''FCGI::Stream'' (st ! 0) of
        Inl msg \<Rightarrow> Inr (Croaks msg, w)
      | Inr ptr \<Rightarrow>
          let len = wrap32 (SvIV (st ! 2)); offset = (if length st = 4 then wrap32 (SvIV (st ! 3)) else 0);
              old = (if SvOK (st ! 1) then SvPVX (st ! 1) else [0])
          in case SvGROW h old (nat (strlen_of (wrap32 (len + offset + 1)))) of
               None \<Rightarrow> Inr (OutOfMemory, w)
             | Some buf \<Rightarrow>
                 rbind (with_stream ptr (FCGX_GetStr FillBuffProc len) w) (\<lambda>(bs, w).
                 rbind (store_at buf offset bs) (\<lambda>buf.
                 let cur = int (length bs) + offset in
                 rbind (store_at buf cur [0]) (\<lambda>buf.
                 Inr (Fills (take (nat cur) buf) [IV (int (length bs))], w)))))"

definition XS_FCGI_Stream_GETC :: xsub where
  "XS_FCGI_Stream_GETC h cv st w =
     (if length st \<noteq> 1 then Inr (Croaks (S_croak_xs_usage cv ''stream''), w)
      else case object_arg ''FCGI::Stream::GETC'' ''stream'' ''FCGI::Stream'' (st ! 0) of
        Inl msg \<Rightarrow> Inr (Croaks msg, w)
      | Inr ptr \<Rightarrow>
          rbind (with_stream ptr (FCGX_GetChar FillBuffProc) w) (\<lambda>(retval, w).
          Inr (Gives [if retval \<noteq> - 1 then CharOf retval else Undef], w)))"

definition XS_FCGI_Stream_CLOSE :: xsub where
  "XS_FCGI_Stream_CLOSE h cv st w =
     (if length st \<noteq> 1 then Inr (Croaks (S_croak_xs_usage cv ''stream''), w)
      else case object_arg ''FCGI::Stream::CLOSE'' ''stream'' ''FCGI::Stream'' (st ! 0) of
        Inl msg \<Rightarrow> Inr (Croaks msg, w)
      | Inr ptr \<Rightarrow>
          rbind (with_stream ptr (\<lambda>s r os. rbind (FCGX_FClose EmptyBuffProc (Some s) r os) (\<lambda>(rc, so, r, os).
            case so of None \<Rightarrow> Inl NullDeref | Some s \<Rightarrow> Inr (rc, s, r, os))) w) (\<lambda>(rc, w).
          Inr (Gives [Truth (rc \<noteq> - 1)], w)))"

section \<open>Loading the module\<close>

text \<open>What \<^verbatim>\<open>boot_FCGI\<close> registers: the name of a subroutine, its prototype if it has one, the function.\<close>

definition fcgi_subs :: "(string \<times> string option \<times> xsub) list" where
  "fcgi_subs =
     [(''FCGI::RequestX'', Some ''***$$$'', XS_FCGI_RequestX),
      (''FCGI::OpenSocket'', Some ''$$'', XS_FCGI_OpenSocket),
      (''FCGI::CloseSocket'', Some ''$'', XS_FCGI_CloseSocket),
      (''FCGI::Accept'', Some ''$'', XS_FCGI_Accept),
      (''FCGI::Finish'', Some ''$'', XS_FCGI_Finish),
      (''FCGI::Flush'', Some ''$'', XS_FCGI_Flush),
      (''FCGI::GetEnvironment'', Some ''$'', XS_FCGI_GetEnvironment),
      (''FCGI::GetHandles'', Some ''$'', XS_FCGI_GetHandles),
      (''FCGI::IsFastCGI'', Some ''$'', XS_FCGI_IsFastCGI),
      (''FCGI::Detach'', Some ''$'', XS_FCGI_Detach),
      (''FCGI::Attach'', Some ''$'', XS_FCGI_Attach),
      (''FCGI::LastCall'', Some ''$'', XS_FCGI_LastCall),
      (''FCGI::StartFilterData'', Some ''$'', XS_FCGI_StartFilterData),
      (''FCGI::DESTROY'', None, XS_FCGI_DESTROY),
      (''FCGI::Stream::PRINT'', None, XS_FCGI_Stream_PRINT),
      (''FCGI::Stream::WRITE'', None, XS_FCGI_Stream_WRITE),
      (''FCGI::Stream::READ'', None, XS_FCGI_Stream_READ),
      (''FCGI::Stream::GETC'', None, XS_FCGI_Stream_GETC),
      (''FCGI::Stream::CLOSE'', None, XS_FCGI_Stream_CLOSE)]"

definition boot_FCGI :: "environment \<Rightarrow> process \<Rightarrow> (string \<times> string option \<times> xsub) list \<times> process" where
  "boot_FCGI e w = (fcgi_subs, FCGI_Init e w)"

text \<open>A script calls a subroutine by its name.\<close>

definition call_sub ::
  "(string \<times> string option \<times> xsub) list \<Rightarrow> string \<Rightarrow> perl_host \<Rightarrow> CV \<Rightarrow> SV list \<Rightarrow> process \<Rightarrow>
    (fault + xs_result \<times> process) option" where
  "call_sub subs name h cv st w = map_option (\<lambda>(proto, f). f h cv st w) (map_of subs name)"

end
