(* ===== verification/PerlSpec.thy ===== *)
theory PerlSpec
  imports Perl
begin

text \<open>
  What the calls of theory \<open>Perl\<close> mean to the interpreter: the hash and the ties they leave. Binding and unbinding are shown to
  work on live handles, and every subroutine of the module is shown to keep the request objects well-formed,
  whatever a script calls (\<open>perl_reaches\<close>).
\<close>

section \<open>What the calls mean to Perl\<close>

text \<open>The documented effect of the calls on a hash and on the magic of the handle of a glob (a second magic of
  a kind is refused).\<close>

fun hash_step :: "nat \<Rightarrow> (byte list \<rightharpoonup> byte list) \<Rightarrow> perl_call \<Rightarrow> (byte list \<rightharpoonup> byte list)" where
  "hash_step hv m (Hv_clear h) = (if h = hv then Map.empty else m)"
| "hash_step hv m (Hv_store h k v) = (if h = hv then m(k \<mapsto> v) else m)"
| "hash_step hv m _ = m"

fun tie_step :: "nat \<Rightarrow> stream_object option \<Rightarrow> perl_call \<Rightarrow> stream_object option" where
  "tie_step g t (Sv_magic h ob) = (if h = g \<and> t = None then ob else t)"
| "tie_step g t (Sv_unmagic h) = (if h = g then None else t)"
| "tie_step g t _ = t"

definition hash_of :: "nat \<Rightarrow> process \<Rightarrow> (byte list \<rightharpoonup> byte list)" where
  "hash_of hv w = foldl (hash_step hv) Map.empty (calls (interp w))"

definition tied :: "nat \<Rightarrow> process \<Rightarrow> stream_object option" where
  "tied g w = foldl (tie_step g) None (calls (interp w))"

lemma hash_of_does [simp]: "hash_of hv (perl_does cs w) = foldl (hash_step hv) (hash_of hv w) cs"
  by (simp add: hash_of_def perl_does_def)

lemma tied_does [simp]: "tied g (perl_does cs w) = foldl (tie_step g) (tied g w) cs"
  by (simp add: tied_def perl_does_def)

lemma perl_does_simps [simp]:
  "p_glob (perl_does cs w) = p_glob w" "p_lib (perl_does cs w) = p_lib w" "p_os (perl_does cs w) = p_os w"
  "been_here (perl_does cs w) = been_here w" "static_isCGI (perl_does cs w) = static_isCGI w"
  "requests (perl_does cs w) = requests w" "next_request (perl_does cs w) = next_request w"
  "gv_refcnt (interp (perl_does cs w)) = gv_refcnt (interp w)" "hv_refcnt (interp (perl_does cs w)) = hv_refcnt (interp w)"
  "GvIOp (interp (perl_does cs w)) = GvIOp (interp w)"
  by (simp_all add: perl_does_def)

section \<open>The environment in the hash\<close>

text \<open>The key and the value \<^verbatim>\<open>populate_env\<close> finds in an entry of the vector.\<close>

definition hash_key :: "byte list \<times> byte list \<Rightarrow> byte list" where
  "hash_key x = takeWhile (\<lambda>b. b \<noteq> 0x3D) (cstr (entry x))"

definition hash_value :: "byte list \<times> byte list \<Rightarrow> byte list" where
  "hash_value x = cstr (drop (length (hash_key x) + 1) (entry x))"

lemma take_hash_key: "take (length (hash_key x)) (entry x) = hash_key x"
proof -
  have "\<exists>ys zs. entry x = hash_key x @ ys @ zs"
    unfolding hash_key_def cstr_def by (metis append.assoc takeWhile_dropWhile_id)
  then show ?thesis by auto
qed

lemma populate_entries:
  "populate_loop hv (map (Some \<circ> entry) xs @ None # rest) =
    (if \<forall>x \<in> set xs. 0x3D \<in> set (cstr (entry x)) then Inr (map (\<lambda>x. Hv_store hv (hash_key x) (hash_value x)) xs)
     else Inl AssertFailed)"
proof (induction xs)
  case (Cons x xs)
  have "cstr (drop (Suc (length (hash_key x))) (entry x)) = hash_value x" by (simp add: hash_value_def)
  with Cons show ?case by (simp add: Let_def hash_key_def [symmetric] take_hash_key)
qed simp

lemma cstr_simps [simp]: "cstr (v @ [0]) = cstr v" "0 \<notin> set n \<Longrightarrow> cstr (n @ xs) = n @ cstr xs"
  by (induction v) (simp_all add: cstr_def, induction n, simp_all)

lemma hash_name_ok:
  assumes "0x3D \<notin> set n" "0 \<notin> set n"
  shows "0x3D \<in> set (cstr (entry (n, v)))" "hash_key (n, v) = n" "hash_value (n, v) = cstr v"
proof -
  have c: "cstr (entry (n, v)) = n @ 0x3D # cstr v"
  proof -
    have "entry (n, v) = n @ (0x3D # (v @ [0]))" by (simp add: entry_def)
    also have "cstr \<dots> = n @ cstr (0x3D # (v @ [0]))" using assms(2) by (rule cstr_simps(2))
    also have "cstr (0x3D # (v @ [0])) = 0x3D # cstr (v @ [0])" by (simp add: cstr_def)
    finally show ?thesis by simp
  qed
  then show "0x3D \<in> set (cstr (entry (n, v)))" by simp
  show k: "hash_key (n, v) = n" using assms(1) by (simp add: hash_key_def c takeWhile_append)
  show "hash_value (n, v) = cstr v"
    unfolding hash_value_def k by (simp add: entry_def)
qed

lemma hash_stores:
  "foldl (hash_step hv) m (map (\<lambda>x. Hv_store hv (k x) (v x)) xs) = m ++ map_of (rev (map (\<lambda>x. (k x, v x)) xs))"
  by (induction xs arbitrary: m) (simp_all add: map_add_assoc [symmetric])

lemma ties_stores: "foldl (tie_step g) t (map (\<lambda>x. Hv_store hv (k x) (v x)) xs) = t"
  by (induction xs) simp_all

section \<open>Tying and untying the handles\<close>

definition handles_live :: "FCGP_Request \<Rightarrow> process \<Rightarrow> bool" where
  "handles_live q w \<longleftrightarrow> length (gv q) = 3 \<and> (\<forall>g \<in> set (gv q). 0 < gv_refcnt (interp w) g)"

text \<open>Only the interpreter's part of the state may have changed, and no reference count.\<close>

definition only_perl :: "process \<Rightarrow> process \<Rightarrow> bool" where
  "only_perl w w' \<longleftrightarrow>
     p_glob w' = p_glob w \<and> p_lib w' = p_lib w \<and> p_os w' = p_os w \<and> been_here w' = been_here w \<and>
     static_isCGI w' = static_isCGI w \<and> requests w' = requests w \<and> next_request w' = next_request w \<and>
     gv_refcnt (interp w') = gv_refcnt (interp w) \<and> hv_refcnt (interp w') = hv_refcnt (interp w)"

lemma only_perl_refl [simp]: "only_perl w w"
  and only_perl_does [simp]: "only_perl w' (perl_does cs w) = only_perl w' w"
  by (simp_all add: only_perl_def)

lemma only_perl_trans: "only_perl w w1 \<Longrightarrow> only_perl w1 w' \<Longrightarrow> only_perl w w'"
  by (simp add: only_perl_def)

lemma handles_live_cong: "only_perl w w' \<Longrightarrow> handles_live q w' = handles_live q w"
  by (simp add: only_perl_def handles_live_def)

lemma handle_live: "handles_live q w \<Longrightarrow> i < 3 \<Longrightarrow> handle q i w = Inr (gv q ! i)"
  by (auto simp: handles_live_def handle_def)

lemma give_io_ok:
  assumes "handles_live q w" "i < 3"
  obtains w' where "give_io q i w = Inr w'" "only_perl w w'" "GvIOp (interp w') (gv q ! i)"
    "\<forall>g. GvIOp (interp w) g \<longrightarrow> GvIOp (interp w') g" "\<forall>h. tied h w' = tied h w" "\<forall>hv. hash_of hv w' = hash_of hv w"
proof (cases "GvIOp (interp w) (gv q ! i)")
  case True
  then show ?thesis using that [of w] handle_live [OF assms] by (simp add: give_io_def)
next
  case False
  let ?w = "w\<lparr>interp := (interp w)\<lparr>GvIOp := (GvIOp (interp w))(gv q ! i := True)\<rparr>\<rparr>"
  have "tied h ?w = tied h w" "hash_of hv ?w = hash_of hv w" for h hv by (simp_all add: tied_def hash_of_def)
  then show ?thesis
    using that [of "perl_does [NewIO (gv q ! i)] ?w"] False handle_live [OF assms] by (simp add: give_io_def only_perl_def)
qed

definition tied_to :: "FCGP_Request \<Rightarrow> process \<Rightarrow> stream_object option list \<Rightarrow> bool" where
  "tied_to q w obs \<longleftrightarrow> map (\<lambda>g. tied g w) (gv q) = obs"

definition io_open :: "FCGP_Request \<Rightarrow> process \<Rightarrow> bool" where
  "io_open q w \<longleftrightarrow> (\<forall>g \<in> set (gv q). GvIOp (interp w) g)"

lemma three: "length xs = 3 \<Longrightarrow> xs = [xs ! 0, xs ! 1, xs ! 2]"
  by (cases xs; cases "tl xs"; cases "tl (tl xs)") auto

lemma FCGI_Bind_ok:
  assumes "handles_live q w" "distinct (gv q)" "tied_to q w [None, None, None]"
  obtains w' where "FCGI_Bind q w = Inr (q\<lparr>bound := True\<rparr>, w')" "only_perl w w'" "io_open q w'"
    "tied_to q w' [svin q, svout q, sverr q]" "hash_of hv w' = hash_of hv w"
proof -
  have lv: "handles_live q v" if "only_perl w v" for v using handles_live_cong that assms(1) by blast
  obtain w1 where 1: "give_io q 1 w = Inr w1" "only_perl w w1" "GvIOp (interp w1) (gv q ! 1)"
    "\<forall>h. tied h w1 = tied h w" "\<forall>hv. hash_of hv w1 = hash_of hv w"
    by (rule give_io_ok [OF assms(1), of 1]) auto
  obtain w2 where 2: "give_io q 2 w1 = Inr w2" "only_perl w1 w2" "GvIOp (interp w2) (gv q ! 2)"
    "\<forall>g. GvIOp (interp w1) g \<longrightarrow> GvIOp (interp w2) g" "\<forall>h. tied h w2 = tied h w1" "\<forall>hv. hash_of hv w2 = hash_of hv w1"
    by (rule give_io_ok [OF lv [OF 1(2)], of 2]) auto
  have o2: "only_perl w w2" using only_perl_trans 1(2) 2(2) by blast
  obtain w3 where 3: "give_io q 0 w2 = Inr w3" "only_perl w2 w3" "GvIOp (interp w3) (gv q ! 0)"
    "\<forall>g. GvIOp (interp w2) g \<longrightarrow> GvIOp (interp w3) g" "\<forall>h. tied h w3 = tied h w2" "\<forall>hv. hash_of hv w3 = hash_of hv w2"
    by (rule give_io_ok [OF lv [OF o2], of 0]) auto
  let ?w = "perl_does [Sv_magic (gv q ! 0) (svin q)] (perl_does [Sv_magic (gv q ! 2) (sverr q)]
      (perl_does [Sv_magic (gv q ! 1) (svout q)] w3))"
  have g: "gv q = [gv q ! 0, gv q ! 1, gv q ! 2]" using assms(1) by (intro three) (simp add: handles_live_def)
  obtain a b c where abc: "gv q = [a, b, c]" "a \<noteq> b" "a \<noteq> c" "b \<noteq> c" using g assms(2) by (metis distinct_length_2_or_more)
  have "FCGI_Bind q w = Inr (q\<lparr>bound := True\<rparr>, ?w)"
    using 1(1) 2(1) 3(1) by (simp add: FCGI_Bind_def Let_def)
  moreover have "only_perl w ?w" using only_perl_trans [OF o2 3(2)] by (simp add: only_perl_def)
  moreover have "io_open q ?w" using 1(3) 2(3,4) 3(3,4) abc by (simp add: io_open_def)
  moreover have "tied_to q ?w [svin q, svout q, sverr q]"
    using assms(3) 1(4) 2(5) 3(5) abc by (simp add: tied_to_def)
  moreover have "hash_of hv ?w = hash_of hv w" using 1(5) 2(6) 3(6) by simp
  ultimately show ?thesis by (rule that)
qed

lemma FCGI_UndoBinding_ok:
  assumes "handles_live q w" "io_open q w"
  obtains w' where "FCGI_UndoBinding q w = Inr (q\<lparr>bound := False\<rparr>, w')" "only_perl w w'" "io_open q w'"
    "tied_to q w' [None, None, None]" "hash_of hv w' = hash_of hv w"
proof -
  obtain a b c where abc: "gv q = [a, b, c]" using assms(1) three unfolding handles_live_def by metis
  let ?w = "perl_does [Sv_unmagic c] (perl_does [Sv_unmagic b] (perl_does [Sv_unmagic a] w))"
  have "FCGI_UndoBinding q w = Inr (q\<lparr>bound := False\<rparr>, ?w)"
    using assms abc by (simp add: FCGI_UndoBinding_def unmagic_def handle_def handles_live_def io_open_def)
  moreover have "only_perl w ?w" "io_open q ?w" using assms(2) by (simp_all add: io_open_def)
  moreover have "tied_to q ?w [None, None, None]" "hash_of hv ?w = hash_of hv w" using abc by (auto simp: tied_to_def)
  ultimately show ?thesis using that by blast
qed

lemma aim_objects_ok:
  "(svout q = None \<longleftrightarrow> sverr q = None) \<Longrightarrow> (svout q = None \<longleftrightarrow> svin q = None) \<Longrightarrow>
    aim_objects q = Inr (q\<lparr>svin := Some (Some ReqIn), svout := Some (Some ReqOut), sverr := Some (Some ReqErr)\<rparr>)"
  by (auto simp: aim_objects_def set_object_def Let_def split: option.splits)

section \<open>Objects stay well-formed\<close>

text \<open>The streams of a request in progress: one reader and two writers, and an environment.\<close>

definition typed_streams :: "FCGX_Request \<Rightarrow> bool" where
  "typed_streams r \<longleftrightarrow>
     (\<exists>i out err. inS r = Some i \<and> isReader i \<and> outS r = Some out \<and> \<not> isReader out \<and> errS r = Some err \<and> \<not> isReader err) \<and>
     envp r \<noteq> None"

definition no_streams :: "FCGX_Request \<Rightarrow> bool" where
  "no_streams r \<longleftrightarrow> inS r = None \<and> outS r = None \<and> errS r = None"

definition proper :: "FCGP_Request \<Rightarrow> bool" where
  "proper q \<longleftrightarrow>
     length (gv q) = 3 \<and> (bound q \<longrightarrow> is_accepted q) \<and>
     (svin q, svout q, sverr q) \<in> {(None, None, None), (Some (Some ReqIn), Some (Some ReqOut), Some (Some ReqErr))} \<and>
     (if is_accepted q then svout q \<noteq> None \<and> typed_streams (requestPtr q) else no_streams (requestPtr q))"

definition world_ok :: "process \<Rightarrow> bool" where
  "world_ok w \<longleftrightarrow> (\<forall>p q. requests w p = Some q \<longrightarrow> proper q)"

text \<open>An operation of the library on one of the streams changes none of this.\<close>

lemma more_fields:
  fixes r r' :: FCGX_Request
  assumes "reqdata.more r' = reqdata.more r"
  shows "inS r' = inS r \<and> outS r' = outS r \<and> errS r' = errS r \<and> envp r' = envp r"
  using assms by (cases r; cases r') simp

lemma put_stream_typed:
  assumes "confined s r os s' r' os'" "request_stream ref r = Some s"
  shows "typed_streams (put_stream ref (Some s') r') = typed_streams r \<and> \<not> no_streams r"
  using assms more_fields [of r' r] by (cases ref) (auto simp: confined_def typed_streams_def no_streams_def)

lemma on_ref_proper:
  assumes "\<And>s r os x s' r' os'. f s r os = Inr (x, s', r', os') \<Longrightarrow> confined s r os s' r' os'"
    and "proper q" "on_ref ref f q w = Inr (x, q', w')"
  shows "proper q' \<and> requests w' = requests w \<and> is_accepted q' = is_accepted q \<and> bound q' = bound q"
proof -
  obtain s s' r' os' where 1: "request_stream ref (requestPtr q) = Some s" "f s (requestPtr q) (p_os w) = Inr (x, s', r', os')"
    "q' = q\<lparr>requestPtr := put_stream ref (Some s') r'\<rparr>" "w' = w\<lparr>p_os := os'\<rparr>"
    using assms(3) by (auto simp: on_ref_def split: option.splits elim!: rbind_InrE)
  show ?thesis
    using put_stream_typed [OF assms(1) [OF 1(2)] 1(1)] assms(2) 1(3,4) by (auto simp: proper_def split: if_splits)
qed

lemma unmagic_requests: "unmagic q i w = Inr w' \<Longrightarrow> requests w' = requests w"
  by (auto simp: unmagic_def split: if_splits elim!: rbind_InrE)

lemma give_io_requests: "give_io q i w = Inr w' \<Longrightarrow> requests w' = requests w"
  by (auto simp: give_io_def split: if_splits elim!: rbind_InrE)

lemma FCGI_UndoBinding_requests:
  "FCGI_UndoBinding q w = Inr (q', w') \<Longrightarrow> q' = q\<lparr>bound := False\<rparr> \<and> requests w' = requests w"
  by (auto simp: FCGI_UndoBinding_def elim!: rbind_InrE dest!: unmagic_requests)

lemma FCGI_Bind_requests: "FCGI_Bind q w = Inr (q', w') \<Longrightarrow> q' = q\<lparr>bound := True\<rparr> \<and> requests w' = requests w"
  by (auto simp: FCGI_Bind_def Let_def elim!: rbind_InrE dest!: give_io_requests)

lemma perl_Finish_proper:
  assumes "proper q" "perl_Finish q w = Inr (q', w')"
  shows "proper q' \<and> \<not> is_accepted q' \<and> \<not> bound q' \<and> requests w' = requests w"
proof (cases "is_accepted q")
  case False
  then show ?thesis using assms by (auto simp: perl_Finish_def proper_def)
next
  case True
  obtain q1 w1 ro l os where 1: "(if bound q then FCGI_UndoBinding q w else Inr (q, w)) = Inr (q1, w1)" and
    2: "(if bound q then FCGX_Finish_r (Some (requestPtr q1)) (p_lib w1) (p_os w1)
      else FCGX_Free (Some (requestPtr q1)) True (p_lib w1) (p_os w1)) = Inr (ro, l, os)"
    "q' = q1\<lparr>requestPtr := the ro, is_accepted := False\<rparr>" "w' = w1\<lparr>p_lib := l, p_os := os\<rparr>"
    using assms(2) True unfolding perl_Finish_def Let_def by (auto elim!: rbind_InrE)
  have q1: "q1 = q\<lparr>bound := False\<rparr>" "requests w1 = requests w"
    using 1 FCGI_UndoBinding_requests by (cases "bound q"; force)+
  obtain r' where "ro = Some r'" "released (requestPtr q1) (p_os w1) r' os"
    using 2(1) by (auto split: if_splits elim: Finish_r_released Free_released)
  then show ?thesis
    using assms(1) q1 2(2,3) by (auto simp: proper_def released_def no_streams_def)
qed

lemma SetReaderType_isReader: "SetReaderType t s = Inr s' \<Longrightarrow> isReader s' = isReader s"
  by (auto simp: SetReaderType_def split: if_splits elim!: rbind_InrE)

lemma read_request_reader:
  assumes "read_request mBuff r os = Inr (True, r', os')"
  shows "\<exists>s p. inS r' = Some s \<and> isReader s \<and> paramsPtr r' = Some p"
proof -
  obtain s1 r1 os1 where 1: "FillBuffProc (NewReader mBuff 8192 0) (r\<lparr>isBeginProcessed := False\<rparr>) os = Inr (s1, r1, os1)"
    using assms by (auto simp: read_request_def Let_def elim!: rbind_InrE)
  have r1: "isReader s1"
    using records.fill_confined [OF 1] by (simp add: confined_def NewReader_def NewStream_def Let_def)
  obtain s2 q1 q2 rc p s3 r3 os3 where 2: "SetReaderType FCGI_PARAMS s1 = Inr s2"
    "ReadParams FillBuffProc p s2 q1 os1 = Inr (rc, q2, s3, r3, os3)" "r' = r3\<lparr>paramsPtr := Some q2, inS := Some s3\<rparr>"
    using assms 1 by (auto simp: read_request_def Let_def split: if_splits option.splits elim!: rbind_InrE)
  show ?thesis
    using records.ReadParams_confined [OF 2(2)] SetReaderType_isReader [OF 2(1)] r1 2(3) by (simp add: confined_def)
qed

lemma ready_request_typed:
  assumes "ready_request e r = Inr r'" "inS r = Some s" "isReader s"
  shows "typed_streams r'"
proof -
  obtain p s' where "paramsPtr r = Some p" "SetReaderType FCGI_STDIN s = Inr s'"
    "r' = r\<lparr>inS := Some s', outS := Some (NewWriter (out_block e) 8192 FCGI_STDOUT),
       errS := Some (NewWriter (err_block e) 512 FCGI_STDERR), nWriters := 2, envp := Some (vec p)\<rparr>"
    using assms(1,2) by (auto simp: ready_request_def split: option.splits elim!: rbind_InrE)
  then show ?thesis
    using SetReaderType_isReader assms(3) by (simp add: typed_streams_def NewWriter_def NewStream_def Let_def)
qed

text \<open>Accepting either fails, with a negative code and no streams, or gives all of them.\<close>

lemma accept_requests_typed:
  "accept_requests e g n r l os = Inr (rc, r', l', os') \<Longrightarrow> no_streams r \<Longrightarrow>
    rc = 0 \<and> typed_streams r' \<or> rc < 0 \<and> no_streams r'"
proof (induction n arbitrary: r l os)
  case (Suc n)
  obtain res r1 l1 os1 where 1: "accept_connection e g r l os = Inr (res, r1, l1, os1)"
    using Suc.prems(1) by (cases "accept_connection e g r l os") auto
  have n1: "no_streams r1" and neg: "\<forall>c. res = Inl c \<longrightarrow> c < 0"
    using 1 Suc.prems(2)
    by (auto simp: accept_connection_def no_streams_def Let_def split: if_splits sum.splits elim!: rbind_InrE)
  show ?case
  proof (cases res)
    case (Inl c)
    then show ?thesis using Suc.prems(1) 1 n1 neg by simp
  next
    case (Inr u)
    obtain ok r2 os2 where 2: "read_request (in_block e n) r1 os1 = Inr (ok, r2, os2)"
      using Suc.prems(1) 1 Inr by (cases "read_request (in_block e n) r1 os1") auto
    show ?thesis
    proof (cases ok)
      case True
      then obtain r3 where 3: "ready_request e r2 = Inr r3" "rc = 0" "r' = r3"
        using Suc.prems(1) 1 2 Inr by (auto elim!: rbind_InrE)
      moreover obtain s where "inS r2 = Some s" "isReader s" using read_request_reader 2 True by (metis (full_types))
      ultimately show ?thesis using ready_request_typed by blast
    next
      case False
      then obtain ro l2 os3 where 3: "FCGX_Free (Some r2) True l1 os2 = Inr (ro, l2, os3)"
        "accept_requests e g n (the ro) l2 os3 = Inr (rc, r', l', os')"
        using Suc.prems(1) 1 2 Inr by (auto elim!: rbind_InrE)
      have "no_streams (the ro)" by (rule Free_released [OF 3(1)]) (auto simp: released_def no_streams_def)
      then show ?thesis using Suc.IH [OF 3(2)] by blast
    qed
  qed
qed simp

lemma Accept_r_typed:
  assumes "FCGX_Accept_r e g r l os = Inr (rc, r', l', os')" "no_streams r"
  shows "rc = 0 \<and> typed_streams r' \<or> rc < 0 \<and> no_streams r'"
proof (cases "libInitialized g")
  case False
  then show ?thesis using assms by (simp add: FCGX_Accept_r_def)
next
  case True
  then obtain ro l1 os1 where 1: "FCGX_Finish_r (Some r) l os = Inr (ro, l1, os1)"
    "accept_requests e g (length (accepts l1) + 2) (the ro) l1 os1 = Inr (rc, r', l', os')"
    using assms(1) by (auto simp: FCGX_Accept_r_def simp del: accept_requests.simps elim!: rbind_InrE)
  have "no_streams (the ro)" by (rule Finish_r_released [OF 1(1)]) (auto simp: released_def no_streams_def)
  then show ?thesis using accept_requests_typed [OF 1(2)] by blast
qed

lemma IsFastCGI_requests: "FCGI_IsFastCGI e q w = (res, w') \<Longrightarrow> requests w' = requests w"
  by (auto simp: FCGI_IsFastCGI_def Let_def split: if_splits prod.splits sum.splits)

lemma populate_env_requests: "populate_env v hv w = Inr w' \<Longrightarrow> requests w' = requests w"
  by (auto simp: populate_env_def split: if_splits option.splits elim!: rbind_InrE)

lemma aim_objects_proper:
  assumes "(svin q, svout q, sverr q) \<in> {(None, None, None), (Some (Some ReqIn), Some (Some ReqOut), Some (Some ReqErr))}"
  shows "aim_objects q = Inr (q\<lparr>svin := Some (Some ReqIn), svout := Some (Some ReqOut), sverr := Some (Some ReqErr)\<rparr>)"
  using assms by (intro aim_objects_ok) auto

lemma perl_Accept_proper:
  assumes "proper q" "perl_Accept e q w = Inr (res, q', w')"
  shows "proper q' \<and> requests w' = requests w"
proof -
  obtain fc w1 where 1: "FCGI_IsFastCGI e q w = (fc, w1)" "requests w1 = requests w"
    using IsFastCGI_requests by (cases "FCGI_IsFastCGI e q w") blast
  show ?thesis
  proof (cases "\<exists>n. fc = Returns n \<and> n \<noteq> 0")
    case False
    then show ?thesis using assms 1 by (auto simp: perl_Accept_def split: outcome.splits if_splits)
  next
    case True
    then obtain q2 w2 rc r l os where 2: "perl_Finish q w1 = Inr (q2, w2)"
      "FCGX_Accept_r e (p_glob w2) (requestPtr q2) (p_lib w2) (p_os w2) = Inr (rc, r, l, os)"
      using assms(2) 1 by (auto simp: perl_Accept_def elim!: rbind_InrE)
    note f = perl_Finish_proper [OF assms(1) 2(1)]
    have r: "rc = 0 \<and> typed_streams r \<or> rc < 0 \<and> no_streams r"
      using Accept_r_typed [OF 2(2)] f by (simp add: proper_def)
    let ?q = "q2\<lparr>requestPtr := r\<rparr>" and ?w = "w2\<lparr>p_lib := l, p_os := os\<rparr>"
    show ?thesis
    proof (cases "rc < 0")
      case True
      then show ?thesis
        using assms(2) 1 2 f r \<open>\<exists>n. fc = Returns n \<and> n \<noteq> 0\<close> by (auto simp: perl_Accept_def Let_def proper_def typed_streams_def)
    next
      case False
      let ?q3 = "?q\<lparr>svin := Some (Some ReqIn), svout := Some (Some ReqOut), sverr := Some (Some ReqErr)\<rparr>"
      have a: "aim_objects ?q = Inr ?q3" using f by (intro aim_objects_proper) (simp add: proper_def)
      obtain w3 q4 w4 where 3: "populate_env (envp r) (hvEnv q2) ?w = Inr w3" "FCGI_Bind ?q3 w3 = Inr (q4, w4)"
        "q' = q4\<lparr>is_accepted := True\<rparr>" "w' = w4"
        using assms(2) 1 2 False a \<open>\<exists>n. fc = Returns n \<and> n \<noteq> 0\<close> by (auto simp: perl_Accept_def Let_def elim!: rbind_InrE)
      show ?thesis
        using FCGI_Bind_requests [OF 3(2)] populate_env_requests [OF 3(1)] 3(3,4) f r False 1(2)
        by (simp add: proper_def)
    qed
  qed
qed

text \<open>The functions of the module, one by one, and the subroutines made of them.\<close>

definition keeps :: "(FCGP_Request \<Rightarrow> process \<Rightarrow> fault + 'a \<times> FCGP_Request \<times> process) \<Rightarrow> bool" where
  "keeps f \<longleftrightarrow> (\<forall>q w x q' w'. proper q \<longrightarrow> f q w = Inr (x, q', w') \<longrightarrow> proper q' \<and> requests w' = requests w)"

lemma keepsI:
  "(\<And>q w x q' w'. proper q \<Longrightarrow> f q w = Inr (x, q', w') \<Longrightarrow> proper q' \<and> requests w' = requests w) \<Longrightarrow> keeps f"
  by (simp add: keeps_def)

lemma with_requestE:
  assumes "with_request ptr f w = Inr (x, w')"
  obtains p q q1 w1 where "ptr = RequestAt p" "requests w p = Some q" "f q w = Inr (x, q1, w1)"
    "w' = w1\<lparr>requests := (requests w1)(p := Some q1)\<rparr>"
proof -
  obtain p where p: "ptr = RequestAt p" using assms by (cases ptr) (simp_all add: with_request_def)
  obtain q where q: "requests w p = Some q"
    using assms unfolding with_request_def p pointer.case by (cases "requests w p") simp_all
  have "rbind (f q w) (\<lambda>(x, q, w). Inr (x, w\<lparr>requests := (requests w)(p := Some q)\<rparr>)) = Inr (x, w')"
    using assms unfolding with_request_def p pointer.case q option.case .
  then obtain y where y: "f q w = Inr y" "(\<lambda>(x, q, w). Inr (x, w\<lparr>requests := (requests w)(p := Some q)\<rparr>)) y = (Inr (x, w') :: fault + _)"
    by (rule rbind_InrE)
  obtain x1 q1 w1 where yy: "y = (x1, q1, w1)" by (cases y)
  show ?thesis
    by (rule that [OF p q, of q1 w1]) (use y yy in \<open>simp_all only: prod.case sum.inject prod.inject\<close>)
qed

lemma with_request_ok:
  assumes "keeps f" "world_ok w" "with_request ptr f w = Inr (x, w')"
  shows "world_ok w'"
proof (rule with_requestE [OF assms(3)])
  fix p q q1 w1
  assume 1: "requests w p = Some q" "f q w = Inr (x, q1, w1)" "w' = w1\<lparr>requests := (requests w1)(p := Some q1)\<rparr>"
  have "proper q" using assms(2) 1(1) unfolding world_ok_def by blast
  then have "proper q1 \<and> requests w1 = requests w" using assms(1) 1(2) unfolding keeps_def by blast
  then show ?thesis using assms(2) unfolding world_ok_def 1(3) by simp
qed

lemma request_method_ok: "keeps f \<Longrightarrow> world_ok w \<Longrightarrow> request_method sub f cv st w = Inr (x, w') \<Longrightarrow> world_ok w'"
  by (auto simp: request_method_def split: if_splits sum.splits elim: with_request_ok)

lemma with_stream_ok:
  assumes c: "\<And>s r os y s' r' os'. f s r os = Inr (y, s', r', os') \<Longrightarrow> confined s r os s' r' os'"
    and w: "world_ok w" "with_stream ptr f w = Inr (x, w')"
  shows "world_ok w'"
proof -
  have k: "keeps (on_ref ref f)" for ref
  proof (rule keepsI)
    fix q w x q' w'
    assume "proper q" "on_ref ref f q w = Inr (x, q', w')"
    then show "proper q' \<and> requests w' = requests w" using on_ref_proper [of f q ref w x q' w'] c by blast
  qed
  obtain p ref where 1: "with_request (RequestAt p) (on_ref ref f) w = Inr (x, w')"
    using w(2) by (cases ptr) (simp_all add: with_stream_def)
  show ?thesis by (rule with_request_ok [OF k w(1) 1])
qed

definition confined_op :: "(strm \<Rightarrow> FCGX_Request \<Rightarrow> os_state \<Rightarrow> fault + 'a \<times> strm \<times> FCGX_Request \<times> os_state) \<Rightarrow> bool" where
  "confined_op f \<longleftrightarrow> (\<forall>s r os y s' r' os'. f s r os = Inr (y, s', r', os') \<longrightarrow> confined s r os s' r' os')"

lemma confined_op_stream: "confined_op f \<Longrightarrow> world_ok w \<Longrightarrow> with_stream ptr f w = Inr (x, w') \<Longrightarrow> world_ok w'"
  by (erule with_stream_ok [rotated, rotated]) (auto simp: confined_op_def)

lemma confined_ops:
  "confined_op (FCGX_GetChar FillBuffProc)" "confined_op (FCGX_GetStr FillBuffProc n)" "confined_op (FCGX_PutStr EmptyBuffProc bs)"
  by (auto simp: confined_op_def intro: records.GetChar_confined records.GetStr_confined framed_records.PutStr_confined)

lemma keeps_Accept: "keeps (\<lambda>q w. rbind (perl_Accept e q w) (\<lambda>(res, q, w). Inr (outcome_iv res, q, w)))"
  by (rule keepsI) (auto elim!: rbind_InrE dest: perl_Accept_proper)

lemma keeps_Finish: "keeps (\<lambda>q w. rbind (perl_Finish q w) (\<lambda>(q, w). Inr (v, q, w)))"
  by (rule keepsI) (auto elim!: rbind_InrE dest: perl_Finish_proper)

lemma FCGI_Flush_proper:
  assumes "proper q" "FCGI_Flush q w = Inr (q', w')"
  shows "proper q' \<and> requests w' = requests w"
proof (cases "bound q")
  case False
  then show ?thesis using assms by (auto simp: FCGI_Flush_def)
next
  case True
  then obtain ref ref2 x y q1 w1 where 1: "on_ref ref (FCGX_FFlush EmptyBuffProc) q w = Inr (x, q1, w1)"
    "on_ref ref2 (FCGX_FFlush EmptyBuffProc) q1 w1 = Inr (y, q', w')"
    using assms(2) by (auto simp: FCGI_Flush_def elim!: rbind_InrE)
  have "proper q1" "requests w1 = requests w"
    using on_ref_proper [OF framed_records.FFlush_confined assms(1) 1(1)] by auto
  then show ?thesis using on_ref_proper [OF framed_records.FFlush_confined _ 1(2)] by simp
qed

lemma keeps_Flush: "keeps (\<lambda>q w. rbind (FCGI_Flush q w) (\<lambda>(q, w). Inr (v, q, w)))"
  by (rule keepsI) (auto elim!: rbind_InrE dest: FCGI_Flush_proper)

lemma keeps_StartFilterData: "keeps (\<lambda>q w. rbind (perl_StartFilterData q w) (\<lambda>(rc, q, w). Inr (Gives [IV rc], q, w)))"
proof (rule keepsI)
  have s: "isReader s' = isReader s" if "FCGX_StartFilterData s r = Inr (rc, s')" for s s' rc and r :: FCGX_Request
    using that by (auto simp: FCGX_StartFilterData_def SetReaderType_isReader split: if_splits elim!: rbind_InrE)
  fix q w x q' w'
  assume "proper q" "rbind (perl_StartFilterData q w) (\<lambda>(rc, q, w). Inr (Gives [IV rc], q, w)) = Inr (x, q', w')"
  then show "proper q' \<and> requests w' = requests w"
    by (auto simp: perl_StartFilterData_def proper_def typed_streams_def no_streams_def dest!: s split: option.splits if_splits
        elim!: rbind_InrE)
qed

lemma keeps_Detach:
  "keeps (\<lambda>q w. rbind (if is_accepted q \<and> bound q then FCGI_UndoBinding q w else Inr (q, w)) (\<lambda>(q, w). Inr (v, q, w)))"
  by (rule keepsI) (auto simp: proper_def split: if_splits elim!: rbind_InrE dest!: FCGI_UndoBinding_requests)

lemma keeps_Attach:
  "keeps (\<lambda>q w. rbind (if is_accepted q \<and> \<not> bound q then FCGI_Bind q w else Inr (q, w)) (\<lambda>(q, w). Inr (v, q, w)))"
  by (rule keepsI) (auto simp: proper_def split: if_splits elim!: rbind_InrE dest!: FCGI_Bind_requests)

lemma ref_counts [simp]:
  "requests (inc_gv g w) = requests w" "requests (inc_hv g w) = requests w" "requests (dec_gv g w) = requests w"
  "requests (dec_hv g w) = requests w"
  by (simp_all add: inc_gv_def inc_hv_def dec_gv_def dec_hv_def)

lemma push_handles_requests: "push_handles q is w = Inr (vs, w') \<Longrightarrow> requests w' = requests w"
  by (induction "is" arbitrary: w vs) (auto elim!: rbind_InrE)

lemma print_all_confined: "print_all svs s r os = Inr (x, s', r', os') \<Longrightarrow> confined s r os s' r' os'"
proof (induction svs arbitrary: s r os)
  case (Cons sv svs)
  then show ?case by (auto elim!: rbind_InrE dest!: framed_records.PutStr_confined intro: confined_trans)
qed (simp add: confined_local)

lemma world_ok_cong: "requests w' = requests w \<Longrightarrow> world_ok w' = world_ok w"
  by (simp add: world_ok_def)

lemma XS_methods_ok:
  assumes "world_ok w"
  shows "XS_FCGI_Accept h cv st w = Inr (x, w') \<Longrightarrow> world_ok w'" "XS_FCGI_Finish h cv st w = Inr (x, w') \<Longrightarrow> world_ok w'"
    "XS_FCGI_Flush h cv st w = Inr (x, w') \<Longrightarrow> world_ok w'" "XS_FCGI_StartFilterData h cv st w = Inr (x, w') \<Longrightarrow> world_ok w'"
    "XS_FCGI_Detach h cv st w = Inr (x, w') \<Longrightarrow> world_ok w'" "XS_FCGI_Attach h cv st w = Inr (x, w') \<Longrightarrow> world_ok w'"
  unfolding XS_FCGI_Accept_def XS_FCGI_Finish_def XS_FCGI_Flush_def XS_FCGI_StartFilterData_def XS_FCGI_Detach_def
    XS_FCGI_Attach_def
  by (erule request_method_ok [OF _ assms, rotated],
      rule keeps_Accept keeps_Finish keeps_Flush keeps_StartFilterData keeps_Detach keeps_Attach)+

lemma XS_queries_ok:
  assumes "world_ok w"
  shows "XS_FCGI_GetEnvironment h cv st w = Inr (x, w') \<Longrightarrow> world_ok w'" "XS_FCGI_GetHandles h cv st w = Inr (x, w') \<Longrightarrow> world_ok w'"
    "XS_FCGI_IsFastCGI h cv st w = Inr (x, w') \<Longrightarrow> world_ok w'" "XS_FCGI_LastCall h cv st w = Inr (x, w') \<Longrightarrow> world_ok w'"
  unfolding XS_FCGI_GetEnvironment_def XS_FCGI_GetHandles_def XS_FCGI_IsFastCGI_def XS_FCGI_LastCall_def
  by (erule request_method_ok [OF _ assms, rotated], rule keepsI,
      auto split: if_splits prod.splits elim!: rbind_InrE dest!: push_handles_requests IsFastCGI_requests)+

lemma XS_RequestX_ok:
  assumes "world_ok w" "XS_FCGI_RequestX h cv st w = Inr (x, w')"
  shows "world_ok w'"
proof -
  have p: "proper (fst (FCGI_Request a b c d s f w))" "requests (snd (FCGI_Request a b c d s f w)) = requests w" for a b c d s f
    by (simp_all add: FCGI_Request_def FCGX_InitRequest_def zero_request_def proper_def no_streams_def)
  have "requests w' = requests w \<or> (\<exists>n a b c d s f. requests w' = (requests w)(n := Some (fst (FCGI_Request a b c d s f w))))"
    using assms(2) p(2)
    by (auto simp: XS_FCGI_RequestX_def Let_def case_prod_beta split: if_splits option.splits) metis
  then show ?thesis using assms(1) p(1) by (auto simp: world_ok_def split: if_splits)
qed

lemma XS_sockets_ok:
  assumes "world_ok w"
  shows "XS_FCGI_OpenSocket h cv st w = Inr (x, w') \<Longrightarrow> world_ok w'" "XS_FCGI_CloseSocket h cv st w = Inr (x, w') \<Longrightarrow> world_ok w'"
  using assms by (auto simp: XS_FCGI_OpenSocket_def XS_FCGI_CloseSocket_def world_ok_def split: if_splits prod.splits elim!: rbind_InrE)

lemma XS_DESTROY_ok:
  assumes "world_ok w" "XS_FCGI_DESTROY h cv st w = Inr (x, w')"
  shows "world_ok w'"
proof -
  have f: "requests v' = requests v" if "FCGI_Release_Request q v = Inr v'" "proper q" for q v v'
    using that perl_Finish_proper by (auto simp: FCGI_Release_Request_def elim!: rbind_InrE)
  show ?thesis
    using assms f
    by (auto simp: XS_FCGI_DESTROY_def world_ok_def split: if_splits pointer.splits option.splits elim!: rbind_InrE)
qed

lemma XS_PRINT_ok:
  assumes w: "world_ok w" and x: "XS_FCGI_Stream_PRINT h cv st w = Inr (x, w')"
  shows "world_ok w'"
proof -
  let ?f = "\<lambda>s r os. rbind (print_all (tl st) s r os) (\<lambda>(_, s, r, os).
      if flushing h then rbind (FCGX_FFlush EmptyBuffProc s r os) (\<lambda>(_, s, r, os). Inr ((), s, r, os)) else Inr ((), s, r, os))"
  have f: "confined_op ?f"
    unfolding confined_op_def by (auto split: if_splits elim!: rbind_InrE dest!: print_all_confined framed_records.FFlush_confined
        intro: confined_trans)
  have "w' = w \<or> (\<exists>ptr y. with_stream ptr ?f w = Inr (y, w'))"
    using x unfolding XS_FCGI_Stream_PRINT_def by (auto split: if_splits sum.splits elim!: rbind_InrE)
  then show ?thesis using w confined_op_stream [OF f w] by blast
qed

lemma XS_CLOSE_ok:
  assumes w: "world_ok w" and x: "XS_FCGI_Stream_CLOSE h cv st w = Inr (x, w')"
  shows "world_ok w'"
proof -
  let ?f = "\<lambda>s r os. rbind (FCGX_FClose EmptyBuffProc (Some s) r os) (\<lambda>(rc, so, r, os).
      case so of None \<Rightarrow> Inl NullDeref | Some s \<Rightarrow> Inr (rc, s, r, os))"
  have f: "confined_op ?f"
    unfolding confined_op_def by (auto split: option.splits elim!: rbind_InrE framed_records.FClose_confined)
  have "w' = w \<or> (\<exists>ptr y. with_stream ptr ?f w = Inr (y, w'))"
    using x unfolding XS_FCGI_Stream_CLOSE_def by (auto split: if_splits sum.splits elim!: rbind_InrE)
  then show ?thesis using w confined_op_stream [OF f w] by blast
qed

lemma XS_Stream_ok:
  assumes w: "world_ok w"
  shows "XS_FCGI_Stream_GETC h cv st w = Inr (x, w') \<Longrightarrow> world_ok w'" "XS_FCGI_Stream_WRITE h cv st w = Inr (x, w') \<Longrightarrow> world_ok w'"
    "XS_FCGI_Stream_READ h cv st w = Inr (x, w') \<Longrightarrow> world_ok w'"
proof -
  assume "XS_FCGI_Stream_GETC h cv st w = Inr (x, w')"
  then have "w' = w \<or> (\<exists>ptr y. with_stream ptr (FCGX_GetChar FillBuffProc) w = Inr (y, w'))"
    unfolding XS_FCGI_Stream_GETC_def by (auto split: if_splits sum.splits elim!: rbind_InrE)
  then show "world_ok w'" using w confined_op_stream [OF confined_ops(1) w] by blast
next
  assume "XS_FCGI_Stream_WRITE h cv st w = Inr (x, w')"
  then have "w' = w \<or> (\<exists>ptr bs y. with_stream ptr (FCGX_PutStr EmptyBuffProc bs) w = Inr (y, w'))"
    unfolding XS_FCGI_Stream_WRITE_def Let_def by (auto split: if_splits sum.splits option.splits elim!: rbind_InrE)
  then show "world_ok w'" using w confined_op_stream [OF confined_ops(3) w] by blast
next
  assume "XS_FCGI_Stream_READ h cv st w = Inr (x, w')"
  then have "w' = w \<or> (\<exists>ptr n y. with_stream ptr (FCGX_GetStr FillBuffProc n) w = Inr (y, w'))"
    unfolding XS_FCGI_Stream_READ_def Let_def by (auto split: if_splits sum.splits option.splits elim!: rbind_InrE)
  then show "world_ok w'" using w confined_op_stream [OF confined_ops(2) w] by blast
qed

section \<open>Scripts\<close>

text \<open>A step of a process that has loaded the module: a call of one of its subroutines, with any arguments and in any
  environment, that returns; or anything the script does to its own globs and hashes, and anything the
  peers, the kernel and signals do to the connections and to the library's flags.\<close>

inductive perl_step :: "process \<Rightarrow> process \<Rightarrow> bool" where
  call: "call_sub fcgi_subs name h cv st w = Some (Inr (res, w')) \<Longrightarrow> perl_step w w'"
| script: "perl_step w (w\<lparr>interp := i\<rparr>)"
| outside: "perl_step w (w\<lparr>p_os := os, p_lib := l\<rparr>)"

inductive perl_reaches :: "process \<Rightarrow> process \<Rightarrow> bool" for w0 where
  boot: "perl_reaches w0 (snd (boot_FCGI e w0))"
| step: "perl_reaches w0 w \<Longrightarrow> perl_step w w' \<Longrightarrow> perl_reaches w0 w'"

inductive_cases perl_stepE: "perl_step w w'"

lemmas XS_ok = XS_methods_ok XS_queries_ok XS_RequestX_ok XS_sockets_ok XS_DESTROY_ok XS_PRINT_ok XS_CLOSE_ok XS_Stream_ok

lemma call_sub_ok:
  assumes "world_ok w" "call_sub fcgi_subs name h cv st w = Some (Inr (res, w'))"
  shows "world_ok w'"
proof -
  obtain proto f where f: "map_of fcgi_subs name = Some (proto, f)" "f h cv st w = Inr (res, w')"
    using assms(2) by (auto simp: call_sub_def)
  have "f \<in> snd ` snd ` set fcgi_subs" using map_of_SomeD [OF f(1)] by force
  then show ?thesis
    using f(2) unfolding fcgi_subs_def list.set image_insert image_empty snd_conv insert_iff empty_iff
    by (elim disjE FalseE; hypsubst; elim XS_ok [OF assms(1)])
qed

lemma perl_step_ok: "perl_step w w' \<Longrightarrow> world_ok w \<Longrightarrow> world_ok w'"
  by (erule perl_stepE) (auto simp: world_ok_def dest: call_sub_ok [unfolded world_ok_def])

lemma perl_reaches_ok:
  assumes "perl_reaches w0 w" "world_ok w0"
  shows "world_ok w"
  using assms
proof (induction rule: perl_reaches.induct)
  case (boot e)
  then show ?case by (simp add: boot_FCGI_def FCGI_Init_def world_ok_def split: prod.splits)
next
  case (step w w')
  then show ?case using perl_step_ok by blast
qed

end
