(* ===== verification/PerlServe.thy ===== *)
theory PerlServe
  imports PerlSpec
begin

text \<open>
  A Perl script that accepts, prints and finishes, from its request object to what the web server finds.
\<close>

section \<open>Accepting\<close>

text \<open>A request object of a FastCGI program between requests, its handles distinct, alive and not tied.\<close>

definition perl_idle :: "FCGP_Request \<Rightarrow> process \<Rightarrow> bool" where
  "perl_idle q w \<longleftrightarrow>
     proper q \<and> \<not> is_accepted q \<and> ipcFd (requestPtr q) = - 1 \<and> handles_live q w \<and> distinct (gv q) \<and>
     0 < hv_refcnt (interp w) (hvEnv q) \<and> tied_to q w [None, None, None] \<and>
     libInitialized (p_glob w) \<and> \<not> shutdownPending (p_lib w) \<and> \<not> asyncIoInUse (p_lib w) \<and>
     (listen_sock (requestPtr q) \<noteq> FCGI_LISTENSOCK_FILENO \<or> static_isCGI w = 0)"

text \<open>One with a request in progress: \<open>accepted\<close> is about the request, the rest about the interpreter.\<close>

definition perl_bound :: "FCGP_Request \<Rightarrow> process \<Rightarrow> bool" where
  "perl_bound q w \<longleftrightarrow>
     proper q \<and> is_accepted q \<and> bound q \<and> handles_live q w \<and> distinct (gv q) \<and> 0 < hv_refcnt (interp w) (hvEnv q) \<and> io_open q w \<and>
     tied_to q w [Some (Some ReqIn), Some (Some ReqOut), Some (Some ReqErr)] \<and>
     libInitialized (p_glob w) \<and> \<not> shutdownPending (p_lib w) \<and> \<not> asyncIoInUse (p_lib w) \<and>
     (listen_sock (requestPtr q) \<noteq> FCGI_LISTENSOCK_FILENO \<or> static_isCGI w = 0)"

definition perl_env :: "byte list \<Rightarrow> (byte list \<times> byte list) list \<Rightarrow> (byte list \<rightharpoonup> byte list)" where
  "perl_env body kvs = map_of (rev (map (\<lambda>(n, v). (n, cstr v)) ((chars ''FCGI_ROLE'', role_name (body_role body)) # kvs)))"

lemma populate_begun:
  assumes "env_vector body kvs r" "\<forall>(n, v) \<in> set kvs. 0x3D \<notin> set n \<and> 0 \<notin> set n" "0 < hv_refcnt (interp w) hv"
  obtains w' where "populate_env (envp r) hv w = Inr w'" "only_perl w w'" "hash_of hv w' = perl_env body kvs"
    "\<forall>g. tied g w' = tied g w" "GvIOp (interp w') = GvIOp (interp w)"
proof -
  let ?xs = "(chars ''FCGI_ROLE'', role_name (body_role body)) # kvs"
  let ?w = "perl_does (Hv_clear hv # map (\<lambda>x. Hv_store hv (hash_key x) (hash_value x)) ?xs) w"
  obtain rest where env: "envp r = Some (map (Some \<circ> entry) ?xs @ None # rest)" using assms(1) by (auto simp: env_vector_def)
  have ok: "\<forall>(n, v) \<in> set ?xs. 0x3D \<notin> set n \<and> 0 \<notin> set n" using assms(2) role_name_ok by auto
  then have c: "\<forall>x \<in> set ?xs. 0x3D \<in> set (cstr (entry x))" using hash_name_ok by fastforce
  have p: "populate_env (envp r) hv w = Inr ?w"
    using assms(3) unfolding env populate_env_def option.case populate_entries if_P [OF c] by simp
  have "map (\<lambda>x. (hash_key x, hash_value x)) ?xs = map (\<lambda>(n, v). (n, cstr v)) ?xs"
    using ok hash_name_ok by (intro map_cong) auto
  then have "map_of (rev (map (\<lambda>x. (hash_key x, hash_value x)) ?xs)) = perl_env body kvs"
    unfolding perl_env_def by (rule arg_cong)
  then have h: "hash_of hv ?w = perl_env body kvs"
    unfolding hash_of_does foldl.simps hash_step.simps hash_stores by simp
  have t: "tied g ?w = tied g w" for g unfolding tied_does foldl.simps tie_step.simps ties_stores ..
  show ?thesis by (rule that [OF p _ h]) (simp_all only: only_perl_does only_perl_refl t perl_does_simps simp_thms)
qed

lemma perl_IsFastCGI:
  "listen_sock (requestPtr q) \<noteq> FCGI_LISTENSOCK_FILENO \<or> static_isCGI w = 0 \<Longrightarrow> FCGI_IsFastCGI e q w = (Returns 1, w)"
  by (auto simp: FCGI_IsFastCGI_def)

lemma perl_accept_ok:
  assumes idle: "perl_idle q w" and q: "accepts (p_lib w) = pre @ ev # post"
    and v: "\<forall>x \<in> set pre. calm x \<and> (\<forall>c. verdict_of (inet_addr e) (flags (requestPtr q) AND 1 \<noteq> 0)
        (webServerAddressList (p_glob w)) x \<noteq> Result c)" "calm ev"
      "verdict_of (inet_addr e) (flags (requestPtr q) AND 1 \<noteq> 0) (webServerAddressList (p_glob w)) ev = Result fd" "0 \<le> fd"
    and b: "begins i body kvs rs X fd (p_os w)"
  obtains q' w' where "perl_Accept e q w = Inr (Returns 0, q', w')" "perl_bound q' w'"
    "accepted e i body kvs X (requestPtr q') (p_os w')" "ipcFd (requestPtr q') = fd" "writes_ok fd (p_os w')"
    "appStatus (requestPtr q') = appStatus (requestPtr q)"
    "sent (conns (p_os w') fd) = sent (conns (p_os w) fd) @ answers FCGI_PARAMS i False rs"
    "descriptors (p_lib w') fd = Live" "accepts (p_lib w') = post" "gv q' = gv q" "hvEnv q' = hvEnv q"
    "hash_of (hvEnv q) w' = perl_env body kvs" "requests w' = requests w" "webServerAddressList (p_glob w') = webServerAddressList (p_glob w)"
    "gv_refcnt (interp w') = gv_refcnt (interp w)" "hv_refcnt (interp w') = hv_refcnt (interp w)"
proof -
  note i = idle [unfolded perl_idle_def]
  have n: "inS (requestPtr q) = None" using i by (auto simp: proper_def no_streams_def split: if_splits)
  have sd: "libInitialized (p_glob w)" "ipcFd (requestPtr q) = - 1" "\<not> shutdownPending (p_lib w)" using i by simp_all
  obtain r' ds os' l' where 1: "FCGX_Accept_r e (p_glob w) (requestPtr q) (p_lib w) (p_os w) = Inr (0, r', l', os')"
    "l' = (p_lib w)\<lparr>accepts := post, descriptors := ds, closed := closed (p_lib w) @ refused (map (verdict_of (inet_addr e)
        (flags (requestPtr q) AND 1 \<noteq> 0) (webServerAddressList (p_glob w))) pre)\<rparr>"
    "ds fd = Live" "accepted e i body kvs X r' os'" "ipcFd r' = fd" "appStatus r' = appStatus (requestPtr q)" "writes_ok fd os'"
    "sent (conns os' fd) = sent (conns (p_os w) fd) @ answers FCGI_PARAMS i False rs"
    "on_own_conn ((requestPtr q)\<lparr>ipcFd := fd\<rparr>) (p_os w) r' os'" "env_vector body kvs r'"
    using Accept_r_ok [OF sd(1) n sd(2) q sd(3) v b] by blast
  have fin: "perl_Finish q w = Inr (q, w)" using i by (simp add: perl_Finish_def)
  let ?q = "q\<lparr>requestPtr := r'\<rparr>" and ?w = "w\<lparr>p_lib := l', p_os := os'\<rparr>"
  have hv: "0 < hv_refcnt (interp ?w) (hvEnv q)" using i by simp
  have kv: "\<forall>(n, v) \<in> set kvs. 0x3D \<notin> set n \<and> 0 \<notin> set n" using b by (auto simp: begins_def)
  obtain w1 where 2: "populate_env (envp r') (hvEnv q) ?w = Inr w1" "only_perl ?w w1" "hash_of (hvEnv q) w1 = perl_env body kvs"
    "\<forall>g. tied g w1 = tied g ?w" by (rule populate_begun [OF 1(10) kv hv])
  let ?q1 = "?q\<lparr>svin := Some (Some ReqIn), svout := Some (Some ReqOut), sverr := Some (Some ReqErr)\<rparr>"
  have ai: "aim_objects ?q = Inr ?q1" using i by (intro aim_objects_proper) (simp add: proper_def)
  have lv: "handles_live ?q1 w1" "distinct (gv ?q1)" "tied_to ?q1 w1 [None, None, None]"
    using i 2(2,4) by (simp_all add: handles_live_def only_perl_def tied_to_def) (simp_all add: tied_def)
  obtain w2 where 3: "FCGI_Bind ?q1 w1 = Inr (?q1\<lparr>bound := True\<rparr>, w2)" "only_perl w1 w2" "io_open ?q1 w2"
    "tied_to ?q1 w2 [svin ?q1, svout ?q1, sverr ?q1]" "hash_of (hvEnv q) w2 = hash_of (hvEnv q) w1"
    by (rule FCGI_Bind_ok [OF lv])
  let ?q2 = "?q1\<lparr>bound := True, is_accepted := True\<rparr>"
  have acc: "perl_Accept e q w = Inr (Returns 0, ?q2, w2)"
    using i fin 1(1) 2(1) ai 3(1) by (simp add: perl_Accept_def perl_IsFastCGI Let_def)
  have o: "only_perl ?w w2" using only_perl_trans [OF 2(2) 3(2)] .
  have pr: "proper ?q2" using perl_Accept_proper [OF _ acc] i by blast
  have "perl_bound ?q2 w2"
    using pr i o 3(3,4) 1(2,9) by (auto simp: perl_bound_def only_perl_def handles_live_def tied_to_def io_open_def on_own_conn_def)
  then show ?thesis
    using o 1 2(3) 3(5) by (intro that [OF acc]) (simp_all add: only_perl_def)
qed

section \<open>Printing\<close>

definition request_arg :: "nat \<Rightarrow> SV \<Rightarrow> bool" where
  "request_arg p sv \<longleftrightarrow> SvROK sv \<and> sv_derived_from sv ''FCGI'' \<and> rv_ptr sv = RequestAt p"

definition output_arg :: "nat \<Rightarrow> SV \<Rightarrow> bool" where
  "output_arg p sv \<longleftrightarrow> SvROK sv \<and> sv_derived_from sv ''FCGI::Stream'' \<and> rv_ptr sv \<in> {StreamOf p ReqOut, StreamOf p ReqErr}"

text \<open>What \<^verbatim>\<open>print\<close> on a tied handle calls, for each print of a script: the object of the handle and what is printed.\<close>

fun perl_prints :: "perl_host \<Rightarrow> CV \<Rightarrow> (SV \<times> SV list) list \<Rightarrow> process \<Rightarrow> fault + process" where
  "perl_prints h cv [] w = Inr w"
| "perl_prints h cv ((ob, svs) # xs) w = rbind (XS_FCGI_Stream_PRINT h cv (ob # svs) w) (\<lambda>(_, w). perl_prints h cv xs w)"

definition script_output :: "pointer \<Rightarrow> (SV \<times> SV list) list \<Rightarrow> byte list" where
  "script_output ptr xs = concat (map (\<lambda>(ob, svs). if rv_ptr ob = ptr then concat (map SvPV svs) else []) xs)"

lemma print_all_emits: "emits_as (print_all svs) () (concat (map SvPV svs))"
proof (induction svs)
  case Nil
  have "print_all [] = (\<lambda>s r os. Inr ((), s, r, os))" by (intro ext) simp
  then show ?case using emits_as_none [of "()"] by simp
next
  case (Cons sv svs)
  have "print_all (sv # svs) = (\<lambda>s r os. rbind (FCGX_PutStr EmptyBuffProc (SvPV sv) s r os) (\<lambda>(_, s, r, os). print_all svs s r os))"
    by (intro ext) simp
  then show ?case using emits_as_seq [OF emits_as_writer(2) Cons.IH, of "SvPV sv"] by simp
qed

lemma print_emits:
  "emits_as (\<lambda>s r os. rbind (print_all svs s r os) (\<lambda>(_, s, r, os).
      if fl then rbind (FCGX_FFlush EmptyBuffProc s r os) (\<lambda>(_, s, r, os). Inr ((), s, r, os)) else Inr ((), s, r, os)))
    () (concat (map SvPV svs))"
proof (cases fl)
  case True
  let ?g = "\<lambda>s r os. rbind (FCGX_FFlush EmptyBuffProc s r os) (\<lambda>(_, s, r, os). Inr ((), s, r, os))"
  have "emits_as ?g () []" using emits_as_map [OF emits_as_writer(4), where g = "\<lambda>_. ()"] by simp
  then show ?thesis using emits_as_seq [where g = "\<lambda>_. ?g", OF print_all_emits] True by fastforce
next
  case False
  show ?thesis
    using emits_as_seq [where g = "\<lambda>_ s r os. Inr ((), s, r, os)", OF print_all_emits emits_as_none, of svs] False by simp
qed

text \<open>A request in progress whose script has printed \<open>d1\<close> and \<open>d2\<close>.\<close>

definition perl_serving ::
  "nat \<Rightarrow> FCGX_Request \<Rightarrow> os_state \<Rightarrow> byte list \<Rightarrow> byte list \<Rightarrow> FCGP_Request \<Rightarrow> process \<Rightarrow> bool" where
  "perl_serving p r os0 d1 d2 q w \<longleftrightarrow>
     requests w p = Some q \<and> perl_bound q w \<and>
     (\<exists>out err rs. requestPtr q = r\<lparr>outS := Some out, errS := Some err\<rparr> \<and> session r os0 out err (p_os w) rs d1 d2 \<and>
        writes_ok (ipcFd r) (p_os w))"

lemma perl_bound_output:
  assumes "perl_bound q w" "requestPtr q = r\<lparr>outS := Some a, errS := Some b\<rparr>" "isReader out = isReader a" "isReader err = isReader b"
  shows "perl_bound (q\<lparr>requestPtr := r\<lparr>outS := Some out, errS := Some err\<rparr>\<rparr>) (w\<lparr>p_os := os, requests := rq\<rparr>)"
  using assms
  by (auto simp: perl_bound_def proper_def typed_streams_def handles_live_def tied_to_def tied_def io_open_def)

lemma emitted_isReader: "emitted emits bs s r os s' os' \<Longrightarrow> isReader s' = isReader s"
  by (simp add: emitted_def same_writer_def)

lemma with_stream_emits:
  assumes a: "perl_serving p r os0 d1 d2 q w" and f: "emits_as f x bs"
  shows "\<exists>q' w'. with_stream (StreamOf p ReqOut) f w = Inr (x, w') \<and> perl_serving p r os0 (d1 @ bs) d2 q' w' \<and>
      q' = q\<lparr>requestPtr := requestPtr q'\<rparr> \<and> w' = w\<lparr>p_os := p_os w', requests := requests w'\<rparr>"
    "\<exists>q' w'. with_stream (StreamOf p ReqErr) f w = Inr (x, w') \<and> perl_serving p r os0 d1 (d2 @ bs) q' w' \<and>
      q' = q\<lparr>requestPtr := requestPtr q'\<rparr> \<and> w' = w\<lparr>p_os := p_os w', requests := requests w'\<rparr>"
proof -
  obtain out err rs where r: "requestPtr q = r\<lparr>outS := Some out, errS := Some err\<rparr>" "requests w p = Some q" "perl_bound q w"
    "session r os0 out err (p_os w) rs d1 d2" "writes_ok (ipcFd r) (p_os w)"
    using a by (auto simp: perl_serving_def)
  let ?r = "r\<lparr>outS := Some out, errS := Some err\<rparr>"
  have ses: "session ?r os0 out err (p_os w) rs d1 d2" "writes_ok (ipcFd ?r) (p_os w)" using r by (simp_all add: session_cong)
  have o: "open_writer 6 out" "open_writer 7 err" using r(4) by (simp_all add: session_def)
  obtain s1 os1 where 1: "f out ?r (p_os w) = Inr (x, s1, ?r, os1)" "emitted emits_framed bs out ?r (p_os w) s1 os1"
    using f o(1) ses(2) unfolding emits_as_def by blast
  obtain rs1 where 2: "session ?r os0 s1 err os1 rs1 (d1 @ bs) d2" "writes_ok (ipcFd ?r) os1"
    by (rule session_emit_out [OF ses(1) 1(2) ses(2)])
  let ?q1 = "q\<lparr>requestPtr := r\<lparr>outS := Some s1, errS := Some err\<rparr>\<rparr>"
  let ?w1 = "w\<lparr>p_os := os1, requests := (requests w)(p := Some ?q1)\<rparr>"
  have "with_stream (StreamOf p ReqOut) f w = Inr (x, ?w1)"
    using r(1,2) 1(1) by (simp add: with_stream_def with_request_def on_ref_def del: put_stream.simps)
  moreover have "perl_serving p r os0 (d1 @ bs) d2 ?q1 ?w1"
    using 2 perl_bound_output [OF r(3,1) emitted_isReader [OF 1(2)] refl]
    by (simp add: perl_serving_def session_cong) (intro exI conjI; (rule refl | assumption))
  ultimately show "\<exists>q' w'. with_stream (StreamOf p ReqOut) f w = Inr (x, w') \<and> perl_serving p r os0 (d1 @ bs) d2 q' w' \<and>
      q' = q\<lparr>requestPtr := requestPtr q'\<rparr> \<and> w' = w\<lparr>p_os := p_os w', requests := requests w'\<rparr>"
    by (intro exI [of _ ?q1] exI [of _ ?w1]) simp
  obtain s2 os2 where 3: "f err ?r (p_os w) = Inr (x, s2, ?r, os2)" "emitted emits_framed bs err ?r (p_os w) s2 os2"
    using f o(2) ses(2) unfolding emits_as_def by blast
  obtain rs2 where 4: "session ?r os0 out s2 os2 rs2 d1 (d2 @ bs)" "writes_ok (ipcFd ?r) os2"
    by (rule session_emit_err [OF ses(1) 3(2) ses(2)])
  let ?q2 = "q\<lparr>requestPtr := r\<lparr>outS := Some out, errS := Some s2\<rparr>\<rparr>"
  let ?w2 = "w\<lparr>p_os := os2, requests := (requests w)(p := Some ?q2)\<rparr>"
  have "with_stream (StreamOf p ReqErr) f w = Inr (x, ?w2)"
    using r(1,2) 3(1) by (simp add: with_stream_def with_request_def on_ref_def del: put_stream.simps)
  moreover have "perl_serving p r os0 d1 (d2 @ bs) ?q2 ?w2"
    using 4 perl_bound_output [OF r(3,1) refl emitted_isReader [OF 3(2)]]
    by (simp add: perl_serving_def session_cong) (intro exI conjI; (rule refl | assumption))
  ultimately show "\<exists>q' w'. with_stream (StreamOf p ReqErr) f w = Inr (x, w') \<and> perl_serving p r os0 d1 (d2 @ bs) q' w' \<and>
      q' = q\<lparr>requestPtr := requestPtr q'\<rparr> \<and> w' = w\<lparr>p_os := p_os w', requests := requests w'\<rparr>"
    by (intro exI [of _ ?q2] exI [of _ ?w2]) simp
qed

lemma perl_prints_ok:
  assumes "perl_serving p r os0 d1 d2 q w" "\<forall>(ob, svs) \<in> set xs. output_arg p ob"
  shows "\<exists>q' w'. perl_prints h cv xs w = Inr w' \<and>
    perl_serving p r os0 (d1 @ script_output (StreamOf p ReqOut) xs) (d2 @ script_output (StreamOf p ReqErr) xs) q' w' \<and>
    q' = q\<lparr>requestPtr := requestPtr q'\<rparr> \<and> w' = w\<lparr>p_os := p_os w', requests := requests w'\<rparr>"
  using assms
proof (induction xs arbitrary: q w d1 d2)
  case Nil
  then show ?case by (intro exI [of _ q]) (simp add: script_output_def)
next
  case (Cons x xs)
  obtain ob svs where x: "x = (ob, svs)" by (cases x)
  let ?bs = "concat (map SvPV svs)"
  let ?o = "if rv_ptr ob = StreamOf p ReqOut then ?bs else []" and ?e = "if rv_ptr ob = StreamOf p ReqErr then ?bs else []"
  have ob: "SvROK ob" "sv_derived_from ob ''FCGI::Stream''" "rv_ptr ob \<in> {StreamOf p ReqOut, StreamOf p ReqErr}"
    using Cons.prems(2) x by (simp_all add: output_arg_def)
  obtain q1 w1 where 1: "XS_FCGI_Stream_PRINT h cv (ob # svs) w = Inr (Gives [], w1)"
    "perl_serving p r os0 (d1 @ ?o) (d2 @ ?e) q1 w1" "q1 = q\<lparr>requestPtr := requestPtr q1\<rparr>"
    "w1 = w\<lparr>p_os := p_os w1, requests := requests w1\<rparr>"
  proof -
    let ?f = "\<lambda>s r os. rbind (print_all svs s r os) (\<lambda>(_, s, r, os).
      if flushing h then rbind (FCGX_FFlush EmptyBuffProc s r os) (\<lambda>(_, s, r, os). Inr ((), s, r, os)) else Inr ((), s, r, os))"
    obtain q1 w1 where "with_stream (rv_ptr ob) ?f w = Inr ((), w1)"
      "perl_serving p r os0 (d1 @ ?o) (d2 @ ?e) q1 w1" "q1 = q\<lparr>requestPtr := requestPtr q1\<rparr>"
      "w1 = w\<lparr>p_os := p_os w1, requests := requests w1\<rparr>"
      using with_stream_emits [OF Cons.prems(1) print_emits, of svs "flushing h"] ob(3) by auto
    then show ?thesis
      using ob(1,2) Cons.prems(1) that [of w q] that [of w1 q1]
      by (cases "svs = [] \<and> \<not> flushing h") (simp_all add: XS_FCGI_Stream_PRINT_def object_arg_def)
  qed
  obtain q' w' where 2: "perl_prints h cv xs w1 = Inr w'"
    "perl_serving p r os0 ((d1 @ ?o) @ script_output (StreamOf p ReqOut) xs) ((d2 @ ?e) @ script_output (StreamOf p ReqErr) xs) q' w'"
    "q' = q1\<lparr>requestPtr := requestPtr q'\<rparr>" "w' = w1\<lparr>p_os := p_os w', requests := requests w'\<rparr>"
    using Cons.IH [OF 1(2)] Cons.prems(2) by auto
  have "q' = q\<lparr>requestPtr := requestPtr q'\<rparr>" using 2(3) 1(3) by (metis FCGP_Request.surjective FCGP_Request.update_convs(8))
  moreover have "w' = w\<lparr>p_os := p_os w', requests := requests w'\<rparr>"
    using 2(4) 1(4) by (metis process.surjective process.update_convs(3,6))
  ultimately show ?case
    using 1(1) 2(1,2) x by (intro exI [of _ q'] exI [of _ w']) (simp add: script_output_def)
qed

section \<open>Finishing\<close>

lemma perl_Finish_serving:
  assumes s: "perl_serving p r os0 d1 d2 q w" and r: "inS r = Some i" "FCGX_GetError i = 0" "nWriters r = 2"
    "0 \<le> requestId r" "requestId r < 2 ^ 16" and l: "0 \<le> ipcFd r" "descriptors (p_lib w) (ipcFd r) = Live"
  obtains q' w' wire recs where "perl_Finish q w = Inr (q', w')" "sent (conns (p_os w') (ipcFd r)) = sent (conns os0 (ipcFd r)) @ wire"
    "parse_records wire = Some recs" "peer_finds r d1 d2 recs" "gv q' = gv q" "hvEnv q' = hvEnv q" "tied_to q w' [None, None, None]"
    "hash_of (hvEnv q) w' = hash_of (hvEnv q) w" "accepts (p_lib w') = accepts (p_lib w)"
    "if keepConnection r = 0 then perl_idle q' w' else ipcFd (requestPtr q') = ipcFd r"
proof -
  obtain out err rs where q: "requestPtr q = r\<lparr>outS := Some out, errS := Some err\<rparr>" "perl_bound q w"
    "session r os0 out err (p_os w) rs d1 d2" "writes_ok (ipcFd r) (p_os w)"
    using s by (auto simp: perl_serving_def)
  note b = q(2) [unfolded perl_bound_def]
  let ?r = "r\<lparr>outS := Some out, errS := Some err\<rparr>"
  have lv: "handles_live q w" "io_open q w" using b by simp_all
  obtain w1 where 1: "FCGI_UndoBinding q w = Inr (q\<lparr>bound := False\<rparr>, w1)" "only_perl w w1" "io_open q w1"
    "tied_to q w1 [None, None, None]" "hash_of (hvEnv q) w1 = hash_of (hvEnv q) w"
    by (rule FCGI_UndoBinding_ok [OF lv])
  have o: "p_lib w1 = p_lib w" "p_os w1 = p_os w" using 1(2) by (simp_all add: only_perl_def)
  have ses: "session ?r os0 out err (p_os w) rs d1 d2" using q(3) by (simp add: session_cong)
  have f: "writes_ok (ipcFd ?r) (p_os w)" "nWriters ?r = 2" "inS ?r = Some i" "outS ?r = Some out" "errS ?r = Some err"
    "ipcFd ?r \<noteq> - 1" "descriptors (p_lib w) (ipcFd ?r) = Live" "\<not> asyncIoInUse (p_lib w)"
    using q(4) r(1,3) l b by simp_all
  let ?r' = "?r\<lparr>nWriters := 0, inS := None, outS := None, errS := None, paramsPtr := None,
      ipcFd := if keepConnection ?r = 0 then - 1 else ipcFd ?r\<rparr>"
  obtain l' os' where 2: "FCGX_Finish_r (Some ?r) (p_lib w) (p_os w) = Inr (Some ?r', l', os')"
    "sent (conns os' (ipcFd r)) = sent (conns os0 (ipcFd r)) @ wire_of (requestId ?r) (rs @ final_records out err ?r)"
    "if keepConnection r = 0 then l' = (p_lib w)\<lparr>descriptors := (descriptors (p_lib w))(ipcFd r := NotOpen), closed := closed (p_lib w) @ [ipcFd r]\<rparr>
     else l' = p_lib w"
    using Finish_r_ok [OF ses f(1-3) r(2) f(4,5) f(8) f(6,7)] by (auto split: if_splits)
  obtain recs where 3: "parse_records (wire_of (requestId ?r) (rs @ final_records out err ?r)) = Some recs" "peer_finds r d1 d2 recs"
    using session_parsed [OF ses] r(4,5) by (auto simp: session_cong)
  let ?q = "q\<lparr>bound := False, requestPtr := ?r', is_accepted := False\<rparr>" and ?w = "w1\<lparr>p_lib := l', p_os := os'\<rparr>"
  have fin: "perl_Finish q w = Inr (?q, ?w)" using b 1(1) 2(1) o q(1) by (simp add: perl_Finish_def)
  have pr: "proper ?q" using perl_Finish_proper [OF _ fin] b by blast
  have t: "tied_to q ?w [None, None, None]" "hash_of (hvEnv q) ?w = hash_of (hvEnv q) w1"
    using 1(4) by (simp_all add: tied_to_def tied_def hash_of_def)
  have idle: "if keepConnection r = 0 then perl_idle ?q ?w else ipcFd (requestPtr ?q) = ipcFd r"
    using pr b t(1) 1(2) 2(3) q(1) by (auto simp: perl_idle_def only_perl_def handles_live_def tied_to_def split: if_splits)
  have a: "accepts (p_lib ?w) = accepts (p_lib w)" using 2(3) by (auto split: if_splits)
  show ?thesis by (rule that [OF fin _ 3 _ _ t(1) _ a idle]) (use 2(2) t(2) 1(5) in simp_all)
qed

lemma request_method_call:
  assumes "request_arg p sv" "requests w p = Some q" "f q w = Inr (x, q', w')"
  shows "request_method sub f cv [sv] w = Inr (x, w'\<lparr>requests := (requests w')(p := Some q')\<rparr>)"
  using assms by (simp add: request_method_def request_arg_def object_arg_def with_request_def)

text \<open>\<^verbatim>\<open>Accept\<close>, up to the first print.\<close>

lemma XS_Accept_serving:
  assumes idle: "perl_idle q w" "requests w p = Some q" "request_arg p sv" and ac: "accepts (p_lib w) = pre @ ev # post"
    "\<forall>x \<in> set pre. calm x \<and> (\<forall>c. verdict_of (inet_addr (env h)) (flags (requestPtr q) AND 1 \<noteq> 0)
        (webServerAddressList (p_glob w)) x \<noteq> Result c)" "calm ev"
      "verdict_of (inet_addr (env h)) (flags (requestPtr q) AND 1 \<noteq> 0) (webServerAddressList (p_glob w)) ev = Result fd" "0 \<le> fd"
    and b: "begins i body kvs rs X fd (p_os w)"
  obtains q1 w1 where "XS_FCGI_Accept h cv [sv] w = Inr (Gives [IV 0], w1)" "hash_of (hvEnv q) w1 = perl_env body kvs"
    "tied_to q w1 [Some (Some ReqIn), Some (Some ReqOut), Some (Some ReqErr)]" "gv q1 = gv q" "hvEnv q1 = hvEnv q"
    "perl_serving p (requestPtr q1) (p_os w1) [] [] q1 w1" "accepted (env h) i body kvs X (requestPtr q1) (p_os w1)"
    "ipcFd (requestPtr q1) = fd" "descriptors (p_lib w1) fd = Live" "accepts (p_lib w1) = post"
    "appStatus (requestPtr q1) = appStatus (requestPtr q)"
    "sent (conns (p_os w1) fd) = sent (conns (p_os w) fd) @ answers FCGI_PARAMS i False rs"
    "gv_refcnt (interp w1) = gv_refcnt (interp w)" "hv_refcnt (interp w1) = hv_refcnt (interp w)"
proof -
  obtain q1 v1 where 1: "perl_Accept (env h) q w = Inr (Returns 0, q1, v1)" "perl_bound q1 v1"
    "accepted (env h) i body kvs X (requestPtr q1) (p_os v1)" "ipcFd (requestPtr q1) = fd" "writes_ok fd (p_os v1)"
    "appStatus (requestPtr q1) = appStatus (requestPtr q)"
    "sent (conns (p_os v1) fd) = sent (conns (p_os w) fd) @ answers FCGI_PARAMS i False rs"
    "descriptors (p_lib v1) fd = Live" "accepts (p_lib v1) = post" "gv q1 = gv q" "hvEnv q1 = hvEnv q"
    "hash_of (hvEnv q) v1 = perl_env body kvs" "requests v1 = requests w"
    "gv_refcnt (interp v1) = gv_refcnt (interp w)" "hv_refcnt (interp v1) = hv_refcnt (interp w)"
    by (rule perl_accept_ok [OF idle(1) ac b])
  let ?r = "requestPtr q1" and ?w1 = "v1\<lparr>requests := (requests v1)(p := Some q1)\<rparr>"
  have a: "XS_FCGI_Accept h cv [sv] w = Inr (Gives [IV 0], ?w1)"
    unfolding XS_FCGI_Accept_def using 1(1) by (intro request_method_call [OF idle(3,2)]) simp
  have w1: "hash_of (hvEnv q) ?w1 = perl_env body kvs" "tied_to q ?w1 [Some (Some ReqIn), Some (Some ReqOut), Some (Some ReqErr)]"
    using 1(2,10,12) by (simp_all add: hash_of_def tied_to_def tied_def perl_bound_def)
  have st: "outS ?r = Some (NewWriter (out_block (env h)) 8192 6)" "errS ?r = Some (NewWriter (err_block (env h)) 512 7)"
    using 1(3) by (simp_all add: accepted_def)
  have "?r = ?r\<lparr>outS := Some (NewWriter (out_block (env h)) 8192 6), errS := Some (NewWriter (err_block (env h)) 512 7)\<rparr>"
    using st by (cases ?r) simp
  moreover have "perl_bound q1 ?w1" using 1(2) by (simp add: perl_bound_def handles_live_def tied_to_def tied_def io_open_def)
  ultimately have "perl_serving p ?r (p_os ?w1) [] [] q1 ?w1"
    using session_start [of ?r "p_os v1" "out_block (env h)" 8192 "err_block (env h)" 512] 1(4,5)
    unfolding perl_serving_def by (intro conjI exI) (assumption | simp)+
  then show ?thesis using 1 by (intro that [of ?w1 q1, OF a w1]) simp_all
qed

text \<open>C13: a request of a Perl script from end to end. \<^verbatim>\<open>Accept\<close> gives 0, the script's hash holds the environment and its three
  handles are tied to the request's streams; whatever it prints on standard output and error, in any order, flushing or
  not, and then \<^verbatim>\<open>Finish\<close>, the web server finds as the output and the error output of the request, its end last; the
  handles are untied, and unless the connection is kept the object is ready for the next \<^verbatim>\<open>Accept\<close>.\<close>

theorem perl_serves:
  assumes "perl_idle q w" "requests w p = Some q" "request_arg p sv" "accepts (p_lib w) = pre @ ev # post"
    and "\<forall>x \<in> set pre. calm x \<and> (\<forall>c. verdict_of (inet_addr (env h)) (flags (requestPtr q) AND 1 \<noteq> 0)
        (webServerAddressList (p_glob w)) x \<noteq> Result c)" "calm ev"
      "verdict_of (inet_addr (env h)) (flags (requestPtr q) AND 1 \<noteq> 0) (webServerAddressList (p_glob w)) ev = Result fd" "0 \<le> fd"
    and "begins i body kvs rs X fd (p_os w)" and "\<forall>(ob, svs) \<in> set prints. output_arg p ob"
  shows "\<exists>w1 w2 w3 q3 (r :: FCGX_Request) wire recs.
    XS_FCGI_Accept h cv [sv] w = Inr (Gives [IV 0], w1) \<and> hash_of (hvEnv q) w1 = perl_env body kvs \<and>
    tied_to q w1 [Some (Some ReqIn), Some (Some ReqOut), Some (Some ReqErr)] \<and>
    perl_prints h cv' prints w1 = Inr w2 \<and> XS_FCGI_Finish h cv [sv] w2 = Inr (Gives [], w3) \<and>
    requestId r = i \<and> appStatus r = appStatus (requestPtr q) \<and>
    sent (conns (p_os w3) fd) = sent (conns (p_os w) fd) @ answers FCGI_PARAMS i False rs @ wire \<and>
    parse_records wire = Some recs \<and>
    peer_finds r (script_output (StreamOf p ReqOut) prints) (script_output (StreamOf p ReqErr) prints) recs \<and>
    requests w3 p = Some q3 \<and> gv q3 = gv q \<and> tied_to q w3 [None, None, None] \<and> accepts (p_lib w3) = post \<and>
    (if uint (body ! 2) AND FCGI_KEEP_CONN = 0 then perl_idle q3 w3 else ipcFd (requestPtr q3) = fd)"
proof -
  obtain q1 w1 where 1: "XS_FCGI_Accept h cv [sv] w = Inr (Gives [IV 0], w1)" "hash_of (hvEnv q) w1 = perl_env body kvs"
    "tied_to q w1 [Some (Some ReqIn), Some (Some ReqOut), Some (Some ReqErr)]" "gv q1 = gv q" "hvEnv q1 = hvEnv q"
    "perl_serving p (requestPtr q1) (p_os w1) [] [] q1 w1" "accepted (env h) i body kvs X (requestPtr q1) (p_os w1)"
    "ipcFd (requestPtr q1) = fd" "descriptors (p_lib w1) fd = Live" "accepts (p_lib w1) = post"
    "appStatus (requestPtr q1) = appStatus (requestPtr q)"
    "sent (conns (p_os w1) fd) = sent (conns (p_os w) fd) @ answers FCGI_PARAMS i False rs"
    by (rule XS_Accept_serving [OF assms(1-9)])
  let ?r = "requestPtr q1"
  obtain s where s: "inS ?r = Some s" "FCGX_GetError s = 0" "nWriters ?r = 2" "requestId ?r = i"
    "keepConnection ?r = uint (body ! 2) AND FCGI_KEEP_CONN"
    using 1(7) by (auto simp: accepted_def at_start_def FCGX_GetError_def)
  have i: "0 \<le> requestId ?r" "requestId ?r < 2 ^ 16" using s(4) assms(9) by (simp_all add: begins_def rec_ok_def)
  from perl_prints_ok [OF 1(6) assms(10), of h cv'] obtain q2 w2 where 2: "perl_prints h cv' prints w1 = Inr w2"
    "perl_serving p ?r (p_os w1) (script_output (StreamOf p ReqOut) prints) (script_output (StreamOf p ReqErr) prints) q2 w2"
    "q2 = q1\<lparr>requestPtr := requestPtr q2\<rparr>" "w2 = w1\<lparr>p_os := p_os w2, requests := requests w2\<rparr>" by auto
  have g: "gv q2 = gv q" using 2(3) 1(4) by (metis FCGP_Request.select_convs(6) FCGP_Request.surjective FCGP_Request.update_convs(8))
  have pl: "p_lib w2 = p_lib w1" using 2(4)
    by (metis process.select_convs(2) process.surjective process.update_convs(3,6))
  have l: "0 \<le> ipcFd ?r" "descriptors (p_lib w2) (ipcFd ?r) = Live" using 1(8,9) assms(8) pl by simp_all
  obtain q3 v3 wire recs where 3: "perl_Finish q2 w2 = Inr (q3, v3)" "sent (conns (p_os v3) (ipcFd ?r)) = sent (conns (p_os w1) (ipcFd ?r)) @ wire"
    "parse_records wire = Some recs"
    "peer_finds ?r (script_output (StreamOf p ReqOut) prints) (script_output (StreamOf p ReqErr) prints) recs" "gv q3 = gv q2"
    "tied_to q2 v3 [None, None, None]" "accepts (p_lib v3) = accepts (p_lib w2)"
    "if keepConnection ?r = 0 then perl_idle q3 v3 else ipcFd (requestPtr q3) = ipcFd ?r"
    by (rule perl_Finish_serving [OF 2(2) s(1-3) i l])
  let ?w3 = "v3\<lparr>requests := (requests v3)(p := Some q3)\<rparr>"
  have rq: "requests w2 p = Some q2" using 2(2) by (simp add: perl_serving_def)
  have f: "XS_FCGI_Finish h cv [sv] w2 = Inr (Gives [], ?w3)"
    unfolding XS_FCGI_Finish_def using 3(1) by (intro request_method_call [OF assms(3) rq]) simp
  have e: "tied_to q ?w3 [None, None, None]" "perl_idle q3 ?w3 = perl_idle q3 v3"
    using 3(6) g by (simp_all add: tied_to_def tied_def perl_idle_def handles_live_def)
  show ?thesis
    by (rule exI [of _ w1], rule exI [of _ w2], rule exI [of _ ?w3], rule exI [of _ q3], rule exI [of _ ?r], rule exI [of _ wire],
        rule exI [of _ recs]) (use 1 2(1) 3(2-8) f e s(4,5) g pl in simp)
qed

section \<open>A script\<close>

text \<open>Scalars a script passes: an object, a number, a string (whose buffer ends with a NUL).\<close>

definition plain_sv :: SV where
  "plain_sv = \<lparr>SvROK = False, rv_gv = None, rv_hv = None, rv_ptr = Elsewhere, sv_derived_from = \<lambda>_. False, SvIV = 0,
     SvPV = [], SvOK = False, SvTRUE = False, SvPVX = []\<rparr>"

definition sv_num :: "int \<Rightarrow> SV" where
  "sv_num n = plain_sv\<lparr>SvIV := n, SvOK := True, SvTRUE := (n \<noteq> 0)\<rparr>"

definition sv_string :: "byte list \<Rightarrow> SV" where
  "sv_string bs = plain_sv\<lparr>SvPV := bs, SvOK := True, SvTRUE := (bs \<notin> {[], chars ''0''}), SvPVX := bs @ [0]\<rparr>"

definition sv_object :: "string \<Rightarrow> pointer \<Rightarrow> SV" where
  "sv_object cl ptr = plain_sv\<lparr>SvROK := True, SvOK := True, SvTRUE := True, rv_ptr := ptr, sv_derived_from := (\<lambda>c. c = cl)\<rparr>"

text \<open>A process that loads the module and makes a request object for connections to socket 3.\<close>

definition sv_glob :: "nat \<Rightarrow> SV" where
  "sv_glob g = plain_sv\<lparr>SvROK := True, SvOK := True, SvTRUE := True, rv_gv := Some g\<rparr>"

definition sv_hash :: "nat \<Rightarrow> SV" where
  "sv_hash h = plain_sv\<lparr>SvROK := True, SvOK := True, SvTRUE := True, rv_hv := Some h\<rparr>"

definition perl_start :: process where
  "perl_start = \<lparr>p_glob = globals_start\<lparr>libInitialized := True\<rparr>,
     p_lib = os_start (\<lambda>_. NotOpen) [Accepted 5 OtherFamily False], p_os = sample_input, been_here = False, static_isCGI = - 1,
     requests = (\<lambda>_. None), next_request = 1,
     interp = \<lparr>gv_refcnt = (\<lambda>_. 1), hv_refcnt = (\<lambda>_. 1), GvIOp = (\<lambda>g. g \<noteq> 12), calls = []\<rparr>, net_calls = []\<rparr>"

definition sample_host :: perl_host where
  "sample_host = \<lparr>env = sample_env,
     net = \<lparr>socket_result = (\<lambda>_. 3), setsockopt_ok = True, bind_errno = (\<lambda>_. 0), listen_errno = 0, connect_ok = (\<lambda>_. True),
       gethostbyname = (\<lambda>_. None), inet_address = (\<lambda>_. 0)\<rparr>,
     autoflush = Some (sv_num 1), SvGROW = (\<lambda>old m. Some (old @ replicate (m - length old) 0))\<rparr>"

definition sample_cv :: CV where
  "sample_cv = \<lparr>CvGV = Some (Some ''FCGI'', ''Request''), cv_hex = ''1000''\<rparr>"

definition new_args :: "SV list" where
  "new_args = [sv_glob 10, sv_glob 11, sv_glob 12, sv_hash 20, sv_num 3, sv_num 0]"

text \<open>After \<^verbatim>\<open>RequestX\<close> the object is at address 1, and ready.\<close>

lemma sample_process:
  obtains q w where "XS_FCGI_RequestX sample_host sample_cv new_args (snd (boot_FCGI sample_env perl_start)) = Inr (Gives [NewObject 1], w)"
    "requests w 1 = Some q" "perl_idle q w" "accepts (p_lib w) = [] @ Accepted 5 OtherFamily False # []" "p_os w = sample_input"
    "webServerAddressList (p_glob w) = None" "flags (requestPtr q) = 0" "perl_reaches perl_start w" "gv q = [10, 11, 12]" "hvEnv q = 20"
    "gv_refcnt (interp w) = (\<lambda>g. if g \<in> {10, 11, 12} then 2 else 1)" "hv_refcnt (interp w) 20 = 2"
proof -
  let ?b = "snd (boot_FCGI sample_env perl_start)"
  obtain q w where 1: "FCGI_Request 10 11 12 20 3 0 ?b = (q, w)" by fastforce
  let ?w = "w\<lparr>requests := (requests w)(1 := Some q), next_request := 2\<rparr>"
  have b: "?b = perl_start" by (simp add: boot_FCGI_def FCGI_Init_def FCGX_Init_def perl_start_def)
  have qw: "q = \<lparr>is_accepted = False, bound = False, svin = None, svout = None, sverr = None, gv = [10, 11, 12], hvEnv = 20,
      requestPtr = snd (FCGX_InitRequest 3 0)\<rparr>" "w = inc_hv 20 (inc_gv 12 (inc_gv 11 (inc_gv 10 perl_start)))"
    using 1 unfolding b by (simp_all add: FCGI_Request_def FCGX_InitRequest_def)
  have n: "next_request w = 1" by (simp add: qw inc_hv_def inc_gv_def perl_start_def)
  have x: "XS_FCGI_RequestX sample_host sample_cv new_args ?b = Inr (Gives [NewObject 1], ?w)"
    using 1 n by (simp add: XS_FCGI_RequestX_def new_args_def sv_glob_def sv_hash_def sv_num_def plain_sv_def wrap32_id)
  have "call_sub fcgi_subs ''FCGI::RequestX'' sample_host sample_cv new_args ?b = Some (Inr (Gives [NewObject 1], ?w))"
    using x by (simp add: call_sub_def fcgi_subs_def)
  then have "perl_reaches perl_start ?w" using perl_reaches.step [OF perl_reaches.boot perl_step.call] by blast
  moreover have "perl_idle q ?w"
    unfolding qw by (simp add: perl_idle_def proper_def no_streams_def FCGX_InitRequest_def zero_request_def handles_live_def
        inc_gv_def inc_hv_def perl_start_def tied_to_def tied_def os_start_def globals_start_def)
  ultimately show ?thesis
    by (intro that [OF x]) (auto simp: qw inc_gv_def inc_hv_def perl_start_def os_start_def globals_start_def FCGX_InitRequest_def
        zero_request_def)
qed

lemma perl_serves_witness:
  "\<exists>w w1 w2 w3 recs. XS_FCGI_RequestX sample_host sample_cv new_args (snd (boot_FCGI sample_env perl_start)) = Inr (Gives [NewObject 1], w) \<and>
    XS_FCGI_Accept sample_host sample_cv [sv_object ''FCGI'' (RequestAt 1)] w = Inr (Gives [IV 0], w1) \<and> hash_of 20 w1 [65] = Some [66] \<and>
    perl_prints sample_host sample_cv [(sv_object ''FCGI::Stream'' (StreamOf 1 ReqOut), [sv_string [72], sv_string [105]]),
      (sv_object ''FCGI::Stream'' (StreamOf 1 ReqErr), [sv_string [33]])] w1 = Inr w2 \<and>
    XS_FCGI_Finish sample_host sample_cv [sv_object ''FCGI'' (RequestAt 1)] w2 = Inr (Gives [], w3) \<and>
    parse_records (sent (conns (p_os w3) 5)) = Some recs \<and> concat (contents_of FCGI_STDOUT 1 recs) = [72, 105] \<and>
    concat (contents_of FCGI_STDERR 1 recs) = [33]"
proof -
  obtain q w where w: "XS_FCGI_RequestX sample_host sample_cv new_args (snd (boot_FCGI sample_env perl_start)) = Inr (Gives [NewObject 1], w)"
    "requests w 1 = Some q" "perl_idle q w" "accepts (p_lib w) = [] @ Accepted 5 OtherFamily False # []" "p_os w = sample_input"
    "webServerAddressList (p_glob w) = None" "flags (requestPtr q) = 0" "perl_reaches perl_start w" "gv q = [10, 11, 12]" "hvEnv q = 20"
    by (rule sample_process)
  let ?sv = "sv_object ''FCGI'' (RequestAt 1)" and ?prints = "[(sv_object ''FCGI::Stream'' (StreamOf 1 ReqOut), [sv_string [72], sv_string [105]]),
      (sv_object ''FCGI::Stream'' (StreamOf 1 ReqErr), [sv_string [33]])]"
  have a: "request_arg 1 ?sv" "\<forall>(ob, svs) \<in> set ?prints. output_arg 1 ob"
    by (simp_all add: request_arg_def output_arg_def sv_object_def plain_sv_def)
  have v: "verdict_of (inet_addr (env sample_host)) (flags (requestPtr q) AND 1 \<noteq> 0) (webServerAddressList (p_glob w))
      (Accepted 5 OtherFamily False) = Result 5"
    using w(6,7) by (simp add: verdict_of_def)
  have s0: "sent (conns sample_input 5) = []" "answers 4 1 False sample_params = []"
    by (simp_all add: sample_input_def sample_params_def)
  have out: "script_output (StreamOf 1 ReqOut) ?prints = [72, 105]" "script_output (StreamOf 1 ReqErr) ?prints = [33]"
    by (simp_all add: script_output_def sv_object_def sv_string_def plain_sv_def)
  have e: "perl_env sample_body [([65], [66])] [65] = Some [66]" by (simp add: perl_env_def cstr_def)
  obtain w1 w2 w3 recs r where "XS_FCGI_Accept sample_host sample_cv [?sv] w = Inr (Gives [IV 0], w1)"
    "hash_of (hvEnv q) w1 = perl_env sample_body [([65], [66])]" "perl_prints sample_host sample_cv ?prints w1 = Inr w2"
    "XS_FCGI_Finish sample_host sample_cv [?sv] w2 = Inr (Gives [], w3)" "requestId (r :: FCGX_Request) = 1"
    "parse_records (sent (conns (p_os w3) 5)) = Some recs" "peer_finds r [72, 105] [33] recs"
    using perl_serves [OF w(3,2) a(1) w(4) _ _ v _ sample_begins [of 5, folded w(5)] a(2), of sample_cv sample_cv]
    unfolding w(5) s0 out by auto
  then show ?thesis
    using w(1,10) e unfolding peer_finds_def
    by (intro exI [of _ w] exI [of _ w1] exI [of _ w2] exI [of _ w3] exI [of _ recs]) auto
qed

text \<open>The sample process with its first request accepted.\<close>

lemma sample_in_progress:
  obtains q w where "perl_reaches perl_start w" "requests w 1 = Some q" "perl_serving 1 (requestPtr q) (p_os w) [] [] q w"
    "accepted sample_env 1 sample_body [([65], [66])] [] (requestPtr q) (p_os w)" "ipcFd (requestPtr q) = 5" "descriptors (p_lib w) 5 = Live"
    "\<forall>g \<in> set (gv q). gv_refcnt (interp w) g = 2" "hv_refcnt (interp w) (hvEnv q) = 2"
proof -
  obtain q w where w: "XS_FCGI_RequestX sample_host sample_cv new_args (snd (boot_FCGI sample_env perl_start)) = Inr (Gives [NewObject 1], w)"
    "requests w 1 = Some q" "perl_idle q w" "accepts (p_lib w) = [] @ Accepted 5 OtherFamily False # []" "p_os w = sample_input"
    "webServerAddressList (p_glob w) = None" "flags (requestPtr q) = 0" "perl_reaches perl_start w" "gv q = [10, 11, 12]" "hvEnv q = 20"
    "gv_refcnt (interp w) = (\<lambda>g. if g \<in> {10, 11, 12} then 2 else 1)" "hv_refcnt (interp w) 20 = 2"
    by (rule sample_process)
  let ?sv = "sv_object ''FCGI'' (RequestAt 1)"
  have a: "request_arg 1 ?sv" by (simp add: request_arg_def sv_object_def plain_sv_def)
  have v: "verdict_of (inet_addr (env sample_host)) (flags (requestPtr q) AND 1 \<noteq> 0) (webServerAddressList (p_glob w))
      (Accepted 5 OtherFamily False) = Result 5"
    using w(6,7) by (simp add: verdict_of_def)
  have p: "\<forall>x \<in> set []. calm x \<and> (\<forall>c. verdict_of (inet_addr (env sample_host)) (flags (requestPtr q) AND 1 \<noteq> 0)
      (webServerAddressList (p_glob w)) x \<noteq> Result c)" "calm (Accepted 5 OtherFamily False)" "(0::int) \<le> 5" by simp_all
  obtain q1 w1 where 1: "XS_FCGI_Accept sample_host sample_cv [?sv] w = Inr (Gives [IV 0], w1)" "gv q1 = gv q" "hvEnv q1 = hvEnv q"
    "perl_serving 1 (requestPtr q1) (p_os w1) [] [] q1 w1"
    "accepted (env sample_host) 1 sample_body [([65], [66])] [] (requestPtr q1) (p_os w1)" "ipcFd (requestPtr q1) = 5"
    "descriptors (p_lib w1) 5 = Live" "gv_refcnt (interp w1) = gv_refcnt (interp w)" "hv_refcnt (interp w1) = hv_refcnt (interp w)"
    by (rule XS_Accept_serving [OF w(3,2) a w(4) p(1,2) v p(3) sample_begins [of 5, folded w(5)], of sample_cv])
  have "call_sub fcgi_subs ''FCGI::Accept'' sample_host sample_cv [?sv] w = Some (Inr (Gives [IV 0], w1))"
    using 1(1) by (simp add: call_sub_def fcgi_subs_def)
  then have "perl_reaches perl_start w1" using perl_reaches.step [OF w(8) perl_step.call] by blast
  moreover have "requests w1 1 = Some q1" using 1(4) by (simp add: perl_serving_def)
  moreover have "env sample_host = sample_env" by (simp add: sample_host_def)
  ultimately show ?thesis using 1 w(9-12) by (intro that [of w1 q1]) simp_all
qed

section \<open>The environment in the hash\<close>

text \<open>C19: \<^verbatim>\<open>populate_env\<close> on the environment the library built from the pairs it was sent. The hash has exactly their
  names, each with the value of its last pair (where \<^verbatim>\<open>FCGX_GetParam\<close> finds the first), up to a NUL; but its assertion fails, which ends
  the process, exactly when a name sent by the peer holds a NUL before any equals sign.\<close>

theorem populate_env_spec:
  assumes "hv_refcnt (interp w) hv \<noteq> 0"
  shows "populate_env (Some (map (Some \<circ> entry) kvs @ None # rest)) hv w =
      (if \<exists>(n, v) \<in> set kvs. 0 \<in> set (takeWhile (\<lambda>b. b \<noteq> 0x3D) n) then Inl AssertFailed
       else Inr (perl_does (Hv_clear hv # map (\<lambda>x. Hv_store hv (hash_key x) (hash_value x)) kvs) w)) \<and>
    ((\<forall>(n, v) \<in> set kvs. 0x3D \<notin> set n \<and> 0 \<notin> set n) \<longrightarrow>
      (\<exists>w'. populate_env (Some (map (Some \<circ> entry) kvs @ None # rest)) hv w = Inr w' \<and>
        hash_of hv w' = map_of (rev (map (\<lambda>(n, v). (n, cstr v)) kvs))))"
proof -
  have s: "(0x3D \<in> set (cstr (entry (n, v)))) = (0 \<notin> set (takeWhile (\<lambda>b. b \<noteq> 0x3D) n))" for n v
  proof (induction n)
    case Nil
    then show ?case by (simp add: entry_def cstr_def)
  next
    case (Cons b n)
    have "entry (b # n, v) = b # entry (n, v)" by (simp add: entry_def)
    then show ?case using Cons by (auto simp: cstr_def)
  qed
  have p: "populate_env (Some (map (Some \<circ> entry) kvs @ None # rest)) hv w =
      (if \<exists>(n, v) \<in> set kvs. 0 \<in> set (takeWhile (\<lambda>b. b \<noteq> 0x3D) n) then Inl AssertFailed
       else Inr (perl_does (Hv_clear hv # map (\<lambda>x. Hv_store hv (hash_key x) (hash_value x)) kvs) w))"
    using assms s by (auto simp: populate_env_def populate_entries)
  have "hash_of hv (perl_does (Hv_clear hv # map (\<lambda>x. Hv_store hv (hash_key x) (hash_value x)) kvs) w) =
      map_of (rev (map (\<lambda>(n, v). (n, cstr v)) kvs))" if ok: "\<forall>(n, v) \<in> set kvs. 0x3D \<notin> set n \<and> 0 \<notin> set n"
  proof -
    have "map (\<lambda>x. (hash_key x, hash_value x)) kvs = map (\<lambda>(n, v). (n, cstr v)) kvs"
      using ok hash_name_ok by (intro map_cong) auto
    then have "map_of (rev (map (\<lambda>x. (hash_key x, hash_value x)) kvs)) = map_of (rev (map (\<lambda>(n, v). (n, cstr v)) kvs))"
      by (rule arg_cong)
    then show ?thesis unfolding hash_of_does foldl.simps hash_step.simps hash_stores by simp
  qed
  moreover have "\<not> (\<exists>(n, v) \<in> set kvs. 0 \<in> set (takeWhile (\<lambda>b. b \<noteq> 0x3D) n))"
    if "\<forall>(n, v) \<in> set kvs. 0x3D \<notin> set n \<and> 0 \<notin> set n"
    using that by (auto dest: set_takeWhileD)
  ultimately show ?thesis using p by auto
qed

lemma populate_env_spec_witness:
  "(\<exists>w'. populate_env (Some (map (Some \<circ> entry) [([65], [66]), ([67], []), ([65], [68, 0, 69])] @ None # [])) 20 perl_start = Inr w' \<and>
      hash_of 20 w' [65] = Some [68] \<and> hash_of 20 w' [66] = None) \<and>
    populate_env (Some (map (Some \<circ> entry) [([65, 0], [66])] @ None # [])) 20 perl_start = Inl AssertFailed"
proof -
  have hv: "hv_refcnt (interp perl_start) 20 \<noteq> 0" by (simp add: perl_start_def)
  have "\<exists>w'. populate_env (Some (map (Some \<circ> entry) [([65], [66]), ([67], []), ([65], [68, 0, 69])] @ None # [])) 20 perl_start = Inr w' \<and>
      hash_of 20 w' = map_of (rev (map (\<lambda>(n, v). (n, cstr v)) [([65], [66]), ([67], []), ([65], [68, 0, 69])]))"
    by (rule populate_env_spec [OF hv, of "[([65], [66]), ([67], []), ([65], [68, 0, 69])]" "[]", THEN conjunct2, THEN mp]) simp
  moreover have "populate_env (Some (map (Some \<circ> entry) [([65, 0], [66])] @ None # [])) 20 perl_start = Inl AssertFailed"
    using populate_env_spec [OF hv, of "[([65, 0], [66])]" "[]", THEN conjunct1] by simp
  ultimately show ?thesis by (auto simp: cstr_def)
qed

end
