(* ===== verification/PerlScript.thy ===== *)
theory PerlScript
  imports PerlServe
begin

text \<open>
  More of what a Perl script does with a request: reading its input, detaching it from the handles, destroying the
  object; and what holds of the objects whatever a script does.
\<close>

section \<open>Reading\<close>

text \<open>\<^verbatim>\<open>read\<close> on the tied handle of the input, chunk after chunk, each appended to the script's buffer.\<close>

fun slurp :: "perl_host \<Rightarrow> CV \<Rightarrow> SV \<Rightarrow> int list \<Rightarrow> byte list \<Rightarrow> process \<Rightarrow> fault + (byte list \<times> sval list list) \<times> process" where
  "slurp h cv ob [] buf w = Inr ((buf, []), w)"
| "slurp h cv ob (n # ns) buf w =
     rbind (XS_FCGI_Stream_READ h cv [ob, sv_string buf, sv_num n, sv_num (int (length buf))] w) (\<lambda>(res, w).
     case res of
       Fills buf vs \<Rightarrow> rbind (slurp h cv ob ns buf w) (\<lambda>((buf, vss), w). Inr ((buf, vs # vss), w))
     | _ \<Rightarrow> Inr ((buf, []), w))"

text \<open>The same on a list: the bytes, and how many each of the calls gets.\<close>

fun chunk_counts :: "int list \<Rightarrow> nat \<Rightarrow> nat list" where
  "chunk_counts [] k = []"
| "chunk_counts (n # ns) k = min (nat n) k # chunk_counts ns (k - nat n)"

text \<open>The interpreter has the memory: the buffer of a scalar grows to at least the size asked for and keeps its content.\<close>

definition has_memory :: "perl_host \<Rightarrow> bool" where
  "has_memory h \<longleftrightarrow> (\<forall>old m. \<exists>buf. SvGROW h old m = Some buf \<and> m \<le> length buf \<and> take (length old) buf = take (length buf) old)"

text \<open>A request in progress whose input still has \<open>bs\<close>.\<close>

definition perl_reading :: "nat \<Rightarrow> byte list \<Rightarrow> process \<Rightarrow> bool" where
  "perl_reading p bs w \<longleftrightarrow>
     (\<exists>q s s0 P T X. requests w p = Some q \<and> inS (requestPtr q) = Some s \<and>
        stream.avail (requestPtr q) s0 P T X bs s (requestPtr q) (p_os w))"

lemma with_stream_reads:
  assumes "perl_reading p bs w" "reads_to f bs x bs'"
  shows "\<exists>w'. with_stream (StreamOf p ReqIn) f w = Inr (x, w') \<and> perl_reading p bs' w'"
proof -
  obtain q s s0 P T X where q: "requests w p = Some q" "inS (requestPtr q) = Some s"
    "stream.avail (requestPtr q) s0 P T X bs s (requestPtr q) (p_os w)"
    using assms(1) unfolding perl_reading_def by blast
  obtain s' os' where 1: "f s (requestPtr q) (p_os w) = Inr (x, s', requestPtr q, os')"
    "stream.avail (requestPtr q) s0 P T X bs' s' (requestPtr q) os'"
    using assms(2) q(3) unfolding reads_to_def by blast
  let ?q = "q\<lparr>requestPtr := (requestPtr q)\<lparr>inS := Some s'\<rparr>\<rparr>"
  let ?w = "w\<lparr>p_os := os', requests := (requests w)(p := Some ?q)\<rparr>"
  have "with_stream (StreamOf p ReqIn) f w = Inr (x, ?w)"
    using q(1,2) 1(1) by (simp add: with_stream_def with_request_def on_ref_def)
  moreover have "perl_reading p bs' ?w" unfolding perl_reading_def using avail_inS [OF 1(2), of "Some s'"] by auto
  ultimately show ?thesis by blast
qed

lemma store_chunk:
  assumes "take (length old) buf = old" "length old + length bs < length buf"
  shows "\<exists>b1 b2. store_at buf (int (length old)) bs = Inr b1 \<and> store_at b1 (int (length bs) + int (length old)) [0] = Inr b2 \<and>
    take (length bs + length old) b2 = old @ bs"
proof -
  let ?b = "poke buf (length old) bs"
  have b: "length ?b = length buf" "take (length bs + length old) ?b = old @ bs"
    using assms by (simp_all add: poke_def)
  have "buf = old @ drop (length old) buf" using assms(1) by (metis append_take_drop_id)
  then have 1: "store_at buf (int (length old)) bs = Inr ?b"
    using assms by (cases "bs = []") (simp_all add: store_at_def poke_def)
  have n: "nat (int (length bs) + int (length old)) = length bs + length old" by simp
  have "store_at ?b (int (length bs) + int (length old)) [0] = Inr (poke ?b (length bs + length old) [0])"
    using assms(2) b(1) unfolding store_at_def n by simp
  then show ?thesis using 1 b assms(2) by (simp add: poke_def)
qed

lemma READ_reading:
  assumes r: "perl_reading p bs w" and ob: "SvROK ob" "sv_derived_from ob ''FCGI::Stream''" "rv_ptr ob = StreamOf p ReqIn"
    and h: "has_memory h" and n: "0 \<le> n" "n + int (length buf) + 1 < 2 ^ 31"
  shows "\<exists>w'. XS_FCGI_Stream_READ h cv [ob, sv_string buf, sv_num n, sv_num (int (length buf))] w =
      Inr (Fills (buf @ take (nat n) bs) [IV (int (min (nat n) (length bs)))], w') \<and> perl_reading p (drop (nat n) bs) w'"
proof -
  have wr: "wrap32 n = n" "wrap32 (int (length buf)) = int (length buf)"
    "nat (strlen_of (wrap32 (n + int (length buf) + 1))) = nat n + length buf + 1"
    using n by (simp_all add: wrap32_id strlen_of_def nat_add_distrib)
  obtain b where b: "SvGROW h (buf @ [0]) (nat n + length buf + 1) = Some b" "nat n + length buf + 1 \<le> length b"
    "take (length (buf @ [0])) b = take (length b) (buf @ [0])"
    using h unfolding has_memory_def by metis
  have "take (length buf) (take (length (buf @ [0])) b) = take (length buf) (take (length b) (buf @ [0]))"
    unfolding b(3) ..
  then have tb: "take (length buf) b = buf" using b(2) by simp
  let ?bs = "take (nat n) bs"
  obtain w' where 1: "with_stream (StreamOf p ReqIn) (FCGX_GetStr FillBuffProc n) w = Inr (?bs, w')" "perl_reading p (drop (nat n) bs) w'"
    using with_stream_reads [OF r reads_to_calls(2) [OF n(1)]] by blast
  have "length buf + length ?bs < length b" using b(2) by simp
  from store_chunk [OF tb this] obtain b1 b2 where st: "store_at b (int (length buf)) ?bs = Inr b1"
    "store_at b1 (int (length ?bs) + int (length buf)) [0] = Inr b2" "take (length ?bs + length buf) b2 = buf @ ?bs" by blast
  have k: "nat (int (length ?bs) + int (length buf)) = length ?bs + length buf" by simp
  have "XS_FCGI_Stream_READ h cv [ob, sv_string buf, sv_num n, sv_num (int (length buf))] w =
      Inr (Fills (buf @ ?bs) [IV (int (length ?bs))], w')"
    using ob wr b(1) 1(1) st(1,2) k st(3)
    by (simp add: XS_FCGI_Stream_READ_def object_arg_def sv_string_def sv_num_def plain_sv_def Let_def del: length_take)
  then show ?thesis using 1(2) by (simp add: min.commute)
qed

lemma slurp_reading:
  assumes "perl_reading p bs w" "SvROK ob" "sv_derived_from ob ''FCGI::Stream''" "rv_ptr ob = StreamOf p ReqIn" "has_memory h"
    "\<forall>n \<in> set ns. 0 \<le> n" "int (length buf) + sum_list ns + 1 < 2 ^ 31"
  shows "\<exists>w'. slurp h cv ob ns buf w = Inr ((buf @ take (nat (sum_list ns)) bs,
      map (\<lambda>k. [IV (int k)]) (chunk_counts ns (length bs))), w')"
  using assms
proof (induction ns arbitrary: bs buf w)
  case Nil
  then show ?case by simp
next
  case (Cons n ns)
  have s: "0 \<le> sum_list ns" "0 \<le> n" using Cons.prems(6) by (simp_all add: sum_list_nonneg)
  have lim: "n + int (length buf) + 1 < 2 ^ 31" using Cons.prems(7) s by simp
  obtain w1 where 1: "XS_FCGI_Stream_READ h cv [ob, sv_string buf, sv_num n, sv_num (int (length buf))] w =
      Inr (Fills (buf @ take (nat n) bs) [IV (int (min (nat n) (length bs)))], w1)" "perl_reading p (drop (nat n) bs) w1"
    using READ_reading [OF Cons.prems(1-5) s(2) lim] by blast
  have "int (length (buf @ take (nat n) bs)) + sum_list ns + 1 < 2 ^ 31" using Cons.prems(7) s by simp
  from Cons.IH [OF 1(2) Cons.prems(2-5) _ this] Cons.prems(6) obtain w2 where
    "slurp h cv ob ns (buf @ take (nat n) bs) w1 = Inr (((buf @ take (nat n) bs) @ take (nat (sum_list ns)) (drop (nat n) bs),
      map (\<lambda>k. [IV (int k)]) (chunk_counts ns (length (drop (nat n) bs)))), w2)" by auto
  moreover have "take (nat n) bs @ take (nat (sum_list ns)) (drop (nat n) bs) = take (nat (sum_list (n # ns))) bs"
    using s by (simp add: take_add nat_add_distrib)
  ultimately show ?case using 1(1) by simp
qed

text \<open>C14: what a Perl script reads from a well-behaved peer (one that sends content in every record of another request and
  no management record but \<^verbatim>\<open>FCGI_GET_VALUES\<close>). After \<^verbatim>\<open>Accept\<close>, any sequence of reads, each appending to the
  script's buffer, leaves in it exactly the bytes of the request's own \<^verbatim>\<open>FCGI_STDIN\<close> records, as many as were asked for
  and are there, however they are cut into records; each read returns the number it appended, 0 at the end, and none of the
  stores goes beyond the buffer.\<close>

theorem perl_reads:
  assumes "perl_idle q w" "requests w p = Some q" "request_arg p sv" "accepts (p_lib w) = pre @ ev # post"
    and "\<forall>x \<in> set pre. calm x \<and> (\<forall>c. verdict_of (inet_addr (env h)) (flags (requestPtr q) AND 1 \<noteq> 0)
        (webServerAddressList (p_glob w)) x \<noteq> Result c)" "calm ev"
      "verdict_of (inet_addr (env h)) (flags (requestPtr q) AND 1 \<noteq> 0) (webServerAddressList (p_glob w)) ev = Result fd" "0 \<le> fd"
    and "begins i body kvs rs (wire_all irs @ X) fd (p_os w)" "stream_ok FCGI_STDIN i False irs" "well_behaved i irs"
    and "SvROK ob" "sv_derived_from ob ''FCGI::Stream''" "rv_ptr ob = StreamOf p ReqIn"
    and "has_memory h" "\<forall>n \<in> set ns. 0 \<le> n" "int (length buf) + sum_list ns + 1 < 2 ^ 31"
  shows "\<exists>w1 w2. XS_FCGI_Accept h cv [sv] w = Inr (Gives [IV 0], w1) \<and>
    slurp h cv' ob ns buf w1 = Inr ((buf @ take (nat (sum_list ns)) (own_content FCGI_STDIN i irs),
      map (\<lambda>k. [IV (int k)]) (chunk_counts ns (length (own_content FCGI_STDIN i irs)))), w2)"
proof -
  obtain q1 w1 where 1: "XS_FCGI_Accept h cv [sv] w = Inr (Gives [IV 0], w1)"
    "perl_serving p (requestPtr q1) (p_os w1) [] [] q1 w1"
    "accepted (env h) i body kvs (wire_all irs @ X) (requestPtr q1) (p_os w1)"
    by (rule XS_Accept_serving [OF assms(1-9)])
  obtain s where s: "inS (requestPtr q1) = Some s" "at_start s (requestPtr q1) (p_os w1)" "stype s = 5"
    "inp s (requestPtr q1) (p_os w1) = wire_all irs @ X" "requestId (requestPtr q1) = i"
    using 1(3) by (auto simp: accepted_def)
  have "stream_ok (stype s) (requestId (requestPtr q1)) False irs" using assms(10) s(3,5) by simp
  from stream_enter [OF s(2,4) this] have "perl_reading p (delivered 5 i False irs) w1"
    using 1(2) s(1) unfolding perl_reading_def perl_serving_def s(3,5) by blast
  then have "perl_reading p (own_content 5 i irs) w1"
    using delivered_own_content [OF assms(11,10)] assms(9) by (simp add: begins_def)
  from slurp_reading [OF this assms(12-17), of cv'] 1(1) show ?thesis by auto
qed

text \<open>A request with the body \<open>Hi!\<close> in two records, read in chunks of 2.\<close>

definition sample_posting :: os_state where
  "sample_posting = sample_os [Arrives (wire_record 1 1 sample_body []), Arrives (wire_all sample_params),
     Arrives (wire_all [(5, 1, [72], [0]), (5, 1, [105, 33], []), (5, 1, [], [])])] []"

lemma sample_posting_begins:
  "begins 1 sample_body [([65], [66])] sample_params (wire_all [(5, 1, [72], [0]), (5, 1, [105, 33], []), (5, 1, [], [])] @ []) fd sample_posting"
proof -
  have ne: "wire_all sample_params \<noteq> []" "wire_record 1 1 sample_body [] \<noteq> []" "wire_all [(5, 1, [72], [0]), (5, 1, [105, 33], []), (5, 1, [], [])] \<noteq> []"
    by (simp_all add: sample_params_def wire_record_def)
  have "arriving fd sample_posting = wire_record 1 1 sample_body [] @ wire_all sample_params @
      wire_all [(5, 1, [72], [0]), (5, 1, [105, 33], []), (5, 1, [], [])] @ []"
    using ne by (simp add: arriving_def sample_posting_def del: wire_all_simps)
  moreover have "writes_ok fd sample_posting" by (simp add: sample_posting_def sample_writes_ok)
  ultimately show ?thesis
    using sample_begins [of fd] by (simp add: begins_def del: wire_all_simps)
qed

lemma perl_reads_witness:
  "\<exists>w w1 w2. XS_FCGI_Accept sample_host sample_cv [sv_object ''FCGI'' (RequestAt 1)] w = Inr (Gives [IV 0], w1) \<and>
    slurp sample_host sample_cv (sv_object ''FCGI::Stream'' (StreamOf 1 ReqIn)) [2, 2, 2] [62] w1 =
      Inr (([62, 72, 105, 33], [[IV 2], [IV 1], [IV 0]]), w2)"
proof -
  obtain q w where w: "requests w 1 = Some q" "perl_idle q w" "accepts (p_lib w) = [] @ Accepted 5 OtherFamily False # []"
    "webServerAddressList (p_glob w) = None" "flags (requestPtr q) = 0"
    by (rule sample_process)
  let ?w = "w\<lparr>p_os := sample_posting\<rparr>"
  let ?sv = "sv_object ''FCGI'' (RequestAt 1)" and ?ob = "sv_object ''FCGI::Stream'' (StreamOf 1 ReqIn)"
  let ?rs = "[(5, 1, [72], [0]), (5, 1, [105, 33], []), (5, 1, [], [])] :: wrec list"
  have w': "perl_idle q ?w" "requests ?w 1 = Some q" "accepts (p_lib ?w) = [] @ Accepted 5 OtherFamily False # []" "p_os ?w = sample_posting"
    using w by (simp_all add: perl_idle_def handles_live_def tied_to_def tied_def)
  have v: "verdict_of (inet_addr (env sample_host)) (flags (requestPtr q) AND 1 \<noteq> 0) (webServerAddressList (p_glob ?w))
      (Accepted 5 OtherFamily False) = Result 5"
    using w(4,5) by (simp add: verdict_of_def)
  have a: "request_arg 1 ?sv" "SvROK ?ob" "sv_derived_from ?ob ''FCGI::Stream''" "rv_ptr ?ob = StreamOf 1 ReqIn"
    by (simp_all add: request_arg_def sv_object_def plain_sv_def)
  have rs: "stream_ok FCGI_STDIN 1 False ?rs" "well_behaved 1 ?rs" "own_content FCGI_STDIN 1 ?rs = [72, 105, 33]"
    by (simp_all add: rec_ok_def well_behaved_def own_content_def)
  have m: "has_memory sample_host" by (auto simp: has_memory_def sample_host_def)
  have b: "begins 1 sample_body [([65], [66])] sample_params (wire_all ?rs @ []) 5 (p_os ?w)"
    using sample_posting_begins by simp
  obtain w1 w2 where "XS_FCGI_Accept sample_host sample_cv [?sv] ?w = Inr (Gives [IV 0], w1)"
    "slurp sample_host sample_cv ?ob [2, 2, 2] [62] w1 = Inr (([62, 72, 105, 33], [[IV 2], [IV 1], [IV 0]]), w2)"
    using perl_reads [OF w'(1,2) a(1) w'(3) _ _ v _ b rs(1,2) a(2-4) m, of "[2, 2, 2]" "[62]" sample_cv sample_cv] unfolding rs(3) by auto
  then show ?thesis by blast
qed

section \<open>The objects\<close>

text \<open>C15: the typing of the objects. Whatever subroutines of the module a process calls, with whatever arguments and results, and
  whatever its script, the peers and the kernel do in between, every request object that exists is well-formed: a
  request in progress has its three stream objects aimed at a reader and two writers and has an environment; after
  that, every operation through a stream object still held dereferences a null stream.\<close>

theorem perl_objects:
  assumes "perl_reaches w0 w" "\<forall>p. requests w0 p = None" "requests w p = Some q"
  shows "length (gv q) = 3 \<and> (bound q \<longrightarrow> is_accepted q) \<and>
    (is_accepted q \<longrightarrow> object_iv (svin q) = Inr ReqIn \<and> object_iv (svout q) = Inr ReqOut \<and> object_iv (sverr q) = Inr ReqErr \<and>
      (\<forall>ref. \<exists>s. request_stream ref (requestPtr q) = Some s \<and> (isReader s \<longleftrightarrow> ref = ReqIn)) \<and> envp (requestPtr q) \<noteq> None) \<and>
    (\<not> is_accepted q \<longrightarrow> (\<forall>ref. request_stream ref (requestPtr q) = None \<and> with_stream (StreamOf p ref) f w = Inl NullDeref))"
proof -
  have "world_ok w" by (rule perl_reaches_ok [OF assms(1)]) (use assms(2) in \<open>simp add: world_ok_def\<close>)
  then have p: "proper q" using assms(3) by (simp add: world_ok_def)
  have in_progress: "object_iv (svin q) = Inr ReqIn \<and> object_iv (svout q) = Inr ReqOut \<and> object_iv (sverr q) = Inr ReqErr \<and>
      (\<forall>ref. \<exists>s. request_stream ref (requestPtr q) = Some s \<and> (isReader s \<longleftrightarrow> ref = ReqIn)) \<and> envp (requestPtr q) \<noteq> None"
    if a: "is_accepted q"
  proof -
    have ts: "typed_streams (requestPtr q)" "svout q \<noteq> None" using p a by (simp_all add: proper_def)
    then have s: "\<exists>s. request_stream ref (requestPtr q) = Some s \<and> (isReader s \<longleftrightarrow> ref = ReqIn)" for ref
      by (cases ref) (auto simp: typed_streams_def)
    have "object_iv (svin q) = Inr ReqIn \<and> object_iv (svout q) = Inr ReqOut \<and> object_iv (sverr q) = Inr ReqErr"
      using ts(2) p by (auto simp: proper_def object_iv_def)
    moreover have "envp (requestPtr q) \<noteq> None" using ts(1) unfolding typed_streams_def by blast
    ultimately show ?thesis using s by blast
  qed
  have over: "request_stream ref (requestPtr q) = None" if "\<not> is_accepted q" for ref
    using p that by (cases ref) (simp_all add: proper_def no_streams_def)
  then have "with_stream (StreamOf p ref) f w = Inl NullDeref" if "\<not> is_accepted q" for ref
    using that assms(3) by (simp add: with_stream_def with_request_def on_ref_def)
  then show ?thesis using p in_progress over by (simp add: proper_def)
qed

lemma perl_objects_witness:
  "\<exists>w q. perl_reaches perl_start w \<and> requests w 1 = Some q \<and> is_accepted q \<and> object_iv (svin q) = Inr ReqIn \<and>
    (\<exists>s. request_stream ReqIn (requestPtr q) = Some s \<and> isReader s)"
proof -
  obtain q w where w: "perl_reaches perl_start w" "requests w 1 = Some q" "perl_serving 1 (requestPtr q) (p_os w) [] [] q w"
    by (rule sample_in_progress)
  have z: "\<forall>p. requests perl_start p = None" by (simp add: perl_start_def)
  have "is_accepted q" using w(2,3) by (simp add: perl_serving_def perl_bound_def)
  then show ?thesis using w(1,2) perl_objects [OF w(1) z w(2)] by blast
qed

section \<open>Detaching\<close>

lemma Free_closes:
  assumes "\<not> asyncIoInUse l" "ipcFd r \<noteq> - 1" "descriptors l (ipcFd r) = Live"
  obtains r' l' os' where "FCGX_Free (Some r) True l os = Inr (Some r', l', os')" "ipcFd r' = - 1"
    "closed l' = closed l @ [ipcFd r]" "descriptors l' (ipcFd r) = NotOpen" "\<forall>x. sent (conns os' x) = sent (conns os x)"
proof -
  have c: "OS_IpcClose (ipcFd r) l os =
      Inr (0, l\<lparr>descriptors := (descriptors l)(ipcFd r := NotOpen), closed := closed l @ [ipcFd r]\<rparr>, drain (ipcFd r) os)"
    unfolding OS_IpcClose_def by (rule OS_Close_plain [OF assms])
  have "sent (conns (drain (ipcFd r) os) x) = sent (conns os x)" for x using drain_frame [of "ipcFd r" os] by (cases "x = ipcFd r") auto
  then show ?thesis using c that by (simp add: FCGX_Free_def Let_def)
qed

text \<open>C18: detaching. \<^verbatim>\<open>Detach\<close> gives a request's handles back to the script; \<^verbatim>\<open>Attach\<close> then restores the request as it was, nothing
  having been sent. \<^verbatim>\<open>Finish\<close> instead abandons it: the connection is closed and not a byte is sent on it, neither
  what the script had printed and was still in the buffers nor the end of the request.\<close>

theorem perl_detach:
  assumes "perl_bound q w" "requests w p = Some q" "request_arg p sv"
    and "ipcFd (requestPtr q) \<noteq> - 1" "descriptors (p_lib w) (ipcFd (requestPtr q)) = Live"
  shows "\<exists>w1 w2 w3 q3. XS_FCGI_Detach h cv [sv] w = Inr (Gives [], w1) \<and> tied_to q w1 [None, None, None] \<and>
    XS_FCGI_Attach h cv [sv] w1 = Inr (Gives [], w2) \<and> requests w2 p = Some q \<and> perl_bound q w2 \<and>
    p_os w2 = p_os w \<and> p_lib w2 = p_lib w \<and> hash_of (hvEnv q) w2 = hash_of (hvEnv q) w \<and>
    XS_FCGI_Finish h cv [sv] w1 = Inr (Gives [], w3) \<and> requests w3 p = Some q3 \<and> \<not> is_accepted q3 \<and>
    closed (p_lib w3) = closed (p_lib w) @ [ipcFd (requestPtr q)] \<and> (\<forall>x. sent (conns (p_os w3) x) = sent (conns (p_os w) x))"
proof -
  note b = assms(1) [unfolded perl_bound_def]
  have lv: "handles_live q w" "io_open q w" using b by simp_all
  let ?q = "q\<lparr>bound := False\<rparr>"
  obtain v1 where 1: "FCGI_UndoBinding q w = Inr (?q, v1)" "only_perl w v1" "io_open q v1" "tied_to q v1 [None, None, None]"
    "hash_of (hvEnv q) v1 = hash_of (hvEnv q) w" by (rule FCGI_UndoBinding_ok [OF lv])
  let ?w1 = "v1\<lparr>requests := (requests v1)(p := Some ?q)\<rparr>"
  have det: "XS_FCGI_Detach h cv [sv] w = Inr (Gives [], ?w1)"
    unfolding XS_FCGI_Detach_def using b 1(1) by (intro request_method_call [OF assms(3,2)]) simp
  have q1: "requests ?w1 p = Some ?q" by simp
  have t1: "tied_to q ?w1 [None, None, None]" "hash_of (hvEnv q) ?w1 = hash_of (hvEnv q) w"
    using 1(4,5) by (simp_all add: tied_to_def tied_def hash_of_def)
  have lv1: "handles_live ?q ?w1" "distinct (gv ?q)" "tied_to ?q ?w1 [None, None, None]"
    using b 1(2) t1(1) by (simp_all add: handles_live_def only_perl_def tied_to_def)
  obtain v2 where 2: "FCGI_Bind ?q ?w1 = Inr (?q\<lparr>bound := True\<rparr>, v2)" "only_perl ?w1 v2" "io_open ?q v2"
    "tied_to ?q v2 [svin ?q, svout ?q, sverr ?q]" "hash_of (hvEnv q) v2 = hash_of (hvEnv q) ?w1" by (rule FCGI_Bind_ok [OF lv1])
  have qq: "?q\<lparr>bound := True\<rparr> = q" using b by (cases q) simp
  let ?w2 = "v2\<lparr>requests := (requests v2)(p := Some q)\<rparr>"
  have att: "XS_FCGI_Attach h cv [sv] ?w1 = Inr (Gives [], ?w2)"
    unfolding XS_FCGI_Attach_def using b 2(1) qq by (intro request_method_call [OF assms(3) q1]) simp
  have b2: "perl_bound q ?w2"
    using b 1(2) 2(2,3,4)
    by (auto simp: perl_bound_def only_perl_def handles_live_def tied_to_def tied_def io_open_def proper_def)
  have f: "\<not> asyncIoInUse (p_lib ?w1)" "descriptors (p_lib ?w1) (ipcFd (requestPtr q)) = Live"
    using b assms(5) 1(2) by (simp_all add: only_perl_def)
  obtain r' l' os' where 3: "FCGX_Free (Some (requestPtr q)) True (p_lib ?w1) (p_os ?w1) = Inr (Some r', l', os')"
    "closed l' = closed (p_lib ?w1) @ [ipcFd (requestPtr q)]" "\<forall>x. sent (conns os' x) = sent (conns (p_os ?w1) x)"
    by (rule Free_closes [OF f(1) assms(4) f(2)])
  let ?q3 = "?q\<lparr>requestPtr := r', is_accepted := False\<rparr>" and ?v3 = "?w1\<lparr>p_lib := l', p_os := os'\<rparr>"
  have fin: "XS_FCGI_Finish h cv [sv] ?w1 = Inr (Gives [], ?v3\<lparr>requests := (requests ?v3)(p := Some ?q3)\<rparr>)"
    unfolding XS_FCGI_Finish_def using b 3(1) by (intro request_method_call [OF assms(3) q1]) (simp add: perl_Finish_def)
  show ?thesis
    by (rule exI [of _ ?w1], rule exI [of _ ?w2], rule exI [of _ "?v3\<lparr>requests := (requests ?v3)(p := Some ?q3)\<rparr>"], rule exI [of _ ?q3])
      (use det t1 att b2 fin 2(2,5) 3(2,3) 1(2) in \<open>simp add: only_perl_def hash_of_def\<close>)
qed

lemma perl_detach_witness:
  "\<exists>w w1 w3. XS_FCGI_Detach sample_host sample_cv [sv_object ''FCGI'' (RequestAt 1)] w = Inr (Gives [], w1) \<and>
    XS_FCGI_Finish sample_host sample_cv [sv_object ''FCGI'' (RequestAt 1)] w1 = Inr (Gives [], w3) \<and>
    sent (conns (p_os w3) 5) = sent (conns (p_os w) 5) \<and> closed (p_lib w3) = closed (p_lib w) @ [5]"
proof -
  obtain q w where w: "requests w 1 = Some q" "perl_serving 1 (requestPtr q) (p_os w) [] [] q w" "ipcFd (requestPtr q) = 5"
    "descriptors (p_lib w) 5 = Live" by (rule sample_in_progress)
  have a: "request_arg 1 (sv_object ''FCGI'' (RequestAt 1))" by (simp add: request_arg_def sv_object_def plain_sv_def)
  have "perl_bound q w" "ipcFd (requestPtr q) \<noteq> - 1" "descriptors (p_lib w) (ipcFd (requestPtr q)) = Live"
    using w by (simp_all add: perl_serving_def)
  from perl_detach [OF this(1) w(1) a this(2,3), of sample_host sample_cv] show ?thesis unfolding w(3) by blast
qed

section \<open>Writing a part of a buffer\<close>

lemma strlen_of_nonneg: "0 \<le> n \<Longrightarrow> n < 2 ^ 64 \<Longrightarrow> strlen_of n = n"
  and strlen_of_neg: "- (2 ^ 31) \<le> n \<Longrightarrow> n < 0 \<Longrightarrow> strlen_of n = n + 2 ^ 64"
proof -
  show "0 \<le> n \<Longrightarrow> n < 2 ^ 64 \<Longrightarrow> strlen_of n = n" by (simp add: strlen_of_def)
  assume "- (2 ^ 31) \<le> n" "n < 0"
  then have "(n + 2 ^ 64) mod 2 ^ 64 = n + 2 ^ 64" by (intro mod_pos_pos_trivial) simp_all
  then show "strlen_of n = n + 2 ^ 64" unfolding strlen_of_def by simp
qed

text \<open>The part of a buffer that \<^verbatim>\<open>WRITE\<close> writes is always inside of it; but a negative length, which Perl refuses, writes
  everything from the offset on.\<close>

lemma write_part_spec:
  assumes "int (length buf) < 2 ^ 31" "- (2 ^ 31) \<le> len" "len < 2 ^ 31" "- (2 ^ 31) \<le> offset" "offset < 2 ^ 31"
  shows "write_part buf len offset =
    (let off = if offset < 0 then offset + int (length buf) else offset in
     Inr (if off < 0 \<or> int (length buf) \<le> off then None
          else Some (if len < 0 then drop (nat off) buf else take (nat len) (drop (nat off) buf))))"
proof -
  define b where "b = int (length buf)"
  define off where "off = (if offset < 0 then offset + b else offset)"
  have b: "0 \<le> b" "b < 2 ^ 31" "int (length buf) = b" using assms(1) by (simp_all add: b_def)
  have off: "- (2 ^ 31) \<le> off" "off < 2 ^ 31" "(if offset < 0 then wrap32 (offset + b) else offset) = off"
    using assms(4,5) b by (simp_all add: off_def wrap32_id)
  show ?thesis
  proof (cases "off < 0 \<or> b \<le> off")
    case True
    have "strlen_of off = off" if "0 \<le> off" using that off(2) by (intro strlen_of_nonneg) simp_all
    then have "off < 0 \<or> b \<le> strlen_of off" using True by fastforce
    then show ?thesis
      unfolding write_part_def Let_def b(3) off(3) using True by (simp add: off_def)
  next
    case False
    have s: "strlen_of off = off" "strlen_of (b - off) = b - off" "wrap32 (b - off) = b - off"
      using False b off by (simp_all add: strlen_of_nonneg wrap32_id)
    have l: "(if strlen_of len > b - off then b - off else len) = (if len < 0 then b - off else min len (b - off))"
      using assms(2,3) False b strlen_of_neg [of len] strlen_of_nonneg [of len] by (auto simp: min_def)
    have "take (nat (if len < 0 then b - off else min len (b - off))) (drop (nat off) buf) =
        (if len < 0 then drop (nat off) buf else take (nat len) (drop (nat off) buf))"
      using False by (auto simp: b_def min_def nat_diff_distrib)
    moreover have "\<not> (if len < 0 then b - off else min len (b - off)) < 0" using False by (auto simp: min_def)
    ultimately show ?thesis
      unfolding write_part_def Let_def b(3) off(3) s l using False by (simp add: off_def [symmetric])
  qed
qed

section \<open>Destroying\<close>

definition dropped :: "FCGP_Request \<Rightarrow> process \<Rightarrow> process" where
  "dropped q w = dec_hv (hvEnv q) (dec_gv (gv q ! 2) (dec_gv (gv q ! 1) (dec_gv (gv q ! 0) w)))"

lemma dropped_simps:
  assumes "gv q = [a, b, c]" "distinct (gv q)"
  shows "gv_refcnt (interp (dropped q w)) g = gv_refcnt (interp w) g - (if g \<in> {a, b, c} then 1 else 0)"
    "hv_refcnt (interp (dropped q w)) v = hv_refcnt (interp w) v - (if v = hvEnv q then 1 else 0)"
    "GvIOp (interp (dropped q w)) = GvIOp (interp w)" "calls (interp (dropped q w)) = calls (interp w)"
    "p_glob (dropped q w) = p_glob w" "p_lib (dropped q w) = p_lib w" "p_os (dropped q w) = p_os w"
    "static_isCGI (dropped q w) = static_isCGI w" "requests (dropped q w) = requests w"
  using assms by (auto simp: dropped_def dec_gv_def dec_hv_def)

lemma undo_of_freed:
  assumes "gv q = [a, b, c]" "io_open q w" "\<exists>g \<in> {a, b, c}. gv_refcnt (interp w) g = 0"
  shows "FCGI_UndoBinding q w = Inl NullDeref"
  using assms by (auto simp: FCGI_UndoBinding_def unmagic_def handle_def io_open_def perl_does_def)

lemma bound_handles:
  assumes "perl_bound q w"
  obtains a b c where "gv q = [a, b, c]"
  using assms three [of "gv q"] by (simp add: perl_bound_def handles_live_def)

text \<open>C17: the end of an object whose request is in progress and bound, while the script still holds the hash. \<^verbatim>\<open>DESTROY\<close> releases the references to the handles before
  it unbinds them: when the script has none left to one of them, the handle that has just been freed is used. When it
  has, the request is finished: the web server finds all that was printed, the handles are untied, the object is gone.\<close>

theorem perl_destroy:
  assumes "perl_serving p r os0 d1 d2 q w" "inS r = Some i" "FCGX_GetError i = 0" "nWriters r = 2"
    "0 \<le> requestId r" "requestId r < 2 ^ 16" "0 \<le> ipcFd r" "descriptors (p_lib w) (ipcFd r) = Live"
    and "SvROK sv" "rv_ptr sv = RequestAt p"
  shows "((\<exists>g \<in> set (gv q). gv_refcnt (interp w) g = 1) \<longrightarrow> XS_FCGI_DESTROY h cv [sv] w = Inl NullDeref) \<and>
    ((\<forall>g \<in> set (gv q). 2 \<le> gv_refcnt (interp w) g) \<and> 2 \<le> hv_refcnt (interp w) (hvEnv q) \<longrightarrow>
      (\<exists>w' wire recs. XS_FCGI_DESTROY h cv [sv] w = Inr (Gives [], w') \<and> requests w' p = None \<and>
        tied_to q w' [None, None, None] \<and> sent (conns (p_os w') (ipcFd r)) = sent (conns os0 (ipcFd r)) @ wire \<and>
        parse_records wire = Some recs \<and> peer_finds r d1 d2 recs))"
proof -
  have q: "requests w p = Some q" "perl_bound q w" using assms(1) by (simp_all add: perl_serving_def)
  note b = q(2) [unfolded perl_bound_def]
  obtain a1 a2 a3 where g: "gv q = [a1, a2, a3]" by (rule bound_handles [OF q(2)])
  have d: "distinct (gv q)" using b by simp
  note dr = dropped_simps [OF g d]
  have rel: "FCGI_Release_Request q w = rbind (perl_Finish q (dropped q w)) (\<lambda>(_, w). Inr w)"
    by (simp add: FCGI_Release_Request_def dropped_def Let_def)
  have destroy: "XS_FCGI_DESTROY h cv [sv] w =
      rbind (rbind (perl_Finish q (dropped q w)) (\<lambda>(_, w). Inr w)) (\<lambda>w. Inr (Gives [], w\<lparr>requests := (requests w)(p := None)\<rparr>))"
    using assms(9,10) q(1) by (simp add: XS_FCGI_DESTROY_def rel)
  have freed: "XS_FCGI_DESTROY h cv [sv] w = Inl NullDeref" if "\<exists>g \<in> set (gv q). gv_refcnt (interp w) g = 1"
  proof -
    have "FCGI_UndoBinding q (dropped q w) = Inl NullDeref"
      by (rule undo_of_freed [OF g]) (use b that in \<open>auto simp: io_open_def dr g\<close>)
    then show ?thesis unfolding destroy using b by (simp add: perl_Finish_def Let_def)
  qed
  moreover have "\<exists>w' wire recs. XS_FCGI_DESTROY h cv [sv] w = Inr (Gives [], w') \<and> requests w' p = None \<and>
        tied_to q w' [None, None, None] \<and> sent (conns (p_os w') (ipcFd r)) = sent (conns os0 (ipcFd r)) @ wire \<and>
        parse_records wire = Some recs \<and> peer_finds r d1 d2 recs"
    if refs: "\<forall>g \<in> set (gv q). 2 \<le> gv_refcnt (interp w) g" "2 \<le> hv_refcnt (interp w) (hvEnv q)"
  proof -
    have pos: "\<forall>g \<in> set (gv q). 0 < gv_refcnt (interp (dropped q w)) g" "0 < hv_refcnt (interp (dropped q w)) (hvEnv q)"
      using refs by (auto simp: dr g)
    have "perl_bound q (dropped q w)"
      using b pos by (simp add: perl_bound_def handles_live_def tied_to_def tied_def io_open_def dr)
    then have ps: "perl_serving p r os0 d1 d2 q (dropped q w)" using assms(1) by (simp add: perl_serving_def dr)
    have l: "descriptors (p_lib (dropped q w)) (ipcFd r) = Live" using assms(8) by (simp add: dr)
    obtain q' v' wire recs where 1: "perl_Finish q (dropped q w) = Inr (q', v')"
      "sent (conns (p_os v') (ipcFd r)) = sent (conns os0 (ipcFd r)) @ wire"
      "parse_records wire = Some recs" "peer_finds r d1 d2 recs" "tied_to q v' [None, None, None]"
      by (rule perl_Finish_serving [OF ps assms(2-7) l])
    then show ?thesis
      by (intro exI [of _ "v'\<lparr>requests := (requests v')(p := None)\<rparr>"] exI [of _ wire] exI [of _ recs])
        (simp add: destroy tied_to_def tied_def)
  qed
  ultimately show ?thesis by blast
qed

lemma perl_destroy_witness:
  "\<exists>w w' w1 recs. XS_FCGI_DESTROY sample_host sample_cv [sv_object ''FCGI'' (RequestAt 1)] w = Inr (Gives [], w') \<and> requests w' 1 = None \<and>
    parse_records (drop (length (sent (conns (p_os w) 5))) (sent (conns (p_os w') 5))) = Some recs \<and>
    XS_FCGI_DESTROY sample_host sample_cv [sv_object ''FCGI'' (RequestAt 1)] w1 = Inl NullDeref"
proof -
  let ?sv = "sv_object ''FCGI'' (RequestAt 1)"
  obtain q w where w: "perl_serving 1 (requestPtr q) (p_os w) [] [] q w" "ipcFd (requestPtr q) = 5" "descriptors (p_lib w) 5 = Live"
    "accepted sample_env 1 sample_body [([65], [66])] [] (requestPtr q) (p_os w)" "\<forall>g \<in> set (gv q). gv_refcnt (interp w) g = 2"
    "hv_refcnt (interp w) (hvEnv q) = 2" by (rule sample_in_progress)
  obtain s where s: "inS (requestPtr q) = Some s" "FCGX_GetError s = 0" "nWriters (requestPtr q) = 2" "0 \<le> requestId (requestPtr q)"
    "requestId (requestPtr q) < 2 ^ 16" using w(4) by (auto simp: accepted_def at_start_def FCGX_GetError_def)
  have l: "0 \<le> ipcFd (requestPtr q)" "descriptors (p_lib w) (ipcFd (requestPtr q)) = Live" using w(2,3) by simp_all
  have sv: "SvROK ?sv" "rv_ptr ?sv = RequestAt 1" by (simp_all add: sv_object_def plain_sv_def)
  obtain w' recs wire where 1: "XS_FCGI_DESTROY sample_host sample_cv [?sv] w = Inr (Gives [], w')" "requests w' 1 = None"
    "sent (conns (p_os w') 5) = sent (conns (p_os w) 5) @ wire" "parse_records wire = Some recs"
    using perl_destroy [OF w(1) s l sv, of sample_host sample_cv] w(2,5,6) by auto
  let ?w1 = "w\<lparr>interp := (interp w)\<lparr>gv_refcnt := (\<lambda>_. 1)\<rparr>\<rparr>"
  have "perl_serving 1 (requestPtr q) (p_os ?w1) [] [] q ?w1"
    using w(1) by (simp add: perl_serving_def perl_bound_def handles_live_def tied_to_def tied_def io_open_def)
  moreover obtain a b c where "gv q = [a, b, c]" using bound_handles w(1) unfolding perl_serving_def by blast
  ultimately have "XS_FCGI_DESTROY sample_host sample_cv [?sv] ?w1 = Inl NullDeref"
    using perl_destroy [of 1 "requestPtr q" "p_os ?w1" "[]" "[]" q ?w1, OF _ s l(1) _ sv, of sample_host sample_cv] l(2) by auto
  then show ?thesis
    using 1 by (intro exI [of _ w] exI [of _ w'] exI [of _ ?w1] exI [of _ recs]) simp
qed

end
